(* ===== verification/Prelude.thy ===== *)
theory Prelude
  imports Main "HOL-Library.Word"
begin

text \<open>
  What the component theories share: the byte and string types of the C++ code and
  the conversions between them, IEEE 754 binary32 values as their bit patterns, the
  \<open>std::deque\<close> idioms (a bounded push, dropping from the front), fallible loops over
  a list, and the interface of a component as a state machine with an invariant
  (locale \<open>invariant_machine\<close>), which every stateful component interprets.
\<close>

unbundle bit_operations_syntax

named_theorems wire_simps "rewriting of the wire format's reads over its writes"
named_theorems step_defs "the operations a component's step function dispatches to"

type_synonym byte = "8 word"
type_synonym u8 = "8 word"
type_synonym u16 = "16 word"
type_synonym u32 = "32 word"
type_synonym u64 = "64 word"

section \<open>Characters as bytes\<close>

text \<open>
  A \<open>std::string\<close> is a sequence of bytes; here it is a \<open>string\<close>, whose characters are
  the 256 byte values.
\<close>

definition byte_of_char :: "char \<Rightarrow> byte" where
  "byte_of_char c = word_of_nat (of_char c)"

definition char_of_byte :: "byte \<Rightarrow> char" where
  "char_of_byte b = char_of (unat b)"

lemma of_char_less_256: "(of_char c :: nat) < 256"
  by (metis char_of_quasi_inj of_char_of mod_less_divisor zero_less_numeral of_char_mod_256)

lemma char_of_byte_of_char [simp]: "char_of_byte (byte_of_char c) = c"
  by (simp add: char_of_byte_def byte_of_char_def unat_of_nat)

lemma byte_of_char_of_byte [simp]: "byte_of_char (char_of_byte b) = b"
proof -
  have "unat b < 256" using unsigned_less [of b] by simp
  then show ?thesis
    by (simp add: char_of_byte_def byte_of_char_def)
qed

lemma map_char_of_byte_of_char [simp]: "map char_of_byte (map byte_of_char s) = s"
  by (simp add: comp_def)

lemma map_byte_of_char_of_byte [simp]: "map byte_of_char (map char_of_byte bs) = bs"
  by (simp add: comp_def)

lemma char_of_byte_comp [simp]: "char_of_byte \<circ> byte_of_char = id"
  by (simp add: fun_eq_iff)

lemma byte_of_char_comp [simp]: "byte_of_char \<circ> char_of_byte = id"
  by (simp add: fun_eq_iff)

text \<open>\<open>std::format\<close> of an unsigned integer: its decimal digits.\<close>

fun decimal :: "nat \<Rightarrow> string" where
  "decimal n = (if n < 10 then [char_of (48 + n)] else decimal (n div 10) @ [char_of (48 + n mod 10)])"

declare decimal.simps [simp del]

section \<open>Fallible loops\<close>

text \<open>
  A range-for loop whose body may return an error early: the first error ends it.
\<close>

primrec for_each :: "('a \<Rightarrow> 's \<Rightarrow> 'e + 's) \<Rightarrow> 'a list \<Rightarrow> 's \<Rightarrow> 'e + 's" where
  "for_each body [] s = Inr s"
| "for_each body (x # xs) s =
     (case body x s of Inl e \<Rightarrow> Inl e | Inr s' \<Rightarrow> for_each body xs s')"

lemma for_each_append:
  "for_each body (xs @ ys) s =
     (case for_each body xs s of Inl e \<Rightarrow> Inl e | Inr s' \<Rightarrow> for_each body ys s')"
  by (induction xs arbitrary: s) (auto split: sum.splits)

lemma for_each_all_ok:
  assumes "\<And>x s. x \<in> set xs \<Longrightarrow> body x s = Inr (f s x)"
  shows "for_each body xs s = Inr (foldl f s xs)"
  using assms by (induction xs arbitrary: s) auto

lemma for_each_inv:
  assumes "for_each body xs s = Inr s'" and "P s"
    and "\<And>x s s'. P s \<Longrightarrow> body x s = Inr s' \<Longrightarrow> P s'"
  shows "P s'"
  using assms(1,2)
proof (induction xs arbitrary: s)
  case Nil
  then show ?case by simp
next
  case (Cons x xs)
  then show ?case by (auto split: sum.splits intro: assms(3))
qed

lemma for_each_write:
  assumes "\<And>x s. body x s = (if ok x then Inr (s @ enc x) else Inl e)"
  shows "for_each body xs s = (if list_all ok xs then Inr (s @ concat (map enc xs)) else Inl e)"
  by (induction xs arbitrary: s) (simp_all add: assms)

lemma foldl_append_concat:
  assumes "\<And>s x. f s x = s @ g x"
  shows "foldl f s xs = s @ concat (map g xs)"
  by (induction xs arbitrary: s) (simp_all add: assms)

section \<open>Bounded queues\<close>

text \<open>
  The code's bounded \<open>std::deque\<close>: push at the back, and pop the front when the size
  then passes the limit.
\<close>

definition push_bounded :: "nat \<Rightarrow> 'a list \<Rightarrow> 'a \<Rightarrow> 'a list" where
  "push_bounded limit q x =
     (let q' = q @ [x] in if limit < length q' then tl q' else q')"

lemma length_push_bounded:
  "length q \<le> limit \<Longrightarrow> length (push_bounded limit q x) \<le> limit"
  by (simp add: push_bounded_def Let_def)

lemma push_bounded_suffix:
  "length q \<le> limit \<Longrightarrow>
   push_bounded limit q x = drop (length q + 1 - limit) (q @ [x])"
  by (cases q; cases "length q = limit") (auto simp: push_bounded_def Let_def)

lemma set_push_bounded: "set (push_bounded limit q x) \<subseteq> insert x (set q)"
  by (cases q) (auto simp: push_bounded_def Let_def split: if_splits)

lemma push_bounded_last: "0 < limit \<Longrightarrow> last (push_bounded limit q x) = x"
  by (cases q) (auto simp: push_bounded_def Let_def)

lemma sorted_wrt_push_bounded:
  "sorted_wrt P (q @ [x]) \<Longrightarrow> sorted_wrt P (push_bounded limit q x)"
  by (cases q) (auto simp: push_bounded_def Let_def)

lemma dropWhile_all: "\<forall>x \<in> set xs. P x \<Longrightarrow> dropWhile P xs = []"
  by (induction xs) auto

lemma dropWhile_filter_sorted:
  assumes "sorted_wrt (\<lambda>x y. key x \<le> key y) xs"
  shows "dropWhile (\<lambda>x. key x < (k :: 'a :: linorder)) xs = filter (\<lambda>x. k \<le> key x) xs"
  using assms
proof (induction xs)
  case Nil
  then show ?case by simp
next
  case (Cons x xs)
  show ?case
  proof (cases "key x < k")
    case True
    with Cons show ?thesis by simp
  next
    case False
    with Cons.prems have "\<forall>y \<in> set xs. k \<le> key y" by fastforce
    then have "filter (\<lambda>y. k \<le> key y) xs = xs" by (rule filter_True)
    with False show ?thesis by simp
  qed
qed

lemma takeWhile_filter_sorted:
  assumes "sorted_wrt (\<lambda>x y. key x \<le> key y) xs" and "\<forall>x \<in> set xs. k \<le> key x"
  shows "takeWhile (\<lambda>x. key x = (k :: 'a :: linorder)) xs = filter (\<lambda>x. key x = k) xs"
  using assms
proof (induction xs)
  case Nil
  then show ?case by simp
next
  case (Cons x xs)
  show ?case
  proof (cases "key x = k")
    case True
    with Cons show ?thesis by simp
  next
    case False
    with Cons.prems have "\<forall>y \<in> set xs. key y \<noteq> k" by fastforce
    with False show ?thesis by (simp add: filter_empty_conv)
  qed
qed

section \<open>IEEE 754 binary32 values\<close>

text \<open>
  A \<open>float\<close> is kept as its 32 bits. The code's comparisons and \<open>std::isfinite\<close>
  are exact on the bits: the exponent field tells an infinity or a NaN, and two values
  that are no NaN compare as their sign-magnitude keys (so \<open>-0.0\<close> equals \<open>0.0\<close>).
\<close>

type_synonym f32 = "32 word"

definition f32_exponent :: "f32 \<Rightarrow> u32" where
  "f32_exponent w = drop_bit 23 w AND 0xFF"

definition f32_magnitude :: "f32 \<Rightarrow> u32" where
  "f32_magnitude w = w AND 0x7FFFFFFF"

definition f32_isfinite :: "f32 \<Rightarrow> bool" where
  "f32_isfinite w \<longleftrightarrow> f32_exponent w \<noteq> 0xFF"

definition f32_isnan :: "f32 \<Rightarrow> bool" where
  "f32_isnan w \<longleftrightarrow> 0x7F800000 < f32_magnitude w"

definition f32_key :: "f32 \<Rightarrow> int" where
  "f32_key w = (if bit w 31 then - uint (f32_magnitude w) else uint (f32_magnitude w))"

definition f32_le :: "f32 \<Rightarrow> f32 \<Rightarrow> bool" where
  "f32_le a b \<longleftrightarrow> \<not> f32_isnan a \<and> \<not> f32_isnan b \<and> f32_key a \<le> f32_key b"

definition f32_less :: "f32 \<Rightarrow> f32 \<Rightarrow> bool" where
  "f32_less a b \<longleftrightarrow> \<not> f32_isnan a \<and> \<not> f32_isnan b \<and> f32_key a < f32_key b"

definition f32_abs :: "f32 \<Rightarrow> f32" where
  "f32_abs w = f32_magnitude w"

section \<open>State machines with an invariant\<close>

text \<open>
  A stateful component: an initial state, a step on each event, and the invariant
  its operations keep. What holds of every run is proved once here.
\<close>

definition run :: "('s \<Rightarrow> 'e \<Rightarrow> 's) \<Rightarrow> 's \<Rightarrow> 'e list \<Rightarrow> 's" where
  "run step s es = foldl step s es"

lemma run_Nil [simp]: "run step s [] = s"
  by (simp add: run_def)

lemma run_Cons [simp]: "run step s (e # es) = run step (step s e) es"
  by (simp add: run_def)

lemma run_append [simp]: "run step s (es @ fs) = run step (run step s es) fs"
  by (simp add: run_def)

locale invariant_machine =
  fixes init :: "'s"
    and step :: "'s \<Rightarrow> 'e \<Rightarrow> 's"
    and inv :: "'s \<Rightarrow> bool"
  assumes inv_init: "inv init"
    and inv_step: "inv s \<Longrightarrow> inv (step s e)"
begin

lemma inv_run_from: "inv s \<Longrightarrow> inv (run step s es)"
  by (induction es arbitrary: s) (auto intro: inv_step)

lemma inv_run: "inv (run step init es)"
  by (rule inv_run_from) (rule inv_init)

end

text \<open>A machine whose steps never lower a measure of its state, such as a version.\<close>

locale monotone_machine = invariant_machine +
  fixes level :: "'s \<Rightarrow> 'v :: preorder"
  assumes level_step: "inv s \<Longrightarrow> level s \<le> level (step s e)"
begin

lemma level_run_from: "inv s \<Longrightarrow> level s \<le> level (run step s es)"
proof (induction es arbitrary: s)
  case Nil
  then show ?case by simp
next
  case (Cons e es)
  then have "level s \<le> level (step s e)" by (rule_tac level_step)
  also have "\<dots> \<le> level (run step (step s e) es)"
    using Cons by (simp add: inv_step)
  finally show ?case by simp
qed

end

end
