(* ===== verification/Wire_Format.thy ===== *)
theory Wire_Format
  imports Prelude
begin

text \<open>
  The byte-level primitives of the pack format (\<open>src/modules/assets/wire_format.h\<close>):
  the limits, the writer, the reader, and what each read makes of the matching write.

  \<open>ByteWriter\<close> holds a reference to the buffer it appends to; each of its operations is a
  function from the buffer to the buffer, \<open>WriteString\<close> with its verdict. \<open>ByteReader\<close> is
  the record \<open>byte_reader\<close> of its span and position, and \<open>ReadBytes\<close> and \<open>ReadRest\<close>, the
  only two of its operations that touch them, are refined to operations on the bytes
  not read yet (\<open>unread\<close>), with which every decoder is written.
\<close>

section \<open>Limits\<close>

definition kBitsPerByte :: nat where "kBitsPerByte = 8"
definition kByteMask :: nat where "kByteMask = 0xFF"

definition kMaxPathLength :: nat where "kMaxPathLength = 4096"
definition kMaxMeshPoints :: nat where "kMaxMeshPoints = 16000000"
definition kMaxMeshIndices :: nat where "kMaxMeshIndices = 48000000"
definition kMaxSceneNodes :: nat where "kMaxSceneNodes = 1000000"
definition kMaxProperties :: nat where "kMaxProperties = 256"
definition kMaxTextureBytes :: nat where "kMaxTextureBytes = 256 * 1024 * 1024"
definition kMaxScriptBytes :: nat where "kMaxScriptBytes = 1 * 1024 * 1024"
definition kMaxAudioBytes :: nat where "kMaxAudioBytes = 64 * 1024 * 1024"
definition kMaxCueVariants :: nat where "kMaxCueVariants = 255"
definition kMaxArchiveBytes :: nat where "kMaxArchiveBytes = 64 * 1024 * 1024"
definition kMaxFootContacts :: nat where "kMaxFootContacts = 255"

lemmas wire_limits =
  kMaxPathLength_def kMaxMeshPoints_def kMaxMeshIndices_def kMaxSceneNodes_def
  kMaxProperties_def kMaxTextureBytes_def kMaxScriptBytes_def kMaxAudioBytes_def
  kMaxCueVariants_def kMaxArchiveBytes_def kMaxFootContacts_def

text \<open>\<open>meters >= 0.0F\<close>, \<open>ratio <= 1.0F\<close> and \<open>seconds > 0.0F\<close> on the bits; \<open>0x3F800000\<close> is 1.0.\<close>

definition IsValidStrideLength :: "f32 \<Rightarrow> bool" where
  "IsValidStrideLength meters \<longleftrightarrow> f32_isfinite meters \<and> f32_le 0 meters"

definition IsValidFootContactRatio :: "f32 \<Rightarrow> bool" where
  "IsValidFootContactRatio ratio \<longleftrightarrow>
     f32_isfinite ratio \<and> f32_le 0 ratio \<and> f32_le ratio 0x3F800000"

definition IsValidTransitionDuration :: "f32 \<Rightarrow> bool" where
  "IsValidTransitionDuration seconds \<longleftrightarrow> f32_isfinite seconds \<and> f32_less 0 seconds"

definition kPcmBitsPerSample :: "u8 list" where
  "kPcmBitsPerSample = [8, 16, 24, 32]"

definition kNodeHasMesh :: u8 where "kNodeHasMesh = push_bit 0 1"
definition kNodeHasMaterial :: u8 where "kNodeHasMaterial = push_bit 1 1"
definition kNodeHasCollider :: u8 where "kNodeHasCollider = push_bit 2 1"
definition kNodeHasHitbox :: u8 where "kNodeHasHitbox = push_bit 3 1"
definition kNodeIsSpawnPoint :: u8 where "kNodeIsSpawnPoint = push_bit 4 1"

lemmas node_flags =
  kNodeHasMesh_def kNodeHasMaterial_def kNodeHasCollider_def kNodeHasHitbox_def
  kNodeIsSpawnPoint_def

section \<open>Vectors and rotations\<close>

text \<open>\<open>math::Vec3\<close> and \<open>math::Quat\<close> (\<open>augusta/math.h\<close>), component for component.\<close>

record vec3 =
  vx :: f32
  vy :: f32
  vz :: f32

record quat =
  qw :: f32
  qx :: f32
  qy :: f32
  qz :: f32

section \<open>Little-endian integers\<close>

text \<open>
  The loops of \<open>WriteU32\<close>/\<open>WriteU64\<close> and of \<open>ReadU32\<close>/\<open>ReadU64\<close>, for an integer of \<open>n\<close>
  bytes: byte \<open>i\<close> is \<open>(value >> (kBitsPerByte * i)) & kByteMask\<close>, and it is or-ed back in
  shifted the other way.
\<close>

definition le_bytes :: "nat \<Rightarrow> 'a :: len word \<Rightarrow> byte list" where
  "le_bytes n value =
     map (\<lambda>i. ucast (drop_bit (kBitsPerByte * i) value AND word_of_nat kByteMask)) [0..<n]"

definition le_value :: "byte list \<Rightarrow> 'a :: len word" where
  "le_value bytes =
     foldl (\<lambda>value i. value OR push_bit (kBitsPerByte * i) (ucast (bytes ! i))) 0
       [0..<length bytes]"

lemma length_le_bytes [simp]: "length (le_bytes n w) = n"
  by (simp add: le_bytes_def)

lemma bit_byte_mask [simp]: "bit (255 :: int) k \<longleftrightarrow> k < 8"
proof -
  have mask: "(255 :: int) = mask 8" by (simp add: mask_eq_exp_minus_1)
  show ?thesis unfolding mask bit_mask_iff by simp
qed

lemma bit_le_bytes_nth:
  assumes "i < n"
  shows "bit (le_bytes n (w :: 'a :: len word) ! i) k \<longleftrightarrow> k < 8 \<and> bit w (8 * i + k)"
proof -
  have "le_bytes n w ! i = ucast (drop_bit (8 * i) w AND 255)"
    using assms by (simp add: le_bytes_def kBitsPerByte_def kByteMask_def del: unsigned_and_eq)
  moreover have "k < LENGTH('a)" if "bit w (8 * i + k)"
    using bit_imp_le_length [OF that] by simp
  ultimately show ?thesis
    by (simp add: bit_unsigned_iff bit_and_iff bit_drop_bit_eq del: unsigned_and_eq) auto
qed

lemma bit_fold_or:
  fixes z :: "'a :: len word"
  shows "bit (foldl (\<lambda>v i. v OR push_bit (8 * i) (ucast (bs ! i :: byte))) z is) k \<longleftrightarrow>
   bit z k \<or> (\<exists>i \<in> set is. k < LENGTH('a) \<and> 8 * i \<le> k \<and> bit (bs ! i) (k - 8 * i))"
proof (induction "is" arbitrary: z)
  case Nil
  then show ?case by simp
next
  case (Cons i "is")
  then show ?case
    by (auto simp: bit_or_iff bit_push_bit_iff bit_unsigned_iff)
qed

lemma bit_le_value:
  "bit (le_value bs :: 'a :: len word) k \<longleftrightarrow>
   k < LENGTH('a) \<and> k div 8 < length bs \<and> bit (bs ! (k div 8)) (k mod 8)"
proof -
  have split: "i = k div 8 \<and> k - 8 * i = k mod 8" if le: "8 * i \<le> k" and set: "bit (bs ! i) (k - 8 * i)" for i
  proof -
    have "k - 8 * i < 8" using bit_imp_le_length [OF set] by simp
    with le have "k div 8 = i" by (intro div_nat_eqI) auto
    then show ?thesis using minus_mult_div_eq_mod [of k 8] by simp
  qed
  have div: "8 * (k div 8) \<le> k" and mod: "k - 8 * (k div 8) = k mod 8"
    by (simp_all add: minus_mult_div_eq_mod)
  have "bit (le_value bs :: 'a word) k \<longleftrightarrow>
      (\<exists>i \<in> {0..<length bs}. k < LENGTH('a) \<and> 8 * i \<le> k \<and> bit (bs ! i) (k - 8 * i))"
    by (simp add: le_value_def kBitsPerByte_def bit_fold_or)
  also have "\<dots> \<longleftrightarrow> k < LENGTH('a) \<and> k div 8 < length bs \<and> bit (bs ! (k div 8)) (k mod 8)"
    using split div unfolding mod [symmetric] by (metis atLeastLessThan_iff zero_le)
  finally show ?thesis .
qed

lemma le_value_le_bytes:
  assumes "LENGTH('a) = 8 * n"
  shows "le_value (le_bytes n w) = (w :: 'a :: len word)"
proof (rule bit_word_eqI)
  fix k
  assume "k < LENGTH('a)"
  with assms have "k div 8 < n" by auto
  then show "bit (le_value (le_bytes n w) :: 'a word) k \<longleftrightarrow> bit w k"
    using \<open>k < LENGTH('a)\<close> by (simp add: bit_le_value bit_le_bytes_nth)
qed

lemma le_bytes_le_value:
  assumes "LENGTH('a) = 8 * length bs"
  shows "le_bytes (length bs) (le_value bs :: 'a :: len word) = bs"
proof (rule nth_equalityI)
  show "length (le_bytes (length bs) (le_value bs :: 'a word)) = length bs" by simp
next
  fix i
  assume "i < length (le_bytes (length bs) (le_value bs :: 'a word))"
  then have i: "i < length bs" by simp
  show "le_bytes (length bs) (le_value bs :: 'a word) ! i = bs ! i"
  proof (rule bit_word_eqI)
    fix k
    assume "k < LENGTH(8)"
    then show "bit (le_bytes (length bs) (le_value bs :: 'a word) ! i) k \<longleftrightarrow> bit (bs ! i) k"
      using i assms by (simp add: bit_le_bytes_nth bit_le_value)
  qed
qed

lemma le_value_4: "le_value (le_bytes 4 w) = (w :: u32)"
  by (rule le_value_le_bytes) simp

lemma le_value_8: "le_value (le_bytes 8 w) = (w :: u64)"
  by (rule le_value_le_bytes) simp

section \<open>ByteWriter\<close>

definition WriteU8 :: "byte list \<Rightarrow> u8 \<Rightarrow> byte list" where
  "WriteU8 data value = data @ [value]"

definition WriteU32 :: "byte list \<Rightarrow> u32 \<Rightarrow> byte list" where
  "WriteU32 data value = data @ le_bytes 4 value"

definition WriteU64 :: "byte list \<Rightarrow> u64 \<Rightarrow> byte list" where
  "WriteU64 data value = data @ le_bytes 8 value"

definition WriteF32 :: "byte list \<Rightarrow> f32 \<Rightarrow> byte list" where
  "WriteF32 data value = (let bits = value in WriteU32 data bits)"

definition WriteChars :: "byte list \<Rightarrow> string \<Rightarrow> byte list" where
  "WriteChars data chars = foldl (\<lambda>data chr. data @ [byte_of_char chr]) data chars"

definition WriteBytes :: "byte list \<Rightarrow> byte list \<Rightarrow> byte list" where
  "WriteBytes data bytes = data @ bytes"

definition WriteVec3 :: "byte list \<Rightarrow> vec3 \<Rightarrow> byte list" where
  "WriteVec3 data value =
     WriteF32 (WriteF32 (WriteF32 data (vx value)) (vy value)) (vz value)"

definition WriteQuat :: "byte list \<Rightarrow> quat \<Rightarrow> byte list" where
  "WriteQuat data value =
     WriteF32 (WriteF32 (WriteF32 (WriteF32 data (qx value)) (qy value)) (qz value)) (qw value)"

definition WriteString :: "byte list \<Rightarrow> string \<Rightarrow> bool \<times> byte list" where
  "WriteString data str =
     (if length str > kMaxPathLength then (False, data)
      else (True, WriteChars (WriteU32 data (word_of_nat (length str))) str))"

definition WriteOptionalPath :: "byte list \<Rightarrow> string option \<Rightarrow> bool \<times> byte list" where
  "WriteOptionalPath data path =
     (case path of None \<Rightarrow> (True, data) | Some p \<Rightarrow> WriteString data p)"

section \<open>What each write appends\<close>

definition string_bytes :: "string \<Rightarrow> byte list" where
  "string_bytes s = le_bytes 4 (word_of_nat (length s) :: u32) @ map byte_of_char s"

definition vec3_bytes :: "vec3 \<Rightarrow> byte list" where
  "vec3_bytes v = le_bytes 4 (vx v) @ le_bytes 4 (vy v) @ le_bytes 4 (vz v)"

definition quat_bytes :: "quat \<Rightarrow> byte list" where
  "quat_bytes q = le_bytes 4 (qx q) @ le_bytes 4 (qy q) @ le_bytes 4 (qz q) @ le_bytes 4 (qw q)"

definition path_bytes :: "string option \<Rightarrow> byte list" where
  "path_bytes p = (case p of None \<Rightarrow> [] | Some s \<Rightarrow> string_bytes s)"

definition short_string :: "string \<Rightarrow> bool" where
  "short_string s \<longleftrightarrow> length s \<le> kMaxPathLength"

lemma WriteChars_eq: "WriteChars data s = data @ map byte_of_char s"
proof -
  have "WriteChars data s = data @ concat (map (\<lambda>c. [byte_of_char c]) s)"
    unfolding WriteChars_def by (rule foldl_append_concat) simp
  then show ?thesis by (simp add: concat_map_singleton)
qed

lemma WriteString_eq:
  "WriteString data s = (if short_string s then (True, data @ string_bytes s) else (False, data))"
  by (auto simp: WriteString_def WriteChars_eq WriteU32_def string_bytes_def short_string_def)

lemma WriteOptionalPath_eq:
  "WriteOptionalPath data p =
     (if pred_option short_string p then (True, data @ path_bytes p) else (False, data))"
  by (cases p) (simp_all add: WriteOptionalPath_def WriteString_eq path_bytes_def)

lemma WriteVec3_eq: "WriteVec3 data v = data @ vec3_bytes v"
  by (simp add: WriteVec3_def WriteF32_def WriteU32_def vec3_bytes_def)

lemma WriteQuat_eq: "WriteQuat data q = data @ quat_bytes q"
  by (simp add: WriteQuat_def WriteF32_def WriteU32_def quat_bytes_def)

lemmas write_eqs =
  WriteU8_def WriteU32_def WriteU64_def WriteF32_def WriteChars_eq WriteBytes_def
  WriteVec3_eq WriteQuat_eq WriteString_eq WriteOptionalPath_eq Let_def

section \<open>ByteReader\<close>

text \<open>
  The class: its span and its position. Sizes are \<open>size_t\<close>, so
  \<open>data_.size() - pos_\<close> is computed modulo \<open>2 ^ 64\<close>.
\<close>

record byte_reader =
  br_data :: "byte list"
  br_pos :: nat

definition ByteReader :: "byte list \<Rightarrow> byte_reader" where
  "ByteReader data = \<lparr>br_data = data, br_pos = 0\<rparr>"

definition ByteReader_ReadBytes ::
  "byte_reader \<Rightarrow> nat \<Rightarrow> byte list option \<times> byte_reader" where
  "ByteReader_ReadBytes r count =
     (if (word_of_nat count :: u64) > word_of_nat (length (br_data r)) - word_of_nat (br_pos r)
      then (None, r)
      else let result = take count (drop (br_pos r) (br_data r))
           in (Some result, r\<lparr>br_pos := br_pos r + count\<rparr>))"

definition ByteReader_ReadRest :: "byte_reader \<Rightarrow> byte list \<times> byte_reader" where
  "ByteReader_ReadRest r =
     (let result = drop (br_pos r) (br_data r)
      in (result, r\<lparr>br_pos := length (br_data r)\<rparr>))"

text \<open>The position never passes the span's end, and a span fits the address space.\<close>

definition reader_inv :: "byte_reader \<Rightarrow> bool" where
  "reader_inv r \<longleftrightarrow> br_pos r \<le> length (br_data r) \<and> length (br_data r) < 2 ^ 64"

definition unread :: "byte_reader \<Rightarrow> byte list" where
  "unread r = drop (br_pos r) (br_data r)"

text \<open>The same operations on the bytes not read yet: what the decoders are built from.\<close>

type_synonym reader = "byte list"

definition ReadBytes :: "reader \<Rightarrow> nat \<Rightarrow> byte list option \<times> reader" where
  "ReadBytes r count = (if count > length r then (None, r) else (Some (take count r), drop count r))"

definition ReadRest :: "reader \<Rightarrow> byte list \<times> reader" where
  "ReadRest r = (r, [])"

definition ReadU8 :: "reader \<Rightarrow> u8 option \<times> reader" where
  "ReadU8 r = (case ReadBytes r 1 of (None, r) \<Rightarrow> (None, r) | (Some bytes, r) \<Rightarrow> (Some (bytes ! 0), r))"

definition ReadU32 :: "reader \<Rightarrow> u32 option \<times> reader" where
  "ReadU32 r = (case ReadBytes r 4 of (None, r) \<Rightarrow> (None, r) | (Some bytes, r) \<Rightarrow> (Some (le_value bytes), r))"

definition ReadU64 :: "reader \<Rightarrow> u64 option \<times> reader" where
  "ReadU64 r = (case ReadBytes r 8 of (None, r) \<Rightarrow> (None, r) | (Some bytes, r) \<Rightarrow> (Some (le_value bytes), r))"

definition ReadF32 :: "reader \<Rightarrow> f32 option \<times> reader" where
  "ReadF32 r = (case ReadU32 r of (None, r) \<Rightarrow> (None, r) | (Some raw, r) \<Rightarrow> (Some raw, r))"

definition ReadString :: "reader \<Rightarrow> string option \<times> reader" where
  "ReadString r =
     (case ReadU32 r of
        (None, r) \<Rightarrow> (None, r)
      | (Some n, r) \<Rightarrow>
          if unat n > kMaxPathLength then (None, r)
          else case ReadBytes r (unat n) of
                 (None, r) \<Rightarrow> (None, r)
               | (Some bytes, r) \<Rightarrow> (Some (map char_of_byte bytes), r))"

section \<open>Refinement of the class\<close>

lemma unat_of_nat_u64: "n < 2 ^ 64 \<Longrightarrow> unat (word_of_nat n :: u64) = n"
  by (simp add: unat_of_nat)

lemma unread_length_u64:
  assumes "reader_inv r"
  shows "unat (word_of_nat (length (br_data r)) - word_of_nat (br_pos r) :: u64) = length (unread r)"
proof -
  let ?n = "length (br_data r)" and ?p = "br_pos r"
  have le: "?p \<le> ?n" and fits: "?n < 2 ^ 64" using assms by (auto simp: reader_inv_def)
  have eq: "(word_of_nat ?n - word_of_nat ?p :: u64) = word_of_nat (?n - ?p)"
    using le by simp
  have "unat (word_of_nat (?n - ?p) :: u64) = ?n - ?p"
    using fits by (intro unat_of_nat_u64) simp
  then show ?thesis unfolding eq by (simp add: unread_def)
qed

lemma ByteReader_ReadBytes_refines:
  assumes "reader_inv r" and "count < 2 ^ 64"
  shows "case ByteReader_ReadBytes r count of (result, r') \<Rightarrow>
           reader_inv r' \<and> br_data r' = br_data r \<and> (result, unread r') = ReadBytes (unread r) count"
proof -
  have "(word_of_nat count :: u64) > word_of_nat (length (br_data r)) - word_of_nat (br_pos r)
      \<longleftrightarrow> count > length (unread r)"
    using assms by (simp add: word_less_nat_alt unread_length_u64 unat_of_nat_u64)
  then show ?thesis using assms
    by (auto simp: ByteReader_ReadBytes_def ReadBytes_def unread_def reader_inv_def Let_def add.commute)
qed

lemma ByteReader_ReadRest_refines:
  assumes "reader_inv r"
  shows "case ByteReader_ReadRest r of (result, r') \<Rightarrow>
           reader_inv r' \<and> br_data r' = br_data r \<and> (result, unread r') = ReadRest (unread r)"
  using assms by (auto simp: ByteReader_ReadRest_def ReadRest_def unread_def reader_inv_def Let_def)

section \<open>Reading what was written\<close>

lemma ReadBytes_append [wire_simps]:
  "length bs = n \<Longrightarrow> ReadBytes (bs @ rest) n = (Some bs, rest)"
  by (simp add: ReadBytes_def)

lemma ReadU8_Cons [wire_simps]: "ReadU8 (b # rest) = (Some b, rest)"
  by (simp add: ReadU8_def ReadBytes_def)

lemma ReadU8_Nil [wire_simps]: "ReadU8 [] = (None, [])"
  by (simp add: ReadU8_def ReadBytes_def)

lemma ReadU32_bytes [wire_simps]: "ReadU32 (le_bytes 4 v @ rest) = (Some v, rest)"
  by (simp add: ReadU32_def ReadBytes_append le_value_4)

lemma ReadU64_bytes [wire_simps]: "ReadU64 (le_bytes 8 v @ rest) = (Some v, rest)"
  by (simp add: ReadU64_def ReadBytes_append le_value_8)

lemma ReadF32_bytes [wire_simps]: "ReadF32 (le_bytes 4 v @ rest) = (Some v, rest)"
  by (simp add: ReadF32_def ReadU32_bytes)

lemma unat_length_u32 [simp]:
  "n \<le> m \<Longrightarrow> m < 2 ^ 32 \<Longrightarrow> unat (word_of_nat n :: u32) = n"
  by (simp add: unat_of_nat)

lemma ReadString_bytes [wire_simps]:
  assumes "short_string s"
  shows "ReadString (string_bytes s @ rest) = (Some s, rest)"
proof -
  have "unat (word_of_nat (length s) :: u32) = length s"
    using assms by (simp add: short_string_def kMaxPathLength_def unat_of_nat)
  then show ?thesis using assms
    by (simp add: ReadString_def string_bytes_def wire_simps short_string_def)
qed

text \<open>Each rule again where nothing follows.\<close>

lemmas read_last [wire_simps] =
  ReadU32_bytes [where rest = "[]", simplified] ReadU64_bytes [where rest = "[]", simplified]
  ReadF32_bytes [where rest = "[]", simplified] ReadString_bytes [where rest = "[]", simplified]

section \<open>What a successful read says of the bytes\<close>

lemma ReadBytes_SomeD: "ReadBytes r n = (Some bs, r') \<Longrightarrow> r = bs @ r' \<and> length bs = n"
  by (auto simp: ReadBytes_def split: if_splits)

lemma ReadU8_SomeD: "ReadU8 r = (Some b, r') \<Longrightarrow> r = [b] @ r'"
  by (cases r) (auto simp: wire_simps)

lemma ReadU32_SomeD: "ReadU32 r = (Some v, r') \<Longrightarrow> r = le_bytes 4 v @ r'"
  using le_bytes_le_value [where 'a = 32]
  by (fastforce simp: ReadU32_def dest!: ReadBytes_SomeD split: prod.splits option.splits)

lemma ReadU64_SomeD: "ReadU64 r = (Some v, r') \<Longrightarrow> r = le_bytes 8 v @ r'"
  using le_bytes_le_value [where 'a = 64]
  by (fastforce simp: ReadU64_def dest!: ReadBytes_SomeD split: prod.splits option.splits)

lemma ReadF32_eq: "ReadF32 r = ReadU32 r"
  by (auto simp: ReadF32_def split: prod.splits option.splits)

lemma ReadF32_SomeD: "ReadF32 r = (Some v, r') \<Longrightarrow> r = le_bytes 4 v @ r'"
  by (simp add: ReadF32_eq ReadU32_SomeD)

lemma ReadString_SomeD:
  assumes "ReadString r = (Some s, r')"
  shows "r = string_bytes s @ r' \<and> short_string s"
proof -
  from assms obtain n r1 bytes where
    n: "ReadU32 r = (Some n, r1)" and small: "unat n \<le> kMaxPathLength"
    and bytes: "ReadBytes r1 (unat n) = (Some bytes, r')" and s: "s = map char_of_byte bytes"
    by (auto simp: ReadString_def split: prod.splits option.splits if_splits)
  have len: "length bytes = unat n" and r1: "r1 = bytes @ r'" using ReadBytes_SomeD [OF bytes] by auto
  have "word_of_nat (length s) = n" using s len by simp
  then show ?thesis
    using ReadU32_SomeD [OF n] r1 s len small
    by (simp add: string_bytes_def short_string_def del: map_map)
qed

lemmas read_SomeD = ReadU8_SomeD ReadU32_SomeD ReadU64_SomeD ReadF32_SomeD ReadString_SomeD

end
