(* ===== verification/Wire_Codec.thy ===== *)
theory Wire_Codec
  imports Wire_Format
begin

text \<open>
  The interface between the encoders and the decoders: a value's bytes and the read
  that takes them back (locale \<open>indexed_reader\<close>, whose validity may depend on an
  element's place in its list), accepts nothing else (\<open>indexed_codec\<close>), and does so
  whatever the place (\<open>wire_codec\<close>). The
  counted loops every blob is made of are proved once against it. The interpretations
  are the primitives of the wire format.
\<close>

section \<open>Counted loops\<close>

text \<open>
  \<open>for (i = 0; i < count; ++i) { read one, or return nullopt; push_back }\<close>, from index \<open>i\<close>.
\<close>

fun ReadLoop ::
  "(nat \<Rightarrow> reader \<Rightarrow> 'a option \<times> reader) \<Rightarrow> nat \<Rightarrow> nat \<Rightarrow> reader \<Rightarrow> 'a list option \<times> reader" where
  "ReadLoop read i 0 r = (Some [], r)"
| "ReadLoop read i (Suc n) r =
     (case read i r of
        (None, r) \<Rightarrow> (None, r)
      | (Some x, r) \<Rightarrow>
          (case ReadLoop read (Suc i) n r of
             (None, r) \<Rightarrow> (None, r)
           | (Some xs, r) \<Rightarrow> (Some (x # xs), r)))"

lemma ReadLoop_SomeD:
  assumes "ReadLoop read i n r = (Some xs, r')"
  shows "length xs = n \<and> (\<forall>k < n. \<exists>r1 r2. read (i + k) r1 = (Some (xs ! k), r2))"
  using assms
proof (induction n arbitrary: i r xs)
  case 0
  then show ?case by simp
next
  case (Suc n)
  then obtain x r1 ys where x: "read i r = (Some x, r1)"
    and ys: "ReadLoop read (Suc i) n r1 = (Some ys, r')" and xs: "xs = x # ys"
    by (auto split: prod.splits option.splits)
  have "\<exists>r1 r2. read (i + k) r1 = (Some (xs ! k), r2)" if "k < Suc n" for k
    using that x Suc.IH [OF ys] by (cases k) (auto simp: xs)
  then show ?case using Suc.IH [OF ys] by (simp add: xs)
qed

section \<open>The interface\<close>

locale indexed_reader =
  fixes enc :: "'a \<Rightarrow> byte list"
    and read :: "nat \<Rightarrow> reader \<Rightarrow> 'a option \<times> reader"
    and ok :: "nat \<Rightarrow> 'a \<Rightarrow> bool"
  assumes read_enc: "ok i x \<Longrightarrow> read i (enc x @ rest) = (Some x, rest)"
begin

lemma loop_enc:
  assumes "\<forall>k < length xs. ok (i + k) (xs ! k)"
  shows "ReadLoop read i (length xs) (concat (map enc xs) @ rest) = (Some xs, rest)"
  using assms
proof (induction xs arbitrary: i)
  case Nil
  then show ?case by simp
next
  case (Cons x xs)
  have head: "ok i x" using Cons.prems by fastforce
  have "\<forall>k < length xs. ok (Suc i + k) (xs ! k)" using Cons.prems by fastforce
  then have "ReadLoop read (Suc i) (length xs) (concat (map enc xs) @ rest) = (Some xs, rest)"
    by (rule Cons.IH)
  then show ?case by (simp add: read_enc [OF head])
qed

end

text \<open>Where, besides, a read accepts nothing but encodings.\<close>

locale indexed_codec = indexed_reader +
  assumes read_SomeD: "read i r = (Some x, r') \<Longrightarrow> r = enc x @ r' \<and> ok i x"
begin

lemma loop_SomeD:
  assumes "ReadLoop read i n r = (Some xs, r')"
  shows "r = concat (map enc xs) @ r' \<and> length xs = n \<and> (\<forall>k < n. ok (i + k) (xs ! k))"
  using assms
proof (induction n arbitrary: i r xs)
  case 0
  then show ?case by simp
next
  case (Suc n)
  then obtain x r1 ys where x: "read i r = (Some x, r1)"
    and ys: "ReadLoop read (Suc i) n r1 = (Some ys, r')" and xs: "xs = x # ys"
    by (auto split: prod.splits option.splits)
  have "\<forall>k < Suc n. ok (i + k) (xs ! k)"
  proof (intro allI impI)
    fix k
    assume "k < Suc n"
    then show "ok (i + k) (xs ! k)"
      using read_SomeD [OF x] Suc.IH [OF ys] by (cases k) (simp_all add: xs)
  qed
  then show ?case using read_SomeD [OF x] Suc.IH [OF ys] by (simp add: xs)
qed

end

text \<open>Where what is valid does not depend on the index.\<close>

locale wire_codec =
  fixes enc :: "'a \<Rightarrow> byte list"
    and read :: "reader \<Rightarrow> 'a option \<times> reader"
    and ok :: "'a \<Rightarrow> bool"
  assumes read_one: "ok x \<Longrightarrow> read (enc x @ rest) = (Some x, rest)"
    and read_one_SomeD: "read r = (Some x, r') \<Longrightarrow> r = enc x @ r' \<and> ok x"

sublocale wire_codec \<subseteq> indexed: indexed_codec enc "\<lambda>_. read" "\<lambda>_. ok"
  by unfold_locales (auto simp: read_one dest: read_one_SomeD)

context wire_codec
begin

lemma list_enc:
  "list_all ok xs \<Longrightarrow>
   ReadLoop (\<lambda>_. read) i (length xs) (concat (map enc xs) @ rest) = (Some xs, rest)"
  by (rule indexed.loop_enc) (simp add: list_all_length)

lemma list_SomeD:
  "ReadLoop (\<lambda>_. read) i n r = (Some xs, r') \<Longrightarrow>
   r = concat (map enc xs) @ r' \<and> length xs = n \<and> list_all ok xs"
  using indexed.loop_SomeD [of i n r xs r'] by (simp add: list_all_length)

lemma enc_length_read: "read r = (Some x, r') \<Longrightarrow> length r' = length r - length (enc x)"
  using read_one_SomeD [of r x r'] by simp

end

section \<open>The primitives are codecs\<close>

text \<open>Vectors and rotations are read component by component, all before any is checked.\<close>

definition ReadVec3 :: "reader \<Rightarrow> vec3 option \<times> reader" where
  "ReadVec3 r =
     (let (x, r) = ReadF32 r;
          (y, r) = ReadF32 r;
          (z, r) = ReadF32 r
      in case (x, y, z) of
           (Some x, Some y, Some z) \<Rightarrow> (Some \<lparr>vx = x, vy = y, vz = z\<rparr>, r)
         | _ \<Rightarrow> (None, r))"

definition ReadQuat :: "reader \<Rightarrow> quat option \<times> reader" where
  "ReadQuat r =
     (let (x, r) = ReadF32 r;
          (y, r) = ReadF32 r;
          (z, r) = ReadF32 r;
          (w, r) = ReadF32 r
      in case (x, y, z, w) of
           (Some x, Some y, Some z, Some w) \<Rightarrow> (Some \<lparr>qw = w, qx = x, qy = y, qz = z\<rparr>, r)
         | _ \<Rightarrow> (None, r))"

text \<open>A key and a value, both read before either is checked (\<open>ReadProperties\<close>' loop body).\<close>

definition ReadProperty :: "reader \<Rightarrow> (string \<times> string) option \<times> reader" where
  "ReadProperty r =
     (let (key, r) = ReadString r;
          (value, r) = ReadString r
      in case (key, value) of
           (Some key, Some value) \<Rightarrow> (Some (key, value), r)
         | _ \<Rightarrow> (None, r))"

text \<open>\<open>DecodeMeshBlob\<close>'s loop body for an index: it must address one of the points.\<close>

definition ReadMeshIndex :: "nat \<Rightarrow> reader \<Rightarrow> u32 option \<times> reader" where
  "ReadMeshIndex point_count r =
     (case ReadU32 r of
        (None, r) \<Rightarrow> (None, r)
      | (Some index, r) \<Rightarrow> if unat index \<ge> point_count then (None, r) else (Some index, r))"

definition property_bytes :: "string \<times> string \<Rightarrow> byte list" where
  "property_bytes p = string_bytes (fst p) @ string_bytes (snd p)"

definition short_property :: "string \<times> string \<Rightarrow> bool" where
  "short_property p \<longleftrightarrow> short_string (fst p) \<and> short_string (snd p)"

lemma ReadVec3_bytes [wire_simps]: "ReadVec3 (vec3_bytes v @ rest) = (Some v, rest)"
  by (simp add: ReadVec3_def vec3_bytes_def wire_simps)

lemma ReadQuat_bytes [wire_simps]: "ReadQuat (quat_bytes q @ rest) = (Some q, rest)"
  by (simp add: ReadQuat_def quat_bytes_def wire_simps)

lemma ReadVec3_SomeD: "ReadVec3 r = (Some v, r') \<Longrightarrow> r = vec3_bytes v @ r'"
  by (auto simp: ReadVec3_def vec3_bytes_def dest!: ReadF32_SomeD split: prod.splits option.splits)

lemma ReadQuat_SomeD: "ReadQuat r = (Some q, r') \<Longrightarrow> r = quat_bytes q @ r'"
  by (auto simp: ReadQuat_def quat_bytes_def dest!: ReadF32_SomeD split: prod.splits option.splits)

lemma ReadProperty_bytes:
  "short_property p \<Longrightarrow> ReadProperty (property_bytes p @ rest) = (Some p, rest)"
  by (simp add: ReadProperty_def property_bytes_def short_property_def wire_simps)

lemma ReadProperty_SomeD:
  "ReadProperty r = (Some p, r') \<Longrightarrow> r = property_bytes p @ r' \<and> short_property p"
  by (auto simp: ReadProperty_def property_bytes_def short_property_def
      dest!: ReadString_SomeD split: prod.splits option.splits)

interpretation string_codec: wire_codec string_bytes ReadString short_string
  by unfold_locales (auto simp: wire_simps dest: ReadString_SomeD)

interpretation vec3_codec: wire_codec vec3_bytes ReadVec3 "\<lambda>_. True"
  by unfold_locales (auto simp: wire_simps dest: ReadVec3_SomeD)

interpretation property_codec: wire_codec property_bytes ReadProperty short_property
  by unfold_locales (auto simp: ReadProperty_bytes dest: ReadProperty_SomeD)

interpretation index_codec: wire_codec "le_bytes 4" "ReadMeshIndex n" "\<lambda>i. unat i < n" for n
  by unfold_locales
    (auto simp: ReadMeshIndex_def wire_simps dest!: ReadU32_SomeD split: prod.splits option.splits if_splits)

lemmas read_last_composite [wire_simps] =
  ReadVec3_bytes [where rest = "[]", simplified] ReadQuat_bytes [where rest = "[]", simplified]

end
