(* ===== verification/Asset_Types.thy ===== *)
theory Asset_Types
  imports Wire_Codec "HOL-Library.Char_ord" "HOL-Library.List_Lexorder"
begin

text \<open>
  The data of the assets module (\<open>include/augusta/assets.h\<close>) and its pure functions
  (\<open>assets.cpp\<close>): asset types, meshes, hitboxes, skeletons, clips, scene graphs,
  textures, sounds, the rifle and its sockets, the pack-relative paths, the binding of
  hitboxes to joints and the composition of world transforms.
\<close>

section \<open>Asset types\<close>

datatype AssetType =
  kMesh | kTexture | kAudio | kCollision | kSpawnPoint | kHitbox | kScene | kScript
| kCharacters | kEye | kCueSound | kSkeleton | kAnimationSkeleton | kClip
| kStanceTransitions | kRifle | kWeaponSocket

text \<open>The enumerators in order: \<open>static_cast\<close> to the byte, and back where it is one.\<close>

definition asset_types :: "AssetType list" where
  "asset_types =
     [kMesh, kTexture, kAudio, kCollision, kSpawnPoint, kHitbox, kScene, kScript,
      kCharacters, kEye, kCueSound, kSkeleton, kAnimationSkeleton, kClip,
      kStanceTransitions, kRifle, kWeaponSocket]"

fun asset_type_byte :: "AssetType \<Rightarrow> u8" where
  "asset_type_byte kMesh = 0"
| "asset_type_byte kTexture = 1"
| "asset_type_byte kAudio = 2"
| "asset_type_byte kCollision = 3"
| "asset_type_byte kSpawnPoint = 4"
| "asset_type_byte kHitbox = 5"
| "asset_type_byte kScene = 6"
| "asset_type_byte kScript = 7"
| "asset_type_byte kCharacters = 8"
| "asset_type_byte kEye = 9"
| "asset_type_byte kCueSound = 10"
| "asset_type_byte kSkeleton = 11"
| "asset_type_byte kAnimationSkeleton = 12"
| "asset_type_byte kClip = 13"
| "asset_type_byte kStanceTransitions = 14"
| "asset_type_byte kRifle = 15"
| "asset_type_byte kWeaponSocket = 16"

definition asset_type_of_byte :: "u8 \<Rightarrow> AssetType option" where
  "asset_type_of_byte b = find (\<lambda>t. asset_type_byte t = b) asset_types"

definition IsValidAssetType :: "u8 \<Rightarrow> bool" where
  "IsValidAssetType value = (case asset_type_of_byte value of Some _ \<Rightarrow> True | None \<Rightarrow> False)"

lemma asset_type_of_byte_byte [simp]: "asset_type_of_byte (asset_type_byte t) = Some t"
  by (cases t) (simp_all add: asset_type_of_byte_def asset_types_def)

lemma asset_type_of_byte_SomeD: "asset_type_of_byte b = Some t \<Longrightarrow> asset_type_byte t = b"
  by (auto simp: asset_type_of_byte_def find_Some_iff)

lemma IsValidAssetType_iff: "IsValidAssetType b \<longleftrightarrow> (\<exists>t. asset_type_of_byte b = Some t)"
  by (auto simp: IsValidAssetType_def split: option.splits)

lemma IsValidAssetType_byte [simp]: "IsValidAssetType (asset_type_byte t)"
  by (simp add: IsValidAssetType_def)

section \<open>Geometry and hitboxes\<close>

record MeshData =
  points :: "vec3 list"
  indices :: "u32 list"

datatype BodyPart = kHead | kTorso | kLimb

fun body_part_byte :: "BodyPart \<Rightarrow> u8" where
  "body_part_byte kHead = 0"
| "body_part_byte kTorso = 1"
| "body_part_byte kLimb = 2"

text \<open>\<open>static_cast<BodyPart>\<close> of a byte no greater than \<open>kLimb\<close>.\<close>

definition body_part_of_byte :: "u8 \<Rightarrow> BodyPart" where
  "body_part_of_byte b = (if b = 0 then kHead else if b = 1 then kTorso else kLimb)"

lemma body_part_byte_le: "body_part_byte p \<le> body_part_byte kLimb"
  by (cases p) simp_all

lemma body_part_of_byte_byte [simp]: "body_part_of_byte (body_part_byte p) = p"
  by (cases p) (simp_all add: body_part_of_byte_def)

lemma u8_le_2:
  assumes "(b :: u8) \<le> 2"
  shows "b = 0 \<or> b = 1 \<or> b = 2"
proof -
  have "unat b \<le> 2" using assms by (simp add: word_le_nat_alt)
  then have "unat b = 0 \<or> unat b = 1 \<or> unat b = 2" by arith
  then show ?thesis by (auto simp: word_unat_eq_iff)
qed

lemma body_part_byte_of_byte: "b \<le> body_part_byte kLimb \<Longrightarrow> body_part_byte (body_part_of_byte b) = b"
  using u8_le_2 [of b] by (auto simp: body_part_of_byte_def)

record HitboxData =
  hb_part :: BodyPart
  hb_joint :: string
  hb_mesh :: MeshData

definition kJointNoParent :: u32 where "kJointNoParent = 0xFFFFFFFF"
definition kMaxJoints :: nat where "kMaxJoints = 128"

record JointData =
  jd_name :: string
  jd_parent :: u32
  jd_translation :: vec3
  jd_rotation :: quat
  jd_scale :: vec3

record SkeletonData =
  joints :: "JointData list"

section \<open>Clips\<close>

datatype Foot = kLeft | kRight

fun foot_byte :: "Foot \<Rightarrow> u8" where
  "foot_byte kLeft = 0"
| "foot_byte kRight = 1"

definition foot_of_byte :: "u8 \<Rightarrow> Foot" where
  "foot_of_byte b = (if b = 0 then kLeft else kRight)"

lemma foot_byte_le: "foot_byte f \<le> foot_byte kRight"
  by (cases f) simp_all

lemma foot_of_byte_byte [simp]: "foot_of_byte (foot_byte f) = f"
  by (cases f) (simp_all add: foot_of_byte_def)

lemma foot_byte_of_byte:
  assumes "b \<le> foot_byte kRight"
  shows "foot_byte (foot_of_byte b) = b"
proof -
  have "unat b \<le> 1" using assms by (simp add: word_le_nat_alt)
  then have "unat b = 0 \<or> unat b = 1" by arith
  then show ?thesis by (auto simp: foot_of_byte_def word_unat_eq_iff)
qed

record FootContact =
  fc_foot :: Foot
  fc_ratio :: f32

record ClipData =
  stride_length :: f32
  foot_contacts :: "FootContact list"
  archive :: "byte list"

record StanceTransitionsData =
  standing_crouching :: f32
  standing_prone :: f32
  crouching_prone :: f32

section \<open>Scene graphs\<close>

definition kSceneNodeNoParent :: u32 where "kSceneNodeNoParent = 0xFFFFFFFF"

record SceneNode =
  sn_name :: string
  sn_parent_index :: u32
  sn_translation :: vec3
  sn_rotation :: quat
  sn_scale :: vec3
  mesh_path :: "string option"
  material_path :: "string option"
  collider_path :: "string option"
  hitbox_path :: "string option"
  is_spawn_point :: bool
  properties :: "(string \<times> string) list"

record SceneData =
  nodes :: "SceneNode list"

section \<open>Textures, sounds, markers\<close>

datatype TextureFormat = kBC7 | kBC5 | kBC4

record TextureData =
  ktx2_bytes :: "byte list"
  tx_format :: TextureFormat

record AudioData =
  sample_rate :: u32
  bits_per_sample :: u8
  samples :: "byte list"

record CueSoundData =
  gain_db :: f32
  variants :: "string list"

record SpawnPointData =
  sp_translation :: vec3
  sp_rotation :: quat

record EyeData =
  eye_position :: vec3

record RifleMarker =
  rm_translation :: vec3
  rm_rotation :: quat

record RifleData =
  grip :: RifleMarker
  muzzle :: RifleMarker
  sight :: RifleMarker
  fore_end :: RifleMarker

record WeaponSocketData =
  right_hand :: string
  ws_translation :: vec3
  ws_rotation :: quat
  left_hand :: string

definition kMaxCharacters :: nat where "kMaxCharacters = 255"
definition kPackHashSize :: nat where "kPackHashSize = 32"

section \<open>Pack-relative paths\<close>

definition kScenePath :: string where "kScenePath = ''Scene''"
definition kSoundsPrefix :: string where "kSoundsPrefix = ''sounds''"
definition kParametersScriptPath :: string where "kParametersScriptPath = ''parameters.lua''"
definition kCharactersPath :: string where "kCharactersPath = ''Characters''"
definition kRiflePath :: string where "kRiflePath = ''Rifle''"

definition CueSoundPath :: "string \<Rightarrow> string" where
  "CueSoundPath cue = kSoundsPrefix @ ''/'' @ cue"

definition CharacterEyePath :: "string \<Rightarrow> string" where
  "CharacterEyePath character = character @ ''/Character/Eye''"

definition CharacterWeaponSocketPath :: "string \<Rightarrow> string" where
  "CharacterWeaponSocketPath character = character @ ''/Character/WeaponSocket''"

definition CharacterSkeletonPath :: "string \<Rightarrow> string" where
  "CharacterSkeletonPath character = character @ ''/Character/Skeleton''"

definition CharacterAnimationSkeletonPath :: "string \<Rightarrow> string" where
  "CharacterAnimationSkeletonPath character = character @ ''/Character/Skeleton.ozz''"

definition CharacterClipPath :: "string \<Rightarrow> string \<Rightarrow> string" where
  "CharacterClipPath character role = character @ ''/Character/Clips/'' @ role"

definition CharacterStanceTransitionsPath :: "string \<Rightarrow> string" where
  "CharacterStanceTransitionsPath character = character @ ''/Character/Clips''"

definition CharacterMeshPath :: "string \<Rightarrow> string" where
  "CharacterMeshPath character = character @ ''/Character/Visual''"

definition SanitizePrimPath :: "string \<Rightarrow> string" where
  "SanitizePrimPath usd_prim_path =
     (if usd_prim_path \<noteq> [] \<and> hd usd_prim_path = CHR ''/'' then tl usd_prim_path
      else usd_prim_path)"

section \<open>Hitboxes and joints\<close>

fun BodyPartName :: "BodyPart \<Rightarrow> string" where
  "BodyPartName kHead = ''head''"
| "BodyPartName kTorso = ''torso''"
| "BodyPartName kLimb = ''limb''"

definition FirstMissingBodyPart :: "HitboxData list \<Rightarrow> BodyPart option" where
  "FirstMissingBodyPart hitboxes =
     find (\<lambda>part. \<not> list_ex (\<lambda>hitbox. hb_part hitbox = part) hitboxes) [kHead, kTorso, kLimb]"

record JointHitbox =
  jh_joint :: u32
  jh_hitbox :: HitboxData

text \<open>\<open>std::ranges::find\<close> of a joint by name, as its index.\<close>

fun find_joint :: "JointData list \<Rightarrow> string \<Rightarrow> nat option" where
  "find_joint [] n = None"
| "find_joint (j # js) n = (if jd_name j = n then Some 0 else map_option Suc (find_joint js n))"

text \<open>The error is \<open>UnresolvedJoint\<close>: the name the skeleton has no joint by.\<close>

definition BindHitboxes :: "JointData list \<Rightarrow> HitboxData list \<Rightarrow> string + JointHitbox list" where
  "BindHitboxes skeleton_joints hitboxes =
     for_each (\<lambda>hitbox bound.
         case find_joint skeleton_joints (hb_joint hitbox) of
           None \<Rightarrow> Inl (hb_joint hitbox)
         | Some joint \<Rightarrow> Inr (bound @ [\<lparr>jh_joint = word_of_nat joint, jh_hitbox = hitbox\<rparr>]))
       hitboxes []"

section \<open>World transforms\<close>

text \<open>
  The loop both \<open>ComputeWorldTransforms\<close> and \<open>Pack::ResolveSkeleton\<close> run: each local
  matrix, or its parent's world matrix times it. The matrix product and the local matrix
  are GLM's, so parameters here; \<open>None\<close> is \<open>world[parent]\<close> past the end of \<open>world\<close>.
\<close>

definition compose_transforms ::
  "('m \<Rightarrow> 'm \<Rightarrow> 'm) \<Rightarrow> (u32 \<times> 'm) list \<Rightarrow> 'm list \<Rightarrow> 'm list option" where
  "compose_transforms mul locals world =
     foldl (\<lambda>acc (parent, loc).
         case acc of
           None \<Rightarrow> None
         | Some world \<Rightarrow>
             if parent = 0xFFFFFFFF then Some (world @ [loc])
             else if unat parent < length world then Some (world @ [mul (world ! unat parent) loc])
             else None)
       (Some world) locals"

definition ComputeWorldTransforms ::
  "(vec3 \<Rightarrow> quat \<Rightarrow> vec3 \<Rightarrow> 'm) \<Rightarrow> ('m \<Rightarrow> 'm \<Rightarrow> 'm) \<Rightarrow> SceneData \<Rightarrow> 'm list option" where
  "ComputeWorldTransforms to_mat4 mul scene =
     compose_transforms mul
       (map (\<lambda>node. (sn_parent_index node,
                     to_mat4 (sn_translation node) (sn_rotation node) (sn_scale node)))
          (nodes scene)) []"

text \<open>Parents listed before their children: what the decoders check of every node or joint.\<close>

definition parents_first :: "u32 list \<Rightarrow> bool" where
  "parents_first ps \<longleftrightarrow> (\<forall>k < length ps. ps ! k = 0xFFFFFFFF \<or> unat (ps ! k) < k)"

lemma parents_first_snoc:
  "parents_first (ps @ [p]) \<longleftrightarrow> parents_first ps \<and> (p = 0xFFFFFFFF \<or> unat p < length ps)"
  by (auto simp: parents_first_def nth_append less_Suc_eq)

lemma compose_transforms_snoc:
  "compose_transforms mul (ls @ [(p, m)]) world =
     (case compose_transforms mul ls world of
        None \<Rightarrow> None
      | Some world \<Rightarrow>
          if p = 0xFFFFFFFF then Some (world @ [m])
          else if unat p < length world then Some (world @ [mul (world ! unat p) m])
          else None)"
  by (simp add: compose_transforms_def)

lemma compose_transforms_total:
  assumes "parents_first (map fst ls)"
  shows "\<exists>world. compose_transforms mul ls [] = Some world \<and> length world = length ls \<and>
    (\<forall>k < length ls. world ! k =
       (case ls ! k of (p, m) \<Rightarrow> if p = 0xFFFFFFFF then m else mul (world ! unat p) m))"
  using assms
proof (induction ls rule: rev_induct)
  case Nil
  then show ?case by (simp add: compose_transforms_def)
next
  case (snoc l ls)
  obtain p m where l: "l = (p, m)" by (cases l)
  from snoc.prems have pf: "parents_first (map fst ls)"
    and p: "p = 0xFFFFFFFF \<or> unat p < length ls"
    by (simp_all add: l parents_first_snoc)
  from snoc.IH [OF pf] obtain world where
    w: "compose_transforms mul ls [] = Some world" and len: "length world = length ls"
    and nth: "\<forall>k < length ls. world ! k =
       (case ls ! k of (p, m) \<Rightarrow> if p = 0xFFFFFFFF then m else mul (world ! unat p) m)"
    by blast
  let ?m = "if p = 0xFFFFFFFF then m else mul (world ! unat p) m"
  have pred: "unat q < length ls" if "k < length ls" and "ls ! k = (q, x)" and "q \<noteq> 0xFFFFFFFF" for k q x
    using pf that by (force simp: parents_first_def)
  have "compose_transforms mul (ls @ [l]) [] = Some (world @ [?m])"
    using p len by (auto simp: l compose_transforms_snoc w)
  moreover have "(world @ [?m]) ! k =
      (case (ls @ [l]) ! k of (p, m) \<Rightarrow> if p = 0xFFFFFFFF then m else mul ((world @ [?m]) ! unat p) m)"
    if "k < length (ls @ [l])" for k
    using that p nth pred len by (cases "k < length ls") (auto simp: nth_append l split: prod.splits)
  ultimately show ?case using len by fastforce
qed

end
