(* ===== verification/Blob_Encoder.thy ===== *)
theory Blob_Encoder
  imports Asset_Types
begin

text \<open>
  The encoders of \<open>src/modules/assets/encoder.cpp\<close>: each returns the blob's bytes or an
  \<open>EncodeError\<close>. The writer's buffer is passed from write to write; a write that fails
  ends the encoding, whose partly written buffer is dropped with it, as in the code.
\<close>

datatype EncodeError =
  kTooLarge | kUnsupportedSampleWidth | kPartialSample | kInvalidCueSound | kInvalidAnimation

fun DescribeEncodeError :: "EncodeError \<Rightarrow> string" where
  "DescribeEncodeError kTooLarge = ''exceeds the pack's size limits''"
| "DescribeEncodeError kUnsupportedSampleWidth =
     ''has a sample width a PCM WAV file does not hold (8, 16, 24 or 32 bits)''"
| "DescribeEncodeError kPartialSample = ''is not a whole number of samples''"
| "DescribeEncodeError kInvalidCueSound = ''has no variant, or a gain that is not a finite number''"
| "DescribeEncodeError kInvalidAnimation =
     ''has a stride length, Foot contact or transition duration out of its range''"

section \<open>Scene nodes\<close>

definition node_flags_of :: "SceneNode \<Rightarrow> u8" where
  "node_flags_of node =
     (let flags = 0;
          flags = (if mesh_path node \<noteq> None then flags OR kNodeHasMesh else flags);
          flags = (if material_path node \<noteq> None then flags OR kNodeHasMaterial else flags);
          flags = (if collider_path node \<noteq> None then flags OR kNodeHasCollider else flags);
          flags = (if hitbox_path node \<noteq> None then flags OR kNodeHasHitbox else flags)
      in if is_spawn_point node then flags OR kNodeIsSpawnPoint else flags)"

text \<open>\<open>!WriteOptionalPath(mesh) || !WriteOptionalPath(material) || ...\<close>, left to right.\<close>

definition WriteNodePaths :: "byte list \<Rightarrow> SceneNode \<Rightarrow> EncodeError + byte list" where
  "WriteNodePaths writer node =
     for_each (\<lambda>path writer.
         case WriteOptionalPath writer path of
           (False, _) \<Rightarrow> Inl kTooLarge
         | (True, writer) \<Rightarrow> Inr writer)
       [mesh_path node, material_path node, collider_path node, hitbox_path node] writer"

definition WriteProperty :: "string \<times> string \<Rightarrow> byte list \<Rightarrow> EncodeError + byte list" where
  "WriteProperty property writer =
     (case WriteString writer (fst property) of
        (False, _) \<Rightarrow> Inl kTooLarge
      | (True, writer) \<Rightarrow>
          (case WriteString writer (snd property) of
             (False, _) \<Rightarrow> Inl kTooLarge
           | (True, writer) \<Rightarrow> Inr writer))"

definition EncodeSceneNode :: "SceneNode \<Rightarrow> byte list \<Rightarrow> EncodeError + byte list" where
  "EncodeSceneNode node writer =
     (case WriteString writer (sn_name node) of
        (False, _) \<Rightarrow> Inl kTooLarge
      | (True, writer) \<Rightarrow>
          (let writer = WriteU32 writer (sn_parent_index node);
               writer = WriteVec3 writer (sn_translation node);
               writer = WriteQuat writer (sn_rotation node);
               writer = WriteVec3 writer (sn_scale node);
               writer = WriteU8 writer (node_flags_of node)
           in case WriteNodePaths writer node of
                Inl e \<Rightarrow> Inl e
              | Inr writer \<Rightarrow>
                  if length (properties node) > kMaxProperties then Inl kTooLarge
                  else for_each WriteProperty (properties node)
                         (WriteU32 writer (word_of_nat (length (properties node))))))"

section \<open>Blobs\<close>

definition EncodeMeshBlob :: "MeshData \<Rightarrow> EncodeError + byte list" where
  "EncodeMeshBlob mesh =
     (if length (points mesh) > kMaxMeshPoints \<or> length (indices mesh) > kMaxMeshIndices
      then Inl kTooLarge
      else let writer = WriteU32 [] (word_of_nat (length (points mesh)));
               writer = foldl WriteVec3 writer (points mesh);
               writer = WriteU32 writer (word_of_nat (length (indices mesh)));
               writer = foldl WriteU32 writer (indices mesh)
           in Inr writer)"

definition EncodeSceneBlob :: "SceneData \<Rightarrow> EncodeError + byte list" where
  "EncodeSceneBlob scene =
     (if length (nodes scene) > kMaxSceneNodes then Inl kTooLarge
      else for_each EncodeSceneNode (nodes scene) (WriteU32 [] (word_of_nat (length (nodes scene)))))"

definition EncodeTextureBlob :: "byte list \<Rightarrow> EncodeError + byte list" where
  "EncodeTextureBlob ktx2 =
     (if length ktx2 > kMaxTextureBytes then Inl kTooLarge
      else Inr (WriteBytes (WriteU32 [] (word_of_nat (length ktx2))) ktx2))"

definition EncodeSpawnPointBlob :: "SpawnPointData \<Rightarrow> EncodeError + byte list" where
  "EncodeSpawnPointBlob spawn_point =
     Inr (WriteQuat (WriteVec3 [] (sp_translation spawn_point)) (sp_rotation spawn_point))"

definition EncodeHitboxBlob :: "HitboxData \<Rightarrow> EncodeError + byte list" where
  "EncodeHitboxBlob hitbox =
     (case EncodeMeshBlob (hb_mesh hitbox) of
        Inl e \<Rightarrow> Inl e
      | Inr mesh \<Rightarrow>
          (case WriteString (WriteU8 [] (body_part_byte (hb_part hitbox))) (hb_joint hitbox) of
             (False, _) \<Rightarrow> Inl kTooLarge
           | (True, writer) \<Rightarrow> Inr (WriteBytes writer mesh)))"

definition WriteJoint :: "JointData \<Rightarrow> byte list \<Rightarrow> EncodeError + byte list" where
  "WriteJoint joint writer =
     (case WriteString writer (jd_name joint) of
        (False, _) \<Rightarrow> Inl kTooLarge
      | (True, writer) \<Rightarrow>
          Inr (WriteVec3 (WriteQuat (WriteVec3 (WriteU32 writer (jd_parent joint))
            (jd_translation joint)) (jd_rotation joint)) (jd_scale joint)))"

definition EncodeSkeletonBlob :: "SkeletonData \<Rightarrow> EncodeError + byte list" where
  "EncodeSkeletonBlob skeleton =
     (if length (joints skeleton) > kMaxJoints then Inl kTooLarge
      else for_each WriteJoint (joints skeleton) (WriteU32 [] (word_of_nat (length (joints skeleton)))))"

definition EncodeAnimationSkeletonBlob :: "byte list \<Rightarrow> EncodeError + byte list" where
  "EncodeAnimationSkeletonBlob arch =
     (if length arch > kMaxArchiveBytes then Inl kTooLarge else Inr arch)"

definition WriteFootContact :: "byte list \<Rightarrow> FootContact \<Rightarrow> byte list" where
  "WriteFootContact writer contact =
     WriteF32 (WriteU8 writer (foot_byte (fc_foot contact))) (fc_ratio contact)"

definition EncodeClipBlob :: "ClipData \<Rightarrow> EncodeError + byte list" where
  "EncodeClipBlob clip =
     (if length (archive clip) > kMaxArchiveBytes \<or> length (foot_contacts clip) > kMaxFootContacts
      then Inl kTooLarge
      else if \<not> IsValidStrideLength (stride_length clip) \<or>
              \<not> list_all (\<lambda>contact. IsValidFootContactRatio (fc_ratio contact)) (foot_contacts clip)
      then Inl kInvalidAnimation
      else let writer = WriteF32 [] (stride_length clip);
               writer = WriteU8 writer (word_of_nat (length (foot_contacts clip)));
               writer = foldl WriteFootContact writer (foot_contacts clip)
           in Inr (WriteBytes writer (archive clip)))"

definition EncodeStanceTransitionsBlob :: "StanceTransitionsData \<Rightarrow> EncodeError + byte list" where
  "EncodeStanceTransitionsBlob transitions =
     (let durations = [standing_crouching transitions, standing_prone transitions,
                       crouching_prone transitions]
      in if \<not> list_all IsValidTransitionDuration durations then Inl kInvalidAnimation
         else Inr (foldl WriteF32 [] durations))"

definition EncodeEyeBlob :: "EyeData \<Rightarrow> EncodeError + byte list" where
  "EncodeEyeBlob eye = Inr (WriteVec3 [] (eye_position eye))"

definition WriteMarker :: "byte list \<Rightarrow> RifleMarker \<Rightarrow> byte list" where
  "WriteMarker writer marker = WriteQuat (WriteVec3 writer (rm_translation marker)) (rm_rotation marker)"

definition EncodeRifleBlob :: "RifleData \<Rightarrow> EncodeError + byte list" where
  "EncodeRifleBlob rifle = Inr (foldl WriteMarker [] [grip rifle, muzzle rifle, sight rifle, fore_end rifle])"

definition EncodeWeaponSocketBlob :: "WeaponSocketData \<Rightarrow> EncodeError + byte list" where
  "EncodeWeaponSocketBlob socket =
     (case WriteString [] (right_hand socket) of
        (False, _) \<Rightarrow> Inl kTooLarge
      | (True, writer) \<Rightarrow>
          (case WriteString (WriteQuat (WriteVec3 writer (ws_translation socket)) (ws_rotation socket))
                  (left_hand socket) of
             (False, _) \<Rightarrow> Inl kTooLarge
           | (True, writer) \<Rightarrow> Inr writer))"

definition EncodeScriptBlob :: "string \<Rightarrow> EncodeError + byte list" where
  "EncodeScriptBlob script =
     (if length script > kMaxScriptBytes then Inl kTooLarge else Inr (map byte_of_char script))"

text \<open>The loop body that writes a list's strings, in two blobs.\<close>

definition WriteListString :: "string \<Rightarrow> byte list \<Rightarrow> EncodeError + byte list" where
  "WriteListString str writer =
     (case WriteString writer str of (False, _) \<Rightarrow> Inl kTooLarge | (True, writer) \<Rightarrow> Inr writer)"

definition EncodeCharactersBlob :: "string list \<Rightarrow> EncodeError + byte list" where
  "EncodeCharactersBlob characters =
     (if length characters > kMaxCharacters then Inl kTooLarge
      else for_each WriteListString characters (WriteU32 [] (word_of_nat (length characters))))"

definition EncodeAudioBlob :: "AudioData \<Rightarrow> EncodeError + byte list" where
  "EncodeAudioBlob sound =
     (if length (samples sound) > kMaxAudioBytes then Inl kTooLarge
      else if bits_per_sample sound \<notin> set kPcmBitsPerSample then Inl kUnsupportedSampleWidth
      else if length (samples sound) mod (unat (bits_per_sample sound) div kBitsPerByte) \<noteq> 0
      then Inl kPartialSample
      else let writer = WriteU32 [] (sample_rate sound);
               writer = WriteU8 writer (bits_per_sample sound);
               writer = WriteU32 writer (word_of_nat (length (samples sound)))
           in Inr (WriteBytes writer (samples sound)))"

definition EncodeCueSoundBlob :: "CueSoundData \<Rightarrow> EncodeError + byte list" where
  "EncodeCueSoundBlob sound =
     (if variants sound = [] \<or> \<not> f32_isfinite (gain_db sound) then Inl kInvalidCueSound
      else if length (variants sound) > kMaxCueVariants then Inl kTooLarge
      else for_each WriteListString (variants sound)
             (WriteU32 (WriteF32 [] (gain_db sound)) (word_of_nat (length (variants sound)))))"

end
