(* ===== verification/Blob_Decoder.thy ===== *)
theory Blob_Decoder
  imports Asset_Types
begin

text \<open>
  The decoders of \<open>src/modules/assets/decoder.cpp\<close>: each reads its fields off the blob in
  order, checks them, and is \<open>None\<close> for a blob that is not of its type. The reader is
  passed from read to read; where the code reads several fields before it checks any,
  so does the model.
\<close>

section \<open>Textures\<close>

definition kKtx2Identifier :: "byte list" where
  "kKtx2Identifier = [0xAB, 0x4B, 0x54, 0x58, 0x20, 0x32, 0x30, 0xBB, 0x0D, 0x0A, 0x1A, 0x0A]"

definition kVkFormatBc4UnormBlock :: u32 where "kVkFormatBc4UnormBlock = 139"
definition kVkFormatBc5UnormBlock :: u32 where "kVkFormatBc5UnormBlock = 141"
definition kVkFormatBc7SrgbBlock :: u32 where "kVkFormatBc7SrgbBlock = 146"

definition ToTextureFormat :: "u32 \<Rightarrow> TextureFormat option" where
  "ToTextureFormat vk_format =
     (if vk_format = kVkFormatBc7SrgbBlock then Some kBC7
      else if vk_format = kVkFormatBc5UnormBlock then Some kBC5
      else if vk_format = kVkFormatBc4UnormBlock then Some kBC4
      else None)"

section \<open>Scene nodes\<close>

text \<open>
  \<open>ReadOptionalPath\<close> gives its verdict and sets \<open>out\<close>: \<open>None\<close> is \<open>false\<close>, and
  \<open>Some\<close> carries what \<open>out\<close> then holds.
\<close>

definition ReadOptionalPath :: "reader \<Rightarrow> u8 \<Rightarrow> u8 \<Rightarrow> string option option \<times> reader" where
  "ReadOptionalPath r flags flag =
     (if flags AND flag = 0 then (Some None, r)
      else case ReadString r of (None, r) \<Rightarrow> (None, r) | (Some path, r) \<Rightarrow> (Some (Some path), r))"

record DecodedTransform =
  dt_translation :: vec3
  dt_rotation :: quat
  dt_scale :: vec3

definition ReadTransform :: "reader \<Rightarrow> DecodedTransform option \<times> reader" where
  "ReadTransform r =
     (let (translation, r) = ReadVec3 r;
          (rotation, r) = ReadQuat r;
          (scale, r) = ReadVec3 r
      in case (translation, rotation, scale) of
           (Some translation, Some rotation, Some scale) \<Rightarrow>
             (Some \<lparr>dt_translation = translation, dt_rotation = rotation, dt_scale = scale\<rparr>, r)
         | _ \<Rightarrow> (None, r))"

definition ReadProperties :: "reader \<Rightarrow> (string \<times> string) list option \<times> reader" where
  "ReadProperties r =
     (case ReadU32 r of
        (None, r) \<Rightarrow> (None, r)
      | (Some property_count, r) \<Rightarrow>
          if unat property_count > kMaxProperties then (None, r)
          else ReadLoop (\<lambda>_. ReadProperty) 0 (unat property_count) r)"

text \<open>The four optional paths in order, the first that cannot be read ending it.\<close>

definition ReadNodePaths ::
  "reader \<Rightarrow> u8 \<Rightarrow> (string option \<times> string option \<times> string option \<times> string option) option \<times> reader" where
  "ReadNodePaths r flags =
     (case ReadOptionalPath r flags kNodeHasMesh of
        (None, r) \<Rightarrow> (None, r)
      | (Some mesh, r) \<Rightarrow>
     (case ReadOptionalPath r flags kNodeHasMaterial of
        (None, r) \<Rightarrow> (None, r)
      | (Some material, r) \<Rightarrow>
     (case ReadOptionalPath r flags kNodeHasCollider of
        (None, r) \<Rightarrow> (None, r)
      | (Some collider, r) \<Rightarrow>
     (case ReadOptionalPath r flags kNodeHasHitbox of
        (None, r) \<Rightarrow> (None, r)
      | (Some hitbox, r) \<Rightarrow> (Some (mesh, material, collider, hitbox), r)))))"

definition DecodeSceneNode :: "nat \<Rightarrow> reader \<Rightarrow> SceneNode option \<times> reader" where
  "DecodeSceneNode node_index r =
     (case ReadString r of
        (None, r) \<Rightarrow> (None, r)
      | (Some nm, r) \<Rightarrow>
     (case ReadU32 r of
        (None, r) \<Rightarrow> (None, r)
      | (Some parent_index, r) \<Rightarrow>
     if parent_index \<noteq> kSceneNodeNoParent \<and> unat parent_index \<ge> node_index then (None, r)
     else
     (case ReadTransform r of
        (None, r) \<Rightarrow> (None, r)
      | (Some transform, r) \<Rightarrow>
     (case ReadU8 r of
        (None, r) \<Rightarrow> (None, r)
      | (Some flags, r) \<Rightarrow>
     (case ReadNodePaths r flags of
        (None, r) \<Rightarrow> (None, r)
      | (Some (mesh, material, collider, hitbox), r) \<Rightarrow>
     (case ReadProperties r of
        (None, r) \<Rightarrow> (None, r)
      | (Some props, r) \<Rightarrow>
          (Some \<lparr>sn_name = nm, sn_parent_index = parent_index,
                 sn_translation = dt_translation transform, sn_rotation = dt_rotation transform,
                 sn_scale = dt_scale transform,
                 mesh_path = mesh, material_path = material, collider_path = collider,
                 hitbox_path = hitbox,
                 is_spawn_point = (flags AND kNodeIsSpawnPoint \<noteq> 0), properties = props\<rparr>, r)))))))"

section \<open>Blobs\<close>

definition DecodeMeshBlob :: "byte list \<Rightarrow> MeshData option" where
  "DecodeMeshBlob blob =
     (case ReadU32 blob of
        (None, _) \<Rightarrow> None
      | (Some point_count, r) \<Rightarrow>
     if unat point_count > kMaxMeshPoints then None
     else
     (case ReadLoop (\<lambda>_. ReadVec3) 0 (unat point_count) r of
        (None, _) \<Rightarrow> None
      | (Some pts, r) \<Rightarrow>
     (case ReadU32 r of
        (None, _) \<Rightarrow> None
      | (Some index_count, r) \<Rightarrow>
     if unat index_count > kMaxMeshIndices then None
     else if unat index_count mod 3 \<noteq> 0 then None
     else
     (case ReadLoop (\<lambda>_. ReadMeshIndex (length pts)) 0 (unat index_count) r of
        (None, _) \<Rightarrow> None
      | (Some idx, _) \<Rightarrow> Some \<lparr>points = pts, indices = idx\<rparr>))))"

definition DecodeSceneBlob :: "byte list \<Rightarrow> SceneData option" where
  "DecodeSceneBlob blob =
     (case ReadU32 blob of
        (None, _) \<Rightarrow> None
      | (Some node_count, r) \<Rightarrow>
          if unat node_count > kMaxSceneNodes then None
          else (case ReadLoop DecodeSceneNode 0 (unat node_count) r of
                  (None, _) \<Rightarrow> None
                | (Some ns, _) \<Rightarrow> Some \<lparr>nodes = ns\<rparr>))"

definition DecodeTextureBlob :: "byte list \<Rightarrow> TextureData option" where
  "DecodeTextureBlob blob =
     (case ReadU32 blob of
        (None, _) \<Rightarrow> None
      | (Some ktx2_size, r) \<Rightarrow>
     if unat ktx2_size > kMaxTextureBytes then None
     else
     (case ReadBytes r (unat ktx2_size) of
        (None, _) \<Rightarrow> None
      | (Some ktx2, _) \<Rightarrow>
     (case ReadBytes ktx2 (length kKtx2Identifier) of
        (None, _) \<Rightarrow> None
      | (Some identifier, header) \<Rightarrow>
     if identifier \<noteq> kKtx2Identifier then None
     else
     (case ReadU32 header of
        (None, _) \<Rightarrow> None
      | (Some vk_format, _) \<Rightarrow>
     (case ToTextureFormat vk_format of
        None \<Rightarrow> None
      | Some fmt \<Rightarrow> Some \<lparr>ktx2_bytes = ktx2, tx_format = fmt\<rparr>)))))"

definition DecodeSpawnPointBlob :: "byte list \<Rightarrow> SpawnPointData option" where
  "DecodeSpawnPointBlob blob =
     (let (translation, r) = ReadVec3 blob;
          (rotation, r) = ReadQuat r
      in case (translation, rotation) of
           (Some translation, Some rotation) \<Rightarrow>
             Some \<lparr>sp_translation = translation, sp_rotation = rotation\<rparr>
         | _ \<Rightarrow> None)"

definition DecodeHitboxBlob :: "byte list \<Rightarrow> HitboxData option" where
  "DecodeHitboxBlob blob =
     (case ReadU8 blob of
        (None, _) \<Rightarrow> None
      | (Some part, r) \<Rightarrow>
     if part > body_part_byte kLimb then None
     else
     (case ReadString r of
        (None, _) \<Rightarrow> None
      | (Some joint, r) \<Rightarrow>
     (case DecodeMeshBlob (fst (ReadRest r)) of
        None \<Rightarrow> None
      | Some mesh \<Rightarrow> Some \<lparr>hb_part = body_part_of_byte part, hb_joint = joint, hb_mesh = mesh\<rparr>)))"

text \<open>\<open>DecodeSkeletonBlob\<close>'s loop body: all three fields are read before any is checked.\<close>

definition ReadJoint :: "nat \<Rightarrow> reader \<Rightarrow> JointData option \<times> reader" where
  "ReadJoint index r =
     (let (nm, r) = ReadString r;
          (parent, r) = ReadU32 r;
          (transform, r) = ReadTransform r
      in case (nm, parent, transform) of
           (Some nm, Some parent, Some transform) \<Rightarrow>
             if parent \<noteq> kJointNoParent \<and> unat parent \<ge> index then (None, r)
             else (Some \<lparr>jd_name = nm, jd_parent = parent,
                         jd_translation = dt_translation transform,
                         jd_rotation = dt_rotation transform,
                         jd_scale = dt_scale transform\<rparr>, r)
         | _ \<Rightarrow> (None, r))"

definition DecodeSkeletonBlob :: "byte list \<Rightarrow> SkeletonData option" where
  "DecodeSkeletonBlob blob =
     (case ReadU32 blob of
        (None, _) \<Rightarrow> None
      | (Some count, r) \<Rightarrow>
          if unat count > kMaxJoints then None
          else (case ReadLoop ReadJoint 0 (unat count) r of
                  (None, _) \<Rightarrow> None
                | (Some js, _) \<Rightarrow> Some \<lparr>joints = js\<rparr>))"

definition DecodeEyeBlob :: "byte list \<Rightarrow> EyeData option" where
  "DecodeEyeBlob blob =
     (case ReadVec3 blob of (None, _) \<Rightarrow> None | (Some position, _) \<Rightarrow> Some \<lparr>eye_position = position\<rparr>)"

definition ReadMarker :: "reader \<Rightarrow> RifleMarker option \<times> reader" where
  "ReadMarker r =
     (let (translation, r) = ReadVec3 r;
          (rotation, r) = ReadQuat r
      in case (translation, rotation) of
           (Some translation, Some rotation) \<Rightarrow>
             (Some \<lparr>rm_translation = translation, rm_rotation = rotation\<rparr>, r)
         | _ \<Rightarrow> (None, r))"

text \<open>The loop over the four markers, in their order.\<close>

definition DecodeRifleBlob :: "byte list \<Rightarrow> RifleData option" where
  "DecodeRifleBlob blob =
     (case ReadLoop (\<lambda>_. ReadMarker) 0 4 blob of
        (Some [g, m, s, f], _) \<Rightarrow> Some \<lparr>grip = g, muzzle = m, sight = s, fore_end = f\<rparr>
      | _ \<Rightarrow> None)"

definition DecodeWeaponSocketBlob :: "byte list \<Rightarrow> WeaponSocketData option" where
  "DecodeWeaponSocketBlob blob =
     (let (right, r) = ReadString blob;
          (translation, r) = ReadVec3 r;
          (rotation, r) = ReadQuat r;
          (left, r) = ReadString r
      in case (right, translation, rotation, left) of
           (Some right, Some translation, Some rotation, Some left) \<Rightarrow>
             Some \<lparr>right_hand = right, ws_translation = translation, ws_rotation = rotation,
                   left_hand = left\<rparr>
         | _ \<Rightarrow> None)"

definition DecodeScriptBlob :: "byte list \<Rightarrow> string option" where
  "DecodeScriptBlob blob =
     (if length blob > kMaxScriptBytes then None else Some (map char_of_byte blob))"

definition DecodeCharactersBlob :: "byte list \<Rightarrow> string list option" where
  "DecodeCharactersBlob blob =
     (case ReadU32 blob of
        (None, _) \<Rightarrow> None
      | (Some count, r) \<Rightarrow>
          if unat count > kMaxCharacters then None
          else fst (ReadLoop (\<lambda>_. ReadString) 0 (unat count) r))"

definition DecodeAudioBlob :: "byte list \<Rightarrow> AudioData option" where
  "DecodeAudioBlob blob =
     (let (rate, r) = ReadU32 blob;
          (bits, r) = ReadU8 r;
          (sz, r) = ReadU32 r
      in case (rate, bits, sz) of
           (Some rate, Some bits, Some sz) \<Rightarrow>
             if unat sz > kMaxAudioBytes then None
             else if bits \<notin> set kPcmBitsPerSample then None
             else if unat sz mod (unat bits div kBitsPerByte) \<noteq> 0 then None
             else (case ReadBytes r (unat sz) of
                     (None, _) \<Rightarrow> None
                   | (Some bytes, _) \<Rightarrow>
                       Some \<lparr>sample_rate = rate, bits_per_sample = bits, samples = bytes\<rparr>)
         | _ \<Rightarrow> None)"

definition DecodeCueSoundBlob :: "byte list \<Rightarrow> CueSoundData option" where
  "DecodeCueSoundBlob blob =
     (let (gain, r) = ReadF32 blob;
          (count, r) = ReadU32 r
      in case (gain, count) of
           (Some gain, Some count) \<Rightarrow>
             if \<not> f32_isfinite gain \<or> count = 0 \<or> unat count > kMaxCueVariants then None
             else (case ReadLoop (\<lambda>_. ReadString) 0 (unat count) r of
                     (None, _) \<Rightarrow> None
                   | (Some vs, _) \<Rightarrow> Some \<lparr>gain_db = gain, variants = vs\<rparr>)
         | _ \<Rightarrow> None)"

definition DecodeAnimationSkeletonBlob :: "byte list \<Rightarrow> byte list option" where
  "DecodeAnimationSkeletonBlob blob = (if length blob > kMaxArchiveBytes then None else Some blob)"

definition ReadFootContact :: "reader \<Rightarrow> FootContact option \<times> reader" where
  "ReadFootContact r =
     (let (foot, r) = ReadU8 r;
          (ratio, r) = ReadF32 r
      in case (foot, ratio) of
           (Some foot, Some ratio) \<Rightarrow>
             if foot > foot_byte kRight \<or> \<not> IsValidFootContactRatio ratio then (None, r)
             else (Some \<lparr>fc_foot = foot_of_byte foot, fc_ratio = ratio\<rparr>, r)
         | _ \<Rightarrow> (None, r))"

definition DecodeClipBlob :: "byte list \<Rightarrow> ClipData option" where
  "DecodeClipBlob blob =
     (let (stride, r) = ReadF32 blob;
          (count, r) = ReadU8 r
      in case (stride, count) of
           (Some stride, Some count) \<Rightarrow>
             if \<not> IsValidStrideLength stride then None
             else (case ReadLoop (\<lambda>_. ReadFootContact) 0 (unat count) r of
                     (None, _) \<Rightarrow> None
                   | (Some contacts, r) \<Rightarrow>
                       (let arch = fst (ReadRest r)
                        in if length arch > kMaxArchiveBytes then None
                           else Some \<lparr>stride_length = stride, foot_contacts = contacts, archive = arch\<rparr>))
         | _ \<Rightarrow> None)"

definition DecodeStanceTransitionsBlob :: "byte list \<Rightarrow> StanceTransitionsData option" where
  "DecodeStanceTransitionsBlob blob =
     (let (sc, r) = ReadF32 blob;
          (sp, r) = ReadF32 r;
          (cp, r) = ReadF32 r
      in case (sc, sp, cp) of
           (Some sc, Some sp, Some cp) \<Rightarrow>
             if fst (ReadRest r) \<noteq> [] \<or> \<not> IsValidTransitionDuration sc \<or>
                \<not> IsValidTransitionDuration sp \<or> \<not> IsValidTransitionDuration cp
             then None
             else Some \<lparr>standing_crouching = sc, standing_prone = sp, crouching_prone = cp\<rparr>
         | _ \<Rightarrow> None)"

end
