(* ===== verification/Blob_Codec.thy ===== *)
theory Blob_Codec
  imports Blob_Encoder Blob_Decoder
begin

text \<open>
  What the encoders and the decoders are to each other. Each encoder is first put in
  closed form (the bytes it gives, and when it refuses); then every decoder is shown to
  accept exactly the encodings of its valid values, followed by bytes it ignores or, for
  a blob that fixes its own end, by nothing.
\<close>

section \<open>Closed forms of the encoders\<close>

abbreviation count_bytes :: "nat \<Rightarrow> byte list" where
  "count_bytes n \<equiv> le_bytes 4 (word_of_nat n :: u32)"

lemma unat_count: "n \<le> m \<Longrightarrow> m < 2 ^ 32 \<Longrightarrow> unat (word_of_nat n :: u32) = n"
  by (simp add: unat_of_nat)

definition mesh_bytes :: "MeshData \<Rightarrow> byte list" where
  "mesh_bytes m = count_bytes (length (points m)) @ concat (map vec3_bytes (points m)) @
     count_bytes (length (indices m)) @ concat (map (le_bytes 4) (indices m))"

definition mesh_fits :: "MeshData \<Rightarrow> bool" where
  "mesh_fits m \<longleftrightarrow> length (points m) \<le> kMaxMeshPoints \<and> length (indices m) \<le> kMaxMeshIndices"

text \<open>A triangle list whose indices address its points.\<close>

definition mesh_valid :: "MeshData \<Rightarrow> bool" where
  "mesh_valid m \<longleftrightarrow> length (indices m) mod 3 = 0 \<and> (\<forall>i \<in> set (indices m). unat i < length (points m))"

lemma foldl_WriteVec3: "foldl WriteVec3 data vs = data @ concat (map vec3_bytes vs)"
  by (rule foldl_append_concat) (rule WriteVec3_eq)

lemma foldl_WriteU32: "foldl WriteU32 data is = data @ concat (map (le_bytes 4) is)"
  by (rule foldl_append_concat) (rule WriteU32_def)

lemma EncodeMeshBlob_eq:
  "EncodeMeshBlob m = (if mesh_fits m then Inr (mesh_bytes m) else Inl kTooLarge)"
  by (auto simp: EncodeMeshBlob_def mesh_fits_def mesh_bytes_def foldl_WriteVec3 foldl_WriteU32
      WriteU32_def Let_def)

definition node_bytes :: "SceneNode \<Rightarrow> byte list" where
  "node_bytes node =
     string_bytes (sn_name node) @ le_bytes 4 (sn_parent_index node) @
     vec3_bytes (sn_translation node) @ quat_bytes (sn_rotation node) @ vec3_bytes (sn_scale node) @
     [node_flags_of node] @
     path_bytes (mesh_path node) @ path_bytes (material_path node) @
     path_bytes (collider_path node) @ path_bytes (hitbox_path node) @
     count_bytes (length (properties node)) @ concat (map property_bytes (properties node))"

definition node_fits :: "SceneNode \<Rightarrow> bool" where
  "node_fits node \<longleftrightarrow> short_string (sn_name node) \<and>
     pred_option short_string (mesh_path node) \<and> pred_option short_string (material_path node) \<and>
     pred_option short_string (collider_path node) \<and> pred_option short_string (hitbox_path node) \<and>
     length (properties node) \<le> kMaxProperties \<and> list_all short_property (properties node)"

lemma WriteProperty_eq:
  "WriteProperty p data =
     (if short_property p then Inr (data @ property_bytes p) else Inl kTooLarge)"
  by (simp add: WriteProperty_def WriteString_eq short_property_def property_bytes_def)

lemma WriteNodePaths_eq:
  "WriteNodePaths data node =
     (if list_all (pred_option short_string)
           [mesh_path node, material_path node, collider_path node, hitbox_path node]
      then Inr (data @ path_bytes (mesh_path node) @ path_bytes (material_path node) @
             path_bytes (collider_path node) @ path_bytes (hitbox_path node))
      else Inl kTooLarge)"
  unfolding WriteNodePaths_def
  by (subst for_each_write [where enc = path_bytes and ok = "pred_option short_string" and e = kTooLarge])
    (simp_all add: WriteOptionalPath_eq)

lemma EncodeSceneNode_eq:
  "EncodeSceneNode node data =
     (if node_fits node then Inr (data @ node_bytes node) else Inl kTooLarge)"
  by (simp add: EncodeSceneNode_def WriteNodePaths_eq write_eqs node_fits_def node_bytes_def
      for_each_write [where body = WriteProperty, OF WriteProperty_eq])

definition scene_bytes :: "SceneData \<Rightarrow> byte list" where
  "scene_bytes s = count_bytes (length (nodes s)) @ concat (map node_bytes (nodes s))"

definition scene_fits :: "SceneData \<Rightarrow> bool" where
  "scene_fits s \<longleftrightarrow> length (nodes s) \<le> kMaxSceneNodes \<and> list_all node_fits (nodes s)"

lemma EncodeSceneBlob_eq:
  "EncodeSceneBlob s = (if scene_fits s then Inr (scene_bytes s) else Inl kTooLarge)"
  by (simp add: EncodeSceneBlob_def scene_fits_def scene_bytes_def WriteU32_def
      for_each_write [where body = EncodeSceneNode, OF EncodeSceneNode_eq])

definition joint_bytes :: "JointData \<Rightarrow> byte list" where
  "joint_bytes j = string_bytes (jd_name j) @ le_bytes 4 (jd_parent j) @
     vec3_bytes (jd_translation j) @ quat_bytes (jd_rotation j) @ vec3_bytes (jd_scale j)"

lemma WriteJoint_eq:
  "WriteJoint j data =
     (if short_string (jd_name j) then Inr (data @ joint_bytes j) else Inl kTooLarge)"
  by (simp add: WriteJoint_def write_eqs joint_bytes_def)

definition skeleton_bytes :: "SkeletonData \<Rightarrow> byte list" where
  "skeleton_bytes s = count_bytes (length (joints s)) @ concat (map joint_bytes (joints s))"

definition skeleton_fits :: "SkeletonData \<Rightarrow> bool" where
  "skeleton_fits s \<longleftrightarrow> length (joints s) \<le> kMaxJoints \<and> list_all (\<lambda>j. short_string (jd_name j)) (joints s)"

lemma EncodeSkeletonBlob_eq:
  "EncodeSkeletonBlob s = (if skeleton_fits s then Inr (skeleton_bytes s) else Inl kTooLarge)"
  by (simp add: EncodeSkeletonBlob_def skeleton_fits_def skeleton_bytes_def WriteU32_def
      for_each_write [where body = WriteJoint, OF WriteJoint_eq])

definition string_list_bytes :: "string list \<Rightarrow> byte list" where
  "string_list_bytes ss = count_bytes (length ss) @ concat (map string_bytes ss)"

lemma for_each_WriteListString:
  "for_each WriteListString ss data =
     (if list_all short_string ss then Inr (data @ concat (map string_bytes ss)) else Inl kTooLarge)"
  by (rule for_each_write) (simp add: WriteListString_def WriteString_eq)

definition contact_bytes :: "FootContact \<Rightarrow> byte list" where
  "contact_bytes c = [foot_byte (fc_foot c)] @ le_bytes 4 (fc_ratio c)"

lemma foldl_WriteFootContact: "foldl WriteFootContact data cs = data @ concat (map contact_bytes cs)"
  by (rule foldl_append_concat) (simp add: WriteFootContact_def contact_bytes_def write_eqs)

definition marker_bytes :: "RifleMarker \<Rightarrow> byte list" where
  "marker_bytes m = vec3_bytes (rm_translation m) @ quat_bytes (rm_rotation m)"

lemma foldl_WriteMarker: "foldl WriteMarker data ms = data @ concat (map marker_bytes ms)"
  by (rule foldl_append_concat) (simp add: WriteMarker_def marker_bytes_def write_eqs)

section \<open>The composite reads are codecs\<close>

lemma ReadTransform_bytes [wire_simps]:
  "ReadTransform (vec3_bytes t @ quat_bytes q @ vec3_bytes s @ rest) =
     (Some \<lparr>dt_translation = t, dt_rotation = q, dt_scale = s\<rparr>, rest)"
  by (simp add: ReadTransform_def wire_simps)

lemma ReadTransform_SomeD:
  "ReadTransform r = (Some t, r') \<Longrightarrow>
   r = vec3_bytes (dt_translation t) @ quat_bytes (dt_rotation t) @ vec3_bytes (dt_scale t) @ r'"
  by (auto simp: ReadTransform_def dest!: ReadVec3_SomeD ReadQuat_SomeD split: prod.splits option.splits)

definition joint_ok :: "nat \<Rightarrow> JointData \<Rightarrow> bool" where
  "joint_ok index j \<longleftrightarrow> short_string (jd_name j) \<and> (jd_parent j = 0xFFFFFFFF \<or> unat (jd_parent j) < index)"

interpretation joint_codec: indexed_codec joint_bytes ReadJoint joint_ok
  by unfold_locales
    (auto simp: ReadJoint_def joint_bytes_def joint_ok_def kJointNoParent_def wire_simps
      dest!: ReadString_SomeD ReadU32_SomeD ReadTransform_SomeD split: prod.splits option.splits if_splits)

interpretation marker_codec: wire_codec marker_bytes ReadMarker "\<lambda>_. True"
  by unfold_locales
    (auto simp: ReadMarker_def marker_bytes_def wire_simps
      dest!: ReadVec3_SomeD ReadQuat_SomeD split: prod.splits option.splits)

interpretation contact_codec: wire_codec contact_bytes ReadFootContact "\<lambda>c. IsValidFootContactRatio (fc_ratio c)"
  by unfold_locales
    (auto simp: ReadFootContact_def contact_bytes_def wire_simps foot_byte_le not_less foot_byte_of_byte
        simp del: foot_byte.simps
      dest!: ReadU8_SomeD ReadF32_SomeD split: prod.splits option.splits if_splits)

section \<open>Meshes and hitboxes\<close>

lemma DecodeMeshBlob_bytes:
  assumes "mesh_fits m" and "mesh_valid m"
  shows "DecodeMeshBlob (mesh_bytes m @ rest) = Some m"
proof -
  have np: "unat (word_of_nat (length (points m)) :: u32) = length (points m)"
    and ni: "unat (word_of_nat (length (indices m)) :: u32) = length (indices m)"
    using assms(1) by (auto simp: mesh_fits_def wire_limits intro: unat_count)
  have pts: "ReadLoop (\<lambda>_. ReadVec3) 0 (length (points m)) (concat (map vec3_bytes (points m)) @ r) =
      (Some (points m), r)" for r
    by (rule vec3_codec.list_enc) (simp add: list_all_length)
  have idx: "ReadLoop (\<lambda>_. ReadMeshIndex (length (points m))) 0 (length (indices m))
      (concat (map (le_bytes 4) (indices m)) @ r) = (Some (indices m), r)" for r
    using assms(2) by (intro index_codec.list_enc) (simp add: mesh_valid_def list_all_iff)
  show ?thesis using assms
    by (simp add: DecodeMeshBlob_def mesh_bytes_def wire_simps np ni pts idx mesh_fits_def mesh_valid_def)
qed

lemma DecodeMeshBlob_SomeD:
  assumes "DecodeMeshBlob blob = Some m"
  shows "mesh_fits m \<and> mesh_valid m \<and> (\<exists>rest. blob = mesh_bytes m @ rest)"
proof -
  from assms obtain pc r1 pts r2 ic r3 idx r4 where
    pc: "ReadU32 blob = (Some pc, r1)" "unat pc \<le> kMaxMeshPoints"
    and pts: "ReadLoop (\<lambda>_. ReadVec3) 0 (unat pc) r1 = (Some pts, r2)"
    and ic: "ReadU32 r2 = (Some ic, r3)" "unat ic \<le> kMaxMeshIndices" "unat ic mod 3 = 0"
    and idx: "ReadLoop (\<lambda>_. ReadMeshIndex (length pts)) 0 (unat ic) r3 = (Some idx, r4)"
    and m: "m = \<lparr>points = pts, indices = idx\<rparr>"
    by (auto simp: DecodeMeshBlob_def split: prod.splits option.splits if_splits)
  from vec3_codec.list_SomeD [OF pts] index_codec.list_SomeD [OF idx]
  show ?thesis using ReadU32_SomeD [OF pc(1)] ReadU32_SomeD [OF ic(1)] pc(2) ic(2,3)
    by (auto simp: m mesh_fits_def mesh_valid_def mesh_bytes_def list_all_iff)
qed

text \<open>
  Decoding a mesh blob succeeds exactly on the encoding of a triangle list whose
  indices address its points, with any bytes after it: what is decoded encodes back to
  the bytes read, and no other blob is accepted.
\<close>

theorem mesh_decode_exact:
  "DecodeMeshBlob blob = Some m \<longleftrightarrow>
   mesh_valid m \<and> (\<exists>enc rest. EncodeMeshBlob m = Inr enc \<and> blob = enc @ rest)"
  using DecodeMeshBlob_SomeD [of blob m]
  by (auto simp: EncodeMeshBlob_eq DecodeMeshBlob_bytes)

lemma DecodeHitboxBlob_bytes:
  assumes "mesh_fits (hb_mesh h)" and "mesh_valid (hb_mesh h)" and "short_string (hb_joint h)"
  shows "DecodeHitboxBlob ([body_part_byte (hb_part h)] @ string_bytes (hb_joint h) @
      mesh_bytes (hb_mesh h) @ rest) = Some h"
  using assms body_part_byte_le [of "hb_part h"]
  by (simp add: DecodeHitboxBlob_def wire_simps ReadRest_def DecodeMeshBlob_bytes not_less
      del: body_part_byte.simps)

lemma EncodeHitboxBlob_eq:
  "EncodeHitboxBlob h =
     (if mesh_fits (hb_mesh h) \<and> short_string (hb_joint h)
      then Inr ([body_part_byte (hb_part h)] @ string_bytes (hb_joint h) @ mesh_bytes (hb_mesh h))
      else Inl kTooLarge)"
  by (simp add: EncodeHitboxBlob_def EncodeMeshBlob_eq write_eqs)

lemma DecodeHitboxBlob_SomeD:
  assumes "DecodeHitboxBlob blob = Some h"
  shows "mesh_fits (hb_mesh h) \<and> mesh_valid (hb_mesh h) \<and> short_string (hb_joint h) \<and>
    (\<exists>rest. blob = [body_part_byte (hb_part h)] @ string_bytes (hb_joint h) @ mesh_bytes (hb_mesh h) @ rest)"
proof -
  from assms obtain part r1 joint r2 mesh where
    part: "ReadU8 blob = (Some part, r1)" "part \<le> body_part_byte kLimb"
    and joint: "ReadString r1 = (Some joint, r2)" and mesh: "DecodeMeshBlob r2 = Some mesh"
    and h: "h = \<lparr>hb_part = body_part_of_byte part, hb_joint = joint, hb_mesh = mesh\<rparr>"
    by (auto simp: DecodeHitboxBlob_def ReadRest_def not_less
        split: prod.splits option.splits if_splits simp del: body_part_byte.simps)
  show ?thesis
    using DecodeMeshBlob_SomeD [OF mesh] ReadString_SomeD [OF joint] ReadU8_SomeD [OF part(1)]
      body_part_byte_of_byte [OF part(2)]
    by (auto simp: h)
qed

text \<open>
  Decoding a hitbox blob succeeds exactly on the encoding of a hitbox with a valid
  mesh, with any bytes after it: its body part, its joint's name and its geometry come
  back as they were written.
\<close>

theorem hitbox_decode_exact:
  "DecodeHitboxBlob blob = Some h \<longleftrightarrow>
   mesh_valid (hb_mesh h) \<and> (\<exists>enc rest. EncodeHitboxBlob h = Inr enc \<and> blob = enc @ rest)"
proof
  assume "DecodeHitboxBlob blob = Some h"
  from DecodeHitboxBlob_SomeD [OF this] show
    "mesh_valid (hb_mesh h) \<and> (\<exists>enc rest. EncodeHitboxBlob h = Inr enc \<and> blob = enc @ rest)"
    by (auto simp: EncodeHitboxBlob_eq)
next
  assume "mesh_valid (hb_mesh h) \<and> (\<exists>enc rest. EncodeHitboxBlob h = Inr enc \<and> blob = enc @ rest)"
  then show "DecodeHitboxBlob blob = Some h"
    using DecodeHitboxBlob_bytes [of h] by (auto simp: EncodeHitboxBlob_eq split: if_splits)
qed

section \<open>Skeletons\<close>

lemma DecodeSkeletonBlob_bytes:
  assumes "skeleton_fits s" and "parents_first (map jd_parent (joints s))"
  shows "DecodeSkeletonBlob (skeleton_bytes s @ rest) = Some s"
proof -
  have n: "unat (word_of_nat (length (joints s)) :: u32) = length (joints s)"
    using assms(1) by (auto simp: skeleton_fits_def kMaxJoints_def intro: unat_count)
  have loop: "ReadLoop ReadJoint 0 (length (joints s)) (concat (map joint_bytes (joints s)) @ rest) =
      (Some (joints s), rest)"
    using assms by (intro joint_codec.loop_enc)
      (auto simp: joint_ok_def skeleton_fits_def parents_first_def list_all_length)
  show ?thesis using assms(1)
    by (simp add: DecodeSkeletonBlob_def skeleton_bytes_def skeleton_fits_def wire_simps n loop)
qed

lemma DecodeSkeletonBlob_SomeD:
  assumes "DecodeSkeletonBlob blob = Some s"
  shows "skeleton_fits s \<and> parents_first (map jd_parent (joints s)) \<and> (\<exists>rest. blob = skeleton_bytes s @ rest)"
proof -
  from assms obtain count r1 js r2 where
    count: "ReadU32 blob = (Some count, r1)" "unat count \<le> kMaxJoints"
    and js: "ReadLoop ReadJoint 0 (unat count) r1 = (Some js, r2)" and s: "s = \<lparr>joints = js\<rparr>"
    by (auto simp: DecodeSkeletonBlob_def split: prod.splits option.splits if_splits)
  from joint_codec.loop_SomeD [OF js]
  show ?thesis using ReadU32_SomeD [OF count(1)] count(2)
    by (auto simp: s skeleton_fits_def skeleton_bytes_def parents_first_def joint_ok_def list_all_length)
qed

text \<open>
  Decoding a skeleton blob succeeds exactly on the encoding of a skeleton that lists
  each joint's parent before it, with any bytes after it.
\<close>

theorem skeleton_decode_exact:
  "DecodeSkeletonBlob blob = Some s \<longleftrightarrow>
   parents_first (map jd_parent (joints s)) \<and> (\<exists>enc rest. EncodeSkeletonBlob s = Inr enc \<and> blob = enc @ rest)"
  using DecodeSkeletonBlob_SomeD [of blob s]
  by (auto simp: EncodeSkeletonBlob_eq DecodeSkeletonBlob_bytes split: if_splits)

section \<open>Scene graphs\<close>

definition node_ok :: "nat \<Rightarrow> SceneNode \<Rightarrow> bool" where
  "node_ok index node \<longleftrightarrow>
     node_fits node \<and> (sn_parent_index node = 0xFFFFFFFF \<or> unat (sn_parent_index node) < index)"

lemma node_flags_of_bits:
  "node_flags_of node AND kNodeHasMesh = 0 \<longleftrightarrow> mesh_path node = None"
  "node_flags_of node AND kNodeHasMaterial = 0 \<longleftrightarrow> material_path node = None"
  "node_flags_of node AND kNodeHasCollider = 0 \<longleftrightarrow> collider_path node = None"
  "node_flags_of node AND kNodeHasHitbox = 0 \<longleftrightarrow> hitbox_path node = None"
  "node_flags_of node AND kNodeIsSpawnPoint = 0 \<longleftrightarrow> \<not> is_spawn_point node"
  by (cases "mesh_path node"; cases "material_path node"; cases "collider_path node";
      cases "hitbox_path node"; cases "is_spawn_point node";
      simp add: node_flags_of_def node_flags)+

lemma ReadOptionalPath_bytes:
  assumes "pred_option short_string p" and "flags AND flag = 0 \<longleftrightarrow> p = None"
  shows "ReadOptionalPath (path_bytes p @ rest) flags flag = (Some p, rest)"
  using assms by (cases p) (simp_all add: ReadOptionalPath_def path_bytes_def wire_simps)

lemma ReadNodePaths_bytes:
  assumes "node_fits node"
  shows "ReadNodePaths (path_bytes (mesh_path node) @ path_bytes (material_path node) @
      path_bytes (collider_path node) @ path_bytes (hitbox_path node) @ rest) (node_flags_of node) =
    (Some (mesh_path node, material_path node, collider_path node, hitbox_path node), rest)"
  using assms by (simp add: ReadNodePaths_def ReadOptionalPath_bytes node_flags_of_bits node_fits_def)

lemma ReadProperties_bytes:
  assumes "length ps \<le> kMaxProperties" and "list_all short_property ps"
  shows "ReadProperties (count_bytes (length ps) @ concat (map property_bytes ps) @ rest) = (Some ps, rest)"
proof -
  have "unat (word_of_nat (length ps) :: u32) = length ps"
    using assms(1) by (auto simp: kMaxProperties_def intro: unat_count)
  with assms show ?thesis
    by (simp add: ReadProperties_def wire_simps property_codec.list_enc)
qed

lemma DecodeSceneNode_bytes:
  assumes "node_ok index node"
  shows "DecodeSceneNode index (node_bytes node @ rest) = (Some node, rest)"
  using assms
  by (auto simp: DecodeSceneNode_def node_bytes_def node_ok_def wire_simps kSceneNodeNoParent_def
      ReadNodePaths_bytes ReadProperties_bytes node_flags_of_bits node_fits_def not_le)

interpretation node_reader: indexed_reader node_bytes DecodeSceneNode node_ok
  by unfold_locales (rule DecodeSceneNode_bytes)

lemma DecodeSceneBlob_bytes:
  assumes "scene_fits s" and "parents_first (map sn_parent_index (nodes s))"
  shows "DecodeSceneBlob (scene_bytes s @ rest) = Some s"
proof -
  have n: "unat (word_of_nat (length (nodes s)) :: u32) = length (nodes s)"
    using assms(1) by (auto simp: scene_fits_def kMaxSceneNodes_def intro: unat_count)
  have loop: "ReadLoop DecodeSceneNode 0 (length (nodes s)) (concat (map node_bytes (nodes s)) @ rest) =
      (Some (nodes s), rest)"
    using assms by (intro node_reader.loop_enc)
      (auto simp: node_ok_def scene_fits_def parents_first_def list_all_length)
  show ?thesis using assms(1)
    by (simp add: DecodeSceneBlob_def scene_bytes_def scene_fits_def wire_simps n loop)
qed

lemma DecodeSceneNode_parent:
  "DecodeSceneNode index r = (Some node, r') \<Longrightarrow>
   sn_parent_index node = 0xFFFFFFFF \<or> unat (sn_parent_index node) < index"
  by (auto simp: DecodeSceneNode_def kSceneNodeNoParent_def
      split: prod.splits option.splits if_splits)

lemma DecodeSceneBlob_parents_first:
  assumes "DecodeSceneBlob blob = Some s"
  shows "parents_first (map sn_parent_index (nodes s))"
proof -
  from assms obtain n r r' where "ReadLoop DecodeSceneNode 0 n r = (Some (nodes s), r')"
    by (auto simp: DecodeSceneBlob_def split: prod.splits option.splits if_splits)
  from ReadLoop_SomeD [OF this] show ?thesis
    by (fastforce simp: parents_first_def dest: DecodeSceneNode_parent)
qed

text \<open>
  C31: A scene graph survives encoding and decoding unchanged - every name, transform,
  optional path, spawn-point mark and property - if its nodes are listed parents first.
\<close>

theorem scene_round_trip:
  assumes "EncodeSceneBlob s = Inr blob" and "parents_first (map sn_parent_index (nodes s))"
  shows "DecodeSceneBlob (blob @ rest) = Some s"
  using assms DecodeSceneBlob_bytes by (auto simp: EncodeSceneBlob_eq split: if_splits)

definition example_vec :: vec3 where
  "example_vec = \<lparr>vx = 0x3F800000, vy = 0, vz = 0xBF800000\<rparr>"

definition example_quat :: quat where
  "example_quat = \<lparr>qw = 0x3F800000, qx = 0, qy = 0, qz = 0\<rparr>"

definition example_node :: "u32 \<Rightarrow> SceneNode" where
  "example_node parent =
     \<lparr>sn_name = ''crate'', sn_parent_index = parent, sn_translation = example_vec,
      sn_rotation = example_quat, sn_scale = example_vec, mesh_path = Some ''Geom/Crate'',
      material_path = None, collider_path = Some ''Geom/Hull'', hitbox_path = None,
      is_spawn_point = True, properties = [(''script'', ''door.lua'')]\<rparr>"

definition example_scene :: SceneData where
  "example_scene = \<lparr>nodes = [example_node 0xFFFFFFFF, example_node 0]\<rparr>"

lemma example_scene_fits: "scene_fits example_scene"
  by (simp add: example_scene_def example_node_def scene_fits_def node_fits_def short_string_def
      short_property_def wire_limits)

theorem scene_round_trip_witness:
  "EncodeSceneBlob example_scene = Inr (scene_bytes example_scene) \<and>
   DecodeSceneBlob (scene_bytes example_scene @ [0]) = Some example_scene"
proof -
  have enc: "EncodeSceneBlob example_scene = Inr (scene_bytes example_scene)"
    by (simp add: EncodeSceneBlob_eq example_scene_fits)
  have pf: "parents_first (map sn_parent_index (nodes example_scene))"
    by (simp add: parents_first_def example_scene_def example_node_def less_Suc_eq)
  show ?thesis using enc scene_round_trip [OF enc pf, of "[0]"] by simp
qed

text \<open>
  C32: A decoded scene's world transforms can be composed in one forward pass: no parent
  index reaches a transform not computed yet, there is one transform per node, and each
  is its own local matrix or its parent's world matrix times it.
\<close>

theorem decoded_scene_transforms:
  assumes "DecodeSceneBlob blob = Some s"
  shows "\<exists>world. ComputeWorldTransforms to_mat4 mul s = Some world \<and> length world = length (nodes s) \<and>
    (\<forall>k < length (nodes s). world ! k =
       (let node = nodes s ! k;
            loc = to_mat4 (sn_translation node) (sn_rotation node) (sn_scale node)
        in if sn_parent_index node = kSceneNodeNoParent then loc
           else mul (world ! unat (sn_parent_index node)) loc))"
proof -
  let ?ls = "map (\<lambda>node. (sn_parent_index node,
      to_mat4 (sn_translation node) (sn_rotation node) (sn_scale node))) (nodes s)"
  have "parents_first (map fst ?ls)"
    using DecodeSceneBlob_parents_first [OF assms] by (simp add: comp_def)
  from compose_transforms_total [OF this, of mul] show ?thesis
    by (simp add: ComputeWorldTransforms_def kSceneNodeNoParent_def Let_def)
qed

theorem decoded_scene_transforms_witness:
  "\<exists>world. ComputeWorldTransforms (\<lambda>t r s. vx t) (+) example_scene = Some world \<and> length world = 2"
proof -
  have "DecodeSceneBlob (scene_bytes example_scene @ []) = Some example_scene"
    by (intro DecodeSceneBlob_bytes example_scene_fits)
      (simp add: parents_first_def example_scene_def example_node_def less_Suc_eq)
  from decoded_scene_transforms [OF this, of "\<lambda>t r s. vx t" "(+)"]
  show ?thesis by (auto simp: example_scene_def)
qed

section \<open>Clips and stance transitions\<close>

definition clip_fits :: "ClipData \<Rightarrow> bool" where
  "clip_fits c \<longleftrightarrow> length (archive c) \<le> kMaxArchiveBytes \<and> length (foot_contacts c) \<le> kMaxFootContacts"

definition clip_valid :: "ClipData \<Rightarrow> bool" where
  "clip_valid c \<longleftrightarrow> IsValidStrideLength (stride_length c) \<and>
     list_all (\<lambda>contact. IsValidFootContactRatio (fc_ratio contact)) (foot_contacts c)"

definition clip_bytes :: "ClipData \<Rightarrow> byte list" where
  "clip_bytes c = le_bytes 4 (stride_length c) @ [word_of_nat (length (foot_contacts c))] @
     concat (map contact_bytes (foot_contacts c)) @ archive c"

lemma EncodeClipBlob_eq:
  "EncodeClipBlob c =
     (if \<not> clip_fits c then Inl kTooLarge
      else if \<not> clip_valid c then Inl kInvalidAnimation
      else Inr (clip_bytes c))"
  by (auto simp: EncodeClipBlob_def clip_fits_def clip_valid_def clip_bytes_def
      foldl_WriteFootContact write_eqs)

lemma DecodeClipBlob_bytes:
  assumes "clip_fits c" and "clip_valid c"
  shows "DecodeClipBlob (clip_bytes c) = Some c"
proof -
  have n: "unat (word_of_nat (length (foot_contacts c)) :: u8) = length (foot_contacts c)"
    using assms(1) by (simp add: clip_fits_def kMaxFootContacts_def unat_of_nat)
  show ?thesis using assms
    by (simp add: DecodeClipBlob_def clip_bytes_def clip_fits_def clip_valid_def wire_simps
        n contact_codec.list_enc ReadRest_def)
qed

lemma DecodeClipBlob_SomeD:
  assumes "DecodeClipBlob blob = Some c"
  shows "clip_fits c \<and> clip_valid c \<and> blob = clip_bytes c"
proof -
  from assms obtain stride r1 count r2 cs r3 where
    stride: "ReadF32 blob = (Some stride, r1)" "IsValidStrideLength stride"
    and count: "ReadU8 r1 = (Some count, r2)"
    and cs: "ReadLoop (\<lambda>_. ReadFootContact) 0 (unat count) r2 = (Some cs, r3)"
    and arch: "length r3 \<le> kMaxArchiveBytes"
    and c: "c = \<lparr>stride_length = stride, foot_contacts = cs, archive = r3\<rparr>"
    by (auto simp: DecodeClipBlob_def ReadRest_def Let_def split: prod.splits option.splits if_splits)
  have "unat count < 256" using unsigned_less [of count] by simp
  with contact_codec.list_SomeD [OF cs] ReadF32_SomeD [OF stride(1)] ReadU8_SomeD [OF count]
  show ?thesis using stride(2) arch
    by (auto simp: c clip_fits_def clip_valid_def clip_bytes_def kMaxFootContacts_def)
qed

text \<open>
  The clip codec is exact in both directions: a blob decodes to a clip if and only if
  it is that clip's encoding, so what the encoder refuses - a stride length or a contact
  ratio out of its range, too many contacts, an archive too long - the decoder never
  gives, and the other way around.
\<close>

theorem clip_codec_exact:
  "DecodeClipBlob blob = Some c \<longleftrightarrow> EncodeClipBlob c = Inr blob"
  using DecodeClipBlob_SomeD [of blob c] DecodeClipBlob_bytes [of c]
  by (auto simp: EncodeClipBlob_eq split: if_splits)

lemma EncodeStanceTransitionsBlob_eq:
  "EncodeStanceTransitionsBlob t =
     (if IsValidTransitionDuration (standing_crouching t) \<and> IsValidTransitionDuration (standing_prone t) \<and>
         IsValidTransitionDuration (crouching_prone t)
      then Inr (le_bytes 4 (standing_crouching t) @ le_bytes 4 (standing_prone t) @ le_bytes 4 (crouching_prone t))
      else Inl kInvalidAnimation)"
  by (simp add: EncodeStanceTransitionsBlob_def write_eqs)

lemma DecodeStanceTransitionsBlob_SomeD:
  "DecodeStanceTransitionsBlob blob = Some t \<Longrightarrow> EncodeStanceTransitionsBlob t = Inr blob"
  by (auto simp: DecodeStanceTransitionsBlob_def EncodeStanceTransitionsBlob_eq ReadRest_def
      dest!: ReadF32_SomeD split: prod.splits option.splits if_splits)

text \<open>The stance-transition codec is exact in both directions, trailing bytes refused.\<close>

theorem transitions_codec_exact:
  "DecodeStanceTransitionsBlob blob = Some t \<longleftrightarrow> EncodeStanceTransitionsBlob t = Inr blob"
proof
  assume "EncodeStanceTransitionsBlob t = Inr blob"
  then show "DecodeStanceTransitionsBlob blob = Some t"
    by (auto simp: EncodeStanceTransitionsBlob_eq DecodeStanceTransitionsBlob_def wire_simps ReadRest_def
        split: if_splits)
qed (rule DecodeStanceTransitionsBlob_SomeD)

section \<open>Sounds and lists of names\<close>

lemma EncodeCharactersBlob_eq:
  "EncodeCharactersBlob cs =
     (if length cs \<le> kMaxCharacters \<and> list_all short_string cs then Inr (string_list_bytes cs)
      else Inl kTooLarge)"
  by (simp add: EncodeCharactersBlob_def for_each_WriteListString write_eqs string_list_bytes_def)

lemma DecodeCharactersBlob_SomeD:
  assumes "DecodeCharactersBlob blob = Some cs"
  shows "length cs \<le> kMaxCharacters \<and> list_all short_string cs \<and> (\<exists>rest. blob = string_list_bytes cs @ rest)"
proof -
  from assms obtain count r1 r2 where count: "ReadU32 blob = (Some count, r1)" "unat count \<le> kMaxCharacters"
    and cs: "ReadLoop (\<lambda>_. ReadString) 0 (unat count) r1 = (Some cs, r2)"
    by (auto simp: DecodeCharactersBlob_def fst_def split: prod.splits option.splits if_splits)
  show ?thesis using string_codec.list_SomeD [OF cs] ReadU32_SomeD [OF count(1)] count(2)
    by (auto simp: string_list_bytes_def)
qed

lemma DecodeCharactersBlob_bytes:
  assumes "length cs \<le> kMaxCharacters" and "list_all short_string cs"
  shows "DecodeCharactersBlob (string_list_bytes cs @ rest) = Some cs"
proof -
  have "unat (word_of_nat (length cs) :: u32) = length cs"
    using assms(1) by (auto simp: kMaxCharacters_def intro: unat_count)
  with assms show ?thesis
    by (simp add: DecodeCharactersBlob_def string_list_bytes_def wire_simps string_codec.list_enc)
qed

text \<open>The character list decodes exactly from its encodings, in manifest order.\<close>

theorem characters_decode_exact:
  "DecodeCharactersBlob blob = Some cs \<longleftrightarrow>
   (\<exists>enc rest. EncodeCharactersBlob cs = Inr enc \<and> blob = enc @ rest)"
  using DecodeCharactersBlob_SomeD [of blob cs]
  by (auto simp: EncodeCharactersBlob_eq DecodeCharactersBlob_bytes split: if_splits)

definition audio_bytes :: "AudioData \<Rightarrow> byte list" where
  "audio_bytes s = le_bytes 4 (sample_rate s) @ [bits_per_sample s] @
     count_bytes (length (samples s)) @ samples s"

definition audio_ok :: "AudioData \<Rightarrow> bool" where
  "audio_ok s \<longleftrightarrow> length (samples s) \<le> kMaxAudioBytes \<and> bits_per_sample s \<in> set kPcmBitsPerSample \<and>
     length (samples s) mod (unat (bits_per_sample s) div kBitsPerByte) = 0"

lemma EncodeAudioBlob_Inr: "EncodeAudioBlob s = Inr enc \<longleftrightarrow> audio_ok s \<and> enc = audio_bytes s"
  by (auto simp: EncodeAudioBlob_def audio_ok_def audio_bytes_def write_eqs)

lemma DecodeAudioBlob_bytes:
  assumes "audio_ok s"
  shows "DecodeAudioBlob (audio_bytes s @ rest) = Some s"
proof -
  have "unat (word_of_nat (length (samples s)) :: u32) = length (samples s)"
    using assms by (auto simp: audio_ok_def kMaxAudioBytes_def intro: unat_count)
  with assms show ?thesis
    by (simp add: DecodeAudioBlob_def audio_bytes_def audio_ok_def wire_simps)
qed

lemma DecodeAudioBlob_SomeD:
  "DecodeAudioBlob blob = Some s \<Longrightarrow> audio_ok s \<and> (\<exists>rest. blob = audio_bytes s @ rest)"
  by (auto simp: DecodeAudioBlob_def audio_ok_def audio_bytes_def not_less
      dest!: ReadU32_SomeD ReadU8_SomeD ReadBytes_SomeD split: prod.splits option.splits if_splits)

definition cue_bytes :: "CueSoundData \<Rightarrow> byte list" where
  "cue_bytes s = le_bytes 4 (gain_db s) @ string_list_bytes (variants s)"

definition cue_ok :: "CueSoundData \<Rightarrow> bool" where
  "cue_ok s \<longleftrightarrow> variants s \<noteq> [] \<and> f32_isfinite (gain_db s) \<and> length (variants s) \<le> kMaxCueVariants \<and>
     list_all short_string (variants s)"

lemma EncodeCueSoundBlob_Inr: "EncodeCueSoundBlob s = Inr enc \<longleftrightarrow> cue_ok s \<and> enc = cue_bytes s"
  by (auto simp: EncodeCueSoundBlob_def cue_ok_def cue_bytes_def string_list_bytes_def
      for_each_WriteListString write_eqs)

lemma DecodeCueSoundBlob_bytes:
  assumes "cue_ok s"
  shows "DecodeCueSoundBlob (cue_bytes s @ rest) = Some s"
proof -
  have n: "unat (word_of_nat (length (variants s)) :: u32) = length (variants s)"
    using assms by (auto simp: cue_ok_def kMaxCueVariants_def intro: unat_count)
  have "word_of_nat (length (variants s)) \<noteq> (0 :: u32)"
  proof
    assume "word_of_nat (length (variants s)) = (0 :: u32)"
    with n have "length (variants s) = 0" by simp
    with assms show False by (simp add: cue_ok_def)
  qed
  with assms n show ?thesis
    by (simp add: DecodeCueSoundBlob_def cue_bytes_def cue_ok_def string_list_bytes_def wire_simps
        string_codec.list_enc)
qed

lemma DecodeCueSoundBlob_SomeD:
  assumes "DecodeCueSoundBlob blob = Some s"
  shows "cue_ok s \<and> (\<exists>rest. blob = cue_bytes s @ rest)"
proof -
  from assms obtain gain r1 count r2 vs r3 where gain: "ReadF32 blob = (Some gain, r1)" "f32_isfinite gain"
    and count: "ReadU32 r1 = (Some count, r2)" "count \<noteq> 0" "unat count \<le> kMaxCueVariants"
    and vs: "ReadLoop (\<lambda>_. ReadString) 0 (unat count) r2 = (Some vs, r3)"
    and s: "s = \<lparr>gain_db = gain, variants = vs\<rparr>"
    by (auto simp: DecodeCueSoundBlob_def split: prod.splits option.splits if_splits)
  have "0 < unat count" using count(2) by (simp add: unat_gt_0)
  with string_codec.list_SomeD [OF vs] ReadF32_SomeD [OF gain(1)] ReadU32_SomeD [OF count(1)]
  show ?thesis using gain(2) count(3)
    by (auto simp: s cue_ok_def cue_bytes_def string_list_bytes_def)
qed

text \<open>
  Sounds decode exactly from their encodings: an audio blob gives only whole samples
  of a width a PCM file holds, and a cue's sound always has a variant and a finite gain.
\<close>

theorem sound_decode_exact:
  "(DecodeAudioBlob blob = Some sound \<longleftrightarrow>
      (\<exists>enc rest. EncodeAudioBlob sound = Inr enc \<and> blob = enc @ rest)) \<and>
   (DecodeCueSoundBlob blob' = Some cue \<longleftrightarrow>
      (\<exists>enc rest. EncodeCueSoundBlob cue = Inr enc \<and> blob' = enc @ rest))"
  using DecodeAudioBlob_SomeD [of blob sound] DecodeCueSoundBlob_SomeD [of blob' cue]
  by (auto simp: EncodeAudioBlob_Inr EncodeCueSoundBlob_Inr DecodeAudioBlob_bytes DecodeCueSoundBlob_bytes)

section \<open>The rifle, its sockets, points and scripts\<close>

definition rifle_bytes :: "RifleData \<Rightarrow> byte list" where
  "rifle_bytes f = concat (map marker_bytes [grip f, muzzle f, sight f, fore_end f])"

lemma EncodeRifleBlob_eq: "EncodeRifleBlob f = Inr (rifle_bytes f)"
  by (simp add: EncodeRifleBlob_def foldl_WriteMarker rifle_bytes_def del: foldl_Cons)

lemma DecodeRifleBlob_bytes: "DecodeRifleBlob (rifle_bytes f @ rest) = Some f"
proof -
  have "ReadLoop (\<lambda>_. ReadMarker) 0 4 (rifle_bytes f @ rest) =
      (Some [grip f, muzzle f, sight f, fore_end f], rest)"
    using marker_codec.list_enc [of "[grip f, muzzle f, sight f, fore_end f]" 0 rest]
    by (simp add: rifle_bytes_def eval_nat_numeral)
  then show ?thesis by (simp add: DecodeRifleBlob_def)
qed

lemma DecodeRifleBlob_SomeD:
  assumes "DecodeRifleBlob blob = Some f"
  shows "\<exists>rest. blob = rifle_bytes f @ rest"
proof -
  from assms obtain g m s e r where ms: "ReadLoop (\<lambda>_. ReadMarker) 0 4 blob = (Some [g, m, s, e], r)"
    and f: "f = \<lparr>grip = g, muzzle = m, sight = s, fore_end = e\<rparr>"
    by (auto simp: DecodeRifleBlob_def split: prod.splits option.splits list.splits)
  show ?thesis using marker_codec.list_SomeD [OF ms] by (auto simp: f rifle_bytes_def)
qed

definition socket_bytes :: "WeaponSocketData \<Rightarrow> byte list" where
  "socket_bytes s = string_bytes (right_hand s) @ vec3_bytes (ws_translation s) @
     quat_bytes (ws_rotation s) @ string_bytes (left_hand s)"

lemma EncodeWeaponSocketBlob_Inr:
  "EncodeWeaponSocketBlob s = Inr enc \<longleftrightarrow>
   short_string (right_hand s) \<and> short_string (left_hand s) \<and> enc = socket_bytes s"
  by (auto simp: EncodeWeaponSocketBlob_def write_eqs socket_bytes_def)

lemma DecodeWeaponSocketBlob_bytes:
  "short_string (right_hand s) \<Longrightarrow> short_string (left_hand s) \<Longrightarrow>
   DecodeWeaponSocketBlob (socket_bytes s @ rest) = Some s"
  by (simp add: DecodeWeaponSocketBlob_def socket_bytes_def wire_simps)

lemma DecodeWeaponSocketBlob_SomeD:
  "DecodeWeaponSocketBlob blob = Some s \<Longrightarrow>
   short_string (right_hand s) \<and> short_string (left_hand s) \<and> (\<exists>rest. blob = socket_bytes s @ rest)"
  by (auto simp: DecodeWeaponSocketBlob_def socket_bytes_def
      dest!: ReadString_SomeD ReadVec3_SomeD ReadQuat_SomeD split: prod.splits option.splits)

text \<open>
  The rifle's markers and a character's weapon socket decode exactly from their
  encodings: each marker in its own place, each hand's joint by its own name.
\<close>

theorem rifle_decode_exact:
  "(DecodeRifleBlob blob = Some f \<longleftrightarrow>
      (\<exists>enc rest. EncodeRifleBlob f = Inr enc \<and> blob = enc @ rest)) \<and>
   (DecodeWeaponSocketBlob blob' = Some s \<longleftrightarrow>
      (\<exists>enc rest. EncodeWeaponSocketBlob s = Inr enc \<and> blob' = enc @ rest))"
  using DecodeRifleBlob_SomeD [of blob f] DecodeWeaponSocketBlob_SomeD [of blob' s]
  by (auto simp: EncodeRifleBlob_eq EncodeWeaponSocketBlob_Inr DecodeRifleBlob_bytes
      DecodeWeaponSocketBlob_bytes)

lemma DecodeSpawnPointBlob_iff:
  "DecodeSpawnPointBlob blob = Some s \<longleftrightarrow>
   (\<exists>enc rest. EncodeSpawnPointBlob s = Inr enc \<and> blob = enc @ rest)"
proof
  assume "DecodeSpawnPointBlob blob = Some s"
  then show "\<exists>enc rest. EncodeSpawnPointBlob s = Inr enc \<and> blob = enc @ rest"
    by (auto simp: DecodeSpawnPointBlob_def EncodeSpawnPointBlob_def write_eqs
        dest!: ReadVec3_SomeD ReadQuat_SomeD split: prod.splits option.splits)
next
  assume "\<exists>enc rest. EncodeSpawnPointBlob s = Inr enc \<and> blob = enc @ rest"
  then show "DecodeSpawnPointBlob blob = Some s"
    by (auto simp: DecodeSpawnPointBlob_def EncodeSpawnPointBlob_def write_eqs wire_simps)
qed

lemma DecodeEyeBlob_iff:
  "DecodeEyeBlob blob = Some e \<longleftrightarrow> (\<exists>enc rest. EncodeEyeBlob e = Inr enc \<and> blob = enc @ rest)"
proof
  assume "DecodeEyeBlob blob = Some e"
  then show "\<exists>enc rest. EncodeEyeBlob e = Inr enc \<and> blob = enc @ rest"
    by (auto simp: DecodeEyeBlob_def EncodeEyeBlob_def write_eqs
        dest!: ReadVec3_SomeD split: prod.splits option.splits)
next
  assume "\<exists>enc rest. EncodeEyeBlob e = Inr enc \<and> blob = enc @ rest"
  then show "DecodeEyeBlob blob = Some e"
    by (auto simp: DecodeEyeBlob_def EncodeEyeBlob_def write_eqs wire_simps)
qed

lemma DecodeScriptBlob_iff: "DecodeScriptBlob blob = Some s \<longleftrightarrow> EncodeScriptBlob s = Inr blob"
  by (auto simp: DecodeScriptBlob_def EncodeScriptBlob_def)

lemma DecodeAnimationSkeletonBlob_iff:
  "DecodeAnimationSkeletonBlob blob = Some a \<longleftrightarrow> EncodeAnimationSkeletonBlob a = Inr blob"
  by (auto simp: DecodeAnimationSkeletonBlob_def EncodeAnimationSkeletonBlob_def)

text \<open>
  Spawn points and eyes decode exactly from their encodings, and a script's text and
  an animation skeleton's archive are the whole blob, byte for byte, up to their limits.
\<close>

theorem bare_blobs_exact:
  "(DecodeSpawnPointBlob b1 = Some spawn_point \<longleftrightarrow>
      (\<exists>enc rest. EncodeSpawnPointBlob spawn_point = Inr enc \<and> b1 = enc @ rest)) \<and>
   (DecodeEyeBlob b2 = Some eye \<longleftrightarrow> (\<exists>enc rest. EncodeEyeBlob eye = Inr enc \<and> b2 = enc @ rest)) \<and>
   (DecodeScriptBlob b3 = Some script \<longleftrightarrow> EncodeScriptBlob script = Inr b3) \<and>
   (DecodeAnimationSkeletonBlob b4 = Some arch \<longleftrightarrow> EncodeAnimationSkeletonBlob arch = Inr b4)"
  by (simp add: DecodeSpawnPointBlob_iff DecodeEyeBlob_iff DecodeScriptBlob_iff DecodeAnimationSkeletonBlob_iff)

section \<open>Textures\<close>

lemma EncodeTextureBlob_Inr:
  "EncodeTextureBlob k = Inr enc \<longleftrightarrow> length k \<le> kMaxTextureBytes \<and> enc = count_bytes (length k) @ k"
  by (auto simp: EncodeTextureBlob_def write_eqs)

lemma DecodeTextureBlob_bytes:
  assumes "length k \<le> kMaxTextureBytes" and "k = kKtx2Identifier @ le_bytes 4 vk @ body"
  shows "DecodeTextureBlob (count_bytes (length k) @ k @ rest) =
    map_option (\<lambda>fmt. \<lparr>ktx2_bytes = k, tx_format = fmt\<rparr>) (ToTextureFormat vk)"
proof -
  have "unat (word_of_nat (length k) :: u32) = length k"
    using assms(1) by (auto simp: kMaxTextureBytes_def intro: unat_count)
  moreover have "ReadBytes k (length kKtx2Identifier) = (Some kKtx2Identifier, le_bytes 4 vk @ body)"
    using assms(2) by (simp add: wire_simps)
  ultimately show ?thesis using assms(1)
    by (simp add: DecodeTextureBlob_def wire_simps split: option.splits)
qed

lemma DecodeTextureBlob_SomeD:
  assumes "DecodeTextureBlob blob = Some t"
  shows "length (ktx2_bytes t) \<le> kMaxTextureBytes \<and>
    (\<exists>rest. blob = count_bytes (length (ktx2_bytes t)) @ ktx2_bytes t @ rest) \<and>
    (\<exists>vk body. ktx2_bytes t = kKtx2Identifier @ le_bytes 4 vk @ body \<and>
       ToTextureFormat vk = Some (tx_format t))"
proof -
  from assms obtain n r1 k r2 header vk body fmt where
    n: "ReadU32 blob = (Some n, r1)" "unat n \<le> kMaxTextureBytes"
    and k: "ReadBytes r1 (unat n) = (Some k, r2)"
    and ident: "ReadBytes k (length kKtx2Identifier) = (Some kKtx2Identifier, header)"
    and vk: "ReadU32 header = (Some vk, body)" "ToTextureFormat vk = Some fmt"
    and t: "t = \<lparr>ktx2_bytes = k, tx_format = fmt\<rparr>"
    by (auto simp: DecodeTextureBlob_def split: prod.splits option.splits if_splits)
  show ?thesis
    using ReadU32_SomeD [OF n(1)] n(2) ReadBytes_SomeD [OF k] ReadBytes_SomeD [OF ident]
      ReadU32_SomeD [OF vk(1)] vk(2)
    by (auto simp: t)
qed

text \<open>
  A texture blob decodes exactly when it encodes a file that starts with the KTX2
  identifier and a format the cooker writes: the file comes back whole, with that format.
\<close>

theorem texture_decode_exact:
  "DecodeTextureBlob blob = Some t \<longleftrightarrow>
   (\<exists>enc rest. EncodeTextureBlob (ktx2_bytes t) = Inr enc \<and> blob = enc @ rest) \<and>
   (\<exists>vk body. ktx2_bytes t = kKtx2Identifier @ le_bytes 4 vk @ body \<and>
      ToTextureFormat vk = Some (tx_format t))"
proof
  assume "DecodeTextureBlob blob = Some t"
  from DecodeTextureBlob_SomeD [OF this] show
    "(\<exists>enc rest. EncodeTextureBlob (ktx2_bytes t) = Inr enc \<and> blob = enc @ rest) \<and>
     (\<exists>vk body. ktx2_bytes t = kKtx2Identifier @ le_bytes 4 vk @ body \<and>
        ToTextureFormat vk = Some (tx_format t))"
    by (auto simp: EncodeTextureBlob_Inr)
next
  assume "(\<exists>enc rest. EncodeTextureBlob (ktx2_bytes t) = Inr enc \<and> blob = enc @ rest) \<and>
     (\<exists>vk body. ktx2_bytes t = kKtx2Identifier @ le_bytes 4 vk @ body \<and>
        ToTextureFormat vk = Some (tx_format t))"
  then obtain rest vk body where fits: "length (ktx2_bytes t) \<le> kMaxTextureBytes"
    and blob: "blob = count_bytes (length (ktx2_bytes t)) @ ktx2_bytes t @ rest"
    and k: "ktx2_bytes t = kKtx2Identifier @ le_bytes 4 vk @ body"
    and fmt: "ToTextureFormat vk = Some (tx_format t)"
    by (auto simp: EncodeTextureBlob_Inr)
  show "DecodeTextureBlob blob = Some t"
    unfolding blob DecodeTextureBlob_bytes [OF fits k] fmt by simp
qed

end
