(* ===== verification/Pack_Writer.thy ===== *)
theory Pack_Writer
  imports Asset_Types
begin

text \<open>
  The pack container's layout (\<open>src/modules/assets/pack_format.h\<close>) and its writer
  (\<open>pack_writer.cpp\<close>). BLAKE3 and Ed25519 are third-party code: the hash and the
  signature are parameters. The file system is a map from paths to contents, and what it
  may refuse during one write is the record \<open>write_env\<close>.
\<close>

section \<open>Layout\<close>

type_synonym PackHash = "byte list"
type_synonym Ed25519Signature = "byte list"

definition kPackMagic :: string where "kPackMagic = ''AUGP''"
definition kEd25519SignatureSize :: nat where "kEd25519SignatureSize = 64"
definition kFormatVersion :: u32 where "kFormatVersion = 7"
definition kHeaderHasClientPack :: u8 where "kHeaderHasClientPack = push_bit 0 1"

definition kHeaderSize :: nat where
  "kHeaderSize = length kPackMagic + 4 + 8 + 8 + 4 + 1 + kPackHashSize"

definition kTrailerSize :: nat where
  "kTrailerSize = kPackHashSize + kEd25519SignatureSize"

definition kMaxEntries :: nat where "kMaxEntries = 2 ^ 20"
definition kMaxPackSize :: nat where "kMaxPackSize = 8 * 1024 * 1024 * 1024"

record PackTrailer =
  tr_hash :: PackHash
  tr_signature :: Ed25519Signature

record AssetEntry =
  ae_type :: AssetType
  ae_path :: string
  ae_data :: "byte list"

datatype WriteError = kIoError | kDuplicatePath | kTooLarge

fun DescribeWriteError :: "WriteError \<Rightarrow> string" where
  "DescribeWriteError kIoError = ''could not be written''"
| "DescribeWriteError kDuplicatePath = ''has two entries that share a path''"
| "DescribeWriteError kTooLarge = ''has entries that exceed the pack's size limits''"

lemma kHeaderSize_eq [simp]: "kHeaderSize = 61"
  by (simp add: kHeaderSize_def kPackMagic_def kPackHashSize_def)

lemma kTrailerSize_eq [simp]: "kTrailerSize = 96"
  by (simp add: kTrailerSize_def kPackHashSize_def kEd25519SignatureSize_def)

section \<open>Validation\<close>

text \<open>\<open>std::ranges::adjacent_find\<close> finding two equal neighbours.\<close>

fun has_adjacent_equal :: "'a list \<Rightarrow> bool" where
  "has_adjacent_equal (x # y # zs) = (x = y \<or> has_adjacent_equal (y # zs))"
| "has_adjacent_equal _ = False"

definition ValidateEntries :: "AssetEntry list \<Rightarrow> WriteError + unit" where
  "ValidateEntries entries =
     (if length entries > kMaxEntries then Inl kTooLarge
      else if list_ex (\<lambda>entry. length (ae_path entry) > kMaxPathLength) entries then Inl kTooLarge
      else let paths = sort (map ae_path entries)
           in if has_adjacent_equal paths then Inl kDuplicatePath else Inr ())"

lemma has_adjacent_equal_sorted:
  fixes xs :: "'a :: linorder list"
  shows "sorted xs \<Longrightarrow> has_adjacent_equal xs \<longleftrightarrow> \<not> distinct xs"
proof (induction xs rule: has_adjacent_equal.induct)
  case (1 x y zs)
  then show ?case by (cases "x = y") fastforce+
qed simp_all

lemma ValidateEntries_Inr:
  "ValidateEntries entries = Inr () \<longleftrightarrow>
   length entries \<le> kMaxEntries \<and> list_all (\<lambda>e. short_string (ae_path e)) entries \<and>
   distinct (map ae_path entries)"
proof -
  have "list_ex (\<lambda>e. kMaxPathLength < length (ae_path e)) entries \<longleftrightarrow>
        \<not> list_all (\<lambda>e. short_string (ae_path e)) entries"
    by (auto simp: short_string_def list_all_iff list_ex_iff not_le)
  then show ?thesis
    by (simp add: ValidateEntries_def Let_def has_adjacent_equal_sorted not_less)
qed

section \<open>Sections\<close>

record PackSections =
  ps_header :: "byte list"
  ps_data_section :: "byte list"
  ps_index_section :: "byte list"

text \<open>
  The first loop: each entry's offset and size, the data section and the cursor after it.
  Offsets are \<open>std::uint64_t\<close>: \<open>cursor\<close> is a \<open>u64\<close>, and its additions wrap.
\<close>

definition lay_out_entry :: "AssetEntry \<Rightarrow> (u64 \<times> u64) list \<times> byte list \<times> u64 \<Rightarrow> (u64 \<times> u64) list \<times> byte list \<times> u64" where
  "lay_out_entry entry state =
     (case state of (offsets, data_writer, cursor) \<Rightarrow>
        (offsets @ [(cursor, word_of_nat (length (ae_data entry)))],
         WriteBytes data_writer (ae_data entry),
         cursor + word_of_nat (length (ae_data entry))))"

text \<open>The second loop's body: one index entry.\<close>

definition WriteIndexEntry :: "AssetEntry \<times> u64 \<times> u64 \<Rightarrow> byte list \<Rightarrow> WriteError + byte list" where
  "WriteIndexEntry item index_writer =
     (case item of (entry, offset, sz) \<Rightarrow>
        (case WriteString (WriteU8 index_writer (asset_type_byte (ae_type entry))) (ae_path entry) of
           (False, _) \<Rightarrow> Inl kTooLarge
         | (True, index_writer) \<Rightarrow> Inr (WriteU64 (WriteU64 index_writer offset) sz)))"

definition BuildPackSections :: "AssetEntry list \<Rightarrow> PackHash option \<Rightarrow> WriteError + PackSections" where
  "BuildPackSections entries client_pack =
     (case fold lay_out_entry entries ([], [], word_of_nat kHeaderSize) of
        (offsets, data, cursor) \<Rightarrow>
          (case for_each WriteIndexEntry (zip entries offsets) [] of
             Inl e \<Rightarrow> Inl e
           | Inr index \<Rightarrow>
               (let index_offset = cursor;
                    w = WriteChars [] kPackMagic;
                    w = WriteU32 w kFormatVersion;
                    w = WriteU64 w (word_of_nat kHeaderSize);
                    w = WriteU64 w index_offset;
                    w = WriteU32 w (word_of_nat (length entries));
                    w = WriteU8 w (case client_pack of Some _ \<Rightarrow> kHeaderHasClientPack | None \<Rightarrow> 0);
                    w = WriteBytes w (case client_pack of Some h \<Rightarrow> h | None \<Rightarrow> replicate kPackHashSize 0);
                    total_size = (word_of_nat (length w + length data + length index + kTrailerSize) :: u64)
                in if unat total_size > kMaxPackSize then Inl kTooLarge
                   else Inr \<lparr>ps_header = w, ps_data_section = data, ps_index_section = index\<rparr>)))"

text \<open>BLAKE3 over the three sections in order, then the signature of that hash.\<close>

definition SignPack ::
  "(byte list \<Rightarrow> PackHash) \<Rightarrow> ('sk \<Rightarrow> byte list \<Rightarrow> Ed25519Signature) \<Rightarrow> PackSections \<Rightarrow> 'sk \<Rightarrow> PackTrailer" where
  "SignPack blake3 sign sections signing_key =
     (let hash = blake3 (ps_header sections @ ps_data_section sections @ ps_index_section sections)
      in \<lparr>tr_hash = hash, tr_signature = sign signing_key hash\<rparr>)"

definition pack_file_bytes :: "PackSections \<Rightarrow> PackTrailer \<Rightarrow> byte list" where
  "pack_file_bytes sections trailer =
     ps_header sections @ ps_data_section sections @ ps_index_section sections @
     tr_hash trailer @ tr_signature trailer"

section \<open>Writing the file\<close>

text \<open>
  What the file system does during one write: whether the temporary file opens, whether
  the stream is still good after the five \<open>write\<close>s, how many of the bytes are on disk
  when the \<open>std::ofstream\<close> is destroyed (its destructor flushes what is buffered and
  reports nothing: \<open>None\<close> when all of them are), whether the rename succeeds, and whether
  a removal does.
\<close>

record write_env =
  opens :: bool
  stream_good :: bool
  closed_short :: "nat option"
  renames :: bool
  removes :: bool

type_synonym filesystem = "string \<rightharpoonup> byte list"

definition remove_file :: "write_env \<Rightarrow> filesystem \<Rightarrow> string \<Rightarrow> filesystem" where
  "remove_file env fs path = (if removes env then fs(path := None) else fs)"

definition WritePackFile ::
  "write_env \<Rightarrow> filesystem \<Rightarrow> string \<Rightarrow> PackSections \<Rightarrow> PackTrailer \<Rightarrow> (WriteError + unit) \<times> filesystem" where
  "WritePackFile env fs output_path sections trailer =
     (let tmp_path = output_path @ ''.tmp'';
          bytes = pack_file_bytes sections trailer;
          on_disk = (case closed_short env of None \<Rightarrow> bytes | Some n \<Rightarrow> take n bytes)
      in if \<not> opens env then (Inl kIoError, fs)
         else if \<not> stream_good env
         then (Inl kIoError, remove_file env (fs(tmp_path \<mapsto> on_disk)) tmp_path)
         else let fs = fs(tmp_path \<mapsto> on_disk)
              in if \<not> renames env then (Inl kIoError, remove_file env fs tmp_path)
                 else (Inr (), fs(output_path \<mapsto> on_disk, tmp_path := None)))"

definition WritePack ::
  "(byte list \<Rightarrow> PackHash) \<Rightarrow> ('sk \<Rightarrow> byte list \<Rightarrow> Ed25519Signature) \<Rightarrow> write_env \<Rightarrow> filesystem \<Rightarrow>
   string \<Rightarrow> AssetEntry list \<Rightarrow> 'sk \<Rightarrow> PackHash option \<Rightarrow> (WriteError + PackHash) \<times> filesystem" where
  "WritePack blake3 sign env fs output_path entries signing_key client_pack =
     (case ValidateEntries entries of
        Inl e \<Rightarrow> (Inl e, fs)
      | Inr _ \<Rightarrow>
          (case BuildPackSections entries client_pack of
             Inl e \<Rightarrow> (Inl e, fs)
           | Inr sections \<Rightarrow>
               (let trailer = SignPack blake3 sign sections signing_key
                in case WritePackFile env fs output_path sections trailer of
                     (Inl e, fs) \<Rightarrow> (Inl e, fs)
                   | (Inr _, fs) \<Rightarrow> (Inr (tr_hash trailer), fs))))"

section \<open>Closed form of the sections\<close>

text \<open>Where each entry's data starts, from \<open>start\<close>.\<close>

fun entry_offsets :: "nat \<Rightarrow> AssetEntry list \<Rightarrow> nat list" where
  "entry_offsets start [] = []"
| "entry_offsets start (e # es) = start # entry_offsets (start + length (ae_data e)) es"

lemma length_entry_offsets [simp]: "length (entry_offsets start es) = length es"
  by (induction es arbitrary: start) auto

definition data_bytes :: "AssetEntry list \<Rightarrow> byte list" where
  "data_bytes es = concat (map ae_data es)"

lemma entry_offsets_nth:
  "k < length es \<Longrightarrow> entry_offsets start es ! k = start + length (data_bytes (take k es))"
proof (induction es arbitrary: start k)
  case Nil
  then show ?case by simp
next
  case (Cons e es)
  then show ?case by (cases k) (simp_all add: data_bytes_def)
qed

lemma data_bytes_slice:
  assumes "k < length es"
  shows "take (length (ae_data (es ! k))) (drop (length (data_bytes (take k es))) (data_bytes es)) = ae_data (es ! k)"
proof -
  have "es = take k es @ es ! k # drop (Suc k) es" using assms by (simp add: id_take_nth_drop)
  then have "data_bytes es = data_bytes (take k es) @ ae_data (es ! k) @ data_bytes (drop (Suc k) es)"
    unfolding data_bytes_def by (metis concat.simps(2) concat_append list.simps(9) map_append)
  then show ?thesis by simp
qed

lemma data_bytes_prefix_le:
  assumes "k < length es"
  shows "length (data_bytes (take k es)) + length (ae_data (es ! k)) \<le> length (data_bytes es)"
proof -
  have "es = take k es @ es ! k # drop (Suc k) es" using assms by (simp add: id_take_nth_drop)
  then have "data_bytes es = data_bytes (take k es) @ ae_data (es ! k) @ data_bytes (drop (Suc k) es)"
    unfolding data_bytes_def by (metis concat.simps(2) concat_append list.simps(9) map_append)
  then show ?thesis by simp
qed

definition index_item :: "AssetEntry \<Rightarrow> nat \<Rightarrow> AssetEntry \<times> u64 \<times> u64" where
  "index_item e off = (e, word_of_nat off, word_of_nat (length (ae_data e)))"

definition index_entry_bytes :: "AssetEntry \<times> u64 \<times> u64 \<Rightarrow> byte list" where
  "index_entry_bytes item =
     (case item of (e, off, sz) \<Rightarrow>
        [asset_type_byte (ae_type e)] @ string_bytes (ae_path e) @ le_bytes 8 off @ le_bytes 8 sz)"

definition index_bytes :: "AssetEntry list \<Rightarrow> byte list" where
  "index_bytes es = concat (map index_entry_bytes (map2 index_item es (entry_offsets kHeaderSize es)))"

lemma fold_lay_out:
  "fold lay_out_entry es (offs, data, word_of_nat start) =
     (offs @ map2 (\<lambda>e off. (word_of_nat off, word_of_nat (length (ae_data e)))) es (entry_offsets start es),
      data @ data_bytes es, word_of_nat (start + length (data_bytes es)))"
proof (induction es arbitrary: offs data start)
  case Nil
  then show ?case by (simp add: data_bytes_def)
next
  case (Cons e es)
  have "word_of_nat start + word_of_nat (length (ae_data e)) = (word_of_nat (start + length (ae_data e)) :: u64)"
    by simp
  then show ?case
    using Cons.IH [of "offs @ [(word_of_nat start, word_of_nat (length (ae_data e)))]"
        "data @ ae_data e" "start + length (ae_data e)"]
    by (simp add: lay_out_entry_def WriteBytes_def data_bytes_def add.assoc)
qed

lemma for_each_WriteIndexEntry:
  "for_each WriteIndexEntry items data =
     (if list_all (\<lambda>(e, _). short_string (ae_path e)) items
      then Inr (data @ concat (map index_entry_bytes items)) else Inl kTooLarge)"
  by (rule for_each_write)
    (auto simp: WriteIndexEntry_def write_eqs index_entry_bytes_def split: prod.splits)

definition header_bytes :: "AssetEntry list \<Rightarrow> PackHash option \<Rightarrow> byte list" where
  "header_bytes es client_pack =
     map byte_of_char kPackMagic @ le_bytes 4 kFormatVersion @ le_bytes 8 (word_of_nat kHeaderSize :: u64) @
     le_bytes 8 (word_of_nat (kHeaderSize + length (data_bytes es)) :: u64) @
     le_bytes 4 (word_of_nat (length es) :: u32) @
     [case client_pack of Some _ \<Rightarrow> kHeaderHasClientPack | None \<Rightarrow> 0] @
     (case client_pack of Some h \<Rightarrow> h | None \<Rightarrow> replicate kPackHashSize 0)"

definition pack_sections :: "AssetEntry list \<Rightarrow> PackHash option \<Rightarrow> PackSections" where
  "pack_sections es client_pack =
     \<lparr>ps_header = header_bytes es client_pack, ps_data_section = data_bytes es, ps_index_section = index_bytes es\<rparr>"

definition pack_size :: "AssetEntry list \<Rightarrow> PackHash option \<Rightarrow> nat" where
  "pack_size es client_pack =
     length (header_bytes es client_pack) + length (data_bytes es) + length (index_bytes es) + kTrailerSize"

lemma zip_offsets:
  "zip es (map2 (\<lambda>e off. (word_of_nat off, word_of_nat (length (ae_data e)))) es offs) = map2 index_item es offs"
proof (induction es arbitrary: offs)
  case Nil
  then show ?case by simp
next
  case (Cons e es)
  then show ?case by (cases offs) (simp_all add: index_item_def)
qed

lemma list_all_index_items:
  "list_all (\<lambda>(e, _). P e) (map2 index_item es (entry_offsets start es)) = list_all P es"
  by (induction es arbitrary: start) (auto simp: index_item_def)

lemma BuildPackSections_eq:
  assumes "list_all (\<lambda>e. short_string (ae_path e)) es"
  shows "BuildPackSections es client_pack =
     (if unat (word_of_nat (pack_size es client_pack) :: u64) > kMaxPackSize then Inl kTooLarge
      else Inr (pack_sections es client_pack))"
  using fold_lay_out [of es "[]" "[]" kHeaderSize] assms
  by (simp add: BuildPackSections_def zip_offsets for_each_WriteIndexEntry list_all_index_items
      header_bytes_def pack_sections_def pack_size_def index_bytes_def write_eqs del: of_nat_add)

lemma length_header_bytes:
  "pred_option (\<lambda>h. length h = kPackHashSize) client_pack \<Longrightarrow> length (header_bytes es client_pack) = kHeaderSize"
  by (cases client_pack) (simp_all add: header_bytes_def kPackMagic_def kPackHashSize_def)

end
