(* ===== verification/Pack_Reader.thy ===== *)
theory Pack_Reader
  imports Blob_Decoder Pack_Writer
begin

text \<open>
  The pack's reader (\<open>src/modules/assets/pack_reader.cpp\<close>, \<open>ed25519.cpp\<close>): opening a file,
  parsing its header, trailer and index, checking its hash and signature, and decoding
  what the index names. The hash and the signature check are parameters. A file's size
  is queried before it is mapped, and it may be replaced between the two: the queries
  read two file systems, \<open>fs_stat\<close> and \<open>fs_map\<close>.
\<close>

section \<open>Errors\<close>

datatype LoadErrorCode =
    kIoError | kBadMagic | kUnsupportedVersion | kTruncated | kInvalidIndex | kHashMismatch | kSignatureInvalid

record LoadError =
  le_code :: LoadErrorCode
  le_pack_version :: u32

datatype ResolveError = kNotFound | kTypeMismatch | kCorruptBlob

datatype VerifiedPackFailure = kPublicKeyUnreadable | kPackRejected

record VerifiedPackError =
  vp_failure :: VerifiedPackFailure
  vp_load_error :: "LoadError option"

definition Refuse :: "LoadErrorCode \<Rightarrow> u32 \<Rightarrow> LoadError" where
  "Refuse code pack_version = \<lparr>le_code = code, le_pack_version = pack_version\<rparr>"

fun DescribeResolveError :: "ResolveError \<Rightarrow> string \<Rightarrow> string" where
  "DescribeResolveError kNotFound expected_type = ''not found''"
| "DescribeResolveError kTypeMismatch expected_type = ''is not a '' @ expected_type"
| "DescribeResolveError kCorruptBlob expected_type = ''is corrupt''"

definition DescribeLoadError :: "LoadError \<Rightarrow> string" where
  "DescribeLoadError error =
     (case le_code error of
        LoadErrorCode.kIoError \<Rightarrow> ''could not be opened or read''
      | kBadMagic \<Rightarrow> ''is not an augusta pack file (bad magic)''
      | kUnsupportedVersion \<Rightarrow>
          ''is pack format '' @ decimal (unat (le_pack_version error)) @
          ''; this build reads format '' @ decimal (unat kFormatVersion)
      | kTruncated \<Rightarrow> ''is truncated, or exceeds this build's pack size limits''
      | kInvalidIndex \<Rightarrow> ''has a corrupt index''
      | kHashMismatch \<Rightarrow> ''failed its integrity check (content hash mismatch)''
      | kSignatureInvalid \<Rightarrow> ''failed signature verification'')"

section \<open>Header\<close>

record PackHeader =
  ph_version :: u32
  ph_data_offset :: u64
  ph_index_offset :: u64
  ph_index_count :: u32
  ph_client_pack :: "PackHash option"

text \<open>The flags byte and the hash are both read before either is checked.\<close>

definition ParseClientPack :: "reader \<Rightarrow> LoadErrorCode + PackHash option" where
  "ParseClientPack header_reader =
     (let (flags, header_reader) = ReadU8 header_reader;
          (client_pack_bytes, header_reader) = ReadBytes header_reader kPackHashSize
      in case (flags, client_pack_bytes) of
           (Some flags, Some client_pack_bytes) \<Rightarrow>
             (let has_client_pack = flags AND kHeaderHasClientPack \<noteq> 0;
                  stray_hash = \<not> has_client_pack \<and> list_ex (\<lambda>b. b \<noteq> 0) client_pack_bytes
              in if flags AND NOT kHeaderHasClientPack \<noteq> 0 \<or> stray_hash then Inl kTruncated
                 else Inr (if has_client_pack then Some client_pack_bytes else None))
         | _ \<Rightarrow> Inl kTruncated)"

definition ParsePackHeader :: "byte list \<Rightarrow> u64 \<Rightarrow> LoadError + PackHeader" where
  "ParsePackHeader header_data hashed_length =
     (case ReadBytes header_data (length kPackMagic) of
        (None, _) \<Rightarrow> Inl (Refuse kBadMagic 0)
      | (Some magic, r) \<Rightarrow>
        if magic \<noteq> map byte_of_char kPackMagic then Inl (Refuse kBadMagic 0)
        else case ReadU32 r of
          (None, _) \<Rightarrow> Inl (Refuse kTruncated 0)
        | (Some version, r) \<Rightarrow>
          if version \<noteq> kFormatVersion then Inl (Refuse kUnsupportedVersion version)
          else let (data_offset, r) = ReadU64 r;
                   (index_offset, r) = ReadU64 r;
                   (index_count, r) = ReadU32 r
          in case (data_offset, index_offset, index_count) of
            (Some data_offset, Some index_offset, Some index_count) \<Rightarrow>
              if data_offset \<noteq> word_of_nat kHeaderSize then Inl (Refuse kTruncated 0)
              else if index_offset < word_of_nat kHeaderSize \<or> index_offset > hashed_length
              then Inl (Refuse kTruncated 0)
              else if unat index_count > kMaxEntries then Inl (Refuse kTruncated 0)
              else (case ParseClientPack r of
                 Inl code \<Rightarrow> Inl (Refuse code 0)
               | Inr client_pack \<Rightarrow>
                   Inr \<lparr>ph_version = version, ph_data_offset = data_offset, ph_index_offset = index_offset,
                        ph_index_count = index_count, ph_client_pack = client_pack\<rparr>)
          | _ \<Rightarrow> Inl (Refuse kTruncated 0))"

section \<open>Index\<close>

record PackEntry =
  pe_type :: AssetType
  pe_offset :: u64
  pe_size :: u64
  pe_path :: string

text \<open>The loop's body, with the reader and the index so far as its state.\<close>

definition ParseIndexEntry :: "u64 \<Rightarrow> reader \<times> PackEntry list \<Rightarrow> LoadErrorCode + reader \<times> PackEntry list" where
  "ParseIndexEntry data_section_end state =
     (case state of (r, index) \<Rightarrow>
       (case ReadU8 r of
          (None, _) \<Rightarrow> Inl kInvalidIndex
        | (Some type_byte, r) \<Rightarrow>
          (case asset_type_of_byte type_byte of
             None \<Rightarrow> Inl kInvalidIndex
           | Some type \<Rightarrow>
             (case ReadString r of
                (None, _) \<Rightarrow> Inl kTruncated
              | (Some path, r) \<Rightarrow>
                (let (offset, r) = ReadU64 r;
                     (sz, r) = ReadU64 r
                 in case (offset, sz) of
                      (Some offset, Some sz) \<Rightarrow>
                        if offset < word_of_nat kHeaderSize \<or> offset > data_section_end \<or>
                           sz > data_section_end - offset
                        then Inl kTruncated
                        else if list_ex (\<lambda>existing. pe_path existing = path) index then Inl kInvalidIndex
                        else Inr (r, index @ [\<lparr>pe_type = type, pe_offset = offset, pe_size = sz, pe_path = path\<rparr>])
                    | _ \<Rightarrow> Inl kTruncated)))))"

definition ParsePackIndex :: "byte list \<Rightarrow> u64 \<Rightarrow> u32 \<Rightarrow> LoadErrorCode + PackEntry list" where
  "ParsePackIndex index_data data_section_end index_count =
     (case for_each (\<lambda>_. ParseIndexEntry data_section_end) [0..<unat index_count] (index_data, []) of
        Inl code \<Rightarrow> Inl code
      | Inr (_, index) \<Rightarrow> Inr index)"

section \<open>Opening a file\<close>

text \<open>\<open>mapped_region\<close> throws where the file cannot be mapped: here, where it is gone.\<close>

definition OpenValidatedMapping :: "filesystem \<Rightarrow> filesystem \<Rightarrow> string \<Rightarrow> LoadErrorCode + byte list" where
  "OpenValidatedMapping fs_stat fs_map path =
     (case fs_stat path of
        None \<Rightarrow> Inl LoadErrorCode.kIoError
      | Some file \<Rightarrow>
          if length file < kHeaderSize + kTrailerSize \<or> length file > kMaxPackSize then Inl kTruncated
          else case fs_map path of
                 None \<Rightarrow> Inl LoadErrorCode.kIoError
               | Some mapping \<Rightarrow>
                   if length mapping < kHeaderSize + kTrailerSize \<or> length mapping > kMaxPackSize
                   then Inl kTruncated else Inr mapping)"

definition HashContent :: "(byte list \<Rightarrow> PackHash) \<Rightarrow> byte list \<Rightarrow> u64 \<Rightarrow> PackHash" where
  "HashContent blake3 mapped hashed_length = blake3 (take (unat hashed_length) mapped)"

definition ReadTrailer :: "byte list \<Rightarrow> u64 \<Rightarrow> PackTrailer" where
  "ReadTrailer mapped hashed_length =
     \<lparr>tr_hash = take kPackHashSize (drop (unat hashed_length) mapped),
      tr_signature = take kEd25519SignatureSize (drop (unat hashed_length + kPackHashSize) mapped)\<rparr>"

record OpenedPack =
  op_mapping :: "byte list"
  op_header :: PackHeader
  op_hashed_length :: u64

definition OpenPack :: "filesystem \<Rightarrow> filesystem \<Rightarrow> string \<Rightarrow> LoadError + OpenedPack" where
  "OpenPack fs_stat fs_map path =
     (case OpenValidatedMapping fs_stat fs_map path of
        Inl code \<Rightarrow> Inl (Refuse code 0)
      | Inr mapped \<Rightarrow>
          (let hashed_length = (word_of_nat (length mapped) - word_of_nat kTrailerSize :: u64)
           in case ParsePackHeader (take kHeaderSize mapped) hashed_length of
                Inl error \<Rightarrow> Inl error
              | Inr header \<Rightarrow>
                  Inr \<lparr>op_mapping = mapped, op_header = header, op_hashed_length = hashed_length\<rparr>))"

text \<open>\<open>span::subspan(offset, count)\<close>.\<close>

definition subspan :: "byte list \<Rightarrow> u64 \<Rightarrow> u64 \<Rightarrow> byte list" where
  "subspan bytes offset count = take (unat count) (drop (unat offset) bytes)"

definition ParsePackIndexOf :: "OpenedPack \<Rightarrow> LoadErrorCode + PackEntry list" where
  "ParsePackIndexOf pack =
     (let index_offset = ph_index_offset (op_header pack)
      in ParsePackIndex (subspan (op_mapping pack) index_offset (op_hashed_length pack - index_offset))
           index_offset (ph_index_count (op_header pack)))"

section \<open>Pack::Load and ReadPackLayout\<close>

record Pack =
  pk_mapping :: "byte list"
  pk_index :: "PackEntry list"
  pk_hash :: PackHash
  pk_client_pack :: "PackHash option"
  pk_version :: u32
  pk_path :: string

definition Pack_Load ::
  "(byte list \<Rightarrow> PackHash) \<Rightarrow> ('pk \<Rightarrow> byte list \<Rightarrow> Ed25519Signature \<Rightarrow> bool) \<Rightarrow>
   filesystem \<Rightarrow> filesystem \<Rightarrow> string \<Rightarrow> 'pk \<Rightarrow> LoadError + Pack" where
  "Pack_Load blake3 verify fs_stat fs_map path public_key =
     (case OpenPack fs_stat fs_map path of
        Inl error \<Rightarrow> Inl error
      | Inr opened \<Rightarrow>
          (let mapped = op_mapping opened;
               trailer = ReadTrailer mapped (op_hashed_length opened)
           in if HashContent blake3 mapped (op_hashed_length opened) \<noteq> tr_hash trailer
              then Inl (Refuse kHashMismatch 0)
              else if \<not> verify public_key (tr_hash trailer) (tr_signature trailer)
              then Inl (Refuse kSignatureInvalid 0)
              else case ParsePackIndexOf opened of
                     Inl code \<Rightarrow> Inl (Refuse code 0)
                   | Inr index \<Rightarrow>
                       Inr \<lparr>pk_mapping = mapped, pk_index = index, pk_hash = tr_hash trailer,
                            pk_client_pack = ph_client_pack (op_header opened),
                            pk_version = ph_version (op_header opened), pk_path = path\<rparr>))"

record PackLayout =
  pl_version :: u32
  pl_file_size :: u64
  pl_data_offset :: u64
  pl_index_offset :: u64
  pl_client_pack :: "PackHash option"
  pl_entries :: "PackEntry list"
  pl_hash :: PackHash
  pl_signature :: Ed25519Signature

definition ReadPackLayout :: "filesystem \<Rightarrow> filesystem \<Rightarrow> string \<Rightarrow> LoadError + PackLayout" where
  "ReadPackLayout fs_stat fs_map path =
     (case OpenPack fs_stat fs_map path of
        Inl error \<Rightarrow> Inl error
      | Inr opened \<Rightarrow>
          (case ParsePackIndexOf opened of
             Inl code \<Rightarrow> Inl (Refuse code 0)
           | Inr index \<Rightarrow>
               (let mapped = op_mapping opened;
                    trailer = ReadTrailer mapped (op_hashed_length opened);
                    header = op_header opened
                in Inr \<lparr>pl_version = ph_version header, pl_file_size = word_of_nat (length mapped),
                        pl_data_offset = ph_data_offset header, pl_index_offset = ph_index_offset header,
                        pl_client_pack = ph_client_pack header, pl_entries = index,
                        pl_hash = tr_hash trailer, pl_signature = tr_signature trailer\<rparr>)))"

definition kEd25519PublicKeySize :: nat where "kEd25519PublicKeySize = 32"

text \<open>A key file holds exactly the key: a short read and a byte left over are both refused.\<close>

definition ReadEd25519PublicKeyFile :: "filesystem \<Rightarrow> string \<Rightarrow> byte list option" where
  "ReadEd25519PublicKeyFile fs path =
     (case fs path of
        None \<Rightarrow> None
      | Some key_file \<Rightarrow>
          (let key = take kEd25519PublicKeySize key_file
           in if length key \<noteq> kEd25519PublicKeySize then None
              else if drop kEd25519PublicKeySize key_file \<noteq> [] then None
              else Some key))"

definition LoadVerifiedPack ::
  "(byte list \<Rightarrow> PackHash) \<Rightarrow> (byte list \<Rightarrow> byte list \<Rightarrow> Ed25519Signature \<Rightarrow> bool) \<Rightarrow>
   filesystem \<Rightarrow> filesystem \<Rightarrow> filesystem \<Rightarrow> string \<Rightarrow> string \<Rightarrow> VerifiedPackError + Pack" where
  "LoadVerifiedPack blake3 verify fs_key fs_stat fs_map pack_path public_key_path =
     (case ReadEd25519PublicKeyFile fs_key public_key_path of
        None \<Rightarrow> Inl \<lparr>vp_failure = kPublicKeyUnreadable, vp_load_error = None\<rparr>
      | Some public_key \<Rightarrow>
          (case Pack_Load blake3 verify fs_stat fs_map pack_path public_key of
             Inl error \<Rightarrow> Inl \<lparr>vp_failure = kPackRejected, vp_load_error = Some error\<rparr>
           | Inr pack \<Rightarrow> Inr pack))"

fun DescribeVerifiedPackError :: "VerifiedPackError \<Rightarrow> string \<Rightarrow> string \<Rightarrow> string" where
  "DescribeVerifiedPackError error pack_path public_key_path =
     (case (vp_failure error, vp_load_error error) of
        (kPackRejected, Some load_error) \<Rightarrow> ''pack '' @ pack_path @ '' '' @ DescribeLoadError load_error
      | _ \<Rightarrow> ''could not read Ed25519 public key from '' @ public_key_path)"

section \<open>Resolving\<close>

definition BlobBytes :: "byte list \<Rightarrow> PackEntry \<Rightarrow> byte list" where
  "BlobBytes mapping entry = subspan mapping (pe_offset entry) (pe_size entry)"

definition FindIndexEntry :: "PackEntry list \<Rightarrow> string \<Rightarrow> AssetType \<Rightarrow> ResolveError + PackEntry" where
  "FindIndexEntry index path expected_type =
     (case find (\<lambda>entry. pe_path entry = path) index of
        None \<Rightarrow> Inl kNotFound
      | Some entry \<Rightarrow> if pe_type entry \<noteq> expected_type then Inl kTypeMismatch else Inr entry)"

definition ResolveAsset ::
  "PackEntry list \<Rightarrow> byte list \<Rightarrow> string \<Rightarrow> AssetType \<Rightarrow> (byte list \<Rightarrow> 'a option) \<Rightarrow> ResolveError + 'a" where
  "ResolveAsset index mapping path expected_type decode =
     (case FindIndexEntry index path expected_type of
        Inl error \<Rightarrow> Inl error
      | Inr entry \<Rightarrow>
          (case decode (BlobBytes mapping entry) of
             None \<Rightarrow> Inl kCorruptBlob
           | Some value \<Rightarrow> Inr value))"

definition ResolveMesh :: "Pack \<Rightarrow> string \<Rightarrow> ResolveError + MeshData" where
  "ResolveMesh pack path = ResolveAsset (pk_index pack) (pk_mapping pack) path kMesh DecodeMeshBlob"

definition ResolveScene :: "Pack \<Rightarrow> string \<Rightarrow> ResolveError + SceneData" where
  "ResolveScene pack path = ResolveAsset (pk_index pack) (pk_mapping pack) path kScene DecodeSceneBlob"

definition ResolveTexture :: "Pack \<Rightarrow> string \<Rightarrow> ResolveError + TextureData" where
  "ResolveTexture pack path = ResolveAsset (pk_index pack) (pk_mapping pack) path kTexture DecodeTextureBlob"

definition ResolveCollision :: "Pack \<Rightarrow> string \<Rightarrow> ResolveError + MeshData" where
  "ResolveCollision pack path = ResolveAsset (pk_index pack) (pk_mapping pack) path kCollision DecodeMeshBlob"

definition ResolveHitbox :: "Pack \<Rightarrow> string \<Rightarrow> ResolveError + HitboxData" where
  "ResolveHitbox pack path = ResolveAsset (pk_index pack) (pk_mapping pack) path kHitbox DecodeHitboxBlob"

text \<open>
  \<open>std::ranges::sort\<close> by path: the order is total on the entries of one index, whose
  paths are distinct, so the stable \<open>sort_key\<close> gives its only result. Paths compare
  byte by byte, as \<open>std::string\<close> does.
\<close>

definition ResolveHitboxes :: "Pack \<Rightarrow> string \<Rightarrow> ResolveError + HitboxData list" where
  "ResolveHitboxes pack character =
     (let prefix_path = character @ ''/'';
          entries = filter (\<lambda>entry. pe_type entry = kHitbox \<and>
             take (length prefix_path) (pe_path entry) = prefix_path) (pk_index pack);
          entries = sort_key pe_path entries
      in for_each
           (\<lambda>entry hitboxes. case DecodeHitboxBlob (BlobBytes (pk_mapping pack) entry) of
              None \<Rightarrow> Inl kCorruptBlob
            | Some hitbox \<Rightarrow> Inr (hitboxes @ [hitbox]))
           entries [])"

text \<open>
  Matrices and their product are \<open>math.h\<close>'s on floats, \<open>'m\<close>, \<open>to_mat4\<close> and \<open>mult\<close> here.
  A joint whose parent has no transform yet would read past the vector: \<open>None\<close>.
\<close>

definition ResolveSkeleton ::
  "(vec3 \<Rightarrow> quat \<Rightarrow> vec3 \<Rightarrow> 'm) \<Rightarrow> ('m \<Rightarrow> 'm \<Rightarrow> 'm) \<Rightarrow> Pack \<Rightarrow> string \<Rightarrow>
   ResolveError + (JointData list \<times> 'm list) option" where
  "ResolveSkeleton to_mat4 mult pack character =
     (case ResolveAsset (pk_index pack) (pk_mapping pack) (CharacterSkeletonPath character)
             kSkeleton DecodeSkeletonBlob of
        Inl error \<Rightarrow> Inl error
      | Inr stored \<Rightarrow>
          Inr (map_option (Pair (joints stored))
            (compose_transforms mult
               (map (\<lambda>joint. (jd_parent joint, to_mat4 (jd_translation joint) (jd_rotation joint) (jd_scale joint)))
                  (joints stored)) [])))"

definition ResolveAnimationSkeleton :: "Pack \<Rightarrow> string \<Rightarrow> ResolveError + byte list" where
  "ResolveAnimationSkeleton pack character =
     ResolveAsset (pk_index pack) (pk_mapping pack) (CharacterAnimationSkeletonPath character)
       kAnimationSkeleton DecodeAnimationSkeletonBlob"

definition ResolveClip :: "Pack \<Rightarrow> string \<Rightarrow> string \<Rightarrow> ResolveError + ClipData" where
  "ResolveClip pack character role =
     ResolveAsset (pk_index pack) (pk_mapping pack) (CharacterClipPath character role) kClip DecodeClipBlob"

definition ResolveStanceTransitions :: "Pack \<Rightarrow> string \<Rightarrow> ResolveError + StanceTransitionsData" where
  "ResolveStanceTransitions pack character =
     ResolveAsset (pk_index pack) (pk_mapping pack) (CharacterStanceTransitionsPath character)
       kStanceTransitions DecodeStanceTransitionsBlob"

definition ResolveSpawnPoint :: "Pack \<Rightarrow> string \<Rightarrow> ResolveError + SpawnPointData" where
  "ResolveSpawnPoint pack path =
     ResolveAsset (pk_index pack) (pk_mapping pack) path kSpawnPoint DecodeSpawnPointBlob"

definition ResolveEye :: "Pack \<Rightarrow> string \<Rightarrow> ResolveError + EyeData" where
  "ResolveEye pack path = ResolveAsset (pk_index pack) (pk_mapping pack) path kEye DecodeEyeBlob"

definition ResolveRifle :: "Pack \<Rightarrow> ResolveError + RifleData" where
  "ResolveRifle pack = ResolveAsset (pk_index pack) (pk_mapping pack) kRiflePath kRifle DecodeRifleBlob"

definition ResolveWeaponSocket :: "Pack \<Rightarrow> string \<Rightarrow> ResolveError + WeaponSocketData" where
  "ResolveWeaponSocket pack character =
     ResolveAsset (pk_index pack) (pk_mapping pack) (CharacterWeaponSocketPath character)
       kWeaponSocket DecodeWeaponSocketBlob"

definition ResolveAudio :: "Pack \<Rightarrow> string \<Rightarrow> ResolveError + AudioData" where
  "ResolveAudio pack path = ResolveAsset (pk_index pack) (pk_mapping pack) path kAudio DecodeAudioBlob"

definition ResolveCueSound :: "Pack \<Rightarrow> string \<Rightarrow> ResolveError + CueSoundData" where
  "ResolveCueSound pack path = ResolveAsset (pk_index pack) (pk_mapping pack) path kCueSound DecodeCueSoundBlob"

definition ResolveScript :: "Pack \<Rightarrow> string \<Rightarrow> ResolveError + string" where
  "ResolveScript pack path = ResolveAsset (pk_index pack) (pk_mapping pack) path kScript DecodeScriptBlob"

definition ResolveCharacters :: "Pack \<Rightarrow> ResolveError + string list" where
  "ResolveCharacters pack =
     ResolveAsset (pk_index pack) (pk_mapping pack) kCharactersPath kCharacters DecodeCharactersBlob"

end
