(* ===== verification/Pack_Round_Trip.thy ===== *)
theory Pack_Round_Trip
  imports Blob_Codec Pack_Reader
begin

text \<open>
  The pack container end to end: a pack \<open>WritePack\<close> wrote is the pack \<open>Pack::Load\<close> opens,
  entry for entry and byte for byte; whatever \<open>Pack::Load\<close> accepts is hashed, signed and
  has an index whose blobs all lie in the data section; and what a failed write leaves.
\<close>

section \<open>The header\<close>

lemma flag_bits: "kHeaderHasClientPack = 1"
  by (simp add: kHeaderHasClientPack_def)

lemma ParseClientPack_bytes:
  assumes "pred_option (\<lambda>h. length h = kPackHashSize) client_pack"
  shows "ParseClientPack
     ([case client_pack of Some _ \<Rightarrow> kHeaderHasClientPack | None \<Rightarrow> 0] @
      (case client_pack of Some h \<Rightarrow> h | None \<Rightarrow> replicate kPackHashSize 0)) = Inr client_pack"
  using assms
  by (cases client_pack) (simp_all add: ParseClientPack_def wire_simps flag_bits ReadBytes_def list_ex_iff)

lemma ParsePackHeader_bytes:
  assumes cp: "pred_option (\<lambda>h. length h = kPackHashSize) client_pack"
    and n: "length es \<le> kMaxEntries"
    and fits: "kHeaderSize + length (data_bytes es) \<le> hashed" and hashed: "hashed < 2 ^ 64"
  shows "ParsePackHeader (header_bytes es client_pack) (word_of_nat hashed) =
     Inr \<lparr>ph_version = kFormatVersion, ph_data_offset = word_of_nat kHeaderSize,
          ph_index_offset = word_of_nat (kHeaderSize + length (data_bytes es)),
          ph_index_count = word_of_nat (length es), ph_client_pack = client_pack\<rparr>"
proof -
  have count: "unat (word_of_nat (length es) :: u32) = length es"
    using n by (simp add: kMaxEntries_def unat_of_nat)
  have off: "unat (word_of_nat (kHeaderSize + length (data_bytes es)) :: u64) = kHeaderSize + length (data_bytes es)"
    using fits hashed by (intro unat_of_nat_u64) simp
  have "\<not> (word_of_nat (kHeaderSize + length (data_bytes es)) :: u64) < word_of_nat kHeaderSize"
    unfolding word_less_nat_alt off by simp
  moreover have "\<not> (word_of_nat hashed :: u64) < word_of_nat (kHeaderSize + length (data_bytes es))"
    unfolding word_less_nat_alt off using hashed fits by (simp add: unat_of_nat)
  moreover have "ReadBytes (map byte_of_char kPackMagic @ rest) (length kPackMagic) = (Some (map byte_of_char kPackMagic), rest)" for rest
    by (rule ReadBytes_append) simp
  ultimately show ?thesis
    unfolding header_bytes_def ParsePackHeader_def Let_def
    using ParseClientPack_bytes [OF cp] n count
    by (simp add: wire_simps del: of_nat_add kHeaderSize_eq)
qed

section \<open>The index\<close>

definition packed_entry :: "AssetEntry \<Rightarrow> nat \<Rightarrow> PackEntry" where
  "packed_entry e off =
     \<lparr>pe_type = ae_type e, pe_offset = word_of_nat off, pe_size = word_of_nat (length (ae_data e)),
      pe_path = ae_path e\<rparr>"

definition packed_index :: "AssetEntry list \<Rightarrow> PackEntry list" where
  "packed_index es = map2 packed_entry es (entry_offsets kHeaderSize es)"

lemma length_packed_index [simp]: "length (packed_index es) = length es"
  by (simp add: packed_index_def)

lemma packed_index_nth:
  "k < length es \<Longrightarrow>
   packed_index es ! k = packed_entry (es ! k) (kHeaderSize + length (data_bytes (take k es)))"
  by (simp add: packed_index_def entry_offsets_nth)

lemma ParseIndexEntry_bytes:
  assumes "short_string (ae_path e)" and "ae_path e \<notin> pe_path ` set index"
    and "kHeaderSize \<le> off" and "off + length (ae_data e) \<le> data_end" and "data_end < 2 ^ 64"
  shows "ParseIndexEntry (word_of_nat data_end) (index_entry_bytes (index_item e off) @ rest, index) =
     Inr (rest, index @ [packed_entry e off])"
proof -
  have nums: "unat (word_of_nat off :: u64) = off" "unat (word_of_nat data_end :: u64) = data_end"
    "unat (word_of_nat (length (ae_data e)) :: u64) = length (ae_data e)"
    using assms by (simp_all add: unat_of_nat)
  have sub: "unat (word_of_nat data_end - word_of_nat off :: u64) = data_end - off"
    using assms nums by (subst unat_sub) (simp_all add: word_le_nat_alt)
  have "\<not> (word_of_nat off :: u64) < word_of_nat kHeaderSize"
    "\<not> (word_of_nat data_end :: u64) < word_of_nat off"
    "\<not> (word_of_nat data_end - word_of_nat off :: u64) < word_of_nat (length (ae_data e))"
    unfolding word_less_nat_alt nums sub using assms by simp_all
  moreover have "\<not> list_ex (\<lambda>existing. pe_path existing = ae_path e) index"
    using assms(2) by (force simp: list_ex_iff)
  ultimately show ?thesis using assms(1)
    by (simp add: ParseIndexEntry_def index_entry_bytes_def index_item_def packed_entry_def wire_simps)
qed

lemma ParseIndexLoop_bytes:
  assumes "list_all (\<lambda>e. short_string (ae_path e)) es"
    and "distinct (map ae_path es)" and "pe_path ` set index \<inter> ae_path ` set es = {}"
    and "kHeaderSize \<le> start" and "start + length (data_bytes es) \<le> data_end" and "data_end < 2 ^ 64"
    and "length ks = length es"
  shows "for_each (\<lambda>_. ParseIndexEntry (word_of_nat data_end)) ks
      (concat (map index_entry_bytes (map2 index_item es (entry_offsets start es))), index) =
     Inr ([], index @ map2 packed_entry es (entry_offsets start es))"
  using assms
proof (induction es arbitrary: start index ks)
  case Nil
  then show ?case by simp
next
  case (Cons e es)
  then obtain k ks' where ks: "ks = k # ks'" "length ks' = length es" by (cases ks) auto
  have data: "start + length (ae_data e) + length (data_bytes es) \<le> data_end"
    using Cons.prems(5) by (simp add: data_bytes_def)
  have entry: "ParseIndexEntry (word_of_nat data_end) (index_entry_bytes (index_item e start) @ rest, index) =
     Inr (rest, index @ [packed_entry e start])" for rest
    using Cons.prems data by (intro ParseIndexEntry_bytes) auto
  have "for_each (\<lambda>_. ParseIndexEntry (word_of_nat data_end)) ks'
      (concat (map index_entry_bytes (map2 index_item es (entry_offsets (start + length (ae_data e)) es))),
       index @ [packed_entry e start]) =
     Inr ([], (index @ [packed_entry e start]) @ map2 packed_entry es (entry_offsets (start + length (ae_data e)) es))"
    using Cons.prems data ks by (intro Cons.IH) (auto simp: packed_entry_def)
  then show ?case by (simp add: ks entry)
qed

lemma ParsePackIndex_bytes:
  assumes "list_all (\<lambda>e. short_string (ae_path e)) es" and "distinct (map ae_path es)"
    and "length es \<le> kMaxEntries" and "kHeaderSize + length (data_bytes es) < 2 ^ 64"
  shows "ParsePackIndex (index_bytes es) (word_of_nat (kHeaderSize + length (data_bytes es)))
     (word_of_nat (length es)) = Inr (packed_index es)"
proof -
  have count: "unat (word_of_nat (length es) :: u32) = length es"
    using assms(3) by (simp add: kMaxEntries_def unat_of_nat)
  have "for_each (\<lambda>_. ParseIndexEntry (word_of_nat (kHeaderSize + length (data_bytes es)))) [0..<length es]
      (index_bytes es, []) = Inr ([], [] @ packed_index es)"
    unfolding index_bytes_def packed_index_def
    using assms by (intro ParseIndexLoop_bytes) simp_all
  then show ?thesis by (simp add: ParsePackIndex_def count del: of_nat_add kHeaderSize_eq)
qed

text \<open>What the parse guarantees of any index it accepts, however the bytes came about.\<close>

definition entry_in :: "nat \<Rightarrow> PackEntry \<Rightarrow> bool" where
  "entry_in data_end e \<longleftrightarrow>
     kHeaderSize \<le> unat (pe_offset e) \<and> unat (pe_offset e) + unat (pe_size e) \<le> data_end"

definition index_ok :: "nat \<Rightarrow> PackEntry list \<Rightarrow> bool" where
  "index_ok data_end index \<longleftrightarrow> distinct (map pe_path index) \<and> list_all (entry_in data_end) index \<and>
     list_all (\<lambda>e. short_string (pe_path e)) index"

lemma ParseIndexEntry_ok:
  assumes "ParseIndexEntry data_end (r, index) = Inr (r', index')" and "index_ok (unat data_end) index"
  shows "index_ok (unat data_end) index' \<and> length index' = Suc (length index)"
proof -
  from assms(1) have "\<exists>e. index' = index @ [e] \<and> \<not> pe_offset e < word_of_nat kHeaderSize \<and>
      \<not> pe_offset e > data_end \<and> \<not> pe_size e > data_end - pe_offset e \<and>
      \<not> list_ex (\<lambda>existing. pe_path existing = pe_path e) index \<and>
      (\<exists>r r'. ReadString r = (Some (pe_path e), r'))"
    by (auto simp: ParseIndexEntry_def Let_def split: prod.splits option.splits if_splits) blast
  then obtain e where index': "index' = index @ [e]"
    and range: "\<not> pe_offset e < word_of_nat kHeaderSize" "\<not> pe_offset e > data_end"
      "\<not> pe_size e > data_end - pe_offset e"
    and fresh: "\<not> list_ex (\<lambda>existing. pe_path existing = pe_path e) index"
    and short: "\<exists>r r'. ReadString r = (Some (pe_path e), r')"
    by blast
  have "unat (data_end - pe_offset e) = unat data_end - unat (pe_offset e)"
    using range(2) by (intro unat_sub) simp
  then have "entry_in (unat data_end) e"
    using range by (simp add: entry_in_def word_less_nat_alt)
  moreover have "short_string (pe_path e)" using short by (auto dest: ReadString_SomeD)
  ultimately show ?thesis using assms(2) fresh
    by (auto simp: index_ok_def index' list_ex_iff)
qed

lemma ParsePackIndex_ok:
  assumes "ParsePackIndex bytes data_end count = Inr index"
  shows "index_ok (unat data_end) index \<and> length index = unat count"
proof -
  have loop: "index_ok (unat data_end) (snd s') \<and> length (snd s') = length (snd s) + length ks"
    if "for_each (\<lambda>_. ParseIndexEntry data_end) ks s = Inr s'" "index_ok (unat data_end) (snd s)"
    for ks :: "nat list" and s s'
    using that
  proof (induction ks arbitrary: s)
    case Nil
    then show ?case by simp
  next
    case (Cons k ks)
    then obtain s1 where s1: "ParseIndexEntry data_end s = Inr s1"
      and rest: "for_each (\<lambda>_. ParseIndexEntry data_end) ks s1 = Inr s'"
      by (auto split: sum.splits)
    have "index_ok (unat data_end) (snd s1) \<and> length (snd s1) = Suc (length (snd s))"
      using ParseIndexEntry_ok [of data_end "fst s" "snd s" "fst s1" "snd s1"] s1 Cons.prems by simp
    with Cons.IH [OF rest] show ?case by simp
  qed
  show ?thesis
    using assms loop [of "[0..<unat count]" "(bytes, [])"]
    by (auto simp: ParsePackIndex_def index_ok_def split: sum.splits prod.splits)
qed

section \<open>Loading\<close>

text \<open>The file \<open>WritePackFile\<close> leaves when nothing is lost, and the pack it is.\<close>

definition pack_image :: "(byte list \<Rightarrow> PackHash) \<Rightarrow> ('sk \<Rightarrow> byte list \<Rightarrow> Ed25519Signature) \<Rightarrow> 'sk \<Rightarrow>
   AssetEntry list \<Rightarrow> PackHash option \<Rightarrow> byte list" where
  "pack_image blake3 sign signing_key es client_pack =
     pack_file_bytes (pack_sections es client_pack) (SignPack blake3 sign (pack_sections es client_pack) signing_key)"

definition packable :: "AssetEntry list \<Rightarrow> PackHash option \<Rightarrow> bool" where
  "packable es client_pack \<longleftrightarrow>
     length es \<le> kMaxEntries \<and> list_all (\<lambda>e. short_string (ae_path e)) es \<and> distinct (map ae_path es) \<and>
     pack_size es client_pack \<le> kMaxPackSize"

lemma WritePack_result:
  assumes "WritePack blake3 sign env fs output_path es signing_key client_pack = (Inr hash, fs')"
    and "pack_size es client_pack < 2 ^ 64"
  shows "packable es client_pack \<and>
     hash = tr_hash (SignPack blake3 sign (pack_sections es client_pack) signing_key) \<and>
     WritePackFile env fs output_path (pack_sections es client_pack)
       (SignPack blake3 sign (pack_sections es client_pack) signing_key) = (Inr (), fs')"
proof -
  from assms(1) have valid: "ValidateEntries es = Inr ()"
    by (auto simp: WritePack_def split: sum.splits)
  then have short: "list_all (\<lambda>e. short_string (ae_path e)) es" by (simp add: ValidateEntries_Inr)
  have "unat (word_of_nat (pack_size es client_pack) :: u64) = pack_size es client_pack"
    using assms(2) by (simp add: unat_of_nat)
  then show ?thesis using assms(1) valid
    by (auto simp: WritePack_def ValidateEntries_Inr BuildPackSections_eq [OF short] packable_def Let_def
        split: sum.splits if_splits prod.splits)
qed

text \<open>The third-party primitives: a 32-byte hash, a 64-byte signature the public key accepts.\<close>

definition crypto_ok ::
  "(byte list \<Rightarrow> PackHash) \<Rightarrow> ('sk \<Rightarrow> byte list \<Rightarrow> Ed25519Signature) \<Rightarrow>
   ('pk \<Rightarrow> byte list \<Rightarrow> Ed25519Signature \<Rightarrow> bool) \<Rightarrow> 'sk \<Rightarrow> 'pk \<Rightarrow> bool" where
  "crypto_ok blake3 sign verify signing_key public_key \<longleftrightarrow>
     (\<forall>m. length (blake3 m) = kPackHashSize) \<and>
     (\<forall>m. length (sign signing_key m) = kEd25519SignatureSize) \<and>
     (\<forall>m. verify public_key m (sign signing_key m))"

lemma OpenPack_image:
  assumes ok: "packable es client_pack" and cp: "pred_option (\<lambda>h. length h = kPackHashSize) client_pack"
    and crypto: "crypto_ok blake3 sign verify signing_key public_key"
    and img: "img = pack_image blake3 sign signing_key es client_pack"
    and stored: "fs_stat path = Some img" "fs_map path = Some img"
  shows "OpenPack fs_stat fs_map path =
     Inr \<lparr>op_mapping = img,
          op_header = \<lparr>ph_version = kFormatVersion, ph_data_offset = word_of_nat kHeaderSize,
             ph_index_offset = word_of_nat (kHeaderSize + length (data_bytes es)),
             ph_index_count = word_of_nat (length es), ph_client_pack = client_pack\<rparr>,
          op_hashed_length = word_of_nat (kHeaderSize + length (data_bytes es) + length (index_bytes es))\<rparr>"
proof -
  let ?content = "kHeaderSize + length (data_bytes es) + length (index_bytes es)"
  have hlen: "length (header_bytes es client_pack) = kHeaderSize" using cp by (rule length_header_bytes)
  have len: "length img = ?content + kTrailerSize"
    using crypto hlen by (simp add: img pack_image_def pack_file_bytes_def pack_sections_def SignPack_def Let_def
        crypto_ok_def kPackHashSize_def kEd25519SignatureSize_def)
  have size: "length img \<le> kMaxPackSize" using ok hlen by (simp add: len packable_def pack_size_def)
  then have small: "?content < 2 ^ 64" by (simp add: len kMaxPackSize_def)
  have "OpenValidatedMapping fs_stat fs_map path = Inr img"
    using size by (simp add: OpenValidatedMapping_def stored len)
  moreover have "(word_of_nat (length img) - word_of_nat kTrailerSize :: u64) = word_of_nat ?content"
    by (simp add: len)
  moreover have "take kHeaderSize img = header_bytes es client_pack"
    using hlen by (simp add: img pack_image_def pack_file_bytes_def pack_sections_def)
  moreover have "ParsePackHeader (header_bytes es client_pack) (word_of_nat ?content) =
     Inr \<lparr>ph_version = kFormatVersion, ph_data_offset = word_of_nat kHeaderSize,
          ph_index_offset = word_of_nat (kHeaderSize + length (data_bytes es)),
          ph_index_count = word_of_nat (length es), ph_client_pack = client_pack\<rparr>"
    using ok cp small by (intro ParsePackHeader_bytes) (simp_all add: packable_def)
  ultimately show ?thesis by (simp add: OpenPack_def Let_def del: of_nat_add kHeaderSize_eq)
qed

lemma ParsePackIndexOf_image:
  assumes ok: "packable es client_pack" and cp: "pred_option (\<lambda>h. length h = kPackHashSize) client_pack"
    and img: "img = pack_image blake3 sign signing_key es client_pack"
  shows "ParsePackIndexOf \<lparr>op_mapping = img,
          op_header = \<lparr>ph_version = kFormatVersion, ph_data_offset = word_of_nat kHeaderSize,
             ph_index_offset = word_of_nat (kHeaderSize + length (data_bytes es)),
             ph_index_count = word_of_nat (length es), ph_client_pack = client_pack\<rparr>,
          op_hashed_length = word_of_nat (kHeaderSize + length (data_bytes es) + length (index_bytes es))\<rparr> =
     Inr (packed_index es)"
proof -
  let ?off = "kHeaderSize + length (data_bytes es)"
  have hlen: "length (header_bytes es client_pack) = kHeaderSize" using cp by (rule length_header_bytes)
  have small: "?off + length (index_bytes es) < 2 ^ 64"
    using ok hlen by (simp add: packable_def pack_size_def kMaxPackSize_def)
  have "(word_of_nat (?off + length (index_bytes es)) - word_of_nat ?off :: u64) = word_of_nat (length (index_bytes es))"
    by simp
  moreover have "subspan img (word_of_nat ?off) (word_of_nat (length (index_bytes es))) = index_bytes es"
    using hlen small unat_of_nat_u64 [of ?off] unat_of_nat_u64 [of "length (index_bytes es)"]
    by (simp add: subspan_def img pack_image_def pack_file_bytes_def pack_sections_def del: of_nat_add)
  moreover have "ParsePackIndex (index_bytes es) (word_of_nat ?off) (word_of_nat (length es)) = Inr (packed_index es)"
    using ok small by (intro ParsePackIndex_bytes) (simp_all add: packable_def)
  ultimately show ?thesis
    by (simp add: ParsePackIndexOf_def Let_def del: of_nat_add kHeaderSize_eq)
qed

lemma ReadTrailer_image:
  assumes ok: "packable es client_pack" and cp: "pred_option (\<lambda>h. length h = kPackHashSize) client_pack"
    and crypto: "crypto_ok blake3 sign verify signing_key public_key"
    and img: "img = pack_image blake3 sign signing_key es client_pack"
    and content: "content = word_of_nat (kHeaderSize + length (data_bytes es) + length (index_bytes es))"
  shows "ReadTrailer img content = SignPack blake3 sign (pack_sections es client_pack) signing_key"
    and "HashContent blake3 img content = tr_hash (SignPack blake3 sign (pack_sections es client_pack) signing_key)"
proof -
  let ?n = "kHeaderSize + length (data_bytes es) + length (index_bytes es)"
  have hlen: "length (header_bytes es client_pack) = kHeaderSize" using cp by (rule length_header_bytes)
  have n: "unat (word_of_nat ?n :: u64) = ?n"
    using ok hlen by (intro unat_of_nat_u64) (simp add: packable_def pack_size_def kMaxPackSize_def)
  have lens: "length (blake3 m) = 32" "length (sign signing_key m) = 64" for m
    using crypto by (simp_all add: crypto_ok_def kPackHashSize_def kEd25519SignatureSize_def)
  show "ReadTrailer img content = SignPack blake3 sign (pack_sections es client_pack) signing_key"
    unfolding content ReadTrailer_def n using hlen lens
    by (simp add: img pack_image_def pack_file_bytes_def SignPack_def pack_sections_def Let_def
        kPackHashSize_def kEd25519SignatureSize_def)
  show "HashContent blake3 img content = tr_hash (SignPack blake3 sign (pack_sections es client_pack) signing_key)"
    unfolding content HashContent_def n using hlen
    by (simp add: img pack_image_def pack_file_bytes_def SignPack_def pack_sections_def Let_def)
qed

lemma Pack_Load_image:
  assumes ok: "packable es client_pack" and cp: "pred_option (\<lambda>h. length h = kPackHashSize) client_pack"
    and crypto: "crypto_ok blake3 sign verify signing_key public_key"
    and img: "img = pack_image blake3 sign signing_key es client_pack"
    and stored: "fs_stat path = Some img" "fs_map path = Some img"
  shows "Pack_Load blake3 verify fs_stat fs_map path public_key =
     Inr \<lparr>pk_mapping = img, pk_index = packed_index es,
          pk_hash = tr_hash (SignPack blake3 sign (pack_sections es client_pack) signing_key),
          pk_client_pack = client_pack, pk_version = kFormatVersion, pk_path = path\<rparr>"
proof -
  have verified: "verify public_key (tr_hash t) (tr_signature t)"
    if "t = SignPack blake3 sign (pack_sections es client_pack) signing_key" for t
    using crypto that by (simp add: crypto_ok_def SignPack_def Let_def)
  show ?thesis
    unfolding Pack_Load_def OpenPack_image [where fs_stat = fs_stat and fs_map = fs_map and path = path, OF ok cp crypto img stored]
    using verified ParsePackIndexOf_image [OF ok cp img] ReadTrailer_image [OF ok cp crypto img refl]
    by (simp add: Let_def del: of_nat_add kHeaderSize_eq)
qed

lemma BlobBytes_image:
  assumes ok: "packable es client_pack" and cp: "pred_option (\<lambda>h. length h = kPackHashSize) client_pack"
    and k: "k < length es"
  shows "BlobBytes (pack_image blake3 sign signing_key es client_pack) (packed_index es ! k) = ae_data (es ! k)"
proof -
  let ?off = "kHeaderSize + length (data_bytes (take k es))" and ?n = "length (ae_data (es ! k))"
  have hlen: "length (header_bytes es client_pack) = kHeaderSize" using cp by (rule length_header_bytes)
  have le: "length (data_bytes (take k es)) + ?n \<le> length (data_bytes es)" using k by (rule data_bytes_prefix_le)
  have "?off + ?n < 2 ^ 64"
    using ok hlen le by (simp add: packable_def pack_size_def kMaxPackSize_def)
  then have nums: "unat (word_of_nat ?off :: u64) = ?off" "unat (word_of_nat ?n :: u64) = ?n"
    using unat_of_nat_u64 [of ?off] unat_of_nat_u64 [of ?n] by (simp_all del: of_nat_add)
  show ?thesis
    using nums hlen le data_bytes_slice [OF k] k
    by (simp add: BlobBytes_def subspan_def packed_index_nth packed_entry_def pack_image_def pack_file_bytes_def
        pack_sections_def del: of_nat_add)
qed

lemma FindIndexEntry_packed:
  assumes ok: "packable es client_pack" and k: "k < length es"
  shows "FindIndexEntry (packed_index es) (ae_path (es ! k)) t =
     (if ae_type (es ! k) \<noteq> t then Inl kTypeMismatch else Inr (packed_index es ! k))"
proof -
  have paths: "map pe_path (packed_index es) = map ae_path es"
    by (rule nth_equalityI) (simp_all add: packed_index_nth packed_entry_def)
  then have dist: "distinct (map pe_path (packed_index es))" using ok by (simp add: packable_def)
  have path: "pe_path (packed_index es ! k) = ae_path (es ! k)"
    and type: "pe_type (packed_index es ! k) = ae_type (es ! k)"
    using k by (simp_all add: packed_index_nth packed_entry_def)
  have "\<forall>j < k. pe_path (packed_index es ! j) \<noteq> ae_path (es ! k)"
    using dist k path unfolding distinct_conv_nth by (metis length_map length_packed_index nat_neq_iff nth_map order_less_trans)
  then have "find (\<lambda>entry. pe_path entry = ae_path (es ! k)) (packed_index es) = Some (packed_index es ! k)"
    using k path by (auto simp: find_Some_iff intro!: exI [of _ k])
  then show ?thesis using type by (simp add: FindIndexEntry_def)
qed

lemma WritePack_packable:
  assumes "packable es client_pack"
  shows "WritePack blake3 sign env fs output_path es signing_key client_pack =
     (case WritePackFile env fs output_path (pack_sections es client_pack)
        (SignPack blake3 sign (pack_sections es client_pack) signing_key) of
        (Inl e, fs) \<Rightarrow> (Inl e, fs)
      | (Inr _, fs) \<Rightarrow> (Inr (tr_hash (SignPack blake3 sign (pack_sections es client_pack) signing_key)), fs))"
proof -
  have short: "list_all (\<lambda>e. short_string (ae_path e)) es" using assms(1) by (simp add: packable_def)
  have "unat (word_of_nat (pack_size es client_pack) :: u64) = pack_size es client_pack"
    using assms(1) by (simp add: packable_def kMaxPackSize_def unat_of_nat)
  moreover have "ValidateEntries es = Inr ()" using assms(1) by (simp add: ValidateEntries_Inr packable_def)
  ultimately show ?thesis using assms
    by (simp add: WritePack_def BuildPackSections_eq [OF short] packable_def Let_def)
qed

section \<open>A written pack is the pack that loads\<close>

definition example_entries :: "AssetEntry list" where
  "example_entries =
     [\<lparr>ae_type = kScript, ae_path = ''parameters.lua'', ae_data = [0x61, 0x62]\<rparr>,
      \<lparr>ae_type = kCharacters, ae_path = ''Characters'', ae_data = []\<rparr>,
      \<lparr>ae_type = kAudio, ae_path = ''sounds/a'', ae_data = [1, 2, 3]\<rparr>]"

definition example_env :: write_env where
  "example_env = \<lparr>opens = True, stream_good = True, closed_short = None, renames = True, removes = True\<rparr>"

definition example_hash :: "byte list \<Rightarrow> PackHash" where
  "example_hash bytes = le_bytes 32 (word_of_nat (length bytes) :: u64)"

definition example_sign :: "nat \<Rightarrow> byte list \<Rightarrow> Ed25519Signature" where
  "example_sign key m = take 64 (m @ replicate 64 (word_of_nat key))"

definition example_verify :: "nat \<Rightarrow> byte list \<Rightarrow> Ed25519Signature \<Rightarrow> bool" where
  "example_verify key m signature = (signature = example_sign key m)"

lemma example_crypto_ok: "crypto_ok example_hash example_sign example_verify 7 7"
  by (simp add: crypto_ok_def example_hash_def example_sign_def example_verify_def
      kPackHashSize_def kEd25519SignatureSize_def min_def)

lemma example_packable: "packable example_entries None"
  by (simp add: packable_def example_entries_def kMaxEntries_def short_string_def kMaxPathLength_def
      pack_size_def header_bytes_def kPackMagic_def kPackHashSize_def data_bytes_def index_bytes_def index_item_def
      index_entry_bytes_def string_bytes_def kMaxPackSize_def)

text \<open>
  C1: a pack written without loss loads. When \<open>WritePack\<close> reports success and every byte
  reached the disk, \<open>Pack::Load\<close> of the output path with the matching public key succeeds;
  the pack carries the hash \<open>WritePack\<close> returned, the client pack's hash it was given and
  the entries in the order given, and every \<open>Resolve\<close> of an entry's path decodes exactly
  the bytes that entry was written with, or reports the type mismatch.
\<close>

theorem written_pack_loads:
  assumes "WritePack blake3 sign env fs output_path es signing_key client_pack = (Inr hash, fs')"
    and "closed_short env = None"
    and "pred_option (\<lambda>h. length h = kPackHashSize) client_pack"
    and "crypto_ok blake3 sign verify signing_key public_key"
    and "pack_size es client_pack < 2 ^ 64"
  shows "\<exists>pack. Pack_Load blake3 verify fs' fs' output_path public_key = Inr pack \<and>
     pk_hash pack = hash \<and> pk_client_pack pack = client_pack \<and>
     map pe_path (pk_index pack) = map ae_path es \<and>
     (\<forall>k < length es. \<forall>type decode.
        ResolveAsset (pk_index pack) (pk_mapping pack) (ae_path (es ! k)) type decode =
          (if ae_type (es ! k) \<noteq> type then Inl kTypeMismatch
           else case decode (ae_data (es ! k)) of None \<Rightarrow> Inl kCorruptBlob | Some value \<Rightarrow> Inr value))"
proof -
  let ?img = "pack_image blake3 sign signing_key es client_pack"
  note result = WritePack_result [OF assms(1,5)]
  then have ok: "packable es client_pack" by simp
  have stored: "fs' output_path = Some ?img"
    using result assms(2)
    by (auto simp: WritePackFile_def Let_def pack_image_def split: if_splits)
  have paths: "map pe_path (packed_index es) = map ae_path es"
    by (rule nth_equalityI) (simp_all add: packed_index_nth packed_entry_def)
  show ?thesis
    using Pack_Load_image [where fs_stat = fs' and fs_map = fs' and path = output_path, OF ok assms(3,4) refl stored stored] result paths
    by (simp add: ResolveAsset_def FindIndexEntry_packed [OF ok] BlobBytes_image [OF ok assms(3)])
qed

definition example_fs :: filesystem where
  "example_fs = (Map.empty(''out'' \<mapsto> pack_image example_hash example_sign 7 example_entries None))(''out.tmp'' := None)"

lemma example_write:
  "WritePack example_hash example_sign example_env Map.empty ''out'' example_entries 7 None =
     (Inr (tr_hash (SignPack example_hash example_sign (pack_sections example_entries None) 7)),
      example_fs)"
  by (simp add: WritePack_packable [OF example_packable] WritePackFile_def example_env_def Let_def
      pack_image_def example_fs_def)

theorem written_pack_loads_witness:
  "\<exists>pack. Pack_Load example_hash example_verify example_fs example_fs ''out'' 7 = Inr pack \<and>
     map pe_path (pk_index pack) = [''parameters.lua'', ''Characters'', ''sounds/a''] \<and>
     ResolveAsset (pk_index pack) (pk_mapping pack) ''parameters.lua'' kScript Some = Inr [0x61, 0x62 :: byte]"
proof -
  have size: "pack_size example_entries None < 2 ^ 64"
    using example_packable by (simp add: packable_def kMaxPackSize_def)
  have "closed_short example_env = None" by (simp add: example_env_def)
  from written_pack_loads [OF example_write this _ example_crypto_ok size]
  obtain pack where pack: "Pack_Load example_hash example_verify example_fs example_fs ''out'' 7 = Inr pack"
    and paths: "map pe_path (pk_index pack) = map ae_path example_entries"
    and resolve: "\<forall>k < length example_entries. \<forall>type decode.
        ResolveAsset (pk_index pack) (pk_mapping pack) (ae_path (example_entries ! k)) type decode =
          (if ae_type (example_entries ! k) \<noteq> type then Inl kTypeMismatch
           else case decode (ae_data (example_entries ! k)) of None \<Rightarrow> Inl kCorruptBlob | Some value \<Rightarrow> Inr (value :: byte list))"
    by auto
  have "ResolveAsset (pk_index pack) (pk_mapping pack) ''parameters.lua'' kScript Some = Inr [0x61, 0x62 :: byte]"
    using resolve [rule_format, of 0 kScript Some] by (simp add: example_entries_def)
  then show ?thesis using pack paths by (simp add: example_entries_def)
qed

section \<open>What Pack::Load accepts\<close>

lemma ParseClientPack_Inr:
  "ParseClientPack r = Inr cp \<Longrightarrow> pred_option (\<lambda>h. length h = kPackHashSize) cp"
  by (auto simp: ParseClientPack_def Let_def dest!: ReadBytes_SomeD split: prod.splits option.splits if_splits)

lemma ParsePackHeader_Inr:
  assumes "ParsePackHeader bytes hashed = Inr header"
  shows "\<not> ph_index_offset header < word_of_nat kHeaderSize \<and> \<not> ph_index_offset header > hashed \<and>
    pred_option (\<lambda>h. length h = kPackHashSize) (ph_client_pack header)"
  using assms
  by (auto simp: ParsePackHeader_def Let_def dest!: ParseClientPack_Inr
      split: prod.splits option.splits sum.splits if_splits)

lemma OpenPack_Inr:
  assumes "OpenPack fs_stat fs_map path = Inr opened"
  shows "fs_map path = Some (op_mapping opened) \<and>
     kHeaderSize + kTrailerSize \<le> length (op_mapping opened) \<and> length (op_mapping opened) \<le> kMaxPackSize \<and>
     unat (op_hashed_length opened) = length (op_mapping opened) - kTrailerSize \<and>
     kHeaderSize \<le> unat (ph_index_offset (op_header opened)) \<and>
     unat (ph_index_offset (op_header opened)) \<le> unat (op_hashed_length opened) \<and>
     pred_option (\<lambda>h. length h = kPackHashSize) (ph_client_pack (op_header opened))"
proof -
  let ?m = "op_mapping opened"
  from assms have map: "OpenValidatedMapping fs_stat fs_map path = Inr ?m"
    and hashed: "op_hashed_length opened = word_of_nat (length ?m) - word_of_nat kTrailerSize"
    and header: "ParsePackHeader (take kHeaderSize ?m) (op_hashed_length opened) = Inr (op_header opened)"
    by (auto simp: OpenPack_def Let_def split: sum.splits)
  from map have m: "fs_map path = Some ?m" "kHeaderSize + kTrailerSize \<le> length ?m" "length ?m \<le> kMaxPackSize"
    by (auto simp: OpenValidatedMapping_def split: option.splits if_splits)
  have "unat (word_of_nat (length ?m) - word_of_nat kTrailerSize :: u64) = unat (word_of_nat (length ?m) :: u64) - 96"
    using m by (subst unat_sub) (simp_all add: word_le_nat_alt unat_of_nat kMaxPackSize_def)
  then have n: "unat (op_hashed_length opened) = length ?m - kTrailerSize"
    using m by (simp add: hashed unat_of_nat kMaxPackSize_def)
  show ?thesis using m n ParsePackHeader_Inr [OF header] by (simp add: word_less_nat_alt)
qed

lemma subspan_length:
  "unat offset + unat count \<le> length bytes \<Longrightarrow> length (subspan bytes offset count) = unat count"
  by (simp add: subspan_def)

text \<open>
  C13: what \<open>Pack::Load\<close> accepts is safe to resolve from. The mapping is the file's content,
  within the size limits; the hash the pack reports is the BLAKE3 of everything before the
  trailer and its signature verifies under the key; the index has distinct paths; and the
  span of every entry lies wholly inside the mapping, after the header and before the
  index and the trailer, so \<open>BlobBytes\<close> always returns exactly the entry's size.
\<close>

theorem loaded_pack_sound:
  assumes "Pack_Load blake3 verify fs_stat fs_map path public_key = Inr pack"
  shows "\<exists>data_end. fs_map path = Some (pk_mapping pack) \<and>
     kHeaderSize + kTrailerSize \<le> length (pk_mapping pack) \<and> length (pk_mapping pack) \<le> kMaxPackSize \<and>
     pk_hash pack = blake3 (take (length (pk_mapping pack) - kTrailerSize) (pk_mapping pack)) \<and>
     verify public_key (pk_hash pack) (drop (length (pk_mapping pack) - kEd25519SignatureSize) (pk_mapping pack)) \<and>
     distinct (map pe_path (pk_index pack)) \<and>
     kHeaderSize \<le> data_end \<and> data_end \<le> length (pk_mapping pack) - kTrailerSize \<and>
     (\<forall>e \<in> set (pk_index pack). kHeaderSize \<le> unat (pe_offset e) \<and>
        unat (pe_offset e) + unat (pe_size e) \<le> data_end \<and>
        length (BlobBytes (pk_mapping pack) e) = unat (pe_size e))"
proof -
  from assms obtain opened where opened: "OpenPack fs_stat fs_map path = Inr opened"
    and m: "pk_mapping pack = op_mapping opened"
    and hash: "HashContent blake3 (pk_mapping pack) (op_hashed_length opened) = pk_hash pack"
    and sig: "verify public_key (pk_hash pack) (tr_signature (ReadTrailer (pk_mapping pack) (op_hashed_length opened)))"
    and index: "ParsePackIndexOf opened = Inr (pk_index pack)"
    by (auto simp: Pack_Load_def Let_def split: sum.splits if_splits)
  let ?limit = "unat (ph_index_offset (op_header opened))"
  note facts = OpenPack_Inr [OF opened, folded m]
  have ok: "index_ok ?limit (pk_index pack)"
    using index by (auto simp: ParsePackIndexOf_def Let_def dest: ParsePackIndex_ok)
  have in_map: "length (BlobBytes (pk_mapping pack) e) = unat (pe_size e)" if "e \<in> set (pk_index pack)" for e
    using ok that facts unfolding BlobBytes_def
    by (intro subspan_length) (auto simp: index_ok_def list_all_iff entry_in_def)
  have "length (pk_mapping pack) - kTrailerSize + kPackHashSize = length (pk_mapping pack) - kEd25519SignatureSize"
    using facts by (simp add: kPackHashSize_def kEd25519SignatureSize_def)
  then have "tr_signature (ReadTrailer (pk_mapping pack) (op_hashed_length opened)) =
      drop (length (pk_mapping pack) - kEd25519SignatureSize) (pk_mapping pack)"
    using facts by (simp add: ReadTrailer_def)
  then show ?thesis
    using facts ok in_map hash sig
    by (intro exI [of _ ?limit]) (auto simp: index_ok_def list_all_iff entry_in_def HashContent_def)
qed

lemma example_load:
  "Pack_Load example_hash example_verify example_fs example_fs ''out'' 7 =
     Inr \<lparr>pk_mapping = pack_image example_hash example_sign 7 example_entries None,
          pk_index = packed_index example_entries,
          pk_hash = tr_hash (SignPack example_hash example_sign (pack_sections example_entries None) 7),
          pk_client_pack = None, pk_version = kFormatVersion, pk_path = ''out''\<rparr>"
  by (rule Pack_Load_image [OF example_packable _ example_crypto_ok refl]) (simp_all add: example_fs_def)

theorem loaded_pack_sound_witness:
  "distinct (map pe_path (packed_index example_entries)) \<and>
   list_all (\<lambda>e.
      length (BlobBytes (pack_image example_hash example_sign 7 example_entries None) e) = unat (pe_size e))
     (packed_index example_entries)"
  using loaded_pack_sound [OF example_load] by (auto simp: list_all_iff)

text \<open>
  C27: \<open>ReadPackLayout\<close> reads what \<open>Pack::Load\<close> would. On a pack that loads, it reports the
  same version, entries, client pack hash and content hash; where it refuses a file, so
  does \<open>Pack::Load\<close>, under any key, with the same error unless the content hash or the
  signature, which \<open>Pack::Load\<close> checks before the index, was wrong too.
\<close>

theorem layout_agrees_with_load:
  "(\<forall>pack. Pack_Load blake3 verify fs_stat fs_map path public_key = Inr pack \<longrightarrow>
      (\<exists>layout. ReadPackLayout fs_stat fs_map path = Inr layout \<and> pl_version layout = pk_version pack \<and>
         pl_entries layout = pk_index pack \<and> pl_client_pack layout = pk_client_pack pack \<and>
         pl_hash layout = pk_hash pack)) \<and>
   (\<forall>error. ReadPackLayout fs_stat fs_map path = Inl error \<longrightarrow>
      (\<exists>refused. Pack_Load blake3 verify fs_stat fs_map path public_key = Inl refused \<and>
         (refused = error \<or> le_code refused \<in> {kHashMismatch, kSignatureInvalid})))"
  by (auto simp: Pack_Load_def ReadPackLayout_def Let_def Refuse_def split: sum.splits if_splits)

theorem layout_agrees_with_load_witness:
  "\<exists>layout. ReadPackLayout example_fs example_fs ''out'' = Inr layout \<and>
     map pe_path (pl_entries layout) = [''parameters.lua'', ''Characters'', ''sounds/a'']"
proof -
  have "map pe_path (packed_index example_entries) = [''parameters.lua'', ''Characters'', ''sounds/a'']"
    by (simp add: packed_index_def packed_entry_def example_entries_def)
  then show ?thesis
    using conjunct1 [OF layout_agrees_with_load [where ?blake3.0 = example_hash and verify = example_verify
        and fs_stat = example_fs and fs_map = example_fs and path = "''out''" and public_key = 7],
        rule_format, OF example_load]
    by auto
qed

text \<open>
  The error is not always the same: a header that names an entry the file does not hold
  is \<open>kInvalidIndex\<close> to the one and, unless the hash was made to match, \<open>kHashMismatch\<close> to
  the other.
\<close>

definition indexless_header :: "byte list" where
  "indexless_header =
     map byte_of_char kPackMagic @ le_bytes 4 kFormatVersion @ le_bytes 8 (61 :: u64) @ le_bytes 8 (61 :: u64) @
     le_bytes 4 (1 :: u32) @ [0] @ replicate 32 0"

definition indexless_fs :: filesystem where
  "indexless_fs = [''pack'' \<mapsto> indexless_header @ replicate 96 0]"

lemma indexless_opened:
  "OpenPack indexless_fs indexless_fs ''pack'' = Inr
     \<lparr>op_mapping = indexless_header @ replicate 96 0,
      op_header = \<lparr>ph_version = kFormatVersion, ph_data_offset = 61, ph_index_offset = 61,
         ph_index_count = 1, ph_client_pack = None\<rparr>,
      op_hashed_length = 61\<rparr>"
proof -
  have len: "length indexless_header = 61" by (simp add: indexless_header_def kPackMagic_def)
  have magic: "ReadBytes (map byte_of_char kPackMagic @ rest) (length kPackMagic) = (Some (map byte_of_char kPackMagic), rest)" for rest
    by (rule ReadBytes_append) simp
  have "ParsePackHeader indexless_header 61 = Inr
      \<lparr>ph_version = kFormatVersion, ph_data_offset = 61, ph_index_offset = 61,
         ph_index_count = 1, ph_client_pack = None\<rparr>"
    using ParseClientPack_bytes [of None]
    by (simp add: ParsePackHeader_def indexless_header_def magic wire_simps kMaxEntries_def kPackHashSize_def)
  moreover have "OpenValidatedMapping indexless_fs indexless_fs ''pack'' = Inr (indexless_header @ replicate 96 0)"
    by (simp add: OpenValidatedMapping_def indexless_fs_def len kMaxPackSize_def)
  ultimately show ?thesis by (simp add: OpenPack_def len Let_def)
qed

theorem layout_error_differs:
  "ReadPackLayout indexless_fs indexless_fs ''pack'' = Inl (Refuse kInvalidIndex 0) \<and>
   Pack_Load example_hash example_verify indexless_fs indexless_fs ''pack'' 7 = Inl (Refuse kHashMismatch 0)"
proof -
  have len: "length indexless_header = 61" by (simp add: indexless_header_def kPackMagic_def)
  have "(example_hash indexless_header ! 0) = 61"
    by (simp add: example_hash_def len le_bytes_def kBitsPerByte_def kByteMask_def)
  then have "example_hash indexless_header \<noteq> replicate 32 0" by auto
  then show ?thesis
    by (simp add: ReadPackLayout_def Pack_Load_def indexless_opened ParsePackIndexOf_def ParsePackIndex_def subspan_def
        len ParseIndexEntry_def wire_simps ReadTrailer_def HashContent_def kPackHashSize_def Let_def)
qed

section \<open>What a write leaves behind\<close>

text \<open>
  C26: a refused write leaves the output path alone. Whatever the reason \<open>WritePack\<close> reports,
  every path other than the temporary file is as it was; a refusal by the entries or the
  size limits writes nothing at all; and where the temporary file can be removed, it is.
\<close>

theorem refused_write_leaves_output:
  assumes "WritePack blake3 sign env fs output_path es signing_key client_pack = (Inl error, fs')"
  shows "(\<forall>path. path \<noteq> output_path @ ''.tmp'' \<longrightarrow> fs' path = fs path) \<and> fs' output_path = fs output_path \<and>
     (error \<noteq> WriteError.kIoError \<longrightarrow> fs' = fs) \<and>
     (removes env \<and> opens env \<and> error = WriteError.kIoError \<longrightarrow> fs' (output_path @ ''.tmp'') = None)"
proof -
  have "ValidateEntries es \<noteq> Inl WriteError.kIoError"
    by (auto simp: ValidateEntries_def Let_def)
  moreover have "BuildPackSections es client_pack \<noteq> Inl WriteError.kIoError"
    by (auto simp: BuildPackSections_def Let_def for_each_WriteIndexEntry split: sum.splits prod.splits if_splits)
  ultimately show ?thesis using assms
    by (auto simp: WritePack_def WritePackFile_def remove_file_def Let_def
        split: sum.splits prod.splits if_splits)
qed

lemma example_refused_write:
  "WritePack example_hash example_sign (example_env\<lparr>renames := False\<rparr>) [''out'' \<mapsto> [1]] ''out'' example_entries 7 None =
     (Inl WriteError.kIoError, [''out'' \<mapsto> [1 :: byte]])"
  by (simp add: WritePack_packable [OF example_packable] WritePackFile_def example_env_def Let_def remove_file_def
      fun_upd_idem)

text \<open>A rename that fails: the pack that was there stays, and the temporary file does not.\<close>

theorem refused_write_leaves_output_witness:
  "\<exists>fs'. WritePack example_hash example_sign (example_env\<lparr>renames := False\<rparr>) [''out'' \<mapsto> [1]] ''out'' example_entries 7 None =
       (Inl WriteError.kIoError, fs') \<and> fs' ''out'' = Some [1] \<and> fs' ''out.tmp'' = None"
proof -
  have env: "removes (example_env\<lparr>renames := False\<rparr>) \<and> opens (example_env\<lparr>renames := False\<rparr>)" by (simp add: example_env_def)
  obtain fs' where refused: "WritePack example_hash example_sign (example_env\<lparr>renames := False\<rparr>) [''out'' \<mapsto> [1]] ''out''
      example_entries 7 None = (Inl WriteError.kIoError, fs')"
    using example_refused_write by blast
  have "fs' ''out'' = Some [1] \<and> fs' (''out'' @ ''.tmp'') = None"
    using refused_write_leaves_output [OF refused] env by simp
  then show ?thesis using refused by (intro exI [of _ fs']) simp
qed

text \<open>
  The other way round the guarantee the writer's comment states (\<open>never a truncated file at
  output_path\<close>) does not hold: the stream is checked before it is closed, and what its
  destructor then fails to flush is not noticed. The write reports success, with the hash
  of the whole pack, and the output is a prefix that no reader takes for a pack.
\<close>

theorem lost_flush_is_reported_as_success:
  "WritePack example_hash example_sign (example_env\<lparr>closed_short := Some 0\<rparr>) Map.empty ''out'' example_entries 7 None =
     (Inr (tr_hash (SignPack example_hash example_sign (pack_sections example_entries None) 7)),
      (Map.empty(''out'' \<mapsto> []))(''out.tmp'' := None)) \<and>
   Pack_Load example_hash example_verify [''out'' \<mapsto> []] [''out'' \<mapsto> []] ''out'' 7 = Inl (Refuse kTruncated 0)"
  by (simp add: WritePack_packable [OF example_packable] WritePackFile_def example_env_def Let_def
      Pack_Load_def OpenPack_def OpenValidatedMapping_def)

section \<open>Resolving from a loaded pack\<close>

text \<open>
  C28: a skeleton resolves to as many rest transforms as joints, whatever bytes the pack
  holds: \<open>Pack::ResolveSkeleton\<close> never reads a parent's transform that is not there, since
  \<open>DecodeSkeletonBlob\<close> rejects a joint listed before its parent, and each transform is the
  joint's own under its parent's.
\<close>

theorem resolved_skeleton_composes:
  assumes "ResolveSkeleton to_mat4 mult pack character = Inr result"
  shows "\<exists>js rest. result = Some (js, rest) \<and> length rest = length js \<and>
     (\<forall>k < length js. let loc = to_mat4 (jd_translation (js ! k)) (jd_rotation (js ! k)) (jd_scale (js ! k))
        in rest ! k = (if jd_parent (js ! k) = kJointNoParent then loc
             else mult (rest ! unat (jd_parent (js ! k))) loc) \<and>
           (jd_parent (js ! k) \<noteq> kJointNoParent \<longrightarrow> unat (jd_parent (js ! k)) < k))"
proof -
  from assms obtain stored blob where
    decoded: "DecodeSkeletonBlob blob = Some stored"
    and result: "result = map_option (Pair (joints stored))
       (compose_transforms mult
          (map (\<lambda>joint. (jd_parent joint, to_mat4 (jd_translation joint) (jd_rotation joint) (jd_scale joint)))
             (joints stored)) [])" (is "_ = map_option _ (compose_transforms mult ?ls [])")
    by (auto simp: ResolveSkeleton_def ResolveAsset_def split: sum.splits option.splits)
  have first: "parents_first (map jd_parent (joints stored))"
    using DecodeSkeletonBlob_SomeD [OF decoded] by simp
  then have "parents_first (map fst ?ls)" by (simp add: comp_def)
  from compose_transforms_total [OF this, of mult] first show ?thesis
    by (auto simp: result kJointNoParent_def Let_def parents_first_def)
qed

definition example_skeleton :: SkeletonData where
  "example_skeleton = \<lparr>joints =
     [\<lparr>jd_name = ''root'', jd_parent = kJointNoParent, jd_translation = example_vec,
       jd_rotation = example_quat, jd_scale = example_vec\<rparr>,
      \<lparr>jd_name = ''arm'', jd_parent = 0, jd_translation = example_vec,
       jd_rotation = example_quat, jd_scale = example_vec\<rparr>]\<rparr>"

definition example_skeleton_pack :: Pack where
  "example_skeleton_pack =
     \<lparr>pk_mapping = skeleton_bytes example_skeleton,
      pk_index = [\<lparr>pe_type = kSkeleton, pe_offset = 0,
         pe_size = word_of_nat (length (skeleton_bytes example_skeleton)), pe_path = CharacterSkeletonPath ''a''\<rparr>],
      pk_hash = [], pk_client_pack = None, pk_version = 7, pk_path = []\<rparr>"

lemma example_skeleton_resolves:
  "ResolveSkeleton to_mat4 mult example_skeleton_pack ''a'' =
     Inr (map_option (Pair (joints example_skeleton))
       (compose_transforms mult
          (map (\<lambda>joint. (jd_parent joint, to_mat4 (jd_translation joint) (jd_rotation joint) (jd_scale joint)))
             (joints example_skeleton)) []))"
proof -
  have "length (skeleton_bytes example_skeleton) < 2 ^ 64"
    by (simp add: skeleton_bytes_def example_skeleton_def joint_bytes_def string_bytes_def vec3_bytes_def quat_bytes_def)
  then have blob: "subspan (skeleton_bytes example_skeleton) 0 (word_of_nat (length (skeleton_bytes example_skeleton))) =
      skeleton_bytes example_skeleton"
    by (simp add: subspan_def unat_of_nat)
  have "skeleton_fits example_skeleton"
    by (simp add: skeleton_fits_def example_skeleton_def kMaxJoints_def short_string_def kMaxPathLength_def)
  moreover have "parents_first (map jd_parent (joints example_skeleton))"
    by (simp add: parents_first_def example_skeleton_def kJointNoParent_def less_Suc_eq)
  ultimately have "DecodeSkeletonBlob (skeleton_bytes example_skeleton @ []) = Some example_skeleton"
    by (rule DecodeSkeletonBlob_bytes)
  then show ?thesis
    by (simp add: ResolveSkeleton_def ResolveAsset_def FindIndexEntry_def example_skeleton_pack_def BlobBytes_def blob)
qed

theorem resolved_skeleton_composes_witness:
  "\<exists>rest. ResolveSkeleton (\<lambda>t r s. vx t) (+) example_skeleton_pack ''a'' =
      Inr (Some (joints example_skeleton, rest)) \<and> length rest = 2"
  using resolved_skeleton_composes [OF example_skeleton_resolves [of "\<lambda>t r s. vx t" "(+)"]]
  by (auto simp: example_skeleton_resolves example_skeleton_def)

end
