(* ===== verification/Host_Match.thy ===== *)
theory Host_Match
  imports Asset_Types "HOL-Library.Multiset"
begin

text \<open>
  The server's book of who is playing (\<open>src/modules/host/match.cpp\<close>, \<open>match.h\<close>): joining
  and leaving the Lobby, the Roster's version, who is Ready for it, and when a match
  starts and ends. Session and Match IDs are UUIDv7s of a third-party generator: the
  parameter \<open>ids\<close>, the sequence it will give, of which \<open>m_taken\<close> are taken; it is
  documented to be increasing, hypothesis \<open>strict_mono ids\<close>. The unordered map of members
  is an association list with distinct keys: every operation that walks it is
  independent of the order, since members are handed out sorted by session.
\<close>

section \<open>Data\<close>

type_synonym PeerId = u32
type_synonym EntityId = u32
type_synonym PackHash = "byte list"

datatype JoinRefusal =
    kVersionMismatch | kLobbyFull | kUnknownCharacter | kMatchInProgress | kPackMismatch
  | kReplayServer | kUnknownCapture | kNotAReplayServer | kReenactmentsNotAccepted

datatype Departure = kNone | kFromLobby | kFromMatch | kEndedMatch

record JoinRequest =
  jr_engine_version :: string
  jr_client_pack :: PackHash
  jr_character :: string
  jr_spawn :: "vec3 option"

record ClientTerms =
  ct_engine_version :: string
  ct_client_pack :: PackHash

record 'u RosterEntry =
  re_session :: 'u
  re_character :: string

record 'u Roster =
  ro_version :: u32
  ro_players :: "'u RosterEntry list"

record 'u MatchPlayer =
  mp_session :: 'u
  mp_entity :: EntityId
  mp_character :: string
  mp_spawn :: "vec3 option"

record 'u MatchStart =
  ms_players :: "'u MatchPlayer list"
  ms_match :: 'u

record 'u MatchEnd =
  me_players :: "'u list"
  me_winner :: "'u option"

record 'u Admission =
  ad_session :: 'u
  ad_character :: string

text \<open>\<open>AUGUSTA_DEBUG_TOOLS\<close>, which a Shipping build does not define, is a field of the configuration.\<close>

record MatchConfig =
  mc_engine_version :: string
  mc_client_pack :: PackHash
  mc_characters :: "string list"
  mc_player_count :: nat
  mc_pause_ticks :: u32
  mc_debug_tools :: bool
  mc_reenactments :: bool

record 'u Member =
  mb_session :: 'u
  mb_character :: string
  mb_spawn :: "vec3 option"
  mb_ready_version :: u32

record 'u Match =
  m_terms :: ClientTerms
  m_characters :: "string list"
  m_player_count :: nat
  m_pause_ticks :: u32
  m_takes_reenactments :: bool
  m_in_match :: bool
  m_roster_version :: u32
  m_ticks_since_end :: u32
  m_next_entity :: u32
  m_members :: "(PeerId \<times> 'u Member) list"
  m_taken :: nat

section \<open>Operations\<close>

definition Match_init :: "MatchConfig \<Rightarrow> 'u Match" where
  "Match_init config =
     \<lparr>m_terms = \<lparr>ct_engine_version = mc_engine_version config, ct_client_pack = mc_client_pack config\<rparr>,
      m_characters = mc_characters config,
      m_player_count = mc_player_count config,
      m_pause_ticks = mc_pause_ticks config,
      m_takes_reenactments = (if mc_debug_tools config then mc_reenactments config else False),
      m_in_match = False,
      m_roster_version = 0,
      m_ticks_since_end = mc_pause_ticks config,
      m_next_entity = 1,
      m_members = [],
      m_taken = 0\<rparr>"

fun DescribeJoinRefusal :: "JoinRefusal \<Rightarrow> string" where
  "DescribeJoinRefusal kVersionMismatch = ''client version does not match the server''"
| "DescribeJoinRefusal kLobbyFull = ''the lobby is full, or the replay server runs all the Replays it may''"
| "DescribeJoinRefusal kUnknownCharacter = ''the server's scenario has no such character''"
| "DescribeJoinRefusal kMatchInProgress = ''a match is in progress: try again once it ends''"
| "DescribeJoinRefusal kPackMismatch = ''client pack does not match the server's''"
| "DescribeJoinRefusal kReplayServer = ''the server is a replay server: it only replays Match captures''"
| "DescribeJoinRefusal kUnknownCapture = ''the replay server replays no such capture''"
| "DescribeJoinRefusal kNotAReplayServer = ''the server is a live server, not a replay server''"
| "DescribeJoinRefusal kReenactmentsNotAccepted = ''the server does not take reenactments''"

definition RefusalOfClient :: "string \<Rightarrow> PackHash \<Rightarrow> ClientTerms \<Rightarrow> JoinRefusal option" where
  "RefusalOfClient engine_version client_pack terms =
     (if engine_version \<noteq> ct_engine_version terms then Some kVersionMismatch
      else if client_pack \<noteq> ct_client_pack terms then Some kPackMismatch
      else None)"

definition find_member :: "'u Match \<Rightarrow> PeerId \<Rightarrow> 'u Member option" where
  "find_member m peer = map_of (m_members m) peer"

definition admission_of :: "'u Member \<Rightarrow> 'u Admission" where
  "admission_of member = \<lparr>ad_session = mb_session member, ad_character = mb_character member\<rparr>"

definition Match_Join ::
  "(nat \<Rightarrow> 'u) \<Rightarrow> 'u Match \<Rightarrow> PeerId \<Rightarrow> JoinRequest \<Rightarrow> (JoinRefusal + 'u Admission) \<times> 'u Match" where
  "Match_Join ids m peer request =
     (case find_member m peer of
        Some existing \<Rightarrow> (Inr (admission_of existing), m)
      | None \<Rightarrow>
          if jr_spawn request \<noteq> None \<and> \<not> m_takes_reenactments m then (Inl kReenactmentsNotAccepted, m)
          else (case RefusalOfClient (jr_engine_version request) (jr_client_pack request) (m_terms m) of
             Some refusal \<Rightarrow> (Inl refusal, m)
           | None \<Rightarrow>
               if jr_character request \<notin> set (m_characters m) then (Inl kUnknownCharacter, m)
               else if m_in_match m then (Inl kMatchInProgress, m)
               else if length (m_members m) \<ge> m_player_count m then (Inl kLobbyFull, m)
               else let member = \<lparr>mb_session = ids (m_taken m), mb_character = jr_character request,
                                  mb_spawn = jr_spawn request, mb_ready_version = 0\<rparr>
                    in (Inr (admission_of member),
                        m\<lparr>m_members := m_members m @ [(peer, member)],
                          m_roster_version := m_roster_version m + 1,
                          m_taken := m_taken m + 1\<rparr>)))"

definition MembersBySession :: "('u :: linorder) Match \<Rightarrow> 'u Member list" where
  "MembersBySession m = sort_key mb_session (map snd (m_members m))"

definition Match_IsPlaying :: "'u Match \<Rightarrow> 'u \<Rightarrow> bool" where
  "Match_IsPlaying m session \<longleftrightarrow>
     m_in_match m \<and> list_ex (\<lambda>(_, member). mb_session member = session) (m_members m)"

definition Match_Playing :: "('u :: linorder) Match \<Rightarrow> 'u list" where
  "Match_Playing m = (if m_in_match m then map mb_session (MembersBySession m) else [])"

definition Match_End :: "('u :: linorder) Match \<Rightarrow> 'u option \<Rightarrow> 'u MatchEnd option \<times> 'u Match" where
  "Match_End m winner =
     (if \<not> m_in_match m then (None, m)
      else (Some \<lparr>me_players = Match_Playing m,
                  me_winner = (case winner of
                     Some w \<Rightarrow> if Match_IsPlaying m w then Some w else None | None \<Rightarrow> None)\<rparr>,
            m\<lparr>m_in_match := False, m_roster_version := m_roster_version m + 1, m_ticks_since_end := 0\<rparr>))"

definition Match_Leave :: "('u :: linorder) Match \<Rightarrow> PeerId \<Rightarrow> Departure \<times> 'u Match" where
  "Match_Leave m peer =
     (if find_member m peer = None then (kNone, m)
      else let m = m\<lparr>m_members := filter (\<lambda>entry. fst entry \<noteq> peer) (m_members m)\<rparr>
           in if m_in_match m
              then if m_members m = [] then (kEndedMatch, snd (Match_End m None))
                   else (kFromMatch, m)
              else let previous = m_roster_version m;
                       version = previous + 1
                   in (kFromLobby,
                       m\<lparr>m_roster_version := version,
                         m_members := map (\<lambda>(other, member).
                            (other, if mb_ready_version member = previous
                                    then member\<lparr>mb_ready_version := version\<rparr> else member)) (m_members m)\<rparr>))"

definition Match_Ready :: "'u Match \<Rightarrow> PeerId \<Rightarrow> u32 \<Rightarrow> bool \<times> 'u Match" where
  "Match_Ready m peer version =
     (if m_in_match m \<or> find_member m peer = None \<or> version \<noteq> m_roster_version m then (False, m)
      else (True, m\<lparr>m_members := map (\<lambda>(other, member).
              (other, if other = peer then member\<lparr>mb_ready_version := version\<rparr> else member)) (m_members m)\<rparr>))"

definition Match_IsReady :: "'u Match \<Rightarrow> PeerId \<Rightarrow> bool" where
  "Match_IsReady m peer \<longleftrightarrow>
     \<not> m_in_match m \<and>
     (case find_member m peer of None \<Rightarrow> False | Some found \<Rightarrow> mb_ready_version found = m_roster_version m)"

definition Match_Tick :: "'u Match \<Rightarrow> 'u Match" where
  "Match_Tick m =
     (if \<not> m_in_match m \<and> m_ticks_since_end m < m_pause_ticks m
      then m\<lparr>m_ticks_since_end := m_ticks_since_end m + 1\<rparr> else m)"

text \<open>The loop that names each player's body: \<open>next_entity_++\<close> for each member in turn.\<close>

definition start_player :: "'u Member \<Rightarrow> 'u MatchPlayer list \<times> u32 \<Rightarrow> 'u MatchPlayer list \<times> u32" where
  "start_player member state =
     (case state of (players, next_entity) \<Rightarrow>
        (players @ [\<lparr>mp_session = mb_session member, mp_entity = next_entity,
                     mp_character = mb_character member, mp_spawn = mb_spawn member\<rparr>],
         next_entity + 1))"

definition Match_TryStart ::
  "(nat \<Rightarrow> 'u) \<Rightarrow> ('u :: linorder) Match \<Rightarrow> 'u MatchStart option \<times> 'u Match" where
  "Match_TryStart ids m =
     (if m_in_match m \<or> length (m_members m) \<noteq> m_player_count m \<or> m_ticks_since_end m < m_pause_ticks m
      then (None, m)
      else if \<not> list_all (\<lambda>(_, member). mb_ready_version member = m_roster_version m) (m_members m)
      then (None, m)
      else (case fold start_player (MembersBySession m) ([], m_next_entity m) of
         (players, next_entity) \<Rightarrow>
           (Some \<lparr>ms_players = players, ms_match = ids (m_taken m)\<rparr>,
            m\<lparr>m_in_match := True, m_taken := m_taken m + 1, m_next_entity := next_entity\<rparr>)))"

definition Match_GetRoster :: "('u :: linorder) Match \<Rightarrow> 'u Roster" where
  "Match_GetRoster m =
     \<lparr>ro_version = m_roster_version m,
      ro_players = (if m_in_match m then []
        else map (\<lambda>member. \<lparr>re_session = mb_session member, re_character = mb_character member\<rparr>)
               (MembersBySession m))\<rparr>"

definition Match_SessionOf :: "'u Match \<Rightarrow> PeerId \<Rightarrow> 'u option" where
  "Match_SessionOf m peer = map_option mb_session (find_member m peer)"

definition Match_PlayerCount :: "'u Match \<Rightarrow> nat" where
  "Match_PlayerCount m = length (m_members m)"

section \<open>The match as a state machine\<close>

datatype 'u match_event =
    EvJoin PeerId JoinRequest
  | EvLeave PeerId
  | EvReady PeerId u32
  | EvTick
  | EvTryStart
  | EvEnd "'u option"

fun match_step :: "(nat \<Rightarrow> 'u) \<Rightarrow> ('u :: linorder) Match \<Rightarrow> 'u match_event \<Rightarrow> 'u Match" where
  "match_step ids m (EvJoin peer request) = snd (Match_Join ids m peer request)"
| "match_step ids m (EvLeave peer) = snd (Match_Leave m peer)"
| "match_step ids m (EvReady peer version) = snd (Match_Ready m peer version)"
| "match_step ids m EvTick = Match_Tick m"
| "match_step ids m EvTryStart = snd (Match_TryStart ids m)"
| "match_step ids m (EvEnd winner) = snd (Match_End m winner)"

lemmas match_ops =
  Match_Join_def Match_Leave_def Match_Ready_def Match_Tick_def Match_TryStart_def Match_End_def

section \<open>Invariant\<close>

definition sessions :: "'u Match \<Rightarrow> 'u list" where
  "sessions m = map (\<lambda>(_, member). mb_session member) (m_members m)"

text \<open>Members are listed in the order they joined, so their sessions grow along the list.\<close>

definition sessions_ok :: "(nat \<Rightarrow> 'u) \<Rightarrow> ('u :: linorder) Match \<Rightarrow> bool" where
  "sessions_ok ids m \<longleftrightarrow> sorted_wrt (<) (sessions m) \<and> (\<forall>s \<in> set (sessions m). s < ids (m_taken m))"

definition member_ok :: "'u Match \<Rightarrow> 'u Member \<Rightarrow> bool" where
  "member_ok m member \<longleftrightarrow> mb_character member \<in> set (m_characters m) \<and>
     (mb_spawn member \<noteq> None \<longrightarrow> m_takes_reenactments m)"

definition config_kept :: "MatchConfig \<Rightarrow> 'u Match \<Rightarrow> bool" where
  "config_kept config m \<longleftrightarrow>
     m_terms m = \<lparr>ct_engine_version = mc_engine_version config, ct_client_pack = mc_client_pack config\<rparr> \<and>
     m_characters m = mc_characters config \<and> m_player_count m = mc_player_count config \<and>
     m_pause_ticks m = mc_pause_ticks config \<and>
     m_takes_reenactments m = (mc_debug_tools config \<and> mc_reenactments config)"

definition match_inv :: "(nat \<Rightarrow> 'u) \<Rightarrow> MatchConfig \<Rightarrow> ('u :: linorder) Match \<Rightarrow> bool" where
  "match_inv ids config m \<longleftrightarrow>
     config_kept config m \<and> distinct (map fst (m_members m)) \<and>
     length (m_members m) \<le> m_player_count m \<and>
     (m_in_match m \<and> 0 < m_player_count m \<longrightarrow> m_members m \<noteq> []) \<and>
     list_all (\<lambda>(_, member). member_ok m member) (m_members m) \<and>
     m_ticks_since_end m \<le> m_pause_ticks m \<and>
     (strict_mono ids \<longrightarrow> sessions_ok ids m)"

lemma find_member_None: "find_member m peer = None \<longleftrightarrow> peer \<notin> fst ` set (m_members m)"
  by (simp add: find_member_def map_of_eq_None_iff)

lemma find_member_Some:
  "distinct (map fst (m_members m)) \<Longrightarrow> find_member m peer = Some member \<longleftrightarrow> (peer, member) \<in> set (m_members m)"
  by (simp add: find_member_def)

lemma map_of_filter_keys:
  "map_of (filter (\<lambda>entry. fst entry \<noteq> k) xs) k' = (if k' = k then None else map_of xs k')"
  by (induction xs) auto

lemma match_inv_init: "match_inv ids config (Match_init config)"
  by (simp add: match_inv_def Match_init_def config_kept_def sessions_ok_def sessions_def)

lemma RefusalOfClient_None:
  "RefusalOfClient v p terms = None \<longleftrightarrow> v = ct_engine_version terms \<and> p = ct_client_pack terms"
  by (simp add: RefusalOfClient_def)

lemma sessions_ok_taken:
  "strict_mono ids \<Longrightarrow> sessions_ok ids m \<Longrightarrow> sessions m' = sessions m \<Longrightarrow> m_taken m \<le> m_taken m' \<Longrightarrow> sessions_ok ids m'"
  unfolding sessions_ok_def using strict_mono_less_eq less_le_trans by metis

lemma Join_cases:
  obtains
    (unchanged) "snd (Match_Join ids m peer request) = m"
  | (joined) member where
      "find_member m peer = None" "\<not> m_in_match m" "length (m_members m) < m_player_count m"
      "RefusalOfClient (jr_engine_version request) (jr_client_pack request) (m_terms m) = None"
      "member = \<lparr>mb_session = ids (m_taken m), mb_character = jr_character request,
         mb_spawn = jr_spawn request, mb_ready_version = 0\<rparr>" "member_ok m member"
      "Match_Join ids m peer request = (Inr (admission_of member),
         m\<lparr>m_members := m_members m @ [(peer, member)], m_roster_version := m_roster_version m + 1,
           m_taken := m_taken m + 1\<rparr>)"
  by (force simp: Match_Join_def member_ok_def Let_def split: option.splits if_splits)

lemma match_inv_Join: "match_inv ids config m \<Longrightarrow> match_inv ids config (snd (Match_Join ids m peer request))"
proof (cases rule: Join_cases [of ids m peer request])
  case unchanged
  then show "match_inv ids config m \<Longrightarrow> ?thesis" by simp
next
  case (joined member)
  assume inv: "match_inv ids config m"
  have "sessions_ok ids (snd (Match_Join ids m peer request))" if "strict_mono ids"
    using inv that strict_monoD [OF that, of "m_taken m" "Suc (m_taken m)"] joined(5)
    by (force simp: joined(7) match_inv_def sessions_ok_def sessions_def sorted_wrt_append)
  then show ?thesis
    using inv joined by (auto simp: match_inv_def config_kept_def find_member_None member_ok_def list_all_iff)
qed

lemma match_inv_drop:
  assumes "match_inv ids config m" and "\<not> (m_in_match m \<and> filter P (m_members m) = [])"
  shows "match_inv ids config (m\<lparr>m_members := filter P (m_members m)\<rparr>)"
proof -
  have "distinct (map fst (filter P (m_members m)))"
    using assms(1) by (simp add: match_inv_def distinct_map_filter)
  moreover have "length (filter P (m_members m)) \<le> m_player_count m"
    using assms(1) length_filter_le [of P "m_members m"] unfolding match_inv_def by linarith
  moreover have "sessions_ok ids (m\<lparr>m_members := filter P (m_members m)\<rparr>)" if "strict_mono ids"
    using assms(1) that
    by (auto simp: match_inv_def sessions_ok_def sessions_def sorted_wrt_map sorted_wrt_filter)
  ultimately show ?thesis using assms
    by (auto simp: match_inv_def config_kept_def list_all_iff member_ok_def)
qed

text \<open>The invariant does not depend on who is Ready for what, nor on the version.\<close>

definition title :: "'u Member \<Rightarrow> 'u \<times> string \<times> vec3 option" where
  "title member = (mb_session member, mb_character member, mb_spawn member)"

lemma sessions_titles: "sessions m = map (fst \<circ> title \<circ> snd) (m_members m)"
  by (simp add: sessions_def title_def comp_def case_prod_beta)

lemma member_ok_title:
  "member_ok m member \<longleftrightarrow> (case title member of (_, character, spawn) \<Rightarrow>
     character \<in> set (m_characters m) \<and> (spawn \<noteq> None \<longrightarrow> m_takes_reenactments m))"
  by (simp add: member_ok_def title_def)

lemma members_ok_titles:
  "list_all (\<lambda>(_, member). member_ok m member) ms \<longleftrightarrow>
   (\<forall>(_, character, spawn) \<in> title ` snd ` set ms.
      character \<in> set (m_characters m) \<and> (spawn \<noteq> None \<longrightarrow> m_takes_reenactments m))"
  by (simp add: list_all_iff member_ok_title case_prod_beta)

definition same_titles :: "'u Match \<Rightarrow> 'u Match \<Rightarrow> bool" where
  "same_titles m m' \<longleftrightarrow> map (map_prod id title) (m_members m') = map (map_prod id title) (m_members m)"

lemma match_inv_same:
  assumes "match_inv ids config m" and titles: "same_titles m m'"
    and "m_terms m' = m_terms m" "m_characters m' = m_characters m" "m_player_count m' = m_player_count m"
      "m_pause_ticks m' = m_pause_ticks m" "m_takes_reenactments m' = m_takes_reenactments m"
      "m_in_match m' \<longrightarrow> m_in_match m \<or> length (m_members m) = m_player_count m"
      "m_ticks_since_end m' \<le> m_pause_ticks m'" "m_taken m \<le> m_taken m'"
  shows "match_inv ids config m'"
proof -
  have keys: "map fst (m_members m') = map fst (m_members m)"
    using arg_cong [OF titles [unfolded same_titles_def], of "map fst"] by (simp add: comp_def)
  have sess: "sessions m' = sessions m"
    using arg_cong [OF titles [unfolded same_titles_def], of "map (fst \<circ> snd)"]
    by (simp add: sessions_titles comp_def)
  have len: "length (m_members m') = length (m_members m)"
    using arg_cong [OF keys, of length] by simp
  have "snd ` set (map (map_prod id title) (m_members m')) = snd ` set (map (map_prod id title) (m_members m))"
    using titles unfolding same_titles_def by simp
  then have "title ` snd ` set (m_members m') = title ` snd ` set (m_members m)"
    by (simp add: image_image)
  then have "list_all (\<lambda>(_, member). member_ok m' member) (m_members m') \<longleftrightarrow>
      list_all (\<lambda>(_, member). member_ok m member) (m_members m)"
    unfolding members_ok_titles using assms(4,7) by simp
  moreover have "sessions_ok ids m'" if "strict_mono ids"
    using assms(1) that sess assms(10) unfolding match_inv_def by (blast intro: sessions_ok_taken)
  moreover have "m_members m' \<noteq> []" if "m_in_match m'" "0 < m_player_count m'"
    using that assms(1,5,8) len by (auto simp: match_inv_def)
  ultimately show ?thesis using assms keys len
    by (auto simp: match_inv_def config_kept_def)
qed

lemma match_inv_ticks: "match_inv ids config m \<Longrightarrow> m_ticks_since_end m \<le> m_pause_ticks m"
  by (simp add: match_inv_def)

lemma match_inv_End: "match_inv ids config m \<Longrightarrow> match_inv ids config (snd (Match_End m winner))"
  by (cases "m_in_match m") (auto simp: Match_End_def same_titles_def intro: match_inv_same)

lemma match_inv_Leave: "match_inv ids config m \<Longrightarrow> match_inv ids config (snd (Match_Leave m peer))"
proof -
  assume inv: "match_inv ids config m"
  let ?rest = "filter (\<lambda>entry. fst entry \<noteq> peer) (m_members m)"
  let ?m = "m\<lparr>m_members := ?rest\<rparr>"
  show ?thesis
  proof (cases "find_member m peer = None \<or> m_in_match m \<and> ?rest = []")
    case True
    then show ?thesis using inv
      by (auto simp: Match_Leave_def Match_End_def match_inv_def config_kept_def sessions_ok_def sessions_def Let_def)
  next
    case False
    have rest: "match_inv ids config ?m" using inv False by (intro match_inv_drop) auto
    have "m_ticks_since_end m \<le> m_pause_ticks m" using inv by (simp add: match_inv_def)
    then show ?thesis using False rest
      by (auto simp: Match_Leave_def Let_def same_titles_def title_def intro: match_inv_same [OF rest])
  qed
qed

lemma match_inv_Ready: "match_inv ids config m \<Longrightarrow> match_inv ids config (snd (Match_Ready m peer version))"
  using match_inv_ticks [of ids config m]
  by (auto simp: Match_Ready_def same_titles_def title_def intro!: match_inv_same [of ids config m])

lemma match_inv_Tick:
  assumes "match_inv ids config m"
  shows "match_inv ids config (Match_Tick m)"
proof -
  have "m_ticks_since_end m + 1 \<le> m_pause_ticks m" if "m_ticks_since_end m < m_pause_ticks m"
    using that by (rule inc_le)
  then show ?thesis using assms
    by (auto simp: Match_Tick_def same_titles_def intro: match_inv_same)
qed

lemma fold_start_player:
  "fold start_player ms (players, next) =
     (players @ map2 (\<lambda>member k. \<lparr>mp_session = mb_session member, mp_entity = next + word_of_nat k,
         mp_character = mb_character member, mp_spawn = mb_spawn member\<rparr>) ms [0..<length ms],
      next + word_of_nat (length ms))"
proof (induction ms arbitrary: players "next")
  case Nil
  then show ?case by simp
next
  case (Cons member ms)
  have one: "start_player member (players, next) =
      (players @ [\<lparr>mp_session = mb_session member, mp_entity = next, mp_character = mb_character member,
        mp_spawn = mb_spawn member\<rparr>], next + 1)"
    by (simp add: start_player_def)
  have shift: "zip ms [Suc 0..<Suc (length ms)] = map (\<lambda>(x, k). (x, Suc k)) (zip ms [0..<length ms])"
    unfolding map_Suc_upt [symmetric] zip_map2 by (simp add: case_prod_beta)
  show ?case
    by (simp add: one Cons.IH upt_conv_Cons shift add.assoc case_prod_beta comp_def del: upt_Suc)
qed

lemma match_inv_TryStart: "match_inv ids config m \<Longrightarrow> match_inv ids config (snd (Match_TryStart ids m))"
  using match_inv_ticks [of ids config m]
  by (auto simp: Match_TryStart_def same_titles_def fold_start_player intro!: match_inv_same [of ids config m])

lemma match_inv_step: "match_inv ids config m \<Longrightarrow> match_inv ids config (match_step ids m e)"
  by (cases e) (simp_all add: match_inv_Join match_inv_Leave match_inv_Ready match_inv_Tick match_inv_TryStart
      match_inv_End)

lemma taken_step: "m_taken m \<le> m_taken (match_step ids m e)"
  by (cases e) (auto simp: match_ops Let_def split: option.splits prod.splits)

interpretation match: monotone_machine "Match_init config" "match_step ids" "match_inv ids config" m_taken
  for ids :: "nat \<Rightarrow> 'u :: linorder" and config
  by unfold_locales (simp_all add: match_inv_init match_inv_step taken_step)

section \<open>Versions\<close>

text \<open>
  The version is a \<open>std::uint32_t\<close>, one more for each join, leave and match end; what follows
  is of the first \<open>2 ^ 32 - 1\<close> events, before it can wrap.
\<close>

definition versions_ok :: "nat \<Rightarrow> 'u Match \<Rightarrow> bool" where
  "versions_ok n m \<longleftrightarrow> unat (m_roster_version m) \<le> n \<and>
     list_all (\<lambda>(_, member). mb_ready_version member \<le> m_roster_version m) (m_members m)"

lemma next_version:
  assumes "unat v \<le> n" and "Suc n < 2 ^ 32"
  shows "unat (v + 1 :: u32) = Suc (unat v)" and "v < v + 1" and "v + 1 \<noteq> 0"
proof -
  have "v \<noteq> - 1" using assms by (auto simp: unsigned_minus_1_eq_mask mask_eq_exp_minus_1)
  then show "unat (v + 1) = Suc (unat v)" by (metis add.commute max_word_wrap unatSuc)
  then show "v < v + 1" and "v + 1 \<noteq> 0" by (auto simp: word_less_nat_alt)
qed

lemma versions_ok_step:
  assumes "versions_ok n m" and "Suc n < 2 ^ 32"
  shows "versions_ok (Suc n) (match_step ids m e)"
proof -
  let ?v = "m_roster_version m"
  have v: "unat ?v \<le> n" using assms by (simp add: versions_ok_def)
  note up = next_version [OF v assms(2)]
  have stay: "versions_ok (Suc n) m" using assms(1) by (auto simp: versions_ok_def)
  have le: "w \<le> ?v + 1" if "w \<le> ?v" for w using that up(2) by simp
  show ?thesis
  proof (cases e)
    case (EvJoin peer request)
    then show ?thesis using stay up assms
      by (cases rule: Join_cases [of ids m peer request]) (auto simp: versions_ok_def list_all_iff intro: le)
  next
    case (EvLeave peer)
    then show ?thesis using stay up assms
      by (auto simp: Match_Leave_def Match_End_def versions_ok_def list_all_iff Let_def intro: le)
  next
    case (EvReady peer version)
    then show ?thesis using stay by (auto simp: Match_Ready_def versions_ok_def list_all_iff)
  next
    case EvTick
    then show ?thesis using stay by (auto simp: Match_Tick_def versions_ok_def)
  next
    case EvTryStart
    then show ?thesis using stay by (auto simp: Match_TryStart_def versions_ok_def split: prod.splits)
  next
    case (EvEnd winner)
    then show ?thesis using stay up assms by (auto simp: Match_End_def versions_ok_def list_all_iff intro: le)
  qed
qed

lemma versions_ok_run:
  "length es < 2 ^ 32 \<Longrightarrow> versions_ok (length es) (run (match_step ids) (Match_init config) es)"
proof (induction es rule: rev_induct)
  case Nil
  then show ?case by (simp add: versions_ok_def Match_init_def)
next
  case (snoc e es)
  then show ?case using versions_ok_step [of "length es"] by simp
qed

lemma reachable_keys: "distinct (map fst (m_members (run (match_step ids) (Match_init config) es)))"
  using match.inv_run [of ids config es] by (simp add: match_inv_def)

lemma IsReady_iff:
  "distinct (map fst (m_members m)) \<Longrightarrow> Match_IsReady m peer \<longleftrightarrow>
   \<not> m_in_match m \<and> (\<exists>member. (peer, member) \<in> set (m_members m) \<and> mb_ready_version member = m_roster_version m)"
  by (auto simp: Match_IsReady_def find_member_def split: option.splits dest: eq_key_imp_eq_value)

section \<open>Properties\<close>

lemma sort_map_sessions: "map f (sort_key f xs) = sort (map f xs)"
  by (rule properties_for_sort [symmetric]) simp_all

text \<open>The match of \<open>config\<close> after the events \<open>es\<close>.\<close>

abbreviation match_after :: "(nat \<Rightarrow> 'u :: linorder) \<Rightarrow> MatchConfig \<Rightarrow> 'u match_event list \<Rightarrow> 'u Match" where
  "match_after ids config es \<equiv> run (match_step ids) (Match_init config) es"

text \<open>
  C14: in every reachable state of a match, whatever the order of joins, leaves, Readies,
  ticks, starts and ends: each peer is listed once, no more than the Player count are
  listed, each plays one of the scenario's characters, only a match that takes
  reenactments holds a member that named its spawn, a match in progress is never empty,
  and the pause counter never passes the pause.
\<close>

theorem match_reachable_invariant:
  "let m = match_after ids config es in
    distinct (map fst (m_members m)) \<and> Match_PlayerCount m \<le> mc_player_count config \<and>
    (\<forall>(peer, member) \<in> set (m_members m). mb_character member \<in> set (mc_characters config) \<and>
       (mb_spawn member \<noteq> None \<longrightarrow> mc_debug_tools config \<and> mc_reenactments config)) \<and>
    (m_in_match m \<and> 0 < mc_player_count config \<longrightarrow> m_members m \<noteq> []) \<and>
    m_ticks_since_end m \<le> mc_pause_ticks config"
  using match.inv_run [of ids config es] unfolding Let_def
  by (fastforce simp: match_inv_def config_kept_def member_ok_def list_all_iff Match_PlayerCount_def)

definition example_config :: MatchConfig where
  "example_config =
     \<lparr>mc_engine_version = ''1'', mc_client_pack = [1], mc_characters = [''soldier'', ''scout''], mc_player_count = 2,
      mc_pause_ticks = 3, mc_debug_tools = False, mc_reenactments = True\<rparr>"

definition example_request :: JoinRequest where
  "example_request = \<lparr>jr_engine_version = ''1'', jr_client_pack = [1], jr_character = ''scout'', jr_spawn = None\<rparr>"

definition example_lobby :: "nat match_event list" where
  "example_lobby = [EvJoin 5 example_request, EvJoin 9 example_request, EvReady 5 2, EvReady 9 2]"

lemmas example_defs = example_config_def example_request_def example_lobby_def Match_init_def match_ops
  find_member_def RefusalOfClient_def admission_of_def MembersBySession_def start_player_def Match_Playing_def
  Match_IsPlaying_def

theorem match_reachable_invariant_witness:
  "mc_player_count example_config = 2 \<and>
   map fst (m_members (run (match_step id) (Match_init example_config) example_lobby)) = [5, 9] \<and>
   m_ticks_since_end (run (match_step id) (Match_init example_config) example_lobby) \<le> 3"
  using match_reachable_invariant [of id example_config example_lobby]
  by (simp add: example_defs Let_def)

text \<open>
  C15: Session IDs are never shared or reused. With a generator whose ids increase, the
  members of any reachable state have pairwise different sessions, all of them ids already
  taken, so whoever joins next gets a session later than every session in the match; and
  no event ever gives an id back.
\<close>

theorem match_sessions_fresh:
  assumes "strict_mono ids"
  shows "let m = match_after ids config es in
    distinct (map (\<lambda>(_, member). mb_session member) (m_members m)) \<and>
    (\<forall>(_, member) \<in> set (m_members m). mb_session member < ids (m_taken m)) \<and>
    (\<forall>more_es. m_taken m \<le> m_taken (run (match_step ids) m more_es)) \<and>
    (\<forall>peer request admission. find_member m peer = None \<and> fst (Match_Join ids m peer request) = Inr admission \<longrightarrow>
       (\<forall>(_, member) \<in> set (m_members m). mb_session member < ad_session admission))"
proof -
  let ?m = "match_after ids config es"
  have inv: "match_inv ids config ?m" by (rule match.inv_run)
  then have "sessions_ok ids ?m" using assms(1) by (simp add: match_inv_def)
  then have "distinct (sessions ?m)" and below: "\<forall>s \<in> set (sessions ?m). s < ids (m_taken ?m)"
    by (auto simp: sessions_ok_def intro: strict_sorted_imp_sorted dest: strict_sorted_iff [THEN iffD1])
  moreover have "ad_session admission = ids (m_taken ?m)"
    if "find_member ?m peer = None" "fst (Match_Join ids ?m peer request) = Inr admission" for peer request admission
    using that by (auto simp: Match_Join_def admission_of_def Let_def split: option.splits if_splits)
  ultimately show ?thesis
    using match.level_run_from [OF inv] by (auto simp: sessions_def case_prod_beta Let_def)
qed

theorem match_sessions_fresh_witness:
  "distinct (map (\<lambda>(_, member). mb_session member)
     (m_members (run (match_step (\<lambda>n. 10 * n + 3)) (Match_init example_config) example_lobby)))"
  using match_sessions_fresh [of "\<lambda>n. 10 * n + 3" example_config example_lobby]
  unfolding Let_def by (simp add: strict_mono_def)

text \<open>
  C9: a newcomer makes no one Ready, and a departure leaves whoever was Ready still Ready.
  Before the version can wrap, after a newcomer's join nobody is Ready for the new
  Roster, and after a departure from the Lobby exactly the other peers that were Ready are.
\<close>

theorem ready_across_membership:
  assumes "Suc (length es) < 2 ^ 32"
  shows "let m = match_after ids config es in
    (\<forall>peer request admission m' other. find_member m peer = None \<and>
       Match_Join ids m peer request = (Inr admission, m') \<longrightarrow> \<not> Match_IsReady m' other) \<and>
    (\<forall>peer m' other. Match_Leave m peer = (kFromLobby, m') \<longrightarrow>
       Match_IsReady m' other = (Match_IsReady m other \<and> other \<noteq> peer))"
proof -
  let ?m = "match_after ids config es"
  have ok: "versions_ok (length es) ?m" using assms(1) by (intro versions_ok_run) simp
  then have "unat (m_roster_version ?m) \<le> length es" by (simp add: versions_ok_def)
  note up = next_version [OF this assms(1)]
  have keys: "distinct (map fst (m_members ?m))" by (rule reachable_keys)
  have old: "mb_ready_version member < m_roster_version ?m + 1" if "(p, member) \<in> set (m_members ?m)" for p member
    using ok that up(2) by (fastforce simp: versions_ok_def list_all_iff)
  have join: "\<not> Match_IsReady m' other"
    if j: "find_member ?m peer = None" "Match_Join ids ?m peer request = (Inr admission, m')" for peer request admission m' other
  proof -
    from j have "m' = ?m\<lparr>m_members := m_members ?m @ [(peer, \<lparr>mb_session = ids (m_taken ?m),
           mb_character = jr_character request, mb_spawn = jr_spawn request, mb_ready_version = 0\<rparr>)],
         m_roster_version := m_roster_version ?m + 1, m_taken := Suc (m_taken ?m)\<rparr>"
      by (auto simp: Match_Join_def Let_def split: option.splits if_splits)
    then have members: "m_members m' = m_members ?m @ [(peer, \<lparr>mb_session = ids (m_taken ?m),
           mb_character = jr_character request, mb_spawn = jr_spawn request, mb_ready_version = 0\<rparr>)]"
      and version: "m_roster_version m' = m_roster_version ?m + 1" by simp_all
    have "mb_ready_version member \<noteq> m_roster_version m'" if "(other, member) \<in> set (m_members m')" for member
      using that old [of other member] up(3) by (auto simp: members version)
    then show ?thesis
      by (auto simp: Match_IsReady_def find_member_def split: option.splits dest: map_of_SomeD)
  qed
  have leave: "Match_IsReady m' other = (Match_IsReady ?m other \<and> other \<noteq> peer)"
    if l: "Match_Leave ?m peer = (kFromLobby, m')" for peer m' other
  proof -
    let ?f = "\<lambda>member. if mb_ready_version member = m_roster_version ?m
        then member\<lparr>mb_ready_version := m_roster_version ?m + 1\<rparr> else member"
    from l have lobby: "\<not> m_in_match ?m" "\<not> m_in_match m'" "m_roster_version m' = m_roster_version ?m + 1"
      and members: "m_members m' = map (\<lambda>(other, member). (other, ?f member))
         (filter (\<lambda>entry. fst entry \<noteq> peer) (m_members ?m))"
      by (auto simp: Match_Leave_def Let_def split: if_splits)
    have "find_member m' other = (if other = peer then None else map_option ?f (find_member ?m other))"
      by (simp add: find_member_def members map_of_map map_of_filter_keys)
    moreover have "mb_ready_version member \<noteq> m_roster_version ?m + 1" if "find_member ?m other = Some member" for member
      using that old [of other member] by (auto simp: find_member_def dest: map_of_SomeD)
    moreover have "m_roster_version ?m \<noteq> m_roster_version ?m + 1" using up(2) by simp
    ultimately show ?thesis using lobby
      by (cases "find_member ?m other") (simp_all add: Match_IsReady_def)
  qed
  show ?thesis using join leave unfolding Let_def by blast
qed

theorem ready_across_membership_witness:
  "let m = match_after id example_config example_lobby in
   Match_IsReady m 9 \<and> fst (Match_Leave m 5) = kFromLobby \<and> Match_IsReady (snd (Match_Leave m 5)) 9"
proof -
  let ?m = "match_after id example_config example_lobby"
  have "fst (Match_Leave ?m 5) = kFromLobby" and "Match_IsReady ?m 9"
    by (simp_all add: example_defs Match_IsReady_def Let_def)
  moreover from this have left: "Match_Leave ?m 5 = (kFromLobby, snd (Match_Leave ?m 5))"
    by (simp add: prod_eq_iff)
  have "Suc (length example_lobby) < 2 ^ 32" by (simp add: example_lobby_def)
  note ready = ready_across_membership [OF this, where ids = id and config = example_config, unfolded Let_def]
  ultimately show ?thesis
    using conjunct2 [OF ready, rule_format, OF left, of 9] by (simp add: Let_def)
qed

text \<open>
  C16: a match starts exactly when it may. \<open>TryStart\<close> starts one if and only if none is in
  progress, the Lobby holds exactly the Player count, everyone in it is Ready for the
  current Roster and the pause has passed; otherwise it changes nothing.
\<close>

theorem start_condition:
  "(fst (Match_TryStart ids (match_after ids config es)) \<noteq> None \<longleftrightarrow>
     (let m = match_after ids config es in
      \<not> m_in_match m \<and> Match_PlayerCount m = mc_player_count config \<and>
      (\<forall>peer \<in> fst ` set (m_members m). Match_IsReady m peer) \<and>
      m_ticks_since_end m = mc_pause_ticks config)) \<and>
   (fst (Match_TryStart ids (match_after ids config es)) = None \<longrightarrow>
      snd (Match_TryStart ids (match_after ids config es)) = match_after ids config es)"
proof -
  let ?m = "match_after ids config es"
  have inv: "match_inv ids config ?m" by (rule match.inv_run)
  then have keys: "distinct (map fst (m_members ?m))" and pause: "m_ticks_since_end ?m \<le> m_pause_ticks ?m"
    and config: "m_player_count ?m = mc_player_count config" "m_pause_ticks ?m = mc_pause_ticks config"
    by (auto simp: match_inv_def config_kept_def)
  have "(\<forall>peer \<in> fst ` set (m_members ?m). Match_IsReady ?m peer) \<longleftrightarrow>
      list_all (\<lambda>(_, member). mb_ready_version member = m_roster_version ?m) (m_members ?m)" if "\<not> m_in_match ?m"
    using that keys by (fastforce simp: IsReady_iff list_all_iff dest: eq_key_imp_eq_value)
  then show ?thesis using pause config
    by (auto simp: Match_TryStart_def Match_PlayerCount_def Let_def split: prod.splits)
qed

theorem start_condition_witness:
  "fst (Match_TryStart id (match_after id example_config example_lobby)) \<noteq> None"
proof -
  have "\<not> m_in_match (match_after id example_config example_lobby) \<and>
      Match_PlayerCount (match_after id example_config example_lobby) = mc_player_count example_config \<and>
      (\<forall>peer \<in> fst ` set (m_members (match_after id example_config example_lobby)).
         Match_IsReady (match_after id example_config example_lobby) peer) \<and>
      m_ticks_since_end (match_after id example_config example_lobby) = mc_pause_ticks example_config"
    by (simp add: example_defs Match_PlayerCount_def Match_IsReady_def Let_def)
  then show ?thesis
    unfolding start_condition [THEN conjunct1, of id example_config example_lobby] Let_def by blast
qed

text \<open>
  C17: what a start hands on. When a match starts, its players are the Lobby's members in
  the order of their sessions, each with its own character and spawn and a body of its
  own: entity numbers count on from the last match's, so no two players share one. With
  increasing ids the Match ID is later than every player's session.
\<close>

theorem started_players:
  assumes "strict_mono ids" and "mc_player_count config < 2 ^ 32"
    and "Match_TryStart ids (match_after ids config es) = (Some start, m')"
  shows "let m = match_after ids config es in
     map mp_session (ms_players start) = sort (map (\<lambda>(_, member). mb_session member) (m_members m)) \<and>
     sorted_wrt (<) (map mp_session (ms_players start)) \<and>
     length (ms_players start) = mc_player_count config \<and>
     distinct (map mp_entity (ms_players start)) \<and>
     (\<forall>k < length (ms_players start). mp_entity (ms_players start ! k) = m_next_entity m + word_of_nat k) \<and>
     m_next_entity m' = m_next_entity m + word_of_nat (length (ms_players start)) \<and>
     (\<forall>p \<in> set (ms_players start). mp_session p < ms_match start \<and>
        (\<exists>(_, member) \<in> set (m_members m). mb_session member = mp_session p \<and>
           mb_character member = mp_character p \<and> mb_spawn member = mp_spawn p)) \<and>
     m_in_match m' \<and> m_members m' = m_members m"
proof -
  let ?m = "match_after ids config es"
  let ?ms = "map snd (m_members ?m)"
  have inv: "match_inv ids config ?m" by (rule match.inv_run)
  then have sess: "sessions_ok ids ?m" and count: "m_player_count ?m = mc_player_count config"
    using assms(1) by (auto simp: match_inv_def config_kept_def)
  have sess_eq: "sessions ?m = map mb_session ?ms" by (simp add: sessions_def case_prod_beta)
  then have sorted: "sorted_wrt (<) (map mb_session ?ms)" using sess by (simp add: sessions_ok_def)
  then have by_session: "MembersBySession ?m = ?ms"
    unfolding MembersBySession_def by (intro sort_key_id_if_sorted) (simp add: strict_sorted_imp_sorted)
  from assms(3) have start: "length ?ms = mc_player_count config" "m_in_match m'" "m_members m' = m_members ?m"
      "ms_match start = ids (m_taken ?m)"
      "(ms_players start, m_next_entity m') = fold start_player ?ms ([], m_next_entity ?m)"
    by (auto simp: Match_TryStart_def count by_session split: if_splits prod.splits)
  let ?ps = "ms_players start"
  have ps: "?ps = map2 (\<lambda>member k. \<lparr>mp_session = mb_session member, mp_entity = m_next_entity ?m + word_of_nat k,
         mp_character = mb_character member, mp_spawn = mb_spawn member\<rparr>) ?ms [0..<length ?ms]"
    and next_entity: "m_next_entity m' = m_next_entity ?m + word_of_nat (length ?ms)"
    using start(5) by (simp_all add: fold_start_player)
  have len: "length ?ps = length ?ms" by (simp add: ps)
  have nth: "?ps ! k = \<lparr>mp_session = mb_session (?ms ! k), mp_entity = m_next_entity ?m + word_of_nat k,
         mp_character = mb_character (?ms ! k), mp_spawn = mb_spawn (?ms ! k)\<rparr>" if "k < length ?ms" for k
    using that by (simp add: ps)
  have sess_ps: "map mp_session ?ps = map mb_session ?ms"
    by (rule nth_equalityI) (simp_all add: len nth)
  have ents: "distinct (map mp_entity ?ps)"
    using start(1) assms(2) by (auto simp: distinct_conv_nth len nth word_of_nat_eq_iff take_bit_nat_eq_self)
  have later: "mp_session p < ms_match start" if "p \<in> set ?ps" for p
  proof -
    have "mp_session p \<in> set (map mp_session ?ps)" using that by simp
    then show ?thesis using sess start(4) unfolding sess_ps sess_eq [symmetric] by (simp add: sessions_ok_def)
  qed
  have from_lobby: "\<exists>(_, member) \<in> set (m_members ?m). mb_session member = mp_session p \<and>
           mb_character member = mp_character p \<and> mb_spawn member = mp_spawn p" if "p \<in> set ?ps" for p
  proof -
    from that obtain k where "k < length ?ms" "p = ?ps ! k" unfolding in_set_conv_nth len by blast
    then show ?thesis using nth [of k] by (intro bexI [of _ "m_members ?m ! k"]) (simp_all add: case_prod_beta)
  qed
  have sorts: "sort (map (\<lambda>(_, member). mb_session member) (m_members ?m)) = map mb_session ?ms"
    using strict_sorted_imp_sorted [OF sorted] by (simp add: split_def comp_def sorted_sort_id)
  have entity: "\<forall>k < length ?ms. mp_entity (?ps ! k) = m_next_entity ?m + word_of_nat k" by (simp add: nth)
  show ?thesis
    unfolding Let_def sess_ps sorts len next_entity
    by (intro conjI ballI refl sorted start(1-3) ents entity later from_lobby)
qed

theorem started_players_witness:
  "\<exists>start m'. Match_TryStart id (match_after id example_config example_lobby) = (Some start, m') \<and>
     map mp_session (ms_players start) = [0, 1] \<and> ms_match start = 2 \<and> distinct (map mp_entity (ms_players start))"
proof -
  have len: "mc_player_count example_config < 2 ^ 32" by (simp add: example_config_def)
  let ?start = "\<lparr>ms_players = [\<lparr>mp_session = 0, mp_entity = 1, mp_character = ''scout'', mp_spawn = None\<rparr>,
      \<lparr>mp_session = 1, mp_entity = 2, mp_character = ''scout'', mp_spawn = None\<rparr>], ms_match = 2 :: nat\<rparr>"
  have "fst (Match_TryStart id (match_after id example_config example_lobby)) = Some ?start"
    by (simp add: example_defs Let_def)
  then have t: "Match_TryStart id (match_after id example_config example_lobby) =
     (Some ?start, snd (Match_TryStart id (match_after id example_config example_lobby)))"
    by (simp add: prod_eq_iff)
  have "strict_mono (id :: nat \<Rightarrow> nat)" by (simp add: strict_mono_def)
  from started_players [OF this len t]
  have "distinct (map mp_entity (ms_players ?start))" by (simp add: Let_def)
  then show ?thesis using t by (intro exI [of _ ?start] exI conjI) simp_all
qed

section \<open>The pause and the match in progress\<close>

fun is_tick :: "'u match_event \<Rightarrow> bool" where
  "is_tick EvTick = True"
| "is_tick _ = False"

lemma ticks_step:
  assumes "\<not> m_in_match m" and "m_ticks_since_end m < m_pause_ticks m"
  shows "\<not> m_in_match (match_step ids m e) \<and> m_pause_ticks (match_step ids m e) = m_pause_ticks m \<and>
    unat (m_ticks_since_end (match_step ids m e)) = unat (m_ticks_since_end m) + (if is_tick e then 1 else 0)"
proof -
  have "unat (m_ticks_since_end m + 1) = Suc (unat (m_ticks_since_end m))"
    using assms(2) by (metis add.commute max_word_wrap unatSuc word_order.extremum_strict)
  then show ?thesis using assms
    by (cases e) (auto simp: match_ops Let_def split: option.splits)
qed

lemma ticks_run:
  assumes "\<not> m_in_match m" and "unat (m_ticks_since_end m) + length (filter is_tick es) < unat (m_pause_ticks m)"
  shows "let m' = run (match_step ids) m es in \<not> m_in_match m' \<and> m_ticks_since_end m' < m_pause_ticks m'"
  using assms
proof (induction es arbitrary: m)
  case Nil
  then show ?case by (simp add: word_less_nat_alt)
next
  case (Cons e es)
  have "m_ticks_since_end m < m_pause_ticks m" using Cons.prems(2) by (simp add: word_less_nat_alt)
  note step = ticks_step [OF Cons.prems(1) this, of ids e]
  have "length (filter is_tick (e # es)) = (if is_tick e then 1 else 0) + length (filter is_tick es)" by simp
  then show ?case using step Cons.prems(2) Cons.IH [of "match_step ids m e"] by simp
qed

text \<open>
  C18: the Lobby always gets its pause. After a match ends, however it ended, no sequence of
  events with fewer ticks than the pause lets \<open>TryStart\<close> start another, nor starts one
  along the way.
\<close>

theorem pause_holds:
  assumes "fst (Match_End m winner) \<noteq> None"
    and "length (filter is_tick es) < unat (m_pause_ticks m)"
  shows "fst (Match_TryStart ids (run (match_step ids) (snd (Match_End m winner)) es)) = None \<and>
     \<not> m_in_match (run (match_step ids) (snd (Match_End m winner)) es)"
proof -
  have "\<not> m_in_match (snd (Match_End m winner))" "m_ticks_since_end (snd (Match_End m winner)) = 0"
    "m_pause_ticks (snd (Match_End m winner)) = m_pause_ticks m"
    using assms(1) by (auto simp: Match_End_def)
  with ticks_run [of "snd (Match_End m winner)" es ids] assms(2)
  show ?thesis by (simp add: Match_TryStart_def Let_def)
qed

definition example_match :: "nat match_event list" where
  "example_match = example_lobby @ [EvTryStart]"

theorem pause_holds_witness:
  "\<not> m_in_match (run (match_step id) (snd (Match_End (match_after id example_config example_match) None))
      [EvReady 5 3, EvReady 9 3, EvTick, EvTick, EvTryStart])"
  by (rule conjunct2 [OF pause_holds])
    (simp_all add: example_match_def example_defs Let_def)

text \<open>
  C19: a match in progress is closed to everyone else. No newcomer is admitted whatever it
  asks, no peer is Ready or becomes so, the Roster is empty under the last version, none
  starts on top of it, and ticks count towards no pause.
\<close>

theorem match_in_progress_is_closed:
  assumes "m_in_match m" and "find_member m peer = None"
  shows "(\<exists>refusal. Match_Join ids m peer request = (Inl refusal, m)) \<and>
    Match_Ready m other version = (False, m) \<and> \<not> Match_IsReady m other \<and>
    ro_players (Match_GetRoster m) = [] \<and> ro_version (Match_GetRoster m) = m_roster_version m \<and>
    Match_TryStart ids m = (None, m) \<and> Match_Tick m = m"
  using assms
  by (auto simp: Match_Join_def Match_Ready_def Match_IsReady_def Match_GetRoster_def Match_TryStart_def Match_Tick_def
      split: option.splits)

theorem match_in_progress_is_closed_witness:
  "fst (Match_Join id (match_after id example_config example_match) 7 example_request) = Inl kMatchInProgress \<and>
   Match_TryStart id (match_after id example_config example_match) = (None, match_after id example_config example_match)"
proof -
  have "m_in_match (match_after id example_config example_match)"
    and "find_member (match_after id example_config example_match) 7 = None"
    and "fst (Match_Join id (match_after id example_config example_match) 7 example_request) = Inl kMatchInProgress"
    by (simp_all add: example_match_def example_defs Let_def)
  then show ?thesis
    using match_in_progress_is_closed [of "match_after id example_config example_match" 7 id example_request] by blast
qed

text \<open>
  C20: how a match ends. Its players are told who was in it, in the order of their
  sessions; the winner is one only if it still plays; the Lobby reopens with the same
  members under a new version none of them is Ready for. A player who leaves while others
  play on leaves the match going without it; the last player to leave ends it, with the
  Lobby empty under a new version and the pause begun.
\<close>

theorem match_end_reopens_lobby:
  assumes "Suc (length es) < 2 ^ 32" and "m_in_match (match_after ids config es)"
  shows "let m = match_after ids config es in
     (\<exists>ended m'. Match_End m winner = (Some ended, m') \<and>
        me_players ended = sort (map (\<lambda>(_, member). mb_session member) (m_members m)) \<and>
        (\<forall>w. me_winner ended = Some w \<longrightarrow> winner = Some w \<and> w \<in> set (me_players ended)) \<and>
        (\<forall>w \<in> set (me_players ended). winner = Some w \<longrightarrow> me_winner ended = Some w) \<and>
        \<not> m_in_match m' \<and> m_members m' = m_members m \<and> m_roster_version m < m_roster_version m' \<and>
        (\<forall>peer. \<not> Match_IsReady m' peer)) \<and>
     (\<forall>peer. peer \<in> fst ` set (m_members m) \<longrightarrow> (\<exists>departure m'. Match_Leave m peer = (departure, m') \<and>
        (if fst ` set (m_members m) = {peer}
         then departure = kEndedMatch \<and> m_members m' = [] \<and> \<not> m_in_match m' \<and>
           m_roster_version m < m_roster_version m' \<and> m_ticks_since_end m' = 0
         else departure = kFromMatch \<and> m_in_match m' \<and> m_roster_version m' = m_roster_version m \<and>
           m_members m' = filter (\<lambda>entry. fst entry \<noteq> peer) (m_members m) \<and> m_members m' \<noteq> [])))"
proof -
  let ?m = "match_after ids config es"
  have ok: "versions_ok (length es) ?m" using assms(1) by (intro versions_ok_run) simp
  then have "unat (m_roster_version ?m) \<le> length es" by (simp add: versions_ok_def)
  note up = next_version [OF this assms(1)]
  have old: "mb_ready_version member \<noteq> m_roster_version ?m + 1" if "(p, member) \<in> set (m_members ?m)" for p member
    using ok that up(2) by (fastforce simp: versions_ok_def list_all_iff)
  have playing: "Match_Playing ?m = sort (map (\<lambda>(_, member). mb_session member) (m_members ?m))"
    using assms(2) by (simp add: Match_Playing_def MembersBySession_def split_def sort_map_sessions comp_def)
  have "Match_IsPlaying ?m w \<longleftrightarrow> w \<in> set (Match_Playing ?m)" for w
    using assms(2) by (force simp: Match_IsPlaying_def playing list_ex_iff)
  moreover have "\<not> Match_IsReady (?m\<lparr>m_in_match := False, m_roster_version := m_roster_version ?m + 1, m_ticks_since_end := 0\<rparr>) peer" for peer
    using old by (auto simp: Match_IsReady_def find_member_def split: option.splits dest!: map_of_SomeD)
  moreover have "\<exists>departure m'. Match_Leave ?m peer = (departure, m') \<and>
        (if fst ` set (m_members ?m) = {peer}
         then departure = kEndedMatch \<and> m_members m' = [] \<and> \<not> m_in_match m' \<and>
           m_roster_version ?m < m_roster_version m' \<and> m_ticks_since_end m' = 0
         else departure = kFromMatch \<and> m_in_match m' \<and> m_roster_version m' = m_roster_version ?m \<and>
           m_members m' = filter (\<lambda>entry. fst entry \<noteq> peer) (m_members ?m) \<and> m_members m' \<noteq> [])"
    if peer: "peer \<in> fst ` set (m_members ?m)" for peer
  proof -
    have found: "find_member ?m peer \<noteq> None" using peer by (simp add: find_member_def map_of_eq_None_iff)
    have alone: "filter (\<lambda>entry. fst entry \<noteq> peer) (m_members ?m) = [] \<longleftrightarrow> fst ` set (m_members ?m) = {peer}"
      using peer by (auto simp: filter_empty_conv)
    show ?thesis
    proof (cases "fst ` set (m_members ?m) = {peer}")
      case True
      then show ?thesis using found alone assms(2) up(2) by (simp add: Match_Leave_def Match_End_def Let_def)
    next
      case False
      then show ?thesis using found alone assms(2) by (simp add: Match_Leave_def Let_def)
    qed
  qed
  ultimately show ?thesis using assms(2) up(2) playing
    by (auto simp: Match_End_def Let_def split: option.splits)
qed

theorem match_end_reopens_lobby_witness:
  "(\<exists>ended m'. Match_End (match_after id example_config example_match) (Some 1) = (Some ended, m') \<and>
     me_players ended = [0, 1] \<and> (\<forall>peer. \<not> Match_IsReady m' peer)) \<and>
   fst (Match_Leave (match_after id example_config example_match) 5) = kFromMatch \<and>
   fst (Match_Leave (match_after id example_config (example_match @ [EvLeave 5])) 9) = kEndedMatch"
proof -
  have "Suc (length example_match) < 2 ^ 32" and "m_in_match (match_after id example_config example_match)"
    and members: "map (\<lambda>(_, member). mb_session member) (m_members (match_after id example_config example_match)) = [0, 1]"
    and peers: "fst ` set (m_members (match_after id example_config example_match)) = {5, 9}"
    by (auto simp: example_match_def example_defs Let_def)
  note ends = match_end_reopens_lobby [OF this(1,2), of "Some 1", unfolded Let_def members]
  have first: "\<exists>ended m'. Match_End (match_after id example_config example_match) (Some 1) = (Some ended, m') \<and>
     me_players ended = [0, 1] \<and> (\<forall>peer. \<not> Match_IsReady m' peer)"
    using conjunct1 [OF ends] by auto
  have "5 \<in> fst ` set (m_members (match_after id example_config example_match)) \<and>
      fst ` set (m_members (match_after id example_config example_match)) \<noteq> {5 :: PeerId}"
    unfolding peers by auto
  then have left: "fst (Match_Leave (match_after id example_config example_match) 5) = kFromMatch"
    using spec [OF conjunct2 [OF ends], of 5] by (elim conjE) (simp only: if_False simp_thms, elim exE conjE, simp)
  have "Suc (length (example_match @ [EvLeave 5])) < 2 ^ 32"
    and "m_in_match (match_after id example_config (example_match @ [EvLeave 5]))"
    and last': "fst ` set (m_members (match_after id example_config (example_match @ [EvLeave 5]))) = {9}"
    by (auto simp: example_match_def example_defs Let_def)
  note ends = match_end_reopens_lobby [OF this(1,2), of None, unfolded Let_def last']
  have "fst (Match_Leave (match_after id example_config (example_match @ [EvLeave 5])) 9) = kEndedMatch"
    using spec [OF conjunct2 [OF ends], of 9]
    by (simp only: singletonI if_True simp_thms) (elim exE conjE, simp)
  with first left show ?thesis by blast
qed

end
