(* ===== verification/Host_Gate.thy ===== *)
theory Host_Gate
  imports Asset_Types
begin

text \<open>
  What every server does with a peer around what it asks for
  (\<open>src/modules/host/peer_gate.cpp\<close>, \<open>admission.cpp\<close>, \<open>misbehaviour.cpp\<close>, and
  \<open>failure/include/augusta/failure_latch.h\<close>): the admission deadline, the misbehaviour
  window, the expulsions of the round under way, and one round of a server's network
  work. A \<open>steady_clock\<close> time point or duration is a whole number of nanoseconds. The
  Link is a parameter: the events it pumps and what it receives. A lock orders the calls
  and has no state here. The unordered maps are association lists with distinct keys.
\<close>

section \<open>Failure latch\<close>

record 'f FailureLatch =
  fl_recorded :: bool
  fl_failure :: "'f option"

definition FailureLatch_Record :: "'f FailureLatch \<Rightarrow> 'f \<Rightarrow> 'f FailureLatch" where
  "FailureLatch_Record latch failure =
     (if \<not> fl_recorded latch then latch\<lparr>fl_recorded := True, fl_failure := Some failure\<rparr> else latch)"

definition FailureLatch_Take :: "'f FailureLatch \<Rightarrow> 'f option \<times> 'f FailureLatch" where
  "FailureLatch_Take latch = (fl_failure latch, latch\<lparr>fl_failure := None\<rparr>)"

section \<open>Misbehaviour\<close>

type_synonym PeerId = u32
type_synonym time = int

datatype PeerRejection =
    kUndecodable | kNotAClientMessage | kNonFiniteCommand | kOutOfRangeCommand | kCommandsBeforeJoining
  | kStaleCommand | kCommandsOutsideMatch | kStaleReady | kJoinRefused

fun IsMisbehaviour :: "PeerRejection \<Rightarrow> bool" where
  "IsMisbehaviour kUndecodable = True"
| "IsMisbehaviour kNotAClientMessage = True"
| "IsMisbehaviour kNonFiniteCommand = True"
| "IsMisbehaviour kOutOfRangeCommand = True"
| "IsMisbehaviour kCommandsBeforeJoining = True"
| "IsMisbehaviour kStaleCommand = False"
| "IsMisbehaviour kCommandsOutsideMatch = False"
| "IsMisbehaviour kStaleReady = False"
| "IsMisbehaviour kJoinRefused = False"

fun DescribePeerRejection :: "PeerRejection \<Rightarrow> string" where
  "DescribePeerRejection kUndecodable = ''undecodable message''"
| "DescribePeerRejection kNotAClientMessage = ''not a client message''"
| "DescribePeerRejection kNonFiniteCommand = ''non-finite value''"
| "DescribePeerRejection kOutOfRangeCommand = ''value out of range''"
| "DescribePeerRejection kCommandsBeforeJoining = ''commands before joining''"
| "DescribePeerRejection kStaleCommand = ''sequence not newer''"
| "DescribePeerRejection kCommandsOutsideMatch = ''commands outside a match''"
| "DescribePeerRejection kStaleReady = ''ready for an old roster''"
| "DescribePeerRejection kJoinRefused = ''join refused''"

definition kMisbehaviourWindow :: time where "kMisbehaviourWindow = 5 * 1000000000"
definition kMisbehaviourThreshold :: nat where "kMisbehaviourThreshold = 16"

datatype Verdict = kKeep | kDisconnect

text \<open>The state is \<open>recent_\<close>, oldest first.\<close>

definition MisbehaviourTracker_Record :: "time list \<Rightarrow> PeerRejection \<Rightarrow> time \<Rightarrow> Verdict \<times> time list" where
  "MisbehaviourTracker_Record recent rejection now =
     (if \<not> IsMisbehaviour rejection then (kKeep, recent)
      else let recent = dropWhile (\<lambda>t. now - t \<ge> kMisbehaviourWindow) recent;
               recent = recent @ [now]
           in (if length recent \<ge> kMisbehaviourThreshold then kDisconnect else kKeep, recent))"

section \<open>Admission deadlines\<close>

definition kAdmissionDeadline :: time where "kAdmissionDeadline = 30 * 1000000000"

type_synonym deadlines = "(PeerId \<times> time) list"

definition erase_key :: "'k \<Rightarrow> ('k \<times> 'v) list \<Rightarrow> ('k \<times> 'v) list" where
  "erase_key k xs = filter (\<lambda>entry. fst entry \<noteq> k) xs"

definition AdmissionDeadlines_Connected :: "deadlines \<Rightarrow> PeerId \<Rightarrow> time \<Rightarrow> deadlines" where
  "AdmissionDeadlines_Connected connected_at peer now = (peer, now) # erase_key peer connected_at"

definition AdmissionDeadlines_Admitted :: "deadlines \<Rightarrow> PeerId \<Rightarrow> deadlines" where
  "AdmissionDeadlines_Admitted connected_at peer = erase_key peer connected_at"

definition AdmissionDeadlines_Left :: "deadlines \<Rightarrow> PeerId \<Rightarrow> deadlines" where
  "AdmissionDeadlines_Left connected_at peer = erase_key peer connected_at"

definition AdmissionDeadlines_TakeOverdue :: "deadlines \<Rightarrow> time \<Rightarrow> PeerId list \<times> deadlines" where
  "AdmissionDeadlines_TakeOverdue connected_at now =
     (map fst (filter (\<lambda>(peer, at). \<not> now - at < kAdmissionDeadline) connected_at),
      filter (\<lambda>(peer, at). now - at < kAdmissionDeadline) connected_at)"

section \<open>PeerGate\<close>

text \<open>\<open>metrics_.misbehaviour\<close>, a counter for each rejection, is \<open>pg_counted\<close>.\<close>

record PeerGate =
  pg_misbehaviour :: "(PeerId \<times> time list) list"
  pg_expelled :: "PeerId list"
  pg_deadlines :: deadlines
  pg_counted :: "PeerRejection \<Rightarrow> nat"

definition PeerGate_init :: PeerGate where
  "PeerGate_init = \<lparr>pg_misbehaviour = [], pg_expelled = [], pg_deadlines = [], pg_counted = (\<lambda>_. 0)\<rparr>"

definition PeerGate_Connected :: "PeerGate \<Rightarrow> PeerId \<Rightarrow> time \<Rightarrow> PeerGate" where
  "PeerGate_Connected g peer now = g\<lparr>pg_deadlines := AdmissionDeadlines_Connected (pg_deadlines g) peer now\<rparr>"

definition PeerGate_Admitted :: "PeerGate \<Rightarrow> PeerId \<Rightarrow> PeerGate" where
  "PeerGate_Admitted g peer = g\<lparr>pg_deadlines := AdmissionDeadlines_Admitted (pg_deadlines g) peer\<rparr>"

definition PeerGate_Left :: "PeerGate \<Rightarrow> PeerId \<Rightarrow> PeerGate" where
  "PeerGate_Left g peer =
     g\<lparr>pg_misbehaviour := erase_key peer (pg_misbehaviour g),
       pg_deadlines := AdmissionDeadlines_Left (pg_deadlines g) peer\<rparr>"

text \<open>\<open>misbehaviour_[peer]\<close> makes an empty tracker where the peer has none.\<close>

definition tracker_of :: "PeerGate \<Rightarrow> PeerId \<Rightarrow> time list" where
  "tracker_of g peer = (case map_of (pg_misbehaviour g) peer of None \<Rightarrow> [] | Some recent \<Rightarrow> recent)"

definition PeerGate_Judge :: "PeerGate \<Rightarrow> PeerId \<Rightarrow> PeerRejection \<Rightarrow> time \<Rightarrow> Verdict \<times> PeerGate" where
  "PeerGate_Judge g peer rejection now =
     (let g = (if IsMisbehaviour rejection
               then g\<lparr>pg_counted := (pg_counted g)(rejection := pg_counted g rejection + 1)\<rparr> else g)
      in case MisbehaviourTracker_Record (tracker_of g peer) rejection now of
           (verdict, recent) \<Rightarrow>
             (verdict, g\<lparr>pg_misbehaviour := (peer, recent) # erase_key peer (pg_misbehaviour g)\<rparr>))"

definition PeerGate_Expelled :: "PeerGate \<Rightarrow> PeerId \<Rightarrow> PeerGate" where
  "PeerGate_Expelled g peer = g\<lparr>pg_expelled := List.insert peer (pg_expelled g)\<rparr>"

definition PeerGate_WasExpelled :: "PeerGate \<Rightarrow> PeerId \<Rightarrow> bool" where
  "PeerGate_WasExpelled g peer \<longleftrightarrow> peer \<in> set (pg_expelled g)"

definition PeerGate_TakeOverdue :: "PeerGate \<Rightarrow> time \<Rightarrow> PeerId list \<times> PeerGate" where
  "PeerGate_TakeOverdue g now =
     (case AdmissionDeadlines_TakeOverdue (pg_deadlines g) now of
        (overdue, left) \<Rightarrow> (overdue, g\<lparr>pg_deadlines := left\<rparr>))"

definition PeerGate_EndRound :: "PeerGate \<Rightarrow> PeerGate" where
  "PeerGate_EndRound g = g\<lparr>pg_expelled := []\<rparr>"

section \<open>One round of network work\<close>

datatype PeerEventType = kConnectRequested | kConnected | kDisconnected
datatype DisconnectReason = kClosedByPeer | kConnectionLost
datatype Leaving = kLeft | kTimedOut | kMisbehaving

record PeerEvent =
  ev_peer :: PeerId
  ev_type :: PeerEventType
  ev_reason :: DisconnectReason

record 'm PeerMessage =
  pm_from :: PeerId
  pm_bytes :: nat
  pm_body :: 'm

text \<open>
  A server's state: its gate, the connections it accepted this round (\<open>network.Accept\<close>),
  the bytes it counted, its failure latch, and, as \<open>'s\<close>, whatever its handlers keep.
\<close>

record ('f, 's) server =
  sv_gate :: PeerGate
  sv_accepted :: "PeerId list"
  sv_received_bytes :: nat
  sv_transport_failure :: "'f FailureLatch"
  sv_own :: 's

record ('f, 's, 'm) PeerHandlers =
  ph_disconnected :: "PeerId \<Rightarrow> Leaving \<Rightarrow> ('f, 's) server \<Rightarrow> ('f, 's) server"
  ph_message :: "'m PeerMessage \<Rightarrow> ('f, 's) server \<Rightarrow> ('f, 's) server"
  ph_overdue :: "PeerId \<Rightarrow> ('f, 's) server \<Rightarrow> ('f, 's) server"

definition pump_event :: "('f, 's, 'm) PeerHandlers \<Rightarrow> time \<Rightarrow> PeerEvent \<Rightarrow> ('f, 's) server \<Rightarrow> ('f, 's) server" where
  "pump_event handlers now event s =
     (case ev_type event of
        kConnectRequested \<Rightarrow>
          s\<lparr>sv_accepted := sv_accepted s @ [ev_peer event],
            sv_gate := PeerGate_Connected (sv_gate s) (ev_peer event) now\<rparr>
      | kConnected \<Rightarrow> s
      | kDisconnected \<Rightarrow>
          ph_disconnected handlers (ev_peer event)
            (if ev_reason event = kConnectionLost then kTimedOut else kLeft) s)"

definition pump_message :: "('f, 's, 'm) PeerHandlers \<Rightarrow> 'm PeerMessage \<Rightarrow> ('f, 's) server \<Rightarrow> ('f, 's) server" where
  "pump_message handlers message s =
     (if PeerGate_WasExpelled (sv_gate s) (pm_from message) then s
      else ph_message handlers message (s\<lparr>sv_received_bytes := sv_received_bytes s + pm_bytes message\<rparr>))"

definition PumpPeers ::
  "('f, 's, 'm) PeerHandlers \<Rightarrow> PeerEvent list \<Rightarrow> 'f + 'm PeerMessage list \<Rightarrow> time \<Rightarrow>
   ('f, 's) server \<Rightarrow> ('f, 's) server" where
  "PumpPeers handlers events received now s =
     (let s = fold (pump_event handlers now) events s
      in case received of
           Inl failure \<Rightarrow> s\<lparr>sv_transport_failure := FailureLatch_Record (sv_transport_failure s) failure\<rparr>
         | Inr messages \<Rightarrow>
             (let s = fold (pump_message handlers) messages s
              in case PeerGate_TakeOverdue (sv_gate s) now of
                   (overdue, gate) \<Rightarrow>
                     (let s = fold (ph_overdue handlers) overdue (s\<lparr>sv_gate := gate\<rparr>)
                      in s\<lparr>sv_gate := PeerGate_EndRound (sv_gate s)\<rparr>)))"

section \<open>The gate as a state machine\<close>

datatype gate_event =
    GConnected PeerId time
  | GAdmitted PeerId
  | GLeft PeerId
  | GJudge PeerId PeerRejection time
  | GExpelled PeerId
  | GTakeOverdue time
  | GEndRound

fun gate_step :: "PeerGate \<Rightarrow> gate_event \<Rightarrow> PeerGate" where
  "gate_step g (GConnected peer now) = PeerGate_Connected g peer now"
| "gate_step g (GAdmitted peer) = PeerGate_Admitted g peer"
| "gate_step g (GLeft peer) = PeerGate_Left g peer"
| "gate_step g (GJudge peer rejection now) = snd (PeerGate_Judge g peer rejection now)"
| "gate_step g (GExpelled peer) = PeerGate_Expelled g peer"
| "gate_step g (GTakeOverdue now) = snd (PeerGate_TakeOverdue g now)"
| "gate_step g GEndRound = PeerGate_EndRound g"

lemmas gate_ops =
  PeerGate_Connected_def PeerGate_Admitted_def PeerGate_Left_def PeerGate_Judge_def PeerGate_Expelled_def
  PeerGate_TakeOverdue_def PeerGate_EndRound_def AdmissionDeadlines_Connected_def AdmissionDeadlines_Admitted_def
  AdmissionDeadlines_Left_def AdmissionDeadlines_TakeOverdue_def

definition gate_inv :: "PeerGate \<Rightarrow> bool" where
  "gate_inv g \<longleftrightarrow> distinct (map fst (pg_misbehaviour g)) \<and> distinct (map fst (pg_deadlines g)) \<and>
     distinct (pg_expelled g)"

lemma distinct_erase_key: "distinct (map fst xs) \<Longrightarrow> distinct (map fst ((k, v) # erase_key k xs))"
  by (auto simp: erase_key_def distinct_map_filter)

lemma distinct_erase_key_only: "distinct (map fst xs) \<Longrightarrow> distinct (map fst (erase_key k xs))"
  by (simp add: erase_key_def distinct_map_filter)

lemma map_of_erase_key: "map_of (erase_key k xs) k' = (if k' = k then None else map_of xs k')"
  by (induction xs) (auto simp: erase_key_def)

interpretation gate: invariant_machine PeerGate_init gate_step gate_inv
proof unfold_locales
  show "gate_inv PeerGate_init" by (simp add: gate_inv_def PeerGate_init_def)
next
  fix g e
  assume "gate_inv g"
  then show "gate_inv (gate_step g e)"
    by (cases e) (auto simp: gate_inv_def gate_ops Let_def distinct_erase_key distinct_erase_key_only
        distinct_map_filter simp del: list.map(2) distinct.simps(2) split: prod.splits)
qed

section \<open>Misbehaviour counts over a sliding window\<close>

definition record_all :: "(PeerRejection \<times> time) list \<Rightarrow> time list" where
  "record_all rs = fold (\<lambda>(rejection, now) recent. snd (MisbehaviourTracker_Record recent rejection now)) rs []"

definition misbehaved_at :: "(PeerRejection \<times> time) list \<Rightarrow> time list" where
  "misbehaved_at rs = map snd (filter (IsMisbehaviour \<circ> fst) rs)"

lemma dropWhile_window:
  assumes "sorted ts"
  shows "dropWhile (\<lambda>t. now - t \<ge> w) ts = filter (\<lambda>t. now - t < (w :: int)) ts"
proof -
  have "(\<lambda>t. now - t \<ge> w) = (\<lambda>t. t < now - w + 1)" and "(\<lambda>t. now - t < w) = (\<lambda>t. now - w + 1 \<le> t)" by auto
  then show ?thesis using dropWhile_filter_sorted [of "\<lambda>t. t" ts "now - w + 1"] assms by simp
qed

lemma record_all_eq:
  assumes "sorted (map snd rs)"
  shows "record_all rs = (if misbehaved_at rs = [] then []
     else filter (\<lambda>t. last (misbehaved_at rs) - t < kMisbehaviourWindow) (misbehaved_at rs))"
  using assms
proof (induction rs rule: rev_induct)
  case Nil
  then show ?case by (simp add: record_all_def misbehaved_at_def)
next
  case (snoc x rs)
  obtain rejection now where x: "x = (rejection, now)" by (cases x)
  have sorted: "sorted (map snd rs)" and upto: "\<forall>t \<in> set (misbehaved_at rs). t \<le> now"
    using snoc.prems by (auto simp: x sorted_append misbehaved_at_def)
  have sm: "sorted (misbehaved_at rs)"
    unfolding misbehaved_at_def using sorted by (rule sorted_filter)
  have step: "record_all (rs @ [x]) = snd (MisbehaviourTracker_Record (record_all rs) rejection now)"
    by (simp add: record_all_def x)
  show ?case
  proof (cases "IsMisbehaviour rejection")
    case False
    then show ?thesis using snoc.IH [OF sorted]
      by (simp add: step MisbehaviourTracker_Record_def) (simp add: misbehaved_at_def x)
  next
    case True
    have times: "misbehaved_at (rs @ [x]) = misbehaved_at rs @ [now]" using True by (simp add: misbehaved_at_def x)
    have "sorted (record_all rs)" using snoc.IH [OF sorted] sm by (simp add: sorted_filter [where f = "\<lambda>t. t", simplified])
    then have "record_all (rs @ [x]) = filter (\<lambda>t. now - t < kMisbehaviourWindow) (record_all rs) @ [now]"
      using True by (simp add: step MisbehaviourTracker_Record_def Let_def dropWhile_window)
    also have "filter (\<lambda>t. now - t < kMisbehaviourWindow) (record_all rs) =
        filter (\<lambda>t. now - t < kMisbehaviourWindow) (misbehaved_at rs)"
    proof (cases "misbehaved_at rs = []")
      case False
      then have "last (misbehaved_at rs) \<le> now" using upto by simp
      then show ?thesis using snoc.IH [OF sorted] False by (auto intro!: filter_cong)
    qed (use snoc.IH [OF sorted] in simp)
    finally show ?thesis by (simp add: times kMisbehaviourWindow_def)
  qed
qed

text \<open>
  C21: a peer is to be disconnected exactly when it misbehaves too often. With a clock that
  never runs backwards, \<open>Record\<close> says disconnect for a misbehaviour at \<open>now\<close> if and only if
  at least \<open>kMisbehaviourThreshold\<close> misbehaviours of all those recorded, this one included,
  lie less than \<open>kMisbehaviourWindow\<close> before it, however many have been forgotten since;
  and a routine rejection never disconnects and leaves no trace.
\<close>

theorem misbehaviour_window_exact:
  assumes "sorted (map snd (rs @ [(rejection, now)]))"
  shows "fst (MisbehaviourTracker_Record (record_all rs) rejection now) =
     (if IsMisbehaviour rejection \<and> kMisbehaviourThreshold \<le>
         length (filter (\<lambda>t. now - t < kMisbehaviourWindow) (misbehaved_at (rs @ [(rejection, now)])))
      then kDisconnect else kKeep) \<and>
     (\<not> IsMisbehaviour rejection \<longrightarrow> snd (MisbehaviourTracker_Record (record_all rs) rejection now) = record_all rs)"
proof (cases "IsMisbehaviour rejection")
  case True
  have "snd (MisbehaviourTracker_Record (record_all rs) rejection now) = record_all (rs @ [(rejection, now)])"
    by (simp add: record_all_def)
  also have "\<dots> = filter (\<lambda>t. now - t < kMisbehaviourWindow) (misbehaved_at (rs @ [(rejection, now)]))"
    using record_all_eq [OF assms] True by (simp add: misbehaved_at_def)
  finally have recent: "snd (MisbehaviourTracker_Record (record_all rs) rejection now) = \<dots>" .
  have "fst (MisbehaviourTracker_Record (record_all rs) rejection now) =
      (if kMisbehaviourThreshold \<le> length (snd (MisbehaviourTracker_Record (record_all rs) rejection now))
       then kDisconnect else kKeep)"
    using True by (simp add: MisbehaviourTracker_Record_def Let_def)
  then show ?thesis using True unfolding recent by simp
next
  case False
  then show ?thesis by (simp add: MisbehaviourTracker_Record_def)
qed

theorem misbehaviour_window_exact_witness:
  "fst (MisbehaviourTracker_Record (record_all (replicate 15 (kUndecodable, 7))) kUndecodable 8) = kDisconnect \<and>
   fst (MisbehaviourTracker_Record (record_all (replicate 15 (kUndecodable, 7))) kUndecodable 5000000007) = kKeep"
  using misbehaviour_window_exact [of "replicate 15 (kUndecodable, 7)" kUndecodable 8]
    misbehaviour_window_exact [of "replicate 15 (kUndecodable, 7)" kUndecodable 5000000007]
  by (simp add: misbehaved_at_def kMisbehaviourThreshold_def kMisbehaviourWindow_def numeral_eq_Suc)

section \<open>Deadlines\<close>

abbreviation gate_after :: "gate_event list \<Rightarrow> PeerGate" where
  "gate_after es \<equiv> run gate_step PeerGate_init es"

definition starts_deadline :: "PeerId \<Rightarrow> gate_event \<Rightarrow> bool" where
  "starts_deadline peer e \<longleftrightarrow> (case e of GConnected p _ \<Rightarrow> p = peer | _ \<Rightarrow> False)"

lemma map_of_filter_val:
  "distinct (map fst xs) \<Longrightarrow>
   map_of (filter (\<lambda>(k, v). P v) xs) k = (case map_of xs k of None \<Rightarrow> None | Some v \<Rightarrow> if P v then Some v else None)"
  by (induction xs) (auto simp: map_of_eq_None_iff split: option.splits)

lemma no_deadline_step:
  assumes "gate_inv g" and "map_of (pg_deadlines g) peer = None" and "\<not> starts_deadline peer e"
  shows "map_of (pg_deadlines (gate_step g e)) peer = None"
  using assms
  by (cases e) (auto simp: gate_ops starts_deadline_def Let_def map_of_erase_key gate_inv_def map_of_filter_val
      split: prod.splits)

lemma no_deadline_run:
  assumes "gate_inv g" and "map_of (pg_deadlines g) peer = None" and "\<forall>e \<in> set es. \<not> starts_deadline peer e"
  shows "map_of (pg_deadlines (run gate_step g es)) peer = None"
  using assms
proof (induction es arbitrary: g)
  case Nil
  then show ?case by simp
next
  case (Cons e es)
  then show ?case using no_deadline_step [of g peer e] gate.inv_step [of g e] by simp
qed

text \<open>
  A connection made at \<open>at\<close> goes on waiting to be admitted, past an event, unless its peer
  connects again, is admitted or leaves, or a taking finds it 30 seconds old.
\<close>

fun keeps_waiting :: "PeerId \<Rightarrow> time \<Rightarrow> gate_event \<Rightarrow> bool" where
  "keeps_waiting peer at (GConnected p now) \<longleftrightarrow> p \<noteq> peer"
| "keeps_waiting peer at (GAdmitted p) \<longleftrightarrow> p \<noteq> peer"
| "keeps_waiting peer at (GLeft p) \<longleftrightarrow> p \<noteq> peer"
| "keeps_waiting peer at (GTakeOverdue now) \<longleftrightarrow> now - at < 30000000000"
| "keeps_waiting peer at (GJudge p rejection now) \<longleftrightarrow> True"
| "keeps_waiting peer at (GExpelled p) \<longleftrightarrow> True"
| "keeps_waiting peer at GEndRound \<longleftrightarrow> True"

definition waiting_since :: "gate_event list \<Rightarrow> PeerId \<Rightarrow> time \<Rightarrow> bool" where
  "waiting_since es peer at \<longleftrightarrow>
     (\<exists>earlier since. es = earlier @ GConnected peer at # since \<and> list_all (keeps_waiting peer at) since)"

lemma waiting_since_snoc:
  "waiting_since (es @ [e]) peer at \<longleftrightarrow> e = GConnected peer at \<or> waiting_since es peer at \<and> keeps_waiting peer at e"
proof
  assume "waiting_since (es @ [e]) peer at"
  then obtain earlier since where "es @ [e] = earlier @ GConnected peer at # since" "list_all (keeps_waiting peer at) since"
    by (auto simp: waiting_since_def)
  then show "e = GConnected peer at \<or> waiting_since es peer at \<and> keeps_waiting peer at e"
    by (cases since rule: rev_cases) (auto simp: waiting_since_def)
next
  assume "e = GConnected peer at \<or> waiting_since es peer at \<and> keeps_waiting peer at e"
  then show "waiting_since (es @ [e]) peer at"
  proof
    assume "e = GConnected peer at"
    then show ?thesis unfolding waiting_since_def by (intro exI [of _ es] exI [of _ "[]"]) simp
  next
    assume *: "waiting_since es peer at \<and> keeps_waiting peer at e"
    then obtain earlier since where "es = earlier @ GConnected peer at # since" "list_all (keeps_waiting peer at) since"
      by (auto simp: waiting_since_def)
    then show ?thesis using * unfolding waiting_since_def
      by (intro exI [of _ earlier] exI [of _ "since @ [e]"]) simp
  qed
qed

text \<open>The deadlines kept are exactly the connections still waiting, with when they were made.\<close>

lemma deadlines_waiting: "map_of (pg_deadlines (gate_after es)) peer = Some at \<longleftrightarrow> waiting_since es peer at"
proof (induction es rule: rev_induct)
  case Nil
  then show ?case by (simp add: PeerGate_init_def waiting_since_def)
next
  case (snoc e es)
  have keys: "distinct (map fst (pg_deadlines (gate_after es)))" using gate.inv_run [of es] by (simp add: gate_inv_def)
  show ?case
    using snoc.IH keys unfolding waiting_since_snoc
    by (cases e) (auto simp: gate_ops Let_def map_of_erase_key map_of_filter_val kAdmissionDeadline_def
      simp del: map_of_eq_Some_iff Some_eq_map_of_iff split: prod.splits option.splits)
qed

text \<open>
  C22: admission deadlines. After any events, the peers taken as overdue at \<open>now\<close> are exactly
  those that connected at least 30 seconds before, by the time they connected at, and since
  then have neither connected again, been admitted, left nor been taken by an earlier
  taking; each once. Neither a peer taken, nor one admitted, nor one that left is ever
  overdue again unless it connects again.
\<close>

theorem overdue_exact:
  "let g = gate_after es; overdue = fst (PeerGate_TakeOverdue g now) in
     distinct overdue \<and>
     (\<forall>peer. peer \<in> set overdue \<longleftrightarrow>
        (\<exists>at earlier since. es = earlier @ GConnected peer at # since \<and> list_all (keeps_waiting peer at) since \<and>
           30000000000 \<le> now - at)) \<and>
     (\<forall>peer. peer \<in> set overdue \<longleftrightarrow> (\<exists>at. map_of (pg_deadlines g) peer = Some at \<and> kAdmissionDeadline \<le> now - at)) \<and>
     (\<forall>peer more_es later g'. g' \<in> {PeerGate_Admitted g peer, PeerGate_Left g peer} \<or>
          g' = snd (PeerGate_TakeOverdue g now) \<and> peer \<in> set overdue \<longrightarrow>
        (\<forall>e \<in> set more_es. \<not> starts_deadline peer e) \<longrightarrow>
        peer \<notin> set (fst (PeerGate_TakeOverdue (run gate_step g' more_es) later)))"
proof -
  let ?g = "gate_after es"
  have inv: "gate_inv ?g" by (rule gate.inv_run)
  have keys: "distinct (map fst (pg_deadlines ?g))" using inv by (simp add: gate_inv_def)
  have member: "peer \<in> set (fst (PeerGate_TakeOverdue g now)) \<longleftrightarrow>
      (\<exists>at. map_of (pg_deadlines g) peer = Some at \<and> kAdmissionDeadline \<le> now - at)" if "gate_inv g" for g peer now
    using that by (force simp: gate_inv_def PeerGate_TakeOverdue_def AdmissionDeadlines_TakeOverdue_def)
  have "distinct (fst (PeerGate_TakeOverdue ?g now))"
    using keys by (simp add: PeerGate_TakeOverdue_def AdmissionDeadlines_TakeOverdue_def distinct_map_filter)
  moreover have "peer \<notin> set (fst (PeerGate_TakeOverdue (run gate_step g' more_es) later))"
    if g': "g' \<in> {PeerGate_Admitted ?g peer, PeerGate_Left ?g peer} \<or>
          g' = snd (PeerGate_TakeOverdue ?g now) \<and> peer \<in> set (fst (PeerGate_TakeOverdue ?g now))"
      and es: "\<forall>e \<in> set more_es. \<not> starts_deadline peer e" for peer more_es later g'
  proof -
    have "gate_inv g'"
      using g' gate.inv_step [OF inv, of "GAdmitted peer"] gate.inv_step [OF inv, of "GLeft peer"]
        gate.inv_step [OF inv, of "GTakeOverdue now"] by auto
    moreover have "map_of (pg_deadlines g') peer = None"
      using g' member [OF inv] keys
      by (auto simp: gate_ops map_of_erase_key map_of_filter_val split: option.splits)
    ultimately show ?thesis
      using no_deadline_run [of g' peer more_es] es gate.inv_run_from [of g' more_es] member by simp
  qed
  moreover have "peer \<in> set (fst (PeerGate_TakeOverdue ?g now)) \<longleftrightarrow>
      (\<exists>at earlier since. es = earlier @ GConnected peer at # since \<and> list_all (keeps_waiting peer at) since \<and>
         30000000000 \<le> now - at)" for peer
    using member [OF inv] deadlines_waiting [of es peer] by (auto simp: waiting_since_def kAdmissionDeadline_def)
  ultimately show ?thesis using member [OF inv] by (simp add: Let_def)
qed

text \<open>Peers 1 and 2 connect at 5 and 7 nanoseconds; 1 is admitted, so only 2 is ever overdue.\<close>

theorem overdue_exact_witness:
  "2 \<in> set (fst (PeerGate_TakeOverdue (gate_after [GConnected 1 5, GConnected 2 7, GAdmitted 1]) 30000000007)) \<and>
   2 \<notin> set (fst (PeerGate_TakeOverdue (gate_after [GConnected 1 5, GConnected 2 7, GAdmitted 1]) 30000000006)) \<and>
   1 \<notin> set (fst (PeerGate_TakeOverdue (run gate_step (PeerGate_Admitted (gate_after [GConnected 1 0]) 1) [GEndRound]) 99000000000))"
proof -
  let ?es = "[GConnected 1 5, GConnected 2 7, GAdmitted 1]"
  have since: "?es = [GConnected 1 5] @ GConnected 2 7 # [GAdmitted 1]" "list_all (keeps_waiting 2 7) [GAdmitted 1]" by simp_all
  have member: "peer \<in> set (fst (PeerGate_TakeOverdue (gate_after ?es) now)) \<longleftrightarrow>
      (\<exists>at earlier since. ?es = earlier @ GConnected peer at # since \<and> list_all (keeps_waiting peer at) since \<and>
         30000000000 \<le> now - at)" for peer now
    by (rule spec [OF conjunct1 [OF conjunct2 [OF overdue_exact [of ?es now, unfolded Let_def]]]])
  have "\<exists>at earlier since. ?es = earlier @ GConnected 2 at # since \<and> list_all (keeps_waiting 2 at) since \<and>
      30000000000 \<le> 30000000007 - at"
    using since by (intro exI [of _ 7] exI [of _ "[GConnected 1 5]"] exI [of _ "[GAdmitted 1]"]) simp
  then have "2 \<in> set (fst (PeerGate_TakeOverdue (gate_after ?es) 30000000007))"
    by (rule iffD2 [OF member])
  moreover have "at = 7" if "?es = earlier @ GConnected 2 at # since" for at earlier since
    using that by (auto simp: Cons_eq_append_conv)
  then have "\<not> (\<exists>at earlier since. ?es = earlier @ GConnected 2 at # since \<and> list_all (keeps_waiting 2 at) since \<and>
      30000000000 \<le> 30000000006 - at)"
    by fastforce
  then have "2 \<notin> set (fst (PeerGate_TakeOverdue (gate_after ?es) 30000000006))"
    unfolding member .
  moreover have "\<forall>e \<in> set [GEndRound]. \<not> starts_deadline 1 e" by (simp add: starts_deadline_def)
  then have "1 \<notin> set (fst (PeerGate_TakeOverdue (run gate_step (PeerGate_Admitted (gate_after [GConnected 1 0]) 1) [GEndRound]) 99000000000))"
    using conjunct2 [OF conjunct2 [OF conjunct2 [OF overdue_exact [of "[GConnected 1 0]" 0, unfolded Let_def]]]] by blast
  ultimately show ?thesis by (intro conjI)
qed

section \<open>A round\<close>

text \<open>
  C23: an expelled peer is not heard again in its round. As long as no handler takes an
  expulsion back, once a peer is expelled the rest of the round's messages have exactly the
  effect they would have had without that peer's among them: no handler sees one and no
  byte of one is counted. A round that received its messages ends with the expulsions
  forgotten.
\<close>

theorem expelled_peer_ignored:
  assumes "\<And>m s. PeerGate_WasExpelled (sv_gate s) peer \<Longrightarrow> PeerGate_WasExpelled (sv_gate (ph_message handlers m s)) peer"
    and "PeerGate_WasExpelled (sv_gate s) peer"
  shows "fold (pump_message handlers) messages s =
       fold (pump_message handlers) (filter (\<lambda>m. pm_from m \<noteq> peer) messages) s \<and>
     pg_expelled (sv_gate (PumpPeers handlers events (Inr messages) now s)) = []"
proof
  show "fold (pump_message handlers) messages s =
       fold (pump_message handlers) (filter (\<lambda>m. pm_from m \<noteq> peer) messages) s"
    using assms(2)
  proof (induction messages arbitrary: s)
    case Nil
    then show ?case by simp
  next
    case (Cons m messages)
    have "PeerGate_WasExpelled (sv_gate (pump_message handlers m s)) peer"
      using Cons.prems by (auto simp: pump_message_def intro: assms(1))
    moreover have "pump_message handlers m s = s" if "pm_from m = peer"
      using that Cons.prems by (simp add: pump_message_def)
    ultimately show ?case using Cons.IH Cons.prems by auto
  qed
  show "pg_expelled (sv_gate (PumpPeers handlers events (Inr messages) now s)) = []"
    by (simp add: PumpPeers_def Let_def PeerGate_EndRound_def split: prod.splits)
qed

definition counting_handlers :: "(string, nat, string) PeerHandlers" where
  "counting_handlers =
     \<lparr>ph_disconnected = (\<lambda>peer how s. s\<lparr>sv_gate := PeerGate_Left (sv_gate s) peer\<rparr>),
      ph_message = (\<lambda>m s. if pm_body m = ''bad'' then s\<lparr>sv_gate := PeerGate_Expelled (sv_gate s) (pm_from m)\<rparr>
         else s\<lparr>sv_own := sv_own s + 1\<rparr>),
      ph_overdue = (\<lambda>peer s. s\<lparr>sv_gate := PeerGate_Expelled (sv_gate s) peer\<rparr>)\<rparr>"

theorem expelled_peer_ignored_witness:
  "let s = \<lparr>sv_gate = PeerGate_Expelled PeerGate_init 3, sv_accepted = [], sv_received_bytes = 0,
        sv_transport_failure = \<lparr>fl_recorded = False, fl_failure = None\<rparr>, sv_own = 0\<rparr>;
       message = (\<lambda>peer. \<lparr>pm_from = peer, pm_bytes = 4, pm_body = ''ok''\<rparr>)
   in sv_own (fold (pump_message counting_handlers) [message 3, message 4, message 3] s) = 1"
proof -
  let ?s = "\<lparr>sv_gate = PeerGate_Expelled PeerGate_init 3, sv_accepted = [], sv_received_bytes = 0,
        sv_transport_failure = \<lparr>fl_recorded = False, fl_failure = None\<rparr>, sv_own = 0\<rparr>"
  have "PeerGate_WasExpelled (sv_gate ?s) 3"
    by (simp add: PeerGate_WasExpelled_def PeerGate_Expelled_def PeerGate_init_def)
  moreover have "PeerGate_WasExpelled (sv_gate (ph_message counting_handlers m s)) 3"
    if "PeerGate_WasExpelled (sv_gate s) 3" for m s
    using that by (simp add: counting_handlers_def PeerGate_WasExpelled_def PeerGate_Expelled_def)
  ultimately show ?thesis
    using expelled_peer_ignored [of 3 counting_handlers ?s "map (\<lambda>peer. \<lparr>pm_from = peer, pm_bytes = 4, pm_body = ''ok''\<rparr>) [3, 4, 3]"]
    by (simp add: Let_def pump_message_def counting_handlers_def PeerGate_WasExpelled_def PeerGate_Expelled_def
        PeerGate_init_def)
qed

end
