(* ===== verification/Failures.thy ===== *)
theory Failures
  imports Prelude
begin

text \<open>
  Operational failures (\<open>src/modules/failure/failure.cpp\<close>, \<open>failure.h\<close>, \<open>faults.h\<close>): the
  stable codes, the scope each is recovered at, a failure as one logfmt line, an exception
  at a boundary, and the armed faults of a test.
\<close>

section \<open>Codes and dispositions\<close>

datatype Disposition = kPeer | kSession | kSubsystem | kRuntime | kProcess

datatype Code =
    kInvalidPeerInput | kPeerMisbehaving | kPeerConnectionLost | kJoinRefused | kServerUnreachable
  | kMetricsEndpointFailed | kCaptureWriteFailed | kCaptureFlushFailed | kCaptureQueueFull
  | kCaptureRecordTooLong | kCaptureRetentionBudget | kTransportInitFailed | kListenerSetupFailed
  | kTransportSendFailed | kTransportReceiveFailed | kWorkerCreationFailed | kWorkerFailed
  | kInvariantViolated | kStrictCaptureFailed | kInvalidConfiguration | kInvalidContent
  | kDependencyInitFailed

fun CodeName :: "Code \<Rightarrow> string" where
  "CodeName kInvalidPeerInput = ''invalid_peer_input''"
| "CodeName kPeerMisbehaving = ''peer_misbehaving''"
| "CodeName kPeerConnectionLost = ''peer_connection_lost''"
| "CodeName kJoinRefused = ''join_refused''"
| "CodeName kServerUnreachable = ''server_unreachable''"
| "CodeName kMetricsEndpointFailed = ''metrics_endpoint_failed''"
| "CodeName kCaptureWriteFailed = ''capture_write_failed''"
| "CodeName kCaptureFlushFailed = ''capture_flush_failed''"
| "CodeName kCaptureQueueFull = ''capture_queue_full''"
| "CodeName kCaptureRecordTooLong = ''capture_record_too_long''"
| "CodeName kCaptureRetentionBudget = ''capture_retention_budget''"
| "CodeName kTransportInitFailed = ''transport_init_failed''"
| "CodeName kListenerSetupFailed = ''listener_setup_failed''"
| "CodeName kTransportSendFailed = ''transport_send_failed''"
| "CodeName kTransportReceiveFailed = ''transport_receive_failed''"
| "CodeName kWorkerCreationFailed = ''worker_creation_failed''"
| "CodeName kWorkerFailed = ''worker_failed''"
| "CodeName kInvariantViolated = ''invariant_violated''"
| "CodeName kStrictCaptureFailed = ''strict_capture_failed''"
| "CodeName kInvalidConfiguration = ''invalid_configuration''"
| "CodeName kInvalidContent = ''invalid_content''"
| "CodeName kDependencyInitFailed = ''dependency_init_failed''"

fun DispositionName :: "Disposition \<Rightarrow> string" where
  "DispositionName kPeer = ''peer''"
| "DispositionName kSession = ''session''"
| "DispositionName kSubsystem = ''subsystem''"
| "DispositionName kRuntime = ''runtime''"
| "DispositionName kProcess = ''process''"

fun DispositionOf :: "Code \<Rightarrow> Disposition" where
  "DispositionOf kInvalidPeerInput = kPeer"
| "DispositionOf kPeerMisbehaving = kSession"
| "DispositionOf kPeerConnectionLost = kSession"
| "DispositionOf kJoinRefused = kSession"
| "DispositionOf kServerUnreachable = kSession"
| "DispositionOf kMetricsEndpointFailed = kSubsystem"
| "DispositionOf kCaptureWriteFailed = kSubsystem"
| "DispositionOf kCaptureFlushFailed = kSubsystem"
| "DispositionOf kCaptureQueueFull = kSubsystem"
| "DispositionOf kCaptureRecordTooLong = kSubsystem"
| "DispositionOf kCaptureRetentionBudget = kSubsystem"
| "DispositionOf kTransportInitFailed = kRuntime"
| "DispositionOf kListenerSetupFailed = kRuntime"
| "DispositionOf kTransportSendFailed = kRuntime"
| "DispositionOf kTransportReceiveFailed = kRuntime"
| "DispositionOf kWorkerCreationFailed = kRuntime"
| "DispositionOf kWorkerFailed = kRuntime"
| "DispositionOf kInvariantViolated = kRuntime"
| "DispositionOf kStrictCaptureFailed = kRuntime"
| "DispositionOf kInvalidConfiguration = kProcess"
| "DispositionOf kInvalidContent = kProcess"
| "DispositionOf kDependencyInitFailed = kProcess"

section \<open>A failure as a log line\<close>

record ContextField =
  cx_key :: string
  cx_value :: string

record Failure =
  fl_code :: Code
  fl_context :: "ContextField list"
  fl_detail :: string

abbreviation quote_char :: char where "quote_char \<equiv> CHR 0x22"
abbreviation backslash :: char where "backslash \<equiv> CHR 0x5C"
abbreviation newline :: char where "newline \<equiv> CHR 0x0A"
abbreviation carriage_return :: char where "carriage_return \<equiv> CHR 0x0D"

text \<open>The loop of \<open>Quoted\<close>, one character at a time.\<close>

definition escape :: "char \<Rightarrow> string" where
  "escape c =
     (if c = quote_char then [backslash, quote_char]
      else if c = backslash then [backslash, backslash]
      else if c = newline then [backslash, CHR ''n'']
      else if c = carriage_return then [backslash, CHR ''r'']
      else [c])"

definition Quoted :: "string \<Rightarrow> string" where
  "Quoted s = [quote_char] @ concat (map escape s) @ [quote_char]"

definition Value :: "string \<Rightarrow> string" where
  "Value val =
     (if val \<noteq> [] \<and>
         list_all (\<lambda>c. c \<notin> set [CHR '' '', quote_char, CHR ''='', backslash, carriage_return, newline]) val
      then val else Quoted val)"

definition DescribeField :: "ContextField \<Rightarrow> string" where
  "DescribeField field = '' '' @ cx_key field @ ''='' @ Value (cx_value field)"

definition DescribeFailure :: "Failure \<Rightarrow> string" where
  "DescribeFailure failure =
     ''code='' @ CodeName (fl_code failure) @ '' disposition='' @
     DispositionName (DispositionOf (fl_code failure)) @
     concat (map DescribeField (fl_context failure)) @
     (if fl_detail failure = [] then [] else '' detail='' @ Quoted (fl_detail failure))"

section \<open>Reading a line back\<close>

text \<open>
  What a log reader does with a line: it splits the \<open>key=value\<close> tokens apart, taking a
  quoted value up to its closing quote.
\<close>

fun unescape :: "string \<Rightarrow> (string \<times> string) option" where
  "unescape [] = None"
| "unescape (c # rest) =
     (if c = quote_char then Some ([], rest)
      else if c = backslash
      then (case rest of
              [] \<Rightarrow> None
            | e # rest \<Rightarrow>
                (case unescape rest of
                   None \<Rightarrow> None
                 | Some (s, rest) \<Rightarrow>
                     Some ((if e = CHR ''n'' then newline else if e = CHR ''r'' then carriage_return else e) # s, rest)))
      else (case unescape rest of None \<Rightarrow> None | Some (s, rest) \<Rightarrow> Some (c # s, rest)))"

definition read_value :: "string \<Rightarrow> (string \<times> string) option" where
  "read_value s =
     (if s \<noteq> [] \<and> hd s = quote_char then unescape (tl s)
      else Some (takeWhile (\<lambda>c. c \<noteq> CHR '' '') s, dropWhile (\<lambda>c. c \<noteq> CHR '' '') s))"

lemma unescape_escape: "unescape (concat (map escape s) @ quote_char # rest) = Some (s, rest)"
  by (induction s) (auto simp: escape_def)

lemma read_value_Value:
  assumes "rest = [] \<or> hd rest = CHR '' ''"
  shows "read_value (Value s @ rest) = Some (s, rest)"
proof (cases "s \<noteq> [] \<and> list_all (\<lambda>c. c \<notin> set [CHR '' '', quote_char, CHR ''='', backslash, carriage_return, newline]) s")
  case True
  then have "hd (s @ rest) \<noteq> quote_char" and "\<forall>c \<in> set s. c \<noteq> CHR '' ''" by (cases s; auto simp: list_all_iff)+
  moreover from this have "takeWhile (\<lambda>c. c \<noteq> CHR '' '') (s @ rest) = s" "dropWhile (\<lambda>c. c \<noteq> CHR '' '') (s @ rest) = rest"
    using assms by (cases rest; simp add: takeWhile_append2 dropWhile_append2)+
  ultimately show ?thesis using True by (simp add: read_value_def Value_def)
next
  case False
  then have "Value s = Quoted s" unfolding Value_def by (simp only: if_False)
  then show ?thesis using unescape_escape [of s rest] by (simp add: read_value_def Quoted_def)
qed

text \<open>One field: its separating space, its key up to \<open>=\<close>, its value.\<close>

definition read_field :: "string \<Rightarrow> ((string \<times> string) \<times> string) option" where
  "read_field s =
     (if s = [] \<or> hd s \<noteq> CHR '' '' then None
      else let key = takeWhile (\<lambda>c. c \<noteq> CHR ''='') (tl s); rest = dropWhile (\<lambda>c. c \<noteq> CHR ''='') (tl s)
           in if rest = [] then None
              else (case read_value (tl rest) of None \<Rightarrow> None | Some (val, rest) \<Rightarrow> Some ((key, val), rest)))"

lemma read_field_step:
  assumes "CHR ''='' \<notin> set key" and "rest = [] \<or> hd rest = CHR '' ''"
  shows "read_field (CHR '' '' # key @ CHR ''='' # Value val @ rest) = Some ((key, val), rest)"
proof -
  have "\<forall>c \<in> set key. c \<noteq> CHR ''=''" using assms(1) by auto
  then show ?thesis using read_value_Value [OF assms(2), of val]
    by (simp add: read_field_def Let_def takeWhile_append2 dropWhile_append2)
qed

fun read_fields :: "nat \<Rightarrow> string \<Rightarrow> (string \<times> string) list option" where
  "read_fields 0 s = (if s = [] then Some [] else None)"
| "read_fields (Suc n) s =
     (if s = [] then Some []
      else case read_field s of
             None \<Rightarrow> None
           | Some (field, rest) \<Rightarrow> (case read_fields n rest of None \<Rightarrow> None | Some fs \<Rightarrow> Some (field # fs)))"

definition read_line :: "string \<Rightarrow> (string \<times> string) list option" where
  "read_line s = read_fields (length s + 2) (CHR '' '' # s)"

text \<open>A field of a line as written: its value is quoted, or is one plain token.\<close>

definition written_field :: "string \<times> string \<times> string \<Rightarrow> bool" where
  "written_field f \<longleftrightarrow> (case f of (key, val, written) \<Rightarrow> CHR ''='' \<notin> set key \<and> (written = Value val \<or> written = Quoted val))"

definition field_text :: "string \<times> string \<times> string \<Rightarrow> string" where
  "field_text f = (case f of (key, val, written) \<Rightarrow> CHR '' '' # key @ CHR ''='' # written)"

lemma read_value_Quoted: "read_value (Quoted s @ rest) = Some (s, rest)"
  using unescape_escape [of s rest] by (simp add: read_value_def Quoted_def)

lemma read_field_text:
  assumes "written_field f" and "rest = [] \<or> hd rest = CHR '' ''"
  shows "read_field (field_text f @ rest) = Some ((fst f, fst (snd f)), rest)"
proof -
  obtain key val written where f: "f = (key, val, written)" by (cases f) auto
  have key: "\<forall>c \<in> set key. c \<noteq> CHR ''=''" and written: "written = Value val \<or> written = Quoted val"
    using assms(1) f by (auto simp: written_field_def)
  have "read_value (written @ rest) = Some (val, rest)"
    using written read_value_Value [OF assms(2), of val] read_value_Quoted [of val rest] by (elim disjE) simp_all
  then show ?thesis using key
    by (simp add: f field_text_def read_field_def Let_def takeWhile_append2 dropWhile_append2)
qed

lemma read_fields_text:
  "\<forall>f \<in> set fs. written_field f \<Longrightarrow> length fs < n \<Longrightarrow>
   read_fields n (concat (map field_text fs)) = Some (map (\<lambda>f. (fst f, fst (snd f))) fs)"
proof (induction fs arbitrary: n)
  case Nil
  then show ?case by (cases n) simp_all
next
  case (Cons f fs)
  then obtain m where n: "n = Suc m" "length fs < m" by (cases n) auto
  have "concat (map field_text fs) = [] \<or> hd (concat (map field_text fs)) = CHR '' ''"
    by (cases fs) (auto simp: field_text_def split: prod.splits)
  then have "read_field (field_text f @ concat (map field_text fs)) =
      Some ((fst f, fst (snd f)), concat (map field_text fs))"
    using Cons.prems by (intro read_field_text) auto
  moreover have "field_text f \<noteq> []" by (simp add: field_text_def split: prod.splits)
  ultimately show ?case using Cons.IH [OF _ n(2)] Cons.prems(1) n(1) by simp
qed

lemma length_field_texts: "length fs \<le> length (concat (map field_text fs))"
  by (induction fs) (auto simp: field_text_def split: prod.splits)

lemma plain_names: "Value (CodeName code) = CodeName code" "Value (DispositionName disposition) = DispositionName disposition"
  by (cases code; simp add: Value_def) (cases disposition; simp add: Value_def)

text \<open>The fields a failure's line carries.\<close>

definition failure_fields :: "Failure \<Rightarrow> (string \<times> string) list" where
  "failure_fields failure =
     [(''code'', CodeName (fl_code failure)), (''disposition'', DispositionName (DispositionOf (fl_code failure)))] @
     map (\<lambda>field. (cx_key field, cx_value field)) (fl_context failure) @
     (if fl_detail failure = [] then [] else [(''detail'', fl_detail failure)])"

lemma escape_one_line: "newline \<notin> set (escape c) \<and> carriage_return \<notin> set (escape c)"
  by (simp add: escape_def)

lemma one_line_values:
  "newline \<notin> set (Quoted s)" "carriage_return \<notin> set (Quoted s)"
  "newline \<notin> set (Value s)" "carriage_return \<notin> set (Value s)"
  using escape_one_line by (auto simp: Quoted_def Value_def list_all_iff)

text \<open>
  C38: a failure's line cannot be forged. Whatever a dependency's message or a context value
  holds, quotes, spaces, \<open>key=\<close> or line breaks included, the line \<open>DescribeFailure\<close> writes
  reads back as exactly the failure's code, disposition, context and detail, and it is one
  line. (The keys are the code's own: they hold no \<open>=\<close> and no line break.)
\<close>

theorem failure_line_round_trip:
  assumes "\<forall>field \<in> set (fl_context failure). set (cx_key field) \<inter> {CHR ''='', newline, carriage_return} = {}"
  shows "read_line (DescribeFailure failure) = Some (failure_fields failure) \<and>
    newline \<notin> set (DescribeFailure failure) \<and> carriage_return \<notin> set (DescribeFailure failure)"
proof -
  define fs where "fs =
     [(''code'', CodeName (fl_code failure), CodeName (fl_code failure)),
      (''disposition'', DispositionName (DispositionOf (fl_code failure)), DispositionName (DispositionOf (fl_code failure)))] @
     map (\<lambda>field. (cx_key field, cx_value field, Value (cx_value field))) (fl_context failure) @
     (if fl_detail failure = [] then [] else [(''detail'', fl_detail failure, Quoted (fl_detail failure))])"
  have line: "CHR '' '' # DescribeFailure failure = concat (map field_text fs)"
    by (simp add: fs_def DescribeFailure_def field_text_def DescribeField_def [abs_def] comp_def)
  have "\<forall>f \<in> set fs. written_field f"
    using assms plain_names by (auto simp: fs_def written_field_def)
  then have "read_line (DescribeFailure failure) = Some (map (\<lambda>f. (fst f, fst (snd f))) fs)"
    using read_fields_text [of fs "length (DescribeFailure failure) + 2"] length_field_texts [of fs]
    unfolding read_line_def line [symmetric] by (simp del: read_fields.simps)
  moreover have "newline \<notin> set (concat (map field_text fs)) \<and> carriage_return \<notin> set (concat (map field_text fs))"
    using assms one_line_values plain_names
    by (auto simp: fs_def field_text_def) (metis one_line_values plain_names)+
  ultimately show ?thesis unfolding line [symmetric] by (simp add: fs_def failure_fields_def)
qed

theorem failure_line_round_trip_witness:
  "let failure = \<lparr>fl_code = kWorkerFailed, fl_context = [\<lparr>cx_key = ''thread'', cx_value = ''net io''\<rparr>],
                 fl_detail = ''bad'' @ [newline, quote_char] @ '' code=ok''\<rparr> in
   read_line (DescribeFailure failure) =
     Some [(''code'', ''worker_failed''), (''disposition'', ''runtime''), (''thread'', ''net io''),
       (''detail'', ''bad'' @ [newline, quote_char] @ '' code=ok'')]"
  using failure_line_round_trip [of "\<lparr>fl_code = kWorkerFailed, fl_context = [\<lparr>cx_key = ''thread'', cx_value = ''net io''\<rparr>],
      fl_detail = ''bad'' @ [newline, quote_char] @ '' code=ok''\<rparr>"]
  by (simp add: failure_fields_def Let_def)

section \<open>Exceptions at a boundary\<close>

text \<open>How a call into a dependency ends, and what \<open>Guard\<close> makes of it.\<close>

datatype 'a outcome = Returned 'a | ThrewClassified Failure | ThrewError string | ThrewUnknown

fun Guard :: "Code \<Rightarrow> 'a outcome \<Rightarrow> Failure + 'a" where
  "Guard code (Returned x) = Inr x"
| "Guard code (ThrewClassified failure) = Inl failure"
| "Guard code (ThrewError what) = Inl \<lparr>fl_code = code, fl_context = [], fl_detail = what\<rparr>"
| "Guard code ThrewUnknown = Inl \<lparr>fl_code = code, fl_context = [], fl_detail = ''unknown exception''\<rparr>"

section \<open>Armed faults\<close>

datatype Site =
    kDependencyInit | kListenerSetup | kWorkerCreation | kWorkerExecution | kTransportSend
  | kTransportReceive | kCaptureWrite | kCaptureFlush | kCaptureDelete | kPcapngWrite | kMetricsAccept

type_synonym Faults = "Site \<Rightarrow> u32 \<times> string"

definition kEveryTime :: u32 where "kEveryTime = - 1"

definition Faults_init :: Faults where
  "Faults_init = (\<lambda>_. (0, []))"

definition Arm :: "Site \<Rightarrow> string \<Rightarrow> u32 \<Rightarrow> Faults \<Rightarrow> Faults" where
  "Arm site detail armed faults = faults(site := (armed, detail))"

definition Disarm :: "Site \<Rightarrow> Faults \<Rightarrow> Faults" where
  "Disarm site faults = Arm site [] 0 faults"

definition Trip :: "Site \<Rightarrow> Faults \<Rightarrow> string option \<times> Faults" where
  "Trip site faults =
     (case faults site of (armed, detail) \<Rightarrow>
        if armed = 0 then (None, faults)
        else (Some detail, if armed \<noteq> kEveryTime then faults(site := (armed - 1, detail)) else faults))"

definition ThrowIfTripped :: "Site \<Rightarrow> Faults \<Rightarrow> unit outcome \<times> Faults" where
  "ThrowIfTripped site faults =
     (case Trip site faults of
        (Some detail, faults) \<Rightarrow> (ThrewError detail, faults)
      | (None, faults) \<Rightarrow> (Returned (), faults))"

text \<open>\<open>n\<close> trips of one site in a row.\<close>

fun trips :: "nat \<Rightarrow> Site \<Rightarrow> Faults \<Rightarrow> string option list" where
  "trips 0 site faults = []"
| "trips (Suc n) site faults = (case Trip site faults of (trip, faults) \<Rightarrow> trip # trips n site faults)"

lemma trips_unarmed: "fst (faults site) = 0 \<Longrightarrow> trips n site faults = replicate n None"
  by (induction n) (auto simp: Trip_def split: prod.splits)

lemma trips_every: "faults site = (kEveryTime, detail) \<Longrightarrow> trips n site faults = replicate n (Some detail)"
  by (induction n) (auto simp: Trip_def kEveryTime_def)

lemma trips_counted:
  "faults site = (armed, detail) \<Longrightarrow> armed \<noteq> kEveryTime \<Longrightarrow>
   trips n site faults = replicate (min n (unat armed)) (Some detail) @ replicate (n - unat armed) None"
proof (induction n arbitrary: faults armed)
  case 0
  then show ?case by simp
next
  case (Suc n)
  show ?case
  proof (cases "armed = 0")
    case True
    then show ?thesis using Suc.prems trips_unarmed [of faults site "Suc n"] by simp
  next
    case False
    then have pos: "unat (armed - 1) = unat armed - 1" "0 < unat armed"
      by (simp_all add: unat_minus_one unat_gt_0)
    have "armed - 1 \<noteq> kEveryTime"
      using False by (simp add: kEveryTime_def)
    then have "trips n site (faults(site := (armed - 1, detail))) =
        replicate (min n (unat armed - 1)) (Some detail) @ replicate (n - (unat armed - 1)) None"
      using Suc.IH [where faults = "faults(site := (armed - 1, detail))" and armed = "armed - 1"]
      by (simp add: pos(1) del: fun_upd_apply add: fun_upd_same)
    then show ?thesis using Suc.prems False pos
      by (cases "unat armed") (auto simp: Trip_def)
  qed
qed

end
