(* ===== verification/Command_Queue.thy ===== *)
theory Command_Queue
  imports Wire_Format
begin

text \<open>
  The server's boundary for a client's commands (\<open>src/modules/host/command_queue.cpp\<close>,
  \<open>command_queue.h\<close>) and the command itself (\<open>src/modules/gameplay/include/augusta/command.h\<close>):
  the structural check on each, and the per-player queue that hands the simulation one
  command a tick. The Euclidean length is GLM's: the parameter \<open>vlength\<close>.
\<close>

section \<open>Commands\<close>

datatype Stance = kStanding | kCrouching | kProne

record MovementInput =
  mi_direction :: vec3
  mi_sprint :: bool
  mi_desired_stance :: Stance

record Command =
  cm_movement :: MovementInput
  cm_yaw :: f32
  cm_pitch :: f32
  cm_ads :: bool
  cm_fire :: bool
  cm_reload :: bool
  cm_seen_tick :: u64
  cm_seen_fraction :: f32

definition zero_vec :: vec3 where
  "zero_vec = \<lparr>vx = 0, vy = 0, vz = 0\<rparr>"

text \<open>\<open>command::Command{}\<close>.\<close>

definition default_command :: Command where
  "default_command =
     \<lparr>cm_movement = \<lparr>mi_direction = zero_vec, mi_sprint = False, mi_desired_stance = kStanding\<rparr>,
      cm_yaw = 0, cm_pitch = 0, cm_ads = False, cm_fire = False, cm_reload = False,
      cm_seen_tick = 0, cm_seen_fraction = 0\<rparr>"

record SequencedCommand =
  sc_sequence :: u64
  sc_command :: Command

text \<open>\<open>kMaxHeldTime\<close> is 100 milliseconds; \<open>ceil<seconds>\<close> rounds up.\<close>

definition kMaxHeldTime :: nat where "kMaxHeldTime = 100"

definition HeldTicks :: "u8 \<Rightarrow> nat" where
  "HeldTicks tick_rate_hz = (kMaxHeldTime * unat tick_rate_hz + 999) div 1000"

section \<open>Validation\<close>

datatype Rejection = kStale | kNonFinite | kOutOfRange

fun DescribeRejection :: "Rejection \<Rightarrow> string" where
  "DescribeRejection kStale = ''sequence not newer''"
| "DescribeRejection kNonFinite = ''non-finite value''"
| "DescribeRejection kOutOfRange = ''value out of range''"

text \<open>2.0, 1.6 and 3.2 as binary32.\<close>

definition kMaxMovementMagnitude :: f32 where "kMaxMovementMagnitude = 0x40000000"
definition kMaxPitch :: f32 where "kMaxPitch = 0x3FCCCCCD"
definition kMaxYaw :: f32 where "kMaxYaw = 0x404CCCCD"

definition IsFinite :: "vec3 \<Rightarrow> bool" where
  "IsFinite value \<longleftrightarrow> f32_isfinite (vx value) \<and> f32_isfinite (vy value) \<and> f32_isfinite (vz value)"

definition WithoutActions :: "Command \<Rightarrow> Command" where
  "WithoutActions command = command\<lparr>cm_fire := False, cm_reload := False\<rparr>"

definition Validate :: "(vec3 \<Rightarrow> f32) \<Rightarrow> SequencedCommand \<Rightarrow> u64 \<Rightarrow> Rejection + unit" where
  "Validate vlength command last_sequence =
     (let input = sc_command command
      in if sc_sequence command \<le> last_sequence then Inl kStale
         else if \<not> IsFinite (mi_direction (cm_movement input)) \<or> \<not> f32_isfinite (cm_yaw input) \<or>
                 \<not> f32_isfinite (cm_pitch input) \<or> \<not> f32_isfinite (cm_seen_fraction input)
         then Inl kNonFinite
         else if f32_less kMaxMovementMagnitude (vlength (mi_direction (cm_movement input))) \<or>
                 f32_less kMaxPitch (f32_abs (cm_pitch input)) \<or> f32_less kMaxYaw (f32_abs (cm_yaw input))
         then Inl kOutOfRange
         else Inr ())"

section \<open>The queue\<close>

definition kMaxQueuedCommands :: nat where "kMaxQueuedCommands = 16"

datatype Enqueued = kQueued | kDroppedOldest

record TickCommand =
  tc_command :: Command
  tc_acknowledged_sequence :: u64
  tc_sent :: bool

record CommandQueue =
  cq_queued :: "SequencedCommand list"
  cq_last :: "Command option"
  cq_max_held_ticks :: nat
  cq_held_ticks :: nat
  cq_last_offered :: u64
  cq_acknowledged :: u64

definition CommandQueue_init :: "u8 \<Rightarrow> CommandQueue" where
  "CommandQueue_init tick_rate_hz =
     \<lparr>cq_queued = [], cq_last = None, cq_max_held_ticks = HeldTicks tick_rate_hz, cq_held_ticks = 0,
      cq_last_offered = 0, cq_acknowledged = 0\<rparr>"

definition TryEnqueue ::
  "(vec3 \<Rightarrow> f32) \<Rightarrow> CommandQueue \<Rightarrow> SequencedCommand \<Rightarrow> (Rejection + Enqueued) \<times> CommandQueue" where
  "TryEnqueue vlength q command =
     (case Validate vlength command (cq_last_offered q) of
        Inl rejection \<Rightarrow> (Inl rejection, q)
      | Inr _ \<Rightarrow>
          (let q = q\<lparr>cq_last_offered := sc_sequence command, cq_queued := cq_queued q @ [command]\<rparr>
           in if length (cq_queued q) > kMaxQueuedCommands
              then (Inr kDroppedOldest, q\<lparr>cq_queued := tl (cq_queued q)\<rparr>)
              else (Inr kQueued, q)))"

definition Next :: "CommandQueue \<Rightarrow> TickCommand \<times> CommandQueue" where
  "Next q =
     (case cq_queued q of
        next # rest \<Rightarrow>
          (\<lparr>tc_command = sc_command next, tc_acknowledged_sequence = sc_sequence next, tc_sent = True\<rparr>,
           q\<lparr>cq_queued := rest, cq_last := Some (sc_command next), cq_held_ticks := 0,
             cq_acknowledged := sc_sequence next\<rparr>)
      | [] \<Rightarrow>
          (case cq_last q of
             None \<Rightarrow>
               (\<lparr>tc_command = default_command, tc_acknowledged_sequence = cq_acknowledged q, tc_sent = False\<rparr>, q)
           | Some prev \<Rightarrow>
               (let command = WithoutActions prev
                in if cq_held_ticks q < cq_max_held_ticks q
                   then (\<lparr>tc_command = command, tc_acknowledged_sequence = cq_acknowledged q, tc_sent = False\<rparr>,
                         q\<lparr>cq_held_ticks := cq_held_ticks q + 1\<rparr>)
                   else (\<lparr>tc_command = command\<lparr>cm_movement := (cm_movement command)
                              \<lparr>mi_direction := zero_vec, mi_sprint := False\<rparr>\<rparr>,
                          tc_acknowledged_sequence = cq_acknowledged q, tc_sent = False\<rparr>, q))))"

definition Queued :: "CommandQueue \<Rightarrow> nat" where
  "Queued q = length (cq_queued q)"

section \<open>The queue as a state machine\<close>

datatype queue_event = Offer SequencedCommand | TakeNext

fun queue_step :: "(vec3 \<Rightarrow> f32) \<Rightarrow> CommandQueue \<Rightarrow> queue_event \<Rightarrow> CommandQueue" where
  "queue_step vlength q (Offer command) = snd (TryEnqueue vlength q command)"
| "queue_step vlength q TakeNext = snd (Next q)"

definition well_formed :: "(vec3 \<Rightarrow> f32) \<Rightarrow> Command \<Rightarrow> bool" where
  "well_formed vlength c \<longleftrightarrow>
     IsFinite (mi_direction (cm_movement c)) \<and> f32_isfinite (cm_yaw c) \<and> f32_isfinite (cm_pitch c) \<and>
     f32_isfinite (cm_seen_fraction c) \<and>
     \<not> f32_less kMaxMovementMagnitude (vlength (mi_direction (cm_movement c))) \<and>
     \<not> f32_less kMaxPitch (f32_abs (cm_pitch c)) \<and> \<not> f32_less kMaxYaw (f32_abs (cm_yaw c))"

lemma Validate_Inr:
  "Validate vlength command last_sequence = Inr u \<longleftrightarrow>
   last_sequence < sc_sequence command \<and> well_formed vlength (sc_command command)"
  by (auto simp: Validate_def well_formed_def Let_def not_le)

text \<open>
  Sequences grow along the queue, from after the acknowledged one to at most the last one
  offered; everything held passed validation.
\<close>

definition queue_inv :: "(vec3 \<Rightarrow> f32) \<Rightarrow> u8 \<Rightarrow> CommandQueue \<Rightarrow> bool" where
  "queue_inv vlength rate q \<longleftrightarrow>
     length (cq_queued q) \<le> kMaxQueuedCommands \<and>
     sorted_wrt (<) (map sc_sequence (cq_queued q)) \<and>
     (\<forall>c \<in> set (cq_queued q). cq_acknowledged q < sc_sequence c \<and> sc_sequence c \<le> cq_last_offered q \<and>
        well_formed vlength (sc_command c)) \<and>
     cq_acknowledged q \<le> cq_last_offered q \<and>
     pred_option (well_formed vlength) (cq_last q) \<and>
     cq_max_held_ticks q = HeldTicks rate \<and> cq_held_ticks q \<le> cq_max_held_ticks q"

lemma queue_inv_init: "queue_inv vlength rate (CommandQueue_init rate)"
  by (simp add: queue_inv_def CommandQueue_init_def)

lemma TryEnqueue_Inr:
  assumes "fst (TryEnqueue vlength q command) = Inr result"
  shows "cq_last_offered q < sc_sequence command \<and> well_formed vlength (sc_command command) \<and>
     snd (TryEnqueue vlength q command) =
       q\<lparr>cq_last_offered := sc_sequence command, cq_queued := push_bounded kMaxQueuedCommands (cq_queued q) command\<rparr>"
proof -
  from assms obtain u where "Validate vlength command (cq_last_offered q) = Inr u"
    by (auto simp: TryEnqueue_def split: sum.splits)
  then show ?thesis using Validate_Inr [of vlength command "cq_last_offered q" u]
    by (simp add: TryEnqueue_def push_bounded_def Let_def)
qed

lemma TryEnqueue_Inl: "fst (TryEnqueue vlength q command) = Inl r \<Longrightarrow> snd (TryEnqueue vlength q command) = q"
  by (auto simp: TryEnqueue_def Let_def split: sum.splits if_splits)

lemma queue_inv_offer:
  assumes "queue_inv vlength rate q"
  shows "queue_inv vlength rate (snd (TryEnqueue vlength q command))"
proof (cases "fst (TryEnqueue vlength q command)")
  case (Inl r)
  then show ?thesis using TryEnqueue_Inl assms by metis
next
  case (Inr result)
  note ok = TryEnqueue_Inr [OF Inr]
  have "sorted_wrt (\<lambda>a b. sc_sequence a < sc_sequence b) (cq_queued q @ [command])"
    using assms ok by (fastforce simp: queue_inv_def sorted_wrt_append sorted_wrt_map intro: le_less_trans)
  then have "sorted_wrt (\<lambda>a b. sc_sequence a < sc_sequence b) (push_bounded kMaxQueuedCommands (cq_queued q) command)"
    by (rule sorted_wrt_push_bounded)
  moreover have "length (push_bounded kMaxQueuedCommands (cq_queued q) command) \<le> kMaxQueuedCommands"
    using assms by (intro length_push_bounded) (simp add: queue_inv_def)
  moreover have "cq_acknowledged q < sc_sequence c \<and> sc_sequence c \<le> sc_sequence command \<and>
      well_formed vlength (sc_command c)" if "c \<in> set (push_bounded kMaxQueuedCommands (cq_queued q) command)" for c
  proof -
    have "c = command \<or> c \<in> set (cq_queued q)" using that set_push_bounded by fastforce
    moreover have "cq_acknowledged q < sc_sequence command" using assms ok by (auto simp: queue_inv_def)
    moreover have "sc_sequence c \<le> sc_sequence command" if "c \<in> set (cq_queued q)"
      using assms ok that by (auto simp: queue_inv_def)
    ultimately show ?thesis using assms ok by (auto simp: queue_inv_def)
  qed
  moreover have "cq_acknowledged q \<le> sc_sequence command" using assms ok by (auto simp: queue_inv_def)
  ultimately show ?thesis using assms ok
    by (simp add: queue_inv_def sorted_wrt_map)
qed

lemma queue_inv_next: "queue_inv vlength rate q \<Longrightarrow> queue_inv vlength rate (snd (Next q))"
  by (cases "cq_queued q"; cases "cq_last q") (auto simp: Next_def queue_inv_def Let_def)

lemma acknowledged_step:
  "queue_inv vlength rate q \<Longrightarrow> cq_acknowledged q \<le> cq_acknowledged (queue_step vlength q e)"
  by (cases e) (auto simp: Next_def TryEnqueue_def queue_inv_def Let_def less_imp_le
      split: list.splits option.splits sum.splits)

interpretation queue: monotone_machine "CommandQueue_init rate" "queue_step vlength" "queue_inv vlength rate" cq_acknowledged
  for vlength rate
proof unfold_locales
  fix q e
  show "queue_inv vlength rate q \<Longrightarrow> queue_inv vlength rate (queue_step vlength q e)"
    by (cases e) (simp_all add: queue_inv_offer queue_inv_next)
qed (simp_all add: queue_inv_init acknowledged_step)

section \<open>What the ticks are handed\<close>

text \<open>The tick commands a run of events hands out, in order.\<close>

fun handed :: "(vec3 \<Rightarrow> f32) \<Rightarrow> CommandQueue \<Rightarrow> queue_event list \<Rightarrow> TickCommand list" where
  "handed vlength q [] = []"
| "handed vlength q (Offer command # es) = handed vlength (snd (TryEnqueue vlength q command)) es"
| "handed vlength q (TakeNext # es) = fst (Next q) # handed vlength (snd (Next q)) es"

lemma Next_sent:
  assumes "queue_inv vlength rate q" and "tc_sent (fst (Next q))"
  shows "\<exists>c \<in> set (cq_queued q). tc_command (fst (Next q)) = sc_command c \<and>
      tc_acknowledged_sequence (fst (Next q)) = sc_sequence c \<and> cq_acknowledged q < sc_sequence c \<and>
      cq_acknowledged (snd (Next q)) = sc_sequence c"
  using assms by (auto simp: Next_def queue_inv_def Let_def split: list.splits option.splits if_splits)

lemma Next_not_sent:
  assumes "\<not> tc_sent (fst (Next q))"
  shows "\<not> cm_fire (tc_command (fst (Next q))) \<and> \<not> cm_reload (tc_command (fst (Next q))) \<and>
      tc_acknowledged_sequence (fst (Next q)) = cq_acknowledged q"
  using assms
  by (auto simp: Next_def Let_def WithoutActions_def default_command_def split: list.splits option.splits if_splits)

lemma Next_queued: "set (cq_queued (snd (Next q))) \<subseteq> set (cq_queued q)"
  by (auto simp: Next_def Let_def split: list.splits option.splits)

lemma offer_queued: "set (cq_queued (snd (TryEnqueue vlength q command))) \<subseteq> insert command (set (cq_queued q))"
proof (cases "fst (TryEnqueue vlength q command)")
  case (Inl r)
  then show ?thesis using TryEnqueue_Inl by fastforce
next
  case (Inr result)
  then show ?thesis using TryEnqueue_Inr set_push_bounded by fastforce
qed

lemma handed_sent:
  assumes "queue_inv vlength rate q" and "h \<in> set (handed vlength q es)" and "tc_sent h"
  shows "cq_acknowledged q < tc_acknowledged_sequence h \<and> well_formed vlength (tc_command h) \<and>
    (\<exists>c. (c \<in> set (cq_queued q) \<or> Offer c \<in> set es) \<and> sc_command c = tc_command h \<and>
       sc_sequence c = tc_acknowledged_sequence h)"
  using assms
proof (induction vlength q es rule: handed.induct)
  case (1 vlength q)
  then show ?case by simp
next
  case (2 vlength q command es)
  have "cq_acknowledged (snd (TryEnqueue vlength q command)) = cq_acknowledged q"
    by (auto simp: TryEnqueue_def Let_def split: sum.splits)
  then show ?case using 2 queue_inv_offer [OF 2(2), of command] offer_queued [of vlength q command] by fastforce
next
  case (3 vlength q es)
  show ?case
  proof (cases "h = fst (Next q)")
    case True
    then show ?thesis using Next_sent [OF 3(2)] 3(2,4) by (fastforce simp: queue_inv_def)
  next
    case False
    then have "h \<in> set (handed vlength (snd (Next q)) es)" using 3(3) by simp
    note ih = 3(1) [OF queue_inv_next [OF 3(2)] this 3(4)]
    have "cq_acknowledged q \<le> cq_acknowledged (snd (Next q))"
      using acknowledged_step [OF 3(2), of TakeNext] by simp
    then show ?thesis using ih Next_queued [of q] by (auto intro: le_less_trans)
  qed
qed

lemma handed_sorted:
  assumes "queue_inv vlength rate q"
  shows "sorted_wrt (<) (map tc_acknowledged_sequence (filter tc_sent (handed vlength q es)))"
  using assms
proof (induction vlength q es rule: handed.induct)
  case (1 vlength q)
  then show ?case by simp
next
  case (2 vlength q command es)
  then show ?case by (simp add: queue_inv_offer)
next
  case (3 vlength q es)
  note inv = queue_inv_next [OF 3(2)]
  show ?case
  proof (cases "tc_sent (fst (Next q))")
    case True
    then have "cq_acknowledged (snd (Next q)) = tc_acknowledged_sequence (fst (Next q))"
      using Next_sent [OF 3(2)] by auto
    then show ?thesis using True 3(1) [OF inv] handed_sent [OF inv] by fastforce
  qed (use 3(1) [OF inv] in simp)
qed

lemma handed_unsent: "h \<in> set (handed vlength q es) \<Longrightarrow> \<not> tc_sent h \<Longrightarrow>
    \<not> cm_fire (tc_command h) \<and> \<not> cm_reload (tc_command h)"
proof (induction vlength q es rule: handed.induct)
  case (3 vlength q es)
  then show ?case using Next_not_sent [of q] by (cases "h = fst (Next q)") simp_all
qed simp_all

text \<open>
  C10: the queue hands the simulation each command at most once, in order, and only what
  its client sent. Over any run of offers and ticks, the sequences handed out as sent are
  strictly increasing; each such command was offered under that sequence and passes the
  structural check; and a command the queue makes up never fires or reloads.
\<close>

theorem queue_hands_out_in_order:
  "let hs = handed vlength (CommandQueue_init rate) es in
     sorted_wrt (<) (map tc_acknowledged_sequence (filter tc_sent hs)) \<and>
     (\<forall>h \<in> set hs. if tc_sent h
        then well_formed vlength (tc_command h) \<and>
             Offer \<lparr>sc_sequence = tc_acknowledged_sequence h, sc_command = tc_command h\<rparr> \<in> set es
        else \<not> cm_fire (tc_command h) \<and> \<not> cm_reload (tc_command h))"
proof -
  have "Offer \<lparr>sc_sequence = tc_acknowledged_sequence h, sc_command = tc_command h\<rparr> \<in> set es"
    if h: "h \<in> set (handed vlength (CommandQueue_init rate) es)" "tc_sent h" for h
  proof -
    obtain c where "Offer c \<in> set es" "sc_command c = tc_command h" "sc_sequence c = tc_acknowledged_sequence h"
      using handed_sent [OF queue_inv_init h] by (auto simp: CommandQueue_init_def)
    then show ?thesis by (metis SequencedCommand.surjective unit.exhaust)
  qed
  then show ?thesis
    using handed_sorted [OF queue_inv_init] handed_sent [OF queue_inv_init] handed_unsent
    by (simp add: Let_def)
qed

definition example_command :: Command where
  "example_command = default_command
     \<lparr>cm_movement := \<lparr>mi_direction = \<lparr>vx = 0x3F800000, vy = 0, vz = 0\<rparr>, mi_sprint = True, mi_desired_stance = kStanding\<rparr>,
      cm_fire := True\<rparr>"

definition example_events :: "queue_event list" where
  "example_events =
     [Offer \<lparr>sc_sequence = 1, sc_command = example_command\<rparr>, Offer \<lparr>sc_sequence = 1, sc_command = example_command\<rparr>,
      Offer \<lparr>sc_sequence = 3, sc_command = example_command\<rparr>, TakeNext, TakeNext, TakeNext]"

lemma Validate_example:
  "Validate vx \<lparr>sc_sequence = n, sc_command = example_command\<rparr> seen = (if n \<le> seen then Inl kStale else Inr ())"
proof -
  have "well_formed vx example_command"
    by (simp add: well_formed_def example_command_def default_command_def IsFinite_def f32_isfinite_def
        f32_exponent_def zero_vec_def f32_less_def f32_isnan_def f32_magnitude_def f32_key_def f32_abs_def
        kMaxMovementMagnitude_def kMaxPitch_def kMaxYaw_def)
  then show ?thesis by (auto simp: Validate_def well_formed_def Let_def)
qed

theorem queue_hands_out_in_order_witness:
  "map (\<lambda>h. (tc_acknowledged_sequence h, tc_sent h)) (handed vx (CommandQueue_init 60) example_events) =
     [(1, True), (3, True), (3, False)] \<and>
   list_all (\<lambda>h. well_formed vx (tc_command h))
     (filter tc_sent (handed vx (CommandQueue_init 60) example_events))"
proof -
  have "map (\<lambda>h. (tc_acknowledged_sequence h, tc_sent h)) (handed vx (CommandQueue_init 60) example_events) =
      [(1, True), (3, True), (3, False)]"
    by (simp add: example_events_def CommandQueue_init_def TryEnqueue_def Validate_example Next_def HeldTicks_def
        kMaxHeldTime_def kMaxQueuedCommands_def Let_def word_le_nat_alt)
  then show ?thesis using queue_hands_out_in_order [of vx 60 example_events, unfolded Let_def]
    by (auto simp: list_all_iff split: if_splits)
qed

text \<open>The ticks that follow a command, with nothing queued behind it.\<close>

lemma hold_state:
  assumes "cq_queued q = []" and "cq_last q = Some c" and "cq_held_ticks q = 0"
  shows "((snd \<circ> Next) ^^ n) q = q\<lparr>cq_held_ticks := min n (cq_max_held_ticks q)\<rparr>"
proof (induction n)
  case 0
  then show ?case using assms by simp
next
  case (Suc n)
  then show ?case using assms by (simp add: Next_def Let_def min_def)
qed

text \<open>
  C25: the hold lasts its time and no longer. Over any run of the queue that leaves one
  command in it, whatever was held before, the next tick is handed that command as sent;
  with nothing offered meanwhile the \<open>HeldTicks\<close> ticks after it repeat its movement and
  every later one stands still; the stance, view and aim stay the command's throughout and
  nothing fires or reloads; and \<open>HeldTicks\<close> is the least number of ticks that covers 100
  milliseconds.
\<close>

theorem hold_lasts_its_time:
  assumes "q = run (queue_step vlength) (CommandQueue_init rate) es" and "cq_queued q = [sent]"
  shows "fst (Next q) = \<lparr>tc_command = sc_command sent, tc_acknowledged_sequence = sc_sequence sent, tc_sent = True\<rparr> \<and>
   (let c = sc_command sent; later = fst (Next (((snd \<circ> Next) ^^ n) (snd (Next q)))); out = tc_command later in
     \<not> tc_sent later \<and> tc_acknowledged_sequence later = sc_sequence sent \<and>
     cm_movement out = (if n < HeldTicks rate then cm_movement c
        else (cm_movement c)\<lparr>mi_direction := zero_vec, mi_sprint := False\<rparr>) \<and>
     cm_yaw out = cm_yaw c \<and> cm_pitch out = cm_pitch c \<and> cm_ads out = cm_ads c \<and>
     \<not> cm_fire out \<and> \<not> cm_reload out) \<and>
   100 * unat rate \<le> 1000 * HeldTicks rate \<and> (\<forall>k. 100 * unat rate \<le> 1000 * k \<longrightarrow> HeldTicks rate \<le> k)"
proof -
  have most: "cq_max_held_ticks q = HeldTicks rate"
    using queue.inv_run [of vlength rate es] assms(1) by (simp add: queue_inv_def)
  define q1 where "q1 = snd (Next q)"
  have q1: "cq_queued q1 = []" "cq_last q1 = Some (sc_command sent)" "cq_held_ticks q1 = 0"
      "cq_max_held_ticks q1 = HeldTicks rate" "cq_acknowledged q1 = sc_sequence sent"
    using assms(2) most by (simp_all add: q1_def Next_def)
  have "fst (Next q) = \<lparr>tc_command = sc_command sent, tc_acknowledged_sequence = sc_sequence sent, tc_sent = True\<rparr>"
    using assms(2) by (simp add: Next_def)
  moreover have "((snd \<circ> Next) ^^ n) q1 = q1\<lparr>cq_held_ticks := min n (HeldTicks rate)\<rparr>"
    using hold_state [OF q1(1-3)] q1(4) by simp
  ultimately show ?thesis unfolding q1_def [symmetric]
    using q1 by (auto simp: Next_def WithoutActions_def Let_def HeldTicks_def kMaxHeldTime_def)
qed

text \<open>A command held for a tick, then another: its hold is six whole ticks at 60 a second.\<close>

definition held_events :: "queue_event list" where
  "held_events =
     [Offer \<lparr>sc_sequence = 1, sc_command = example_command\<rparr>, TakeNext, TakeNext,
      Offer \<lparr>sc_sequence = 2, sc_command = example_command\<rparr>]"

theorem hold_lasts_its_time_witness:
  "let q = run (queue_step vx) (CommandQueue_init 60) held_events in
   cq_held_ticks q = 1 \<and>
   mi_sprint (cm_movement (tc_command (fst (Next (((snd \<circ> Next) ^^ 5) (snd (Next q))))))) \<and>
   \<not> mi_sprint (cm_movement (tc_command (fst (Next (((snd \<circ> Next) ^^ 6) (snd (Next q)))))))"
proof -
  have six: "HeldTicks 60 = 6" by (simp add: HeldTicks_def kMaxHeldTime_def)
  have sprint: "mi_sprint (cm_movement example_command)" by (simp add: example_command_def)
  define q where "q = run (queue_step vx) (CommandQueue_init 60) held_events"
  have q: "cq_queued q = [\<lparr>sc_sequence = 2, sc_command = example_command\<rparr>]" "cq_held_ticks q = 1"
    by (simp_all add: q_def held_events_def CommandQueue_init_def TryEnqueue_def Validate_example Next_def six
        kMaxQueuedCommands_def Let_def word_le_nat_alt)
  show ?thesis
    using hold_lasts_its_time [OF q_def q(1), of 5] hold_lasts_its_time [OF q_def q(1), of 6] q(2) sprint
    unfolding Let_def q_def [symmetric] by (simp add: six)
qed

end
