(* ===== verification/Capture_Format.thy ===== *)
theory Capture_Format
  imports Command_Queue
begin

text \<open>
  A Match capture's file (\<open>src/modules/capture/capture.cpp\<close>, \<open>frame.h\<close>, and the records
  of \<open>capture_records.h\<close> and \<open>link_messages.h\<close>): its magic, format version and framed
  records, the order they must come in, and reading and writing one whole. A record's
  payload is protobuf's, through the Link: \<open>encode\<close> and \<open>decode\<close> are parameters. A stream
  is the bytes it has left and whether the device fails after them.
\<close>

section \<open>Records\<close>

type_synonym uuid = "byte list"
type_synonym Player = u8

record Header =
  hd_match :: uuid
  hd_engine_version :: string
  hd_server_pack :: "byte list"
  hd_client_pack :: "byte list"
  hd_tick_rate_hz :: u8
  hd_started :: int

record Join =
  jo_session :: uuid
  jo_character :: string
  jo_spawn :: vec3

text \<open>
  \<open>capture::Event\<close>: a captured Command with its player and Seen offset, a Leave, a Death
  (victim and killer), or the Match end with its winner.
\<close>

datatype Event =
    CapturedCommand Player int Command
  | Leave Player
  | Death Player Player
  | MatchEnd "Player option"

record AtOffset =
  at_offset :: u32
  at_event :: Event

datatype CaptureRecord =
    HeaderRecord Header
  | JoinRecord Player u32 Join
  | EventRecord AtOffset

record Capture =
  ca_header :: Header
  ca_joins :: "Join list"
  ca_events :: "AtOffset list"
  ca_torn :: bool

section \<open>Streams\<close>

record istream =
  is_good :: bool
  is_rest :: "byte list"
  is_fails :: bool
  is_bad :: bool

text \<open>\<open>in.read(p, n)\<close>: what it got, \<open>gcount\<close> bytes of it, and the stream after.\<close>

definition stream_read :: "nat \<Rightarrow> istream \<Rightarrow> byte list \<times> istream" where
  "stream_read n s =
     (take n (is_rest s),
      s\<lparr>is_rest := drop n (is_rest s), is_bad := is_bad s \<or> (length (is_rest s) < n \<and> is_fails s)\<rparr>)"

definition stream_of :: "byte list \<Rightarrow> istream" where
  "stream_of bytes = \<lparr>is_good = True, is_rest = bytes, is_fails = False, is_bad = False\<rparr>"

section \<open>Frames\<close>

definition kFrameLengthSize :: nat where "kFrameLengthSize = 1"
definition kMaxFramePayload :: nat where "kMaxFramePayload = 255"
definition kCaptureFormatVersion :: u8 where "kCaptureFormatVersion = 4"

definition kCaptureMagic :: "byte list" where
  "kCaptureMagic = [0x41, 0x55, 0x47, 0x43, 0x41, 0x50, 0x0D, 0x0A]"

datatype ReadErrorCode = kUnreadable | kNotACapture | kUnsupported | kMalformed

record ReadError =
  rd_code :: ReadErrorCode
  rd_format_version :: "u8 option"

definition read_error :: "ReadErrorCode \<Rightarrow> ReadError" where
  "read_error code = \<lparr>rd_code = code, rd_format_version = None\<rparr>"

definition DescribeReadError :: "ReadError \<Rightarrow> string" where
  "DescribeReadError error =
     (case rd_code error of
        kUnreadable \<Rightarrow> ''the capture could not be read''
      | kNotACapture \<Rightarrow> ''the file does not start with a capture's magic''
      | kUnsupported \<Rightarrow>
          (case rd_format_version error of
             Some version \<Rightarrow> ''the capture is of format version '' @ decimal (unat version) @
               ''; this engine reads format version '' @ decimal (unat kCaptureFormatVersion)
           | None \<Rightarrow> ''the capture has no format version or no header'')
      | kMalformed \<Rightarrow> ''a record of the capture does not decode or is out of order'')"

datatype Frame = FrameRead "byte list" | FrameEnd | FrameTorn | FrameUnreadable

definition ReadFrame :: "istream \<Rightarrow> Frame \<times> istream" where
  "ReadFrame s =
     (case stream_read 1 s of (got, s) \<Rightarrow>
        if is_bad s then (FrameUnreadable, s)
        else if got = [] then (FrameEnd, s)
        else let size = unat (hd got)
             in case stream_read size s of (payload, s) \<Rightarrow>
                  if is_bad s then (FrameUnreadable, s)
                  else (if length payload = size then FrameRead payload else FrameTorn, s))"

definition ReadMagic :: "istream \<Rightarrow> (ReadError + unit) \<times> istream" where
  "ReadMagic s =
     (case stream_read (length kCaptureMagic) s of (magic, s) \<Rightarrow>
        if is_bad s then (Inl (read_error kUnreadable), s)
        else if length magic \<noteq> length kCaptureMagic \<or> magic \<noteq> kCaptureMagic
        then (Inl (read_error kNotACapture), s)
        else (Inr (), s))"

definition StartsWithMagic :: "istream \<Rightarrow> bool" where
  "StartsWithMagic s = (case fst (ReadMagic s) of Inl _ \<Rightarrow> False | Inr _ \<Rightarrow> True)"

definition ReadFormatVersion :: "istream \<Rightarrow> (ReadError + unit) \<times> istream" where
  "ReadFormatVersion s =
     (case stream_read 1 s of (version, s) \<Rightarrow>
        if is_bad s then (Inl (read_error kUnreadable), s)
        else if length version \<noteq> 1 then (Inl (read_error kUnsupported), s)
        else if hd version \<noteq> kCaptureFormatVersion
        then (Inl \<lparr>rd_code = kUnsupported, rd_format_version = Some (hd version)\<rparr>, s)
        else (Inr (), s))"

definition ReadHeader :: "(byte list \<Rightarrow> CaptureRecord option) \<Rightarrow> istream \<Rightarrow> (ReadError + Header) \<times> istream" where
  "ReadHeader decode s =
     (case ReadFrame s of
        (FrameUnreadable, s) \<Rightarrow> (Inl (read_error kUnreadable), s)
      | (FrameRead payload, s) \<Rightarrow>
          (case decode payload of
             Some (HeaderRecord header) \<Rightarrow> (Inr header, s)
           | _ \<Rightarrow> (Inl (read_error kUnsupported), s))
      | (_, s) \<Rightarrow> (Inl (read_error kUnsupported), s))"

section \<open>The order of records\<close>

record RecordOrder =
  ro_joins :: nat
  ro_events :: bool
  ro_last_offset :: u32
  ro_ended :: bool

definition RecordOrder_init :: RecordOrder where
  "RecordOrder_init = \<lparr>ro_joins = 0, ro_events = False, ro_last_offset = 0, ro_ended = False\<rparr>"

definition Known :: "RecordOrder \<Rightarrow> Player \<Rightarrow> bool" where
  "Known order player \<longleftrightarrow> unat player \<ge> 1 \<and> unat player \<le> ro_joins order"

definition Follows :: "RecordOrder \<Rightarrow> u32 \<Rightarrow> Player list \<Rightarrow> bool \<times> RecordOrder" where
  "Follows order offset players =
     (if ro_ended order \<or> offset < ro_last_offset order \<or> \<not> list_all (Known order) players
      then (False, order)
      else (True, order\<lparr>ro_events := True, ro_last_offset := offset\<rparr>))"

definition AdmitsEvent :: "RecordOrder \<Rightarrow> u32 \<Rightarrow> Event \<Rightarrow> bool \<times> RecordOrder" where
  "AdmitsEvent order offset event =
     (case event of
        CapturedCommand player seen_offset command \<Rightarrow> Follows order offset [player]
      | Leave player \<Rightarrow> Follows order offset [player]
      | Death victim killer \<Rightarrow> Follows order offset [victim, killer]
      | MatchEnd winner \<Rightarrow>
          if \<not> pred_option (Known order) winner then (False, order)
          else (case Follows order offset [] of
                  (follows, order) \<Rightarrow> (follows, order\<lparr>ro_ended := True\<rparr>)))"

definition Admits :: "RecordOrder \<Rightarrow> CaptureRecord \<Rightarrow> bool \<times> RecordOrder" where
  "Admits order item =
     (case item of
        HeaderRecord header \<Rightarrow> (False, order)
      | JoinRecord player offset join \<Rightarrow>
          if ro_events order \<or> offset \<noteq> 0 \<or> unat player \<noteq> ro_joins order + 1 then (False, order)
          else (True, order\<lparr>ro_joins := ro_joins order + 1\<rparr>)
      | EventRecord event \<Rightarrow> AdmitsEvent order (at_offset event) (at_event event))"

section \<open>Reading\<close>

lemma ReadFrame_shorter:
  "ReadFrame s = (FrameRead payload, s') \<Longrightarrow> length (is_rest s') < length (is_rest s)"
  by (cases "is_rest s") (auto simp: ReadFrame_def stream_read_def Let_def split: if_splits)

function ReadRecords ::
  "(byte list \<Rightarrow> CaptureRecord option) \<Rightarrow> istream \<Rightarrow> RecordOrder \<Rightarrow> CaptureRecord list \<Rightarrow>
   ReadError + CaptureRecord list \<times> bool" where
  "ReadRecords decode s order records =
     (case ReadFrame s of
        (FrameEnd, s) \<Rightarrow> Inr (records, False)
      | (FrameUnreadable, s) \<Rightarrow> Inl (read_error kUnreadable)
      | (FrameTorn, s) \<Rightarrow> Inr (records, True)
      | (FrameRead payload, s') \<Rightarrow>
          (case decode payload of
             None \<Rightarrow> Inl (read_error kMalformed)
           | Some item \<Rightarrow>
               (case Admits order item of
                  (False, _) \<Rightarrow> Inl (read_error kMalformed)
                | (True, order) \<Rightarrow> ReadRecords decode s' order (records @ [item]))))"
  by pat_completeness auto
termination
  by (relation "measure (\<lambda>(_, s, _). length (is_rest s))") (auto dest!: ReadFrame_shorter [OF sym])

declare ReadRecords.simps [simp del]

definition ReadCaptureFile ::
  "(byte list \<Rightarrow> CaptureRecord option) \<Rightarrow> istream \<Rightarrow> ReadError + Header \<times> CaptureRecord list \<times> bool" where
  "ReadCaptureFile decode s =
     (if \<not> is_good s then Inl (read_error kUnreadable)
      else case ReadMagic s of
        (Inl error, s) \<Rightarrow> Inl error
      | (Inr _, s) \<Rightarrow>
          (case ReadFormatVersion s of
             (Inl error, s) \<Rightarrow> Inl error
           | (Inr _, s) \<Rightarrow>
               (case ReadHeader decode s of
                  (Inl error, s) \<Rightarrow> Inl error
                | (Inr header, s) \<Rightarrow>
                    (case ReadRecords decode s RecordOrder_init [] of
                       Inl error \<Rightarrow> Inl error
                     | Inr (records, torn) \<Rightarrow> Inr (header, records, torn)))))"

definition sort_record :: "CaptureRecord \<Rightarrow> Capture \<Rightarrow> Capture" where
  "sort_record item capture =
     (case item of
        JoinRecord player offset join \<Rightarrow> capture\<lparr>ca_joins := ca_joins capture @ [join]\<rparr>
      | EventRecord event \<Rightarrow> capture\<lparr>ca_events := ca_events capture @ [event]\<rparr>
      | HeaderRecord _ \<Rightarrow> capture)"

definition ReadCapture :: "(byte list \<Rightarrow> CaptureRecord option) \<Rightarrow> istream \<Rightarrow> ReadError + Capture" where
  "ReadCapture decode s =
     (case ReadCaptureFile decode s of
        Inl error \<Rightarrow> Inl error
      | Inr (header, records, torn) \<Rightarrow>
          Inr (fold sort_record records \<lparr>ca_header = header, ca_joins = [], ca_events = [], ca_torn = torn\<rparr>))"

section \<open>Writing\<close>

datatype EncodeError = CodecFailure | RecordTooLong

text \<open>The Link's codec returns a payload, or a failure: \<open>None\<close>.\<close>

definition Framed :: "byte list option \<Rightarrow> EncodeError + byte list" where
  "Framed payload =
     (case payload of
        None \<Rightarrow> Inl CodecFailure
      | Some payload \<Rightarrow>
          if length payload > kMaxFramePayload then Inl RecordTooLong
          else Inr (word_of_nat (length payload) # payload))"

definition EncodeHeader :: "(CaptureRecord \<Rightarrow> byte list option) \<Rightarrow> Header \<Rightarrow> EncodeError + byte list" where
  "EncodeHeader encode header =
     (case Framed (encode (HeaderRecord header)) of
        Inl error \<Rightarrow> Inl error
      | Inr frame \<Rightarrow> Inr (kCaptureMagic @ [kCaptureFormatVersion] @ frame))"

definition EncodeJoin :: "(CaptureRecord \<Rightarrow> byte list option) \<Rightarrow> Player \<Rightarrow> Join \<Rightarrow> EncodeError + byte list" where
  "EncodeJoin encode player join = Framed (encode (JoinRecord player 0 join))"

definition EncodeEvent :: "(CaptureRecord \<Rightarrow> byte list option) \<Rightarrow> AtOffset \<Rightarrow> EncodeError + byte list" where
  "EncodeEvent encode event = Framed (encode (EventRecord event))"

text \<open>The loops that collect the pieces; \<open>out\<close> then takes them in order.\<close>

definition WriteCapture :: "(CaptureRecord \<Rightarrow> byte list option) \<Rightarrow> byte list \<Rightarrow> Capture \<Rightarrow> EncodeError + byte list" where
  "WriteCapture encode out capture =
     (case EncodeHeader encode (ca_header capture) of
        Inl error \<Rightarrow> Inl error
      | Inr header \<Rightarrow>
          (case for_each
              (\<lambda>i pieces. case EncodeJoin encode (word_of_nat (i + 1)) (ca_joins capture ! i) of
                 Inl error \<Rightarrow> Inl error | Inr piece \<Rightarrow> Inr (pieces @ [piece]))
              [0..<length (ca_joins capture)] [header] of
             Inl error \<Rightarrow> Inl error
           | Inr pieces \<Rightarrow>
               (case for_each
                   (\<lambda>event pieces. case EncodeEvent encode event of
                      Inl error \<Rightarrow> Inl error | Inr piece \<Rightarrow> Inr (pieces @ [piece]))
                   (ca_events capture) pieces of
                  Inl error \<Rightarrow> Inl error
                | Inr pieces \<Rightarrow> Inr (foldl (@) out pieces))))"

section \<open>The order, as a whole\<close>

fun admits_all :: "RecordOrder \<Rightarrow> CaptureRecord list \<Rightarrow> bool" where
  "admits_all order [] = True"
| "admits_all order (item # items) =
     (case Admits order item of (False, _) \<Rightarrow> False | (True, order) \<Rightarrow> admits_all order items)"

fun event_players :: "Event \<Rightarrow> Player list" where
  "event_players (CapturedCommand player seen_offset command) = [player]"
| "event_players (Leave player) = [player]"
| "event_players (Death victim killer) = [victim, killer]"
| "event_players (MatchEnd winner) = (case winner of None \<Rightarrow> [] | Some player \<Rightarrow> [player])"

fun is_match_end :: "AtOffset \<Rightarrow> bool" where
  "is_match_end e = (case at_event e of MatchEnd _ \<Rightarrow> True | _ \<Rightarrow> False)"

declare is_match_end.simps [simp del]

definition names_known :: "nat \<Rightarrow> AtOffset \<Rightarrow> bool" where
  "names_known n e \<longleftrightarrow> (\<forall>player \<in> set (event_players (at_event e)). 1 \<le> unat player \<and> unat player \<le> n)"

text \<open>The format's rules for a capture's joins and events.\<close>

definition capture_valid :: "Join list \<Rightarrow> AtOffset list \<Rightarrow> bool" where
  "capture_valid js es \<longleftrightarrow> length js \<le> 255 \<and> sorted (map at_offset es) \<and>
     list_all (names_known (length js)) es \<and> list_all (\<lambda>e. \<not> is_match_end e) (butlast es)"

definition join_records :: "nat \<Rightarrow> Join list \<Rightarrow> CaptureRecord list" where
  "join_records n js = map2 (\<lambda>i j. JoinRecord (word_of_nat (i + 1)) 0 j) [n..<n + length js] js"

lemma admits_event:
  assumes "\<not> ro_ended order"
  shows "fst (AdmitsEvent order offset event) \<longleftrightarrow>
     ro_last_offset order \<le> offset \<and> list_all (Known order) (event_players event)"
    and "fst (AdmitsEvent order offset event) \<Longrightarrow> snd (AdmitsEvent order offset event) =
       order\<lparr>ro_events := True, ro_last_offset := offset,
         ro_ended := (case event of MatchEnd _ \<Rightarrow> True | _ \<Rightarrow> False)\<rparr>"
  using assms
  by (cases event; auto simp: AdmitsEvent_def Follows_def not_less split: option.splits)+

lemma admits_events_ended:
  "ro_ended order \<Longrightarrow> admits_all order (map EventRecord es) \<longleftrightarrow> es = []"
  by (cases es) (auto simp: Admits_def AdmitsEvent_def Follows_def split: Event.splits)

lemma admits_events:
  assumes "\<not> ro_ended order"
  shows "admits_all order (map EventRecord es) \<longleftrightarrow>
     sorted (ro_last_offset order # map at_offset es) \<and> list_all (names_known (ro_joins order)) es \<and>
     list_all (\<lambda>e. \<not> is_match_end e) (butlast es)"
  using assms
proof (induction es arbitrary: order)
  case Nil
  then show ?case by simp
next
  case (Cons e es)
  let ?r = "AdmitsEvent order (at_offset e) (at_event e)"
  let ?o = "order\<lparr>ro_events := True, ro_last_offset := at_offset e, ro_ended := is_match_end e\<rparr>"
  note step = admits_event [OF Cons.prems, of "at_offset e" "at_event e"]
  have known: "list_all (Known order) (event_players (at_event e)) \<longleftrightarrow> names_known (ro_joins order) e"
    by (simp add: names_known_def Known_def list_all_iff)
  have "admits_all order (map EventRecord (e # es)) \<longleftrightarrow> fst ?r \<and> admits_all ?o (map EventRecord es)"
    using step(2) by (auto simp: Admits_def is_match_end.simps split: prod.splits bool.splits)
  also have "\<dots> \<longleftrightarrow> fst ?r \<and> (if is_match_end e then es = [] else
      sorted (at_offset e # map at_offset es) \<and> list_all (names_known (ro_joins order)) es \<and>
      list_all (\<lambda>e. \<not> is_match_end e) (butlast es))"
    using Cons.IH [of ?o] admits_events_ended [of ?o es] by simp
  finally have "admits_all order (map EventRecord (e # es)) \<longleftrightarrow>
      ro_last_offset order \<le> at_offset e \<and> names_known (ro_joins order) e \<and> (if is_match_end e then es = [] else
      sorted (at_offset e # map at_offset es) \<and> list_all (names_known (ro_joins order)) es \<and>
      list_all (\<lambda>e. \<not> is_match_end e) (butlast es))"
    unfolding step(1) known by blast
  also have "\<dots> \<longleftrightarrow> sorted (ro_last_offset order # map at_offset (e # es)) \<and>
      list_all (names_known (ro_joins order)) (e # es) \<and> list_all (\<lambda>e. \<not> is_match_end e) (butlast (e # es))"
    by (cases es) (auto intro: order_trans)
  finally show ?case .
qed

lemma admits_joins:
  assumes "\<not> ro_events order" and "ro_joins order + length js \<le> 255"
  shows "admits_all order (join_records (ro_joins order) js @ items) \<longleftrightarrow>
     admits_all (order\<lparr>ro_joins := ro_joins order + length js\<rparr>) items"
  using assms
proof (induction js arbitrary: order)
  case Nil
  then show ?case by (simp add: join_records_def)
next
  case (Cons j js)
  have "unat (word_of_nat (ro_joins order + 1) :: u8) = ro_joins order + 1"
    using Cons.prems by (simp add: unat_of_nat del: of_nat_add of_nat_Suc)
  then have "Admits order (JoinRecord (word_of_nat (ro_joins order + 1)) 0 j) = (True, order\<lparr>ro_joins := ro_joins order + 1\<rparr>)"
    using Cons.prems by (simp add: Admits_def)
  moreover have "join_records (ro_joins order) (j # js) =
      JoinRecord (word_of_nat (ro_joins order + 1)) 0 j # join_records (ro_joins order + 1) js"
    by (simp add: join_records_def upt_conv_Cons del: upt_Suc of_nat_add of_nat_Suc)
  ultimately show ?case
    using Cons.IH [of "order\<lparr>ro_joins := ro_joins order + 1\<rparr>"] Cons.prems by simp
qed

lemma admits_valid:
  "length js \<le> 255 \<Longrightarrow>
   admits_all RecordOrder_init (join_records 0 js @ map EventRecord es) \<longleftrightarrow> capture_valid js es"
  using admits_joins [of RecordOrder_init js "map EventRecord es"]
    admits_events [of "RecordOrder_init\<lparr>ro_joins := length js\<rparr>" es]
  by (simp add: RecordOrder_init_def capture_valid_def)

section \<open>A file and its prefixes\<close>

definition frame_bytes :: "byte list \<Rightarrow> byte list" where
  "frame_bytes payload = word_of_nat (length payload) # payload"

definition capture_records :: "Capture \<Rightarrow> CaptureRecord list" where
  "capture_records c = join_records 0 (ca_joins c) @ map EventRecord (ca_events c)"

text \<open>How many whole frames \<open>k\<close> bytes hold, and whether they end partway through another.\<close>

fun whole_frames :: "nat \<Rightarrow> byte list list \<Rightarrow> nat \<times> bool" where
  "whole_frames k [] = (0, False)"
| "whole_frames k (p # ps) =
     (if k = 0 then (0, False)
      else if k < 1 + length p then (0, True)
      else (case whole_frames (k - 1 - length p) ps of (n, torn) \<Rightarrow> (Suc n, torn)))"

lemma whole_frames_le: "fst (whole_frames k ps) \<le> length ps"
  by (induction k ps rule: whole_frames.induct) (auto split: prod.splits)

lemma whole_frames_all:
  "length (concat (map frame_bytes ps)) \<le> k \<Longrightarrow> whole_frames k ps = (length ps, False)"
  by (induction k ps rule: whole_frames.induct) (auto simp: frame_bytes_def)

lemma ReadFrame_frame:
  assumes "length p \<le> 255" and "is_fails s = False" and "is_bad s = False"
    and "is_rest s = take k (frame_bytes p @ rest)"
  shows "ReadFrame s =
     (if k = 0 then (FrameEnd, s)
      else if k < 1 + length p then (FrameTorn, s\<lparr>is_rest := []\<rparr>)
      else (FrameRead p, s\<lparr>is_rest := take (k - 1 - length p) rest\<rparr>))"
proof -
  have len: "unat (word_of_nat (length p) :: byte) = length p" using assms(1) by (simp add: unat_of_nat)
  show ?thesis
  proof (cases k)
    case 0
    then show ?thesis using assms by (simp add: ReadFrame_def stream_read_def)
  next
    case (Suc m)
    then have "is_rest s = word_of_nat (length p) # take m (p @ rest)"
      using assms(4) by (simp add: frame_bytes_def)
    then show ?thesis
      using assms Suc len by (auto simp: ReadFrame_def stream_read_def Let_def min_def)
  qed
qed

lemma ReadRecords_prefix:
  assumes "list_all2 (\<lambda>p item. decode p = Some item) ps items" and "\<forall>p \<in> set ps. length p \<le> 255"
    and "admits_all order items" and "is_fails s = False" and "is_bad s = False"
    and "is_rest s = take k (concat (map frame_bytes ps))"
  shows "ReadRecords decode s order acc =
     (case whole_frames k ps of (n, torn) \<Rightarrow> Inr (acc @ take n items, torn))"
  using assms
proof (induction k ps arbitrary: items order s acc rule: whole_frames.induct)
  case (1 k)
  then show ?case by (simp add: ReadRecords.simps [of decode s] ReadFrame_def stream_read_def)
next
  case (2 k p ps)
  then obtain item items' where items: "items = item # items'" "decode p = Some item"
      "list_all2 (\<lambda>p item. decode p = Some item) ps items'"
    by (auto simp: list_all2_Cons1)
  then obtain order' where order': "Admits order item = (True, order')" "admits_all order' items'"
    using "2.prems"(3) by (auto split: prod.splits bool.splits)
  have frame: "ReadFrame s =
     (if k = 0 then (FrameEnd, s)
      else if k < 1 + length p then (FrameTorn, s\<lparr>is_rest := []\<rparr>)
      else (FrameRead p, s\<lparr>is_rest := take (k - 1 - length p) (concat (map frame_bytes ps))\<rparr>))"
    using "2.prems" by (intro ReadFrame_frame) auto
  show ?case
  proof (cases "k = 0 \<or> k < 1 + length p")
    case True
    then show ?thesis by (auto simp: ReadRecords.simps [of decode s] frame)
  next
    case False
    have "ReadRecords decode (s\<lparr>is_rest := take (k - 1 - length p) (concat (map frame_bytes ps))\<rparr>) order' (acc @ [item]) =
       (case whole_frames (k - 1 - length p) ps of (n, torn) \<Rightarrow> Inr ((acc @ [item]) @ take n items', torn))"
      using False "2.prems" items order' by (intro "2.IH") auto
    then show ?thesis using False
      by (auto simp: ReadRecords.simps [of decode s] frame items order' split: prod.splits)
  qed
qed

lemma fold_sort_joins:
  "fold sort_record (map2 (\<lambda>i j. JoinRecord (f i) 0 j) is js) c =
     c\<lparr>ca_joins := ca_joins c @ take (length is) js\<rparr>"
proof (induction "is" arbitrary: js c)
  case Nil
  then show ?case by simp
next
  case (Cons i "is")
  then show ?case by (cases js) (simp_all add: sort_record_def)
qed

lemma fold_sort_events: "fold sort_record (map EventRecord es) c = c\<lparr>ca_events := ca_events c @ es\<rparr>"
  by (induction es arbitrary: c) (simp_all add: sort_record_def)

lemma take_join_records: "take n (join_records m js) = join_records m (take n js)"
  by (simp add: join_records_def take_map take_zip min_def)

text \<open>The first \<open>n\<close> records, as a capture.\<close>

definition capture_prefix :: "nat \<Rightarrow> bool \<Rightarrow> Capture \<Rightarrow> Capture" where
  "capture_prefix n torn c =
     \<lparr>ca_header = ca_header c, ca_joins = take n (ca_joins c),
      ca_events = take (n - length (ca_joins c)) (ca_events c), ca_torn = torn\<rparr>"

lemma sort_prefix:
  "fold sort_record (take n (capture_records c)) \<lparr>ca_header = ca_header c, ca_joins = [], ca_events = [], ca_torn = torn\<rparr> =
     capture_prefix n torn c"
proof -
  have len: "length (join_records 0 (ca_joins c)) = length (ca_joins c)" by (simp add: join_records_def)
  have "take n (capture_records c) = join_records 0 (take n (ca_joins c)) @
      map EventRecord (take (n - length (ca_joins c)) (ca_events c))"
    by (simp add: capture_records_def take_join_records take_map len)
  then show ?thesis
    by (simp add: capture_prefix_def fold_sort_events join_records_def fold_sort_joins min_def)
qed

text \<open>What a capture's codec must do: take back what it wrote.\<close>

definition record_codec :: "(CaptureRecord \<Rightarrow> byte list option) \<Rightarrow> (byte list \<Rightarrow> CaptureRecord option) \<Rightarrow> bool" where
  "record_codec encode decode \<longleftrightarrow> (\<forall>item payload. encode item = Some payload \<longrightarrow> decode payload = Some item)"

lemma for_each_pieces:
  assumes "for_each (\<lambda>x pieces. case f x of Inl error \<Rightarrow> Inl error | Inr piece \<Rightarrow> Inr (pieces @ [piece])) xs acc = Inr pieces"
  shows "\<exists>qs. list_all2 (\<lambda>x q. f x = Inr q) xs qs \<and> pieces = acc @ qs"
  using assms
proof (induction xs arbitrary: acc)
  case Nil
  then show ?case by simp
next
  case (Cons x xs)
  then obtain q where q: "f x = Inr q"
    and rest: "for_each (\<lambda>x pieces. case f x of Inl error \<Rightarrow> Inl error | Inr piece \<Rightarrow> Inr (pieces @ [piece])) xs (acc @ [q]) = Inr pieces"
    by (auto split: sum.splits)
  from Cons.IH [OF rest] obtain qs where "list_all2 (\<lambda>x q. f x = Inr q) xs qs" "pieces = (acc @ [q]) @ qs" by auto
  with q show ?case by (intro exI [of _ "q # qs"]) simp
qed

lemma Framed_Inr: "Framed payload = Inr q \<longleftrightarrow> (\<exists>p. payload = Some p \<and> length p \<le> 255 \<and> q = frame_bytes p)"
  by (auto simp: Framed_def frame_bytes_def kMaxFramePayload_def split: option.splits)

lemma frames_of:
  assumes "list_all2 (\<lambda>x q. Framed (encode (g x)) = Inr q) xs qs"
  shows "\<exists>ps. list_all2 (\<lambda>p item. encode item = Some p) ps (map g xs) \<and> (\<forall>p \<in> set ps. length p \<le> 255) \<and>
    qs = map frame_bytes ps"
  using assms
proof (induction xs qs rule: list_all2_induct)
  case Nil
  then show ?case by simp
next
  case (Cons x xs q qs)
  then obtain p ps where "encode (g x) = Some p" "length p \<le> 255" "q = frame_bytes p"
    and "list_all2 (\<lambda>p item. encode item = Some p) ps (map g xs)" "\<forall>p \<in> set ps. length p \<le> 255" "qs = map frame_bytes ps"
    by (auto simp: Framed_Inr)
  then show ?case by (intro exI [of _ "p # ps"]) auto
qed

lemma WriteCapture_Inr:
  assumes "WriteCapture encode out c = Inr bytes"
  shows "\<exists>hp ps. encode (HeaderRecord (ca_header c)) = Some hp \<and> length hp \<le> 255 \<and>
     list_all2 (\<lambda>p item. encode item = Some p) ps (capture_records c) \<and> (\<forall>p \<in> set ps. length p \<le> 255) \<and>
     bytes = out @ kCaptureMagic @ [kCaptureFormatVersion] @ frame_bytes hp @ concat (map frame_bytes ps)"
proof -
  from assms obtain h mid pieces where h: "EncodeHeader encode (ca_header c) = Inr h"
    and mid: "for_each (\<lambda>i pieces. case EncodeJoin encode (word_of_nat (i + 1)) (ca_joins c ! i) of
                 Inl error \<Rightarrow> Inl error | Inr piece \<Rightarrow> Inr (pieces @ [piece]))
              [0..<length (ca_joins c)] [h] = Inr mid"
    and fin: "for_each (\<lambda>event pieces. case EncodeEvent encode event of
                 Inl error \<Rightarrow> Inl error | Inr piece \<Rightarrow> Inr (pieces @ [piece])) (ca_events c) mid = Inr pieces"
    and bytes: "bytes = foldl (@) out pieces"
    by (auto simp: WriteCapture_def split: sum.splits)
  from h obtain hp where hp: "encode (HeaderRecord (ca_header c)) = Some hp" "length hp \<le> 255"
      "h = kCaptureMagic @ [kCaptureFormatVersion] @ frame_bytes hp"
    by (auto simp: EncodeHeader_def Framed_Inr split: sum.splits)
  obtain qs1 where qs1: "list_all2 (\<lambda>i q. Framed (encode (JoinRecord (word_of_nat (i + 1)) 0 (ca_joins c ! i))) = Inr q)
      [0..<length (ca_joins c)] qs1" "mid = [h] @ qs1"
    using for_each_pieces [OF mid] by (auto simp: EncodeJoin_def)
  obtain qs2 where qs2: "list_all2 (\<lambda>e q. Framed (encode (EventRecord e)) = Inr q) (ca_events c) qs2"
      "pieces = mid @ qs2"
    using for_each_pieces [OF fin] by (auto simp: EncodeEvent_def)
  have joins: "map (\<lambda>i. JoinRecord (word_of_nat (i + 1)) 0 (ca_joins c ! i)) [0..<length (ca_joins c)] =
      join_records 0 (ca_joins c)"
    by (rule nth_equalityI) (simp_all add: join_records_def)
  obtain ps1 ps2 where "list_all2 (\<lambda>p item. encode item = Some p) ps1 (join_records 0 (ca_joins c))"
      "\<forall>p \<in> set ps1. length p \<le> 255" "qs1 = map frame_bytes ps1"
      "list_all2 (\<lambda>p item. encode item = Some p) ps2 (map EventRecord (ca_events c))"
      "\<forall>p \<in> set ps2. length p \<le> 255" "qs2 = map frame_bytes ps2"
    using frames_of [where encode = encode and g = "\<lambda>i. JoinRecord (word_of_nat (i + 1)) 0 (ca_joins c ! i)", OF qs1(1)]
      frames_of [where encode = encode and g = EventRecord, OF qs2(1)] unfolding joins by blast
  moreover have "foldl (@) start pieces = start @ concat pieces" for start
    by (induction pieces arbitrary: start) auto
  ultimately show ?thesis using hp qs1(2) qs2(2) bytes
    by (intro exI [of _ hp] exI [of _ "ps1 @ ps2"]) (auto simp: capture_records_def intro: list_all2_appendI)
qed

text \<open>The file's bytes before its first Join: what a prefix must hold to be a capture.\<close>

definition header_size :: "(CaptureRecord \<Rightarrow> byte list option) \<Rightarrow> Capture \<Rightarrow> nat" where
  "header_size encode c =
     length kCaptureMagic + 1 + kFrameLengthSize +
     (case encode (HeaderRecord (ca_header c)) of None \<Rightarrow> 0 | Some p \<Rightarrow> length p)"

lemma ReadCapture_prefix:
  assumes codec: "record_codec encode decode" and valid: "capture_valid (ca_joins c) (ca_events c)"
    and header: "encode (HeaderRecord (ca_header c)) = Some hp" "length hp \<le> 255"
    and records: "list_all2 (\<lambda>p item. encode item = Some p) ps (capture_records c)" "\<forall>p \<in> set ps. length p \<le> 255"
  shows "ReadCapture decode
      (stream_of (kCaptureMagic @ [kCaptureFormatVersion] @ frame_bytes hp @ take k (concat (map frame_bytes ps)))) =
     (case whole_frames k ps of (n, torn) \<Rightarrow> Inr (capture_prefix n torn c))"
proof -
  let ?tail = "take k (concat (map frame_bytes ps))"
  let ?s = "(stream_of [])\<lparr>is_rest := frame_bytes hp @ ?tail\<rparr>"
  let ?r = "(stream_of [])\<lparr>is_rest := ?tail\<rparr>"
  have decoded: "list_all2 (\<lambda>p item. decode p = Some item) ps (capture_records c)"
    using records(1) codec by (auto simp: record_codec_def elim!: list_all2_mono)
  have order: "admits_all RecordOrder_init (capture_records c)"
    using valid admits_valid by (auto simp: capture_records_def capture_valid_def)
  have whole: "ReadFrame ((stream_of [])\<lparr>is_rest := frame_bytes hp @ tail\<rparr>) = (FrameRead hp, (stream_of [])\<lparr>is_rest := tail\<rparr>)"
    for tail
    using header(2) ReadFrame_frame [of hp "(stream_of [])\<lparr>is_rest := frame_bytes hp @ tail\<rparr>" "1 + length hp + length tail" tail]
    by (simp add: stream_of_def frame_bytes_def)
  have "ReadFrame ?s = (FrameRead hp, ?r)" by (rule whole)
  then have "ReadHeader decode ?s = (Inr (ca_header c), ?r)"
    using codec header(1) by (auto simp: ReadHeader_def record_codec_def)
  moreover have "ReadRecords decode ?r RecordOrder_init [] =
      (case whole_frames k ps of (n, torn) \<Rightarrow> Inr (take n (capture_records c), torn))"
    using ReadRecords_prefix [OF decoded records(2) order, of ?r k "[]"] by (simp add: stream_of_def)
  ultimately show ?thesis
    by (auto simp: ReadCapture_def ReadCaptureFile_def ReadMagic_def ReadFormatVersion_def stream_read_def
        stream_of_def kCaptureMagic_def sort_prefix split: prod.splits)
qed

definition record_payloads :: "(CaptureRecord \<Rightarrow> byte list option) \<Rightarrow> Capture \<Rightarrow> byte list list" where
  "record_payloads encode c = map (\<lambda>item. the (encode item)) (capture_records c)"

lemma record_payloads_eq:
  "list_all2 (\<lambda>p item. encode item = Some p) ps (capture_records c) \<Longrightarrow> record_payloads encode c = ps"
  by (auto simp: record_payloads_def list_all2_conv_all_nth intro: nth_equalityI)

lemma capture_prefix_whole: "length (capture_records c) \<le> n \<Longrightarrow> capture_prefix n torn c = c\<lparr>ca_torn := torn\<rparr>"
  by (simp add: capture_prefix_def capture_records_def join_records_def)

text \<open>A capture of one join, its Match's end and a codec that knows these records.\<close>

definition sample_capture :: Capture where
  "sample_capture =
     \<lparr>ca_header = \<lparr>hd_match = [1], hd_engine_version = ''1'', hd_server_pack = [2], hd_client_pack = [3],
        hd_tick_rate_hz = 30, hd_started = 0\<rparr>,
      ca_joins = [\<lparr>jo_session = [9], jo_character = ''knight'', jo_spawn = \<lparr>vx = 0, vy = 0, vz = 0\<rparr>\<rparr>],
      ca_events = [\<lparr>at_offset = 5, at_event = Leave 1\<rparr>, \<lparr>at_offset = 7, at_event = MatchEnd (Some 1)\<rparr>],
      ca_torn = False\<rparr>"

definition sample_encode :: "CaptureRecord \<Rightarrow> byte list option" where
  "sample_encode item =
     (if item = HeaderRecord (ca_header sample_capture) then Some [10]
      else if item = JoinRecord 1 0 (hd (ca_joins sample_capture)) then Some [20, 21]
      else if item = EventRecord \<lparr>at_offset = 5, at_event = Leave 1\<rparr> then Some [30]
      else if item = EventRecord \<lparr>at_offset = 7, at_event = MatchEnd (Some 1)\<rparr> then Some []
      else None)"

definition sample_decode :: "byte list \<Rightarrow> CaptureRecord option" where
  "sample_decode payload =
     (if payload = [10] then Some (HeaderRecord (ca_header sample_capture))
      else if payload = [20, 21] then Some (JoinRecord 1 0 (hd (ca_joins sample_capture)))
      else if payload = [30] then Some (EventRecord \<lparr>at_offset = 5, at_event = Leave 1\<rparr>)
      else if payload = [] then Some (EventRecord \<lparr>at_offset = 7, at_event = MatchEnd (Some 1)\<rparr>)
      else None)"

definition sample_bytes :: "byte list" where
  "sample_bytes = kCaptureMagic @ [4, 1, 10, 2, 20, 21, 1, 30, 0]"

lemma sample_writes: "WriteCapture sample_encode [] sample_capture = Inr sample_bytes"
  by (simp add: WriteCapture_def EncodeHeader_def EncodeJoin_def EncodeEvent_def Framed_def sample_encode_def
      sample_capture_def kMaxFramePayload_def kCaptureFormatVersion_def sample_bytes_def)

lemma sample_codec: "record_codec sample_encode sample_decode"
  by (auto simp: record_codec_def sample_encode_def sample_decode_def split: if_splits)

lemma sample_valid: "capture_valid (ca_joins sample_capture) (ca_events sample_capture)"
  by (simp add: capture_valid_def sample_capture_def names_known_def is_match_end.simps)

text \<open>
  C29: a capture survives being cut short. For a valid capture and a codec that takes back
  what it wrote, any prefix of the file \<open>WriteCapture\<close> makes that holds its header reads
  back as exactly the records it holds whole, in order, with \<open>torn\<close> set exactly when the
  cut fell inside a record; and the whole file reads back as the capture, not torn.
\<close>

theorem capture_prefix_reads:
  assumes "record_codec encode decode" and "capture_valid (ca_joins c) (ca_events c)"
    and "WriteCapture encode [] c = Inr bytes"
  shows "ReadCapture decode (stream_of bytes) = Inr (c\<lparr>ca_torn := False\<rparr>) \<and>
    (\<forall>k. header_size encode c \<le> k \<longrightarrow>
       (case whole_frames (k - header_size encode c) (record_payloads encode c) of (n, torn) \<Rightarrow>
          ReadCapture decode (stream_of (take k bytes)) = Inr (capture_prefix n torn c)))"
proof -
  from WriteCapture_Inr [OF assms(3)] obtain hp ps where
    header: "encode (HeaderRecord (ca_header c)) = Some hp" "length hp \<le> 255"
    and records: "list_all2 (\<lambda>p item. encode item = Some p) ps (capture_records c)" "\<forall>p \<in> set ps. length p \<le> 255"
    and bytes: "bytes = kCaptureMagic @ [kCaptureFormatVersion] @ frame_bytes hp @ concat (map frame_bytes ps)"
    by auto
  note read = ReadCapture_prefix [OF assms(1,2) header records]
  have size: "header_size encode c = length (kCaptureMagic @ [kCaptureFormatVersion] @ frame_bytes hp)"
    by (simp add: header_size_def header(1) frame_bytes_def kFrameLengthSize_def)
  have cut: "take k bytes = kCaptureMagic @ [kCaptureFormatVersion] @ frame_bytes hp @
      take (k - header_size encode c) (concat (map frame_bytes ps))" if "header_size encode c \<le> k" for k
    using that take_append [of k "kCaptureMagic @ [kCaptureFormatVersion] @ frame_bytes hp" "concat (map frame_bytes ps)"]
    by (simp add: bytes size)
  have "ReadCapture decode (stream_of bytes) = Inr (capture_prefix (length ps) False c)"
    using read [of "length (concat (map frame_bytes ps))"] bytes by (simp add: whole_frames_all)
  also have "\<dots> = Inr (c\<lparr>ca_torn := False\<rparr>)"
    using list_all2_lengthD [OF records(1)] by (simp add: capture_prefix_whole)
  finally show ?thesis
    using read cut by (auto simp: record_payloads_eq [OF records(1)] split: prod.splits)
qed

lemma capture_prefix_reads_witness:
  "ReadCapture sample_decode (stream_of sample_bytes) = Inr (sample_capture\<lparr>ca_torn := False\<rparr>) \<and>
   ReadCapture sample_decode (stream_of (take 15 sample_bytes)) = Inr (capture_prefix 1 True sample_capture)"
proof -
  note read = capture_prefix_reads [OF sample_codec sample_valid sample_writes]
  have "header_size sample_encode sample_capture = 11"
    by (simp add: header_size_def sample_encode_def kCaptureMagic_def kFrameLengthSize_def)
  moreover have "record_payloads sample_encode sample_capture = [[20, 21], [30], []]"
    by (simp add: record_payloads_def capture_records_def join_records_def sample_encode_def sample_capture_def)
  ultimately show ?thesis using read by (auto dest!: spec [of _ 15])
qed

section \<open>What a reader accepts\<close>

lemma admits_shape:
  assumes "admits_all order items" and "ro_joins order \<le> 255"
  shows "\<exists>js es. items = join_records (ro_joins order) js @ map EventRecord es \<and>
    (ro_events order \<longrightarrow> js = []) \<and> ro_joins order + length js \<le> 255"
  using assms
proof (induction items arbitrary: order)
  case Nil
  then show ?case by (auto intro!: exI [of _ "[]"] simp: join_records_def)
next
  case (Cons item items)
  then obtain order' where step: "Admits order item = (True, order')" and rest: "admits_all order' items"
    by (auto split: prod.splits bool.splits)
  show ?case
  proof (cases item)
    case (HeaderRecord h)
    then show ?thesis using step by (simp add: Admits_def)
  next
    case (JoinRecord player offset j)
    then have j: "\<not> ro_events order" "offset = 0" "unat player = ro_joins order + 1"
        "order' = order\<lparr>ro_joins := ro_joins order + 1\<rparr>"
      using step by (auto simp: Admits_def split: if_splits)
    have "unat player < 256" using unsigned_less [of player] by simp
    then have bound: "ro_joins order + 1 \<le> 255" using j(3) by simp
    have player: "player = word_of_nat (ro_joins order + 1)" unfolding j(3) [symmetric] by simp
    obtain js es where ih: "items = join_records (ro_joins order + 1) js @ map EventRecord es"
        "ro_joins order + 1 + length js \<le> 255"
      using Cons.IH [OF rest] bound j(4) by auto
    have "item # items = join_records (ro_joins order) (j # js) @ map EventRecord es"
      by (simp add: join_records_def upt_conv_Cons JoinRecord player j(2) ih(1) del: upt_Suc of_nat_add of_nat_Suc)
    then show ?thesis using ih(2) j(1) by (intro exI [of _ "j # js"] exI [of _ es]) simp
  next
    case (EventRecord e)
    then have e: "AdmitsEvent order (at_offset e) (at_event e) = (True, order')" using step by (simp add: Admits_def)
    then have "ro_events order'" "ro_joins order' = ro_joins order"
      by (auto simp: AdmitsEvent_def Follows_def split: Event.splits if_splits)
    then obtain es where "items = map EventRecord es"
      using Cons.IH [OF rest] Cons.prems(2) by (auto simp: join_records_def)
    then show ?thesis using EventRecord Cons.prems(2)
      by (intro exI [of _ "[]"] exI [of _ "e # es"]) (simp add: join_records_def)
  qed
qed

lemma ReadFrame_cases:
  assumes "ReadFrame s = (f, s')"
  shows "f = FrameEnd \<longrightarrow> is_rest s = []" and "f = FrameTorn \<longrightarrow> is_rest s \<noteq> []"
    and "\<forall>p. f = FrameRead p \<longrightarrow> is_rest s = frame_bytes p @ is_rest s' \<and> length p \<le> 255"
proof -
  show "f = FrameEnd \<longrightarrow> is_rest s = []" and "f = FrameTorn \<longrightarrow> is_rest s \<noteq> []"
    using assms by (auto simp: ReadFrame_def stream_read_def Let_def split: if_splits)
  show "\<forall>p. f = FrameRead p \<longrightarrow> is_rest s = frame_bytes p @ is_rest s' \<and> length p \<le> 255"
  proof (cases "is_rest s")
    case Nil
    then show ?thesis using assms by (auto simp: ReadFrame_def stream_read_def split: if_splits)
  next
    case (Cons b rest)
    have "unat b < 256" using unsigned_less [of b] by simp
    then have "unat b \<le> 255" by simp
    moreover have "frame_bytes (take (unat b) rest) = b # take (unat b) rest" if "unat b \<le> length rest"
      using that by (simp add: frame_bytes_def min_def)
    ultimately show ?thesis using assms Cons
      by (auto simp: ReadFrame_def stream_read_def Let_def min_def split: if_splits)
  qed
qed

lemma ReadRecords_sound:
  assumes "ReadRecords decode s order acc = Inr (records, torn)"
  shows "\<exists>items ps tail. records = acc @ items \<and> admits_all order items \<and>
    list_all2 (\<lambda>p item. decode p = Some item) ps items \<and>
    is_rest s = concat (map frame_bytes ps) @ tail \<and> (torn \<longleftrightarrow> tail \<noteq> [])"
  using assms
proof (induction decode s order acc rule: ReadRecords.induct)
  case (1 decode s order acc)
  obtain f s' where f: "ReadFrame s = (f, s')" by fastforce
  note shape = ReadFrame_cases [OF f]
  show ?case
  proof (cases f)
    case (FrameRead p)
    then obtain item order' where item: "decode p = Some item" "Admits order item = (True, order')"
        "ReadRecords decode s' order' (acc @ [item]) = Inr (records, torn)"
      using "1.prems" f by (auto simp: ReadRecords.simps [of decode s] split: option.splits prod.splits bool.splits)
    have "\<exists>items ps tail. records = (acc @ [item]) @ items \<and> admits_all order' items \<and>
        list_all2 (\<lambda>p item. decode p = Some item) ps items \<and>
        is_rest s' = concat (map frame_bytes ps) @ tail \<and> (torn \<longleftrightarrow> tail \<noteq> [])"
      using "1.IH" [OF f [symmetric] FrameRead item(1) item(2) [symmetric] refl item(3)] by simp
    then obtain items ps tail where ih: "records = (acc @ [item]) @ items" "admits_all order' items"
        "list_all2 (\<lambda>p item. decode p = Some item) ps items"
        "is_rest s' = concat (map frame_bytes ps) @ tail" "torn \<longleftrightarrow> tail \<noteq> []"
      by blast
    then show ?thesis using FrameRead item shape(3)
      by (intro exI [of _ "item # items"] exI [of _ "p # ps"] exI [of _ tail]) auto
  qed (use "1.prems" f shape in \<open>auto simp: ReadRecords.simps [of decode s]\<close>)
qed

lemma admits_records_sorted:
  assumes "admits_all RecordOrder_init items"
  shows "\<exists>c'. items = capture_records c' \<and> capture_valid (ca_joins c') (ca_events c') \<and>
    fold sort_record items \<lparr>ca_header = h, ca_joins = [], ca_events = [], ca_torn = torn\<rparr> =
      \<lparr>ca_header = h, ca_joins = ca_joins c', ca_events = ca_events c', ca_torn = torn\<rparr>"
proof -
  obtain js es where items: "items = join_records 0 js @ map EventRecord es" "length js \<le> 255"
    using admits_shape [OF assms] by (auto simp: RecordOrder_init_def)
  let ?c = "\<lparr>ca_header = h, ca_joins = js, ca_events = es, ca_torn = torn\<rparr>"
  have "items = capture_records ?c" by (simp add: capture_records_def items)
  moreover have "capture_valid js es" using assms admits_valid items by auto
  moreover have "fold sort_record items \<lparr>ca_header = h, ca_joins = [], ca_events = [], ca_torn = torn\<rparr> = ?c"
    by (simp add: items fold_sort_events join_records_def fold_sort_joins)
  ultimately show ?thesis by (intro exI [of _ ?c]) simp
qed

lemma ReadMagic_Inr:
  "ReadMagic s = (Inr u, s') \<Longrightarrow> is_rest s = kCaptureMagic @ is_rest s'"
  using append_take_drop_id [of "length kCaptureMagic" "is_rest s"]
  by (auto simp: ReadMagic_def stream_read_def split: if_splits simp del: append_take_drop_id)

lemma ReadFormatVersion_Inr:
  "ReadFormatVersion s = (Inr u, s') \<Longrightarrow> is_rest s = [kCaptureFormatVersion] @ is_rest s'"
  by (cases "is_rest s") (auto simp: ReadFormatVersion_def stream_read_def split: if_splits)

lemma ReadHeader_Inr:
  assumes "ReadHeader decode s = (Inr header, s')"
  shows "\<exists>p. is_rest s = frame_bytes p @ is_rest s' \<and> length p \<le> 255 \<and> decode p = Some (HeaderRecord header)"
proof -
  obtain p where "ReadFrame s = (FrameRead p, s')" "decode p = Some (HeaderRecord header)"
    using assms by (auto simp: ReadHeader_def split: prod.splits Frame.splits option.splits CaptureRecord.splits)
  then show ?thesis using ReadFrame_cases(3) [of s "FrameRead p" s'] by auto
qed

lemma ReadCapture_Inr:
  assumes "ReadCapture decode s = Inr c"
  obtains header records s1 s2 s3 where "ReadMagic s = (Inr (), s1)" "ReadFormatVersion s1 = (Inr (), s2)"
    "ReadHeader decode s2 = (Inr header, s3)" "ReadRecords decode s3 RecordOrder_init [] = Inr (records, ca_torn c)"
    "capture_records c = records" "ca_header c = header" "capture_valid (ca_joins c) (ca_events c)"
proof -
  obtain header records torn where file_read: "ReadCaptureFile decode s = Inr (header, records, torn)"
    and c: "c = fold sort_record records \<lparr>ca_header = header, ca_joins = [], ca_events = [], ca_torn = torn\<rparr>"
    using assms by (auto simp: ReadCapture_def split: sum.splits)
  obtain s1 s2 s3 where reads: "ReadMagic s = (Inr (), s1)" "ReadFormatVersion s1 = (Inr (), s2)"
    "ReadHeader decode s2 = (Inr header, s3)" "ReadRecords decode s3 RecordOrder_init [] = Inr (records, torn)"
    using file_read by (auto simp: ReadCaptureFile_def split: if_splits sum.splits prod.splits)
  have "admits_all RecordOrder_init records" using ReadRecords_sound [OF reads(4)] by auto
  then obtain c' where c': "records = capture_records c'" "capture_valid (ca_joins c') (ca_events c')"
      "c = \<lparr>ca_header = header, ca_joins = ca_joins c', ca_events = ca_events c', ca_torn = torn\<rparr>"
    using admits_records_sorted [of records header torn] c by auto
  show ?thesis by (rule that [of s1 s2 header s3 records]) (simp_all add: reads c' capture_records_def)
qed

lemma ReadCapture_valid: "ReadCapture decode s = Inr c \<Longrightarrow> capture_valid (ca_joins c) (ca_events c)"
  by (rule ReadCapture_Inr)

lemma sample_reads: "ReadCapture sample_decode (stream_of sample_bytes) = Inr sample_capture"
  by (simp add: ReadCapture_def ReadCaptureFile_def ReadMagic_def ReadFormatVersion_def ReadHeader_def ReadFrame_def
        stream_read_def stream_of_def sample_bytes_def kCaptureMagic_def kCaptureFormatVersion_def sample_decode_def
        ReadRecords.simps Admits_def AdmitsEvent_def Follows_def RecordOrder_init_def Known_def sort_record_def
        sample_capture_def)

text \<open>
  C30: what \<open>ReadCapture\<close> accepts is a capture. From any stream and any codec, a capture it
  returns keeps the format's rules (events in offset order, only joined players named,
  nothing after the Match end), and the stream held exactly the magic, this format's
  version, the header's frame and one frame for each of its joins, then its events, with
  bytes left over only when it is marked torn.
\<close>

theorem read_capture_sound:
  assumes "ReadCapture decode s = Inr c"
  shows "capture_valid (ca_joins c) (ca_events c) \<and>
    (\<exists>hp ps tail. is_rest s = kCaptureMagic @ [kCaptureFormatVersion] @ frame_bytes hp @ concat (map frame_bytes ps) @ tail \<and>
       decode hp = Some (HeaderRecord (ca_header c)) \<and>
       list_all2 (\<lambda>p item. decode p = Some item) ps (capture_records c) \<and>
       (ca_torn c \<longleftrightarrow> tail \<noteq> []))"
proof -
  from assms obtain header records s1 s2 s3 where magic: "ReadMagic s = (Inr (), s1)" and version: "ReadFormatVersion s1 = (Inr (), s2)"
    and header: "ReadHeader decode s2 = (Inr header, s3)"
    and body: "ReadRecords decode s3 RecordOrder_init [] = Inr (records, ca_torn c)"
    and c: "capture_records c = records" "ca_header c = header" "capture_valid (ca_joins c) (ca_events c)"
    by (rule ReadCapture_Inr)
  obtain hp where hp: "is_rest s2 = frame_bytes hp @ is_rest s3" "decode hp = Some (HeaderRecord header)"
    using ReadHeader_Inr [OF header] by blast
  obtain ps tail where records: "list_all2 (\<lambda>p item. decode p = Some item) ps records"
      "is_rest s3 = concat (map frame_bytes ps) @ tail" "ca_torn c \<longleftrightarrow> tail \<noteq> []"
    using ReadRecords_sound [OF body] by auto
  have "is_rest s = kCaptureMagic @ [kCaptureFormatVersion] @ frame_bytes hp @ concat (map frame_bytes ps) @ tail"
    using ReadMagic_Inr [OF magic] ReadFormatVersion_Inr [OF version] hp(1) records(2) by simp
  then show ?thesis using hp(2) records(1,3) c by auto
qed

lemma read_capture_sound_witness:
  "capture_valid (ca_joins sample_capture) (ca_events sample_capture) \<and>
   (\<exists>hp ps tail. is_rest (stream_of sample_bytes) = kCaptureMagic @ [kCaptureFormatVersion] @ frame_bytes hp @
        concat (map frame_bytes ps) @ tail \<and>
      sample_decode hp = Some (HeaderRecord (ca_header sample_capture)) \<and>
      list_all2 (\<lambda>p item. sample_decode p = Some item) ps (capture_records sample_capture) \<and> tail = [])"
proof -
  from read_capture_sound [OF sample_reads] show ?thesis by (simp add: sample_capture_def)
qed

end
