(* ===== verification/Capture_Retention.thy ===== *)
theory Capture_Retention
  imports Capture_Format "HOL-Library.Char_ord" "HOL-Library.List_Lexorder"
begin

text \<open>
  A capture directory kept within its limits
  (\<open>src/modules/host/capture_retention.cpp\<close>): which files are captures, how many of the
  oldest must go before more is written (\<open>PlanRetention\<close>), and \<open>CaptureDirectory\<close>, which
  scans and deletes. The disk is the directory's entries in the order its iterator yields
  them, the names whose removal it refuses and the faults a test armed; what the observer
  and the log are told is kept in order. Boost's UUID text is a parameter, \<open>match_id\<close>.
\<close>

section \<open>Names\<close>

definition kExtension :: string where "kExtension = ''.acap''"

definition IsDigit :: "char \<Rightarrow> bool" where
  "IsDigit c \<longleftrightarrow> CHR ''0'' \<le> c \<and> c \<le> CHR ''9''"

definition IsMatchId :: "(string \<Rightarrow> uuid option) \<Rightarrow> (uuid \<Rightarrow> string) \<Rightarrow> string \<Rightarrow> bool" where
  "IsMatchId from_chars to_string s =
     (case from_chars s of None \<Rightarrow> False | Some match \<Rightarrow> to_string match = s)"

definition kStart :: string where "kStart = ''DDDDDDDDTDDDDDDDDDZ-''"

definition kNumberDigits :: nat where "kNumberDigits = 4"

definition IsCaptureFileName :: "(string \<Rightarrow> bool) \<Rightarrow> string \<Rightarrow> bool" where
  "IsCaptureFileName match_id name =
     (if length name < length kStart + kNumberDigits + length kExtension \<or>
         drop (length name - length kExtension) name \<noteq> kExtension
      then False
      else let match = take (length name - length kStart - length kExtension) (drop (length kStart) name)
           in list_all2 (\<lambda>pattern c. if pattern = CHR ''D'' then IsDigit c else pattern = c)
                kStart (take (length kStart) name) \<and>
              (match_id match \<or> list_all IsDigit match))"

section \<open>The plan\<close>

record CompletedCapture =
  cc_path :: string
  cc_size :: u64

record CaptureRetention =
  cr_max_files :: "nat option"
  cr_max_bytes :: "u64 option"

record RetentionPlan =
  rp_deletions :: nat
  rp_fits :: bool

text \<open>\<open>delete_oldest\<close>'s \<open>remaining -= std::min(remaining, size)\<close>.\<close>

definition less_size :: "u64 \<Rightarrow> u64 \<Rightarrow> u64" where
  "less_size remaining sz = remaining - min remaining sz"

text \<open>
  The two loops, on the captures not yet deleted. The first never runs out of captures
  when \<open>max_files\<close> is at least 1, as the configuration holds it; at 0 it would read past
  the last one: \<open>None\<close>.
\<close>

fun plan_files :: "nat \<Rightarrow> CompletedCapture list \<Rightarrow> nat \<times> u64 \<Rightarrow> (CompletedCapture list \<times> nat \<times> u64) option" where
  "plan_files max_files [] (deletions, remaining) =
     (if max_files \<le> 0 then None else Some ([], deletions, remaining))"
| "plan_files max_files (c # cs) (deletions, remaining) =
     (if max_files \<le> length (c # cs)
      then plan_files max_files cs (deletions + 1, less_size remaining (cc_size c))
      else Some (c # cs, deletions, remaining))"

fun plan_bytes :: "u64 \<Rightarrow> u64 \<Rightarrow> CompletedCapture list \<Rightarrow> nat \<times> u64 \<Rightarrow> nat \<times> u64" where
  "plan_bytes max_bytes bytes [] (deletions, remaining) = (deletions, remaining)"
| "plan_bytes max_bytes bytes (c # cs) (deletions, remaining) =
     (if max_bytes < remaining + bytes
      then plan_bytes max_bytes bytes cs (deletions + 1, less_size remaining (cc_size c))
      else (deletions, remaining))"

definition PlanRetention ::
  "CompletedCapture list \<Rightarrow> u64 \<Rightarrow> bool \<Rightarrow> u64 \<Rightarrow> CaptureRetention \<Rightarrow> RetentionPlan option" where
  "PlanRetention completed held is_opening bytes retention =
     (case (case if is_opening then cr_max_files retention else None of
              None \<Rightarrow> Some (completed, 0, held)
            | Some max_files \<Rightarrow> plan_files max_files completed (0, held)) of
        None \<Rightarrow> None
      | Some (rest, deletions, remaining) \<Rightarrow>
          (case cr_max_bytes retention of
             None \<Rightarrow> Some \<lparr>rp_deletions = deletions, rp_fits = True\<rparr>
           | Some max_bytes \<Rightarrow>
               (case plan_bytes max_bytes bytes rest (deletions, remaining) of
                  (deletions, remaining) \<Rightarrow>
                    Some \<lparr>rp_deletions = deletions, rp_fits = (remaining + bytes \<le> max_bytes)\<rparr>)))"

section \<open>The directory\<close>

record dir_entry =
  de_name :: string
  de_regular :: bool
  de_symlink :: bool
  de_size :: "u64 option"
  de_content :: "byte list"

datatype report =
    Deleted string
  | DeleteFailed string
  | RetentionFailed string string
  | Directory nat u64

record disk =
  dk_entries :: "dir_entry list"
  dk_refuses :: "string \<Rightarrow> string option"
  dk_faults :: "string list"
  dk_reports :: "report list"

record CaptureDirectory =
  cd_retention :: CaptureRetention
  cd_completed :: "CompletedCapture list"
  cd_deleted :: nat
  cd_total :: u64
  cd_open :: bool
  cd_match :: uuid
  cd_failure_logged :: bool

definition CaptureDirectory_init :: "CaptureRetention \<Rightarrow> CaptureDirectory" where
  "CaptureDirectory_init retention =
     \<lparr>cd_retention = retention, cd_completed = [], cd_deleted = 0, cd_total = 0, cd_open = False,
      cd_match = [], cd_failure_logged = False\<rparr>"

definition scanned :: "(string \<Rightarrow> bool) \<Rightarrow> string \<Rightarrow> dir_entry \<Rightarrow> CompletedCapture option" where
  "scanned match_id file_name entry =
     (if de_name entry = file_name \<or> \<not> IsCaptureFileName match_id (de_name entry) \<or>
         \<not> de_regular entry \<or> de_symlink entry
      then None
      else case de_size entry of
             None \<Rightarrow> None
           | Some sz \<Rightarrow>
               if StartsWithMagic (stream_of (de_content entry))
               then Some \<lparr>cc_path = de_name entry, cc_size = sz\<rparr> else None)"

definition Scan :: "(string \<Rightarrow> bool) \<Rightarrow> disk \<Rightarrow> string \<Rightarrow> CompletedCapture list" where
  "Scan match_id d file_name = sort_key cc_path (List.map_filter (scanned match_id file_name) (dk_entries d))"

definition Remaining :: "CaptureDirectory \<Rightarrow> CompletedCapture list" where
  "Remaining cd = drop (cd_deleted cd) (cd_completed cd)"

definition Report :: "CaptureDirectory \<Rightarrow> disk \<Rightarrow> disk" where
  "Report cd d = d\<lparr>dk_reports := dk_reports d @
     [Directory (length (Remaining cd) + (if cd_open cd then 1 else 0)) (cd_total cd)]\<rparr>"

text \<open>
  Deleting the oldest capture: an armed fault fails it first, or the disk refuses it, or
  its entry goes. Called with captures remaining.
\<close>

definition DeleteOldest :: "CaptureDirectory \<Rightarrow> disk \<Rightarrow> CaptureDirectory \<times> disk" where
  "DeleteOldest cd d =
     (let oldest = cd_completed cd ! cd_deleted cd;
          cd = cd\<lparr>cd_deleted := cd_deleted cd + 1, cd_total := less_size (cd_total cd) (cc_size oldest)\<rparr>;
          (failure, d) = (case dk_faults d of
             fault # faults \<Rightarrow> (Some fault, d\<lparr>dk_faults := faults\<rparr>)
           | [] \<Rightarrow> (case dk_refuses d (cc_path oldest) of
                      Some message \<Rightarrow> (Some message, d)
                    | None \<Rightarrow> (None, d\<lparr>dk_entries := filter (\<lambda>e. de_name e \<noteq> cc_path oldest) (dk_entries d)\<rparr>)))
      in case failure of
           None \<Rightarrow> (cd, d\<lparr>dk_reports := dk_reports d @ [Deleted (cc_path oldest)]\<rparr>)
         | Some message \<Rightarrow>
             let d = d\<lparr>dk_reports := dk_reports d @ [DeleteFailed (cc_path oldest)]\<rparr>
             in if cd_failure_logged cd then (cd, d)
                else (cd\<lparr>cd_failure_logged := True\<rparr>,
                      d\<lparr>dk_reports := dk_reports d @ [RetentionFailed (cc_path oldest) message]\<rparr>))"

lemma DeleteOldest_deleted:
  "cd_deleted (fst (DeleteOldest cd d)) = Suc (cd_deleted cd)"
  "cd_completed (fst (DeleteOldest cd d)) = cd_completed cd"
  "cd_retention (fst (DeleteOldest cd d)) = cd_retention cd"
  "cd_open (fst (DeleteOldest cd d)) = cd_open cd"
  "cd_total (fst (DeleteOldest cd d)) = less_size (cd_total cd) (cc_size (cd_completed cd ! cd_deleted cd))"
  by (auto simp: DeleteOldest_def Let_def split: list.splits option.splits)

lemma plan_files_le:
  "plan_files k cs (n, r) = Some (rest, m, r') \<Longrightarrow> length rest + m = length cs + n"
  by (induction k cs "(n, r)" arbitrary: n r rule: plan_files.induct) (auto split: if_splits)

lemma plan_bytes_le: "fst (plan_bytes limit bytes cs (n, r)) \<le> length cs + n"
  by (induction limit bytes cs "(n, r)" arbitrary: n r rule: plan_bytes.induct) (auto split: if_splits intro: le_SucI order_trans)

lemma plan_deletions_le:
  assumes "PlanRetention completed held is_opening bytes retention = Some plan"
  shows "rp_deletions plan \<le> length completed"
proof -
  obtain rest n r where files: "length rest + n = length completed"
    and rest: "(case cr_max_bytes retention of
        None \<Rightarrow> Some \<lparr>rp_deletions = n, rp_fits = True\<rparr>
      | Some max_bytes \<Rightarrow> (case plan_bytes max_bytes bytes rest (n, r) of
          (n, r) \<Rightarrow> Some \<lparr>rp_deletions = n, rp_fits = (r + bytes \<le> max_bytes)\<rparr>)) = Some plan"
  proof (cases "if is_opening then cr_max_files retention else None")
    case None
    then show thesis using assms that [of completed 0 held] by (simp add: PlanRetention_def)
  next
    case (Some k)
    then obtain rest n r where "plan_files k completed (0, held) = Some (rest, n, r)"
      using assms by (auto simp: PlanRetention_def split: option.splits)
    then show thesis using Some assms that [of rest n r] plan_files_le [of k completed 0 held rest n r]
      by (simp add: PlanRetention_def)
  qed
  show ?thesis
    using rest files plan_bytes_le [of _ bytes rest n r] by (auto split: option.splits prod.splits) (metis fst_conv)
qed

function MakeRoom :: "bool \<Rightarrow> u64 \<Rightarrow> CaptureDirectory \<Rightarrow> disk \<Rightarrow> (bool \<times> CaptureDirectory \<times> disk) option" where
  "MakeRoom is_opening bytes cd d =
     (case PlanRetention (Remaining cd) (cd_total cd) is_opening bytes (cd_retention cd) of
        None \<Rightarrow> None
      | Some plan \<Rightarrow>
          if rp_deletions plan = 0 then Some (rp_fits plan, cd, d)
          else (case DeleteOldest cd d of (cd, d) \<Rightarrow> MakeRoom is_opening bytes cd d))"
  by pat_completeness auto
termination
proof (relation "measure (\<lambda>(_, _, cd, _). length (cd_completed cd) - cd_deleted cd)", goal_cases)
  case (2 is_opening bytes cd d plan cd' d')
  have "Remaining cd \<noteq> []" using plan_deletions_le [OF 2(1)] 2(2) by (cases "Remaining cd") auto
  moreover have "cd' = fst (DeleteOldest cd d)" using 2(3) by (metis fst_conv)
  ultimately show ?case by (simp add: Remaining_def DeleteOldest_deleted)
qed simp

declare MakeRoom.simps [simp del]

definition Open ::
  "(string \<Rightarrow> bool) \<Rightarrow> CaptureDirectory \<Rightarrow> disk \<Rightarrow> uuid \<Rightarrow> string \<Rightarrow> u64 \<Rightarrow> (bool \<times> CaptureDirectory \<times> disk) option" where
  "Open match_id cd d match file_name bytes =
     (let completed = Scan match_id d file_name;
          cd = cd\<lparr>cd_match := match, cd_failure_logged := False, cd_open := False, cd_completed := completed,
                  cd_deleted := 0, cd_total := foldl (\<lambda>held c. held + cc_size c) 0 completed\<rparr>
      in case MakeRoom True bytes cd d of
           None \<Rightarrow> None
         | Some (fits, cd, d) \<Rightarrow>
             if \<not> fits then Some (False, cd, Report cd d)
             else let cd = cd\<lparr>cd_open := True, cd_total := cd_total cd + bytes\<rparr>
                  in Some (True, cd, Report cd d))"

definition Reserve :: "CaptureDirectory \<Rightarrow> disk \<Rightarrow> u64 \<Rightarrow> (bool \<times> CaptureDirectory \<times> disk) option" where
  "Reserve cd d bytes =
     (case MakeRoom False bytes cd d of
        None \<Rightarrow> None
      | Some (fits, cd, d) \<Rightarrow>
          if \<not> fits then Some (False, cd, d)
          else let cd = cd\<lparr>cd_total := cd_total cd + bytes\<rparr> in Some (True, cd, Report cd d))"

section \<open>The least plan\<close>

text \<open>The bytes left once the oldest \<open>n\<close> captures are gone, and whether that is enough.\<close>

definition left_after :: "CompletedCapture list \<Rightarrow> u64 \<Rightarrow> nat \<Rightarrow> nat" where
  "left_after completed held n = unat held - sum_list (map (unat \<circ> cc_size) (take n completed))"

definition enough :: "CompletedCapture list \<Rightarrow> u64 \<Rightarrow> bool \<Rightarrow> u64 \<Rightarrow> CaptureRetention \<Rightarrow> nat \<Rightarrow> bool" where
  "enough completed held is_opening bytes retention n \<longleftrightarrow>
     (is_opening \<longrightarrow> pred_option (\<lambda>max_files. length completed - n < max_files) (cr_max_files retention)) \<and>
     pred_option (\<lambda>max_bytes. left_after completed held n + unat bytes \<le> unat max_bytes) (cr_max_bytes retention)"

lemma unat_less_size: "unat (less_size r s) = unat r - unat s"
proof (cases "r \<le> s")
  case True
  then show ?thesis by (simp add: less_size_def min_def word_le_nat_alt)
next
  case False
  then show ?thesis by (simp add: less_size_def min_def unat_sub word_le_nat_alt)
qed

lemma left_after_Cons:
  "left_after (c # cs) held (Suc n) = left_after cs (less_size held (cc_size c)) n"
  by (simp add: left_after_def unat_less_size)

lemma plan_files_eq:
  assumes "0 < k"
  shows "\<exists>r'. plan_files k cs (n, r) = Some (drop (Suc (length cs) - k) cs, n + (Suc (length cs) - k), r') \<and>
    unat r' = left_after cs r (Suc (length cs) - k)"
  using assms
proof (induction cs arbitrary: n r)
  case Nil
  then show ?case by (simp add: left_after_def)
next
  case (Cons c cs)
  show ?case
  proof (cases "k \<le> length (c # cs)")
    case True
    then have "Suc (length (c # cs)) - k = Suc (Suc (length cs) - k)" by simp
    then show ?thesis using True Cons.IH [OF Cons.prems, of "n + 1" "less_size r (cc_size c)"]
      by (auto simp: left_after_Cons)
  next
    case False
    then show ?thesis by (simp add: left_after_def)
  qed
qed

lemma plan_bytes_eq:
  assumes "unat r + unat bytes < 2 ^ 64"
  shows "\<exists>d r'. plan_bytes limit bytes cs (n, r) = (n + d, r') \<and> d \<le> length cs \<and> unat r' = left_after cs r d \<and>
    unat (r' + bytes) = unat r' + unat bytes \<and>
    (\<forall>i < d. unat limit < left_after cs r i + unat bytes) \<and>
    (d < length cs \<longrightarrow> left_after cs r d + unat bytes \<le> unat limit)"
  using assms
proof (induction cs arbitrary: n r)
  case Nil
  then show ?case by (simp add: left_after_def unat_word_ariths)
next
  case (Cons c cs)
  have add: "unat (r + bytes) = unat r + unat bytes" using Cons.prems by (simp add: unat_word_ariths)
  show ?case
  proof (cases "limit < r + bytes")
    case True
    have "unat (less_size r (cc_size c)) + unat bytes < 2 ^ 64" using Cons.prems by (simp add: unat_less_size)
    from Cons.IH [OF this, of "n + 1"] obtain d r' where
      ih: "plan_bytes limit bytes cs (n + 1, less_size r (cc_size c)) = (n + 1 + d, r')" "d \<le> length cs"
        "unat r' = left_after cs (less_size r (cc_size c)) d" "unat (r' + bytes) = unat r' + unat bytes"
        "\<forall>i < d. unat limit < left_after cs (less_size r (cc_size c)) i + unat bytes"
        "d < length cs \<longrightarrow> left_after cs (less_size r (cc_size c)) d + unat bytes \<le> unat limit"
      by auto
    have "unat limit < left_after (c # cs) r i + unat bytes" if "i < Suc d" for i
      using that ih(5) True add by (cases i) (auto simp: left_after_Cons left_after_def [of _ _ 0] word_less_nat_alt)
    then show ?thesis using True ih by (intro exI [of _ "Suc d"] exI [of _ r']) (auto simp: left_after_Cons)
  next
    case False
    then show ?thesis using add
      by (intro exI [of _ 0] exI [of _ r]) (auto simp: left_after_def word_less_nat_alt)
  qed
qed

lemma left_after_drop:
  assumes "unat r' = left_after cs r n"
  shows "left_after (drop n cs) r' d = left_after cs r (n + d)"
  using assms by (simp add: left_after_def take_add)

text \<open>
  The retention plan is the least one. For limits that keep at least one file, and
  unless the directory's bytes and the addition pass 64 bits, \<open>PlanRetention\<close> returns a
  plan: it deletes no more of the oldest captures than it must, it says the addition fits
  exactly when the captures it leaves are few enough and small enough, and when it says it
  does not fit every capture would be gone and still not make room.
\<close>

theorem retention_plan_least:
  assumes "cr_max_files retention \<noteq> Some 0" and "unat held + unat bytes < 2 ^ 64"
  shows "\<exists>plan. PlanRetention completed held is_opening bytes retention = Some plan \<and>
    rp_deletions plan \<le> length completed \<and>
    (\<forall>n < rp_deletions plan. \<not> enough completed held is_opening bytes retention n) \<and>
    (rp_fits plan \<longleftrightarrow> enough completed held is_opening bytes retention (rp_deletions plan)) \<and>
    (\<not> rp_fits plan \<longrightarrow> rp_deletions plan = length completed)"
proof -
  obtain n r where files: "(case if is_opening then cr_max_files retention else None of
        None \<Rightarrow> Some (completed, 0, held)
      | Some max_files \<Rightarrow> plan_files max_files completed (0, held)) = Some (drop n completed, n, r)"
    and r: "unat r = left_after completed held n" and n: "n \<le> length completed"
    and least: "\<And>i. is_opening \<and> i \<le> length completed \<Longrightarrow> pred_option (\<lambda>k. length completed - i < k) (cr_max_files retention) \<longleftrightarrow> n \<le> i"
      "\<not> is_opening \<Longrightarrow> n = 0"
  proof (cases "if is_opening then cr_max_files retention else None")
    case None
    then show thesis using that [of 0 held] by (auto simp: left_after_def split: if_splits)
  next
    case (Some k)
    then have k: "0 < k" "is_opening" "cr_max_files retention = Some k" using assms(1) by (auto split: if_splits)
    then obtain r' where "plan_files k completed (0, held) =
        Some (drop (Suc (length completed) - k) completed, Suc (length completed) - k, r')"
      "unat r' = left_after completed held (Suc (length completed) - k)"
      using plan_files_eq [OF k(1), of completed 0 held] by auto
    then show thesis using k by (intro that [of "Suc (length completed) - k" r']) auto
  qed
  show ?thesis
  proof (cases "cr_max_bytes retention")
    case None
    have "\<not> enough completed held is_opening bytes retention i" if "i < n" for i
      using least(1) [of i] least(2) that n by (auto simp: enough_def)
    then show ?thesis using files n least None by (auto simp: PlanRetention_def enough_def)
  next
    case (Some limit)
    have "unat r + unat bytes < 2 ^ 64" using assms(2) r by (simp add: left_after_def)
    from plan_bytes_eq [OF this, of limit "drop n completed" n] obtain d r' where
      d: "plan_bytes limit bytes (drop n completed) (n, r) = (n + d, r')" "d \<le> length completed - n"
        "unat r' = left_after completed held (n + d)" "unat (r' + bytes) = unat r' + unat bytes"
      and over: "\<And>i. i < d \<Longrightarrow> unat limit < left_after completed held (n + i) + unat bytes"
      and fits: "d < length completed - n \<Longrightarrow> left_after completed held (n + d) + unat bytes \<le> unat limit"
      unfolding left_after_drop [OF r] by auto
    have few: "pred_option (\<lambda>k. length completed - (n + d) < k) (cr_max_files retention)" if "is_opening"
      using least(1) [of "n + d"] that n d(2) by simp
    have "\<not> enough completed held is_opening bytes retention i" if "i < n + d" for i
    proof (cases "i < n")
      case True
      then show ?thesis using least n by (auto simp: enough_def dest: least(1) [of i])
    next
      case False
      then have "i - n < d" using that by linarith
      then show ?thesis using over [of "i - n"] False Some by (auto simp: enough_def)
    qed
    moreover have "n + d = length completed" if "\<not> left_after completed held (n + d) + unat bytes \<le> unat limit"
      using that fits d(2) n by linarith
    ultimately show ?thesis using files Some d few n
      by (auto simp: PlanRetention_def enough_def word_le_nat_alt)
  qed
qed

section \<open>Making room\<close>

lemma enough_Cons:
  "enough (c # cs) held is_opening bytes retention (Suc n) =
   enough cs (less_size held (cc_size c)) is_opening bytes retention n"
  by (simp add: enough_def left_after_Cons)

text \<open>
  The deletions a run of reports tells of, and how the deletions of these names are to go:
  the armed faults fail the first of them, the disk those it refuses, and no other fails.
\<close>

fun is_attempt :: "report \<Rightarrow> bool" where
  "is_attempt (Deleted name) = True"
| "is_attempt (DeleteFailed name) = True"
| "is_attempt (RetentionFailed name message) = False"
| "is_attempt (Directory files bytes) = False"

definition attempts :: "report list \<Rightarrow> report list" where
  "attempts reports = filter is_attempt reports"

definition outcomes :: "disk \<Rightarrow> string list \<Rightarrow> report list" where
  "outcomes d names = map (\<lambda>(i, name).
     if i < length (dk_faults d) \<or> dk_refuses d name \<noteq> None then DeleteFailed name else Deleted name)
     (enumerate 0 names)"

lemma attempts_simps [simp]:
  "attempts [] = []" "attempts (xs @ ys) = attempts xs @ attempts ys"
  "attempts (r # rs) = (if is_attempt r then r # attempts rs else attempts rs)"
  by (simp_all add: attempts_def)

lemma deleted_attempt: "Deleted name \<in> set reports \<longleftrightarrow> Deleted name \<in> set (attempts reports)"
  by (simp add: attempts_def)

lemma enumerate_shift: "enumerate (Suc n) xs = map (\<lambda>(i, x). (Suc i, x)) (enumerate n xs)"
  by (induction xs arbitrary: n) simp_all

lemma outcomes_Cons:
  assumes "dk_refuses d' = dk_refuses d" and "dk_faults d' = drop 1 (dk_faults d)"
  shows "outcomes d (name # names) =
    (if dk_faults d \<noteq> [] \<or> dk_refuses d name \<noteq> None then DeleteFailed name else Deleted name) # outcomes d' names"
  using assms by (auto simp: outcomes_def enumerate_shift less_diff_conv)

lemma outcomes_Nil [simp]: "outcomes d [] = []"
  by (simp add: outcomes_def)

lemma deleted_outcome: "Deleted name \<in> set (outcomes d names) \<Longrightarrow> name \<in> set names"
  by (auto simp: outcomes_def in_set_enumerate_eq split: if_splits)

lemma outcomes_all:
  assumes "dk_faults d = []" and "\<forall>name \<in> set names. dk_refuses d name = None"
  shows "outcomes d names = map Deleted names"
proof -
  have "outcomes d names = map (\<lambda>(i, name). Deleted name) (enumerate 0 names)"
    unfolding outcomes_def using assms by (auto simp: in_set_enumerate_eq)
  then show ?thesis by (simp add: map_eq_conv split_def flip: map_map [of Deleted snd, unfolded comp_def])
qed

definition disk_after :: "disk \<Rightarrow> disk \<Rightarrow> string list \<Rightarrow> bool" where
  "disk_after d d' names \<longleftrightarrow>
     (\<exists>new. dk_reports d' = dk_reports d @ new \<and> attempts new = outcomes d names \<and>
       dk_entries d' = filter (\<lambda>e. Deleted (de_name e) \<notin> set new) (dk_entries d)) \<and>
     dk_refuses d' = dk_refuses d \<and> dk_faults d' = drop (length names) (dk_faults d)"

lemma disk_after_refl: "disk_after d d []"
  by (auto simp: disk_after_def intro: exI [of _ "[]"])

lemma disk_after_delete:
  "disk_after d (snd (DeleteOldest cd d)) [cc_path (cd_completed cd ! cd_deleted cd)]"
proof -
  let ?p = "cc_path (cd_completed cd ! cd_deleted cd)"
  let ?r = "if dk_faults d \<noteq> [] \<or> dk_refuses d ?p \<noteq> None then DeleteFailed ?p else Deleted ?p"
  have "\<exists>new \<in> {[?r]} \<union> {[?r, RetentionFailed ?p message] | message. True}.
      dk_reports (snd (DeleteOldest cd d)) = dk_reports d @ new \<and>
      dk_entries (snd (DeleteOldest cd d)) = filter (\<lambda>e. Deleted (de_name e) \<notin> set new) (dk_entries d)"
    by (auto simp: DeleteOldest_def Let_def split: list.splits option.splits)
  moreover have "dk_refuses (snd (DeleteOldest cd d)) = dk_refuses d"
    "dk_faults (snd (DeleteOldest cd d)) = drop 1 (dk_faults d)"
    by (auto simp: DeleteOldest_def Let_def split: list.splits option.splits)
  moreover have "outcomes d [?p] = [?r]" by (simp add: outcomes_def)
  ultimately show ?thesis by (auto simp: disk_after_def intro: exI)
qed

lemma disk_after_Cons:
  assumes "disk_after d d' [name]" and "disk_after d' d'' names"
  shows "disk_after d d'' (name # names)"
proof -
  obtain new where new: "dk_reports d' = dk_reports d @ new" "attempts new = outcomes d [name]"
      "dk_entries d' = filter (\<lambda>e. Deleted (de_name e) \<notin> set new) (dk_entries d)"
    and d': "dk_refuses d' = dk_refuses d" "dk_faults d' = drop 1 (dk_faults d)"
    using assms(1) by (auto simp: disk_after_def)
  moreover obtain more_new where "dk_reports d'' = dk_reports d' @ more_new" "attempts more_new = outcomes d' names"
      "dk_entries d'' = filter (\<lambda>e. Deleted (de_name e) \<notin> set more_new) (dk_entries d')"
      "dk_refuses d'' = dk_refuses d'" "dk_faults d'' = drop (length names) (dk_faults d')"
    using assms(2) by (auto simp: disk_after_def)
  moreover have "outcomes d (name # names) = outcomes d [name] @ outcomes d' names"
    using outcomes_Cons [OF d', of name] by simp
  ultimately show ?thesis
    by (auto simp: disk_after_def conj_commute intro!: exI [of _ "new @ more_new"] filter_cong)
qed

lemma MakeRoom_eq:
  assumes "cr_max_files (cd_retention cd) \<noteq> Some 0" and "unat (cd_total cd) + unat bytes < 2 ^ 64"
  shows "\<exists>ok cd' d' n. MakeRoom is_opening bytes cd d = Some (ok, cd', d') \<and>
    n \<le> length (Remaining cd) \<and> cd_deleted cd' = cd_deleted cd + n \<and>
    cd_completed cd' = cd_completed cd \<and> cd_retention cd' = cd_retention cd \<and> cd_open cd' = cd_open cd \<and>
    unat (cd_total cd') = left_after (Remaining cd) (cd_total cd) n \<and>
    (\<forall>i < n. \<not> enough (Remaining cd) (cd_total cd) is_opening bytes (cd_retention cd) i) \<and>
    (ok \<longleftrightarrow> enough (Remaining cd) (cd_total cd) is_opening bytes (cd_retention cd) n) \<and>
    (\<not> ok \<longrightarrow> n = length (Remaining cd)) \<and>
    disk_after d d' (map cc_path (take n (Remaining cd)))"
  using assms
proof (induction is_opening bytes cd d rule: MakeRoom.induct)
  case (1 is_opening bytes cd d)
  obtain plan where plan: "PlanRetention (Remaining cd) (cd_total cd) is_opening bytes (cd_retention cd) = Some plan"
    and facts: "rp_deletions plan \<le> length (Remaining cd)"
      "\<forall>n < rp_deletions plan. \<not> enough (Remaining cd) (cd_total cd) is_opening bytes (cd_retention cd) n"
      "rp_fits plan \<longleftrightarrow> enough (Remaining cd) (cd_total cd) is_opening bytes (cd_retention cd) (rp_deletions plan)"
      "\<not> rp_fits plan \<longrightarrow> rp_deletions plan = length (Remaining cd)"
    using retention_plan_least [OF "1.prems", of "Remaining cd" is_opening] by blast
  show ?case
  proof (cases "rp_deletions plan = 0")
    case True
    have "MakeRoom is_opening bytes cd d = Some (rp_fits plan, cd, d)"
      by (subst MakeRoom.simps) (simp add: plan True)
    moreover have "unat (cd_total cd) = left_after (Remaining cd) (cd_total cd) 0" by (simp add: left_after_def)
    ultimately show ?thesis using facts(3,4) True disk_after_refl [of d]
      by (intro exI [of _ "rp_fits plan"] exI [of _ cd] exI [of _ d] exI [of _ 0]) auto
  next
    case False
    then obtain c cs where rem: "Remaining cd = c # cs" using facts(1) by (cases "Remaining cd") auto
    then have c: "cd_completed cd ! cd_deleted cd = c"
      by (metis Remaining_def drop_eq_Nil hd_drop_conv_nth leI list.discI list.sel(1))
    obtain cd1 d1 where one: "DeleteOldest cd d = (cd1, d1)" by fastforce
    have cd1: "cd1 = fst (DeleteOldest cd d)" using one by simp
    note fields = DeleteOldest_deleted [of cd d, folded cd1, unfolded c]
    have rem1: "Remaining cd1 = cs"
      using rem by (simp add: Remaining_def fields) (metis drop_Suc list.sel(3) tl_drop)
    have small: "unat (cd_total cd1) + unat bytes < 2 ^ 64" using "1.prems"(2) by (simp add: fields unat_less_size)
    have rest: "disk_after d d1 [cc_path c]" using disk_after_delete [of d cd] one c by simp
    obtain ok cd' d' n where ih: "MakeRoom is_opening bytes cd1 d1 = Some (ok, cd', d')" "n \<le> length cs"
        "cd_deleted cd' = cd_deleted cd1 + n" "cd_completed cd' = cd_completed cd1"
        "cd_retention cd' = cd_retention cd1" "cd_open cd' = cd_open cd1"
        "unat (cd_total cd') = left_after cs (cd_total cd1) n"
        "\<forall>i < n. \<not> enough cs (cd_total cd1) is_opening bytes (cd_retention cd) i"
        "ok \<longleftrightarrow> enough cs (cd_total cd1) is_opening bytes (cd_retention cd) n"
        "\<not> ok \<longrightarrow> n = length cs" "disk_after d1 d' (map cc_path (take n cs))"
      using "1.IH" [OF plan False one [symmetric]] "1.prems"(1) small unfolding rem1 fields(3) by blast
    have "\<not> enough (Remaining cd) (cd_total cd) is_opening bytes (cd_retention cd) i" if "i < Suc n" for i
      using that False facts(2) ih(8) by (cases i) (auto simp: rem enough_Cons fields)
    moreover have "disk_after d d' (map cc_path (take (Suc n) (Remaining cd)))"
      using disk_after_Cons [OF rest ih(11)] by (simp add: rem)
    moreover have "MakeRoom is_opening bytes cd d = Some (ok, cd', d')"
      by (subst MakeRoom.simps) (simp add: plan False one ih(1))
    ultimately show ?thesis using ih(2-10)
      by (intro exI [of _ ok] exI [of _ cd'] exI [of _ d'] exI [of _ "Suc n"])
        (simp add: rem enough_Cons left_after_Cons fields)
  qed
qed

text \<open>Room is always decided, whatever the sizes.\<close>

lemma PlanRetention_total:
  assumes "cr_max_files retention \<noteq> Some 0"
  shows "\<exists>plan. PlanRetention completed held is_opening bytes retention = Some plan"
proof -
  obtain rest n r where files: "(case if is_opening then cr_max_files retention else None of
        None \<Rightarrow> Some (completed, 0, held)
      | Some max_files \<Rightarrow> plan_files max_files completed (0, held)) = Some (rest, n, r)"
  proof (cases "if is_opening then cr_max_files retention else None")
    case (Some k)
    then have "0 < k" using assms by (auto split: if_splits)
    from plan_files_eq [OF this, of completed 0 held] show thesis using Some that by auto
  qed (use that in simp)
  show ?thesis
  proof (cases "cr_max_bytes retention")
    case (Some limit)
    then show ?thesis using files
      by (cases "plan_bytes limit bytes rest (n, r)") (simp add: PlanRetention_def)
  qed (use files in \<open>simp add: PlanRetention_def\<close>)
qed

lemma MakeRoom_total:
  assumes "cr_max_files (cd_retention cd) \<noteq> Some 0"
  shows "\<exists>ok cd' d'. MakeRoom is_opening bytes cd d = Some (ok, cd', d') \<and> cd_retention cd' = cd_retention cd"
  using assms
proof (induction is_opening bytes cd d rule: MakeRoom.induct)
  case (1 is_opening bytes cd d)
  obtain plan where plan: "PlanRetention (Remaining cd) (cd_total cd) is_opening bytes (cd_retention cd) = Some plan"
    using PlanRetention_total [OF "1.prems"] by blast
  obtain cd1 d1 where one: "DeleteOldest cd d = (cd1, d1)" by fastforce
  have "cd_retention cd1 = cd_retention cd" using DeleteOldest_deleted(3) [of cd d] one by simp
  then show ?case using "1.IH" [OF plan _ one [symmetric]] "1.prems" plan one
    by (subst MakeRoom.simps) auto
qed

lemma unat_foldl_sizes:
  "unat start + sum_list (map (unat \<circ> cc_size) cs) < 2 ^ 64 \<Longrightarrow>
   unat (foldl (\<lambda>held c. held + cc_size c) (start :: u64) cs) = unat start + sum_list (map (unat \<circ> cc_size) cs)"
proof (induction cs arbitrary: start)
  case Nil
  then show ?case by simp
next
  case (Cons c cs)
  then have "unat (start + cc_size c) = unat start + unat (cc_size c)" by (simp add: unat_word_ariths)
  then show ?case using Cons.IH [of "start + cc_size c"] Cons.prems by simp
qed

definition sizes :: "CompletedCapture list \<Rightarrow> nat" where
  "sizes cs = sum_list (map (unat \<circ> cc_size) cs)"

lemma sizes_split: "sizes cs = sizes (take n cs) + sizes (drop n cs)"
  by (simp add: sizes_def flip: sum_list_append map_append)

lemma Scan_sorted: "sorted (map cc_path (Scan match_id d file_name))"
  by (simp add: Scan_def)

lemma Scan_captures:
  "c \<in> set (Scan match_id d file_name) \<Longrightarrow> \<exists>e \<in> set (dk_entries d).
     de_name e = cc_path c \<and> cc_path c \<noteq> file_name \<and> IsCaptureFileName match_id (cc_path c) \<and> de_regular e \<and>
     \<not> de_symlink e \<and> StartsWithMagic (stream_of (de_content e))"
  by (force simp: Scan_def map_filter_def scanned_def split: if_splits option.splits)

text \<open>Whether the captures \<open>cs\<close> and a new one of \<open>bytes\<close> are within the limits.\<close>

definition within :: "CaptureRetention \<Rightarrow> u64 \<Rightarrow> CompletedCapture list \<Rightarrow> bool" where
  "within retention bytes cs \<longleftrightarrow>
     pred_option (\<lambda>max_files. length cs + 1 \<le> max_files) (cr_max_files retention) \<and>
     pred_option (\<lambda>max_bytes. sizes cs + unat bytes \<le> unat max_bytes) (cr_max_bytes retention)"

lemma enough_within:
  assumes "unat held = sizes cs" and "n \<le> length cs"
  shows "enough cs held True bytes retention n \<longleftrightarrow> within retention bytes (drop n cs)"
  using assms sizes_split [of cs n]
  by (cases "cr_max_files retention"; cases "cr_max_bytes retention")
    (auto simp: enough_def within_def left_after_def sizes_def)

text \<open>What a scan finds once some of its captures' entries are gone.\<close>

lemma Scan_after:
  assumes "dk_entries d' = filter (\<lambda>e. P (de_name e)) (dk_entries d)"
  shows "Scan match_id d' file_name = filter (\<lambda>c. P (cc_path c)) (Scan match_id d file_name)"
proof -
  have path: "scanned match_id file_name e = Some c \<Longrightarrow> cc_path c = de_name e" for e c
    by (auto simp: scanned_def split: if_splits option.splits)
  have "List.map_filter (scanned match_id file_name) (filter (\<lambda>e. P (de_name e)) es) =
      filter (\<lambda>c. P (cc_path c)) (List.map_filter (scanned match_id file_name) es)" for es
    by (induction es) (auto simp: map_filter_simps path split: option.splits)
  then show ?thesis by (simp add: Scan_def assms filter_sort)
qed

lemma Scan_distinct:
  assumes "distinct (map de_name (dk_entries d))"
  shows "distinct (map cc_path (Scan match_id d file_name))"
proof -
  have path: "scanned match_id file_name e = Some c \<Longrightarrow> cc_path c = de_name e" for e c
    by (auto simp: scanned_def split: if_splits option.splits)
  have names: "set (map cc_path (List.map_filter (scanned match_id file_name) es)) \<subseteq> set (map de_name es)" for es
    by (auto simp: map_filter_def path)
  have "distinct (map de_name es) \<Longrightarrow> distinct (map cc_path (List.map_filter (scanned match_id file_name) es))" for es
  proof (induction es)
    case (Cons e es)
    then show ?case using names [of es] by (auto simp: map_filter_simps path split: option.splits)
  qed (simp add: map_filter_simps)
  then have "distinct (map cc_path (List.map_filter (scanned match_id file_name) (dk_entries d)))" using assms .
  then have "distinct (List.map_filter (scanned match_id file_name) (dk_entries d))"
    "inj_on cc_path (set (List.map_filter (scanned match_id file_name) (dk_entries d)))"
    by (simp_all add: distinct_map)
  then show ?thesis by (simp add: Scan_def distinct_map)
qed

lemma filter_taken:
  assumes "distinct (map f xs)"
  shows "filter (\<lambda>x. f x \<notin> f ` set (take n xs)) xs = drop n xs"
proof -
  have "distinct (map f (take n xs) @ map f (drop n xs))" using assms by (metis append_take_drop_id map_append)
  then have "filter (\<lambda>x. f x \<notin> f ` set (take n xs)) (take n xs) = []"
    "filter (\<lambda>x. f x \<notin> f ` set (take n xs)) (drop n xs) = drop n xs"
    by (auto simp: filter_empty_conv filter_id_conv)
  then show ?thesis by (metis append_Nil append_take_drop_id filter_append)
qed

text \<open>
  C36: opening a capture leaves its directory within its limits. \<open>Open\<close> tries to delete the
  oldest completed captures of its scan in order, never the file it opens and no more than
  it must; each is deleted, its entry gone, unless an armed fault or the disk's refusal
  fails that very deletion, and every other entry stays. When it says the new file fits,
  the captures it did not try are with the new one at most \<open>max_files\<close> and at most
  \<open>max_bytes\<close>, and its total is exactly their bytes; when it says no, every capture was
  tried. So on a disk that refuses nothing what it leaves there, as another scan finds it,
  is within the limits, or empty.
\<close>

theorem open_keeps_limits:
  assumes "cr_max_files (cd_retention cd) \<noteq> Some 0"
    and "sizes (Scan match_id d file_name) + unat bytes < 2 ^ 64"
  shows "let completed = Scan match_id d file_name in
    \<exists>ok cd' d' n new. Open match_id cd d match file_name bytes = Some (ok, cd', d') \<and>
      n \<le> length completed \<and> Remaining cd' = drop n completed \<and>
      dk_reports d' = dk_reports d @ new \<and>
      attempts new = map (\<lambda>i. let name = cc_path (completed ! i) in
        if i < length (dk_faults d) \<or> dk_refuses d name \<noteq> None then DeleteFailed name else Deleted name) [0..<n] \<and>
      dk_entries d' = filter (\<lambda>e. Deleted (de_name e) \<notin> set new) (dk_entries d) \<and>
      (\<forall>i < n. \<not> within (cd_retention cd) bytes (drop i completed)) \<and>
      (if ok then within (cd_retention cd) bytes (Remaining cd') \<and>
                  unat (cd_total cd') = sizes (Remaining cd') + unat bytes
       else Remaining cd' = []) \<and>
      (distinct (map de_name (dk_entries d)) \<and> dk_faults d = [] \<and> (\<forall>c \<in> set completed. dk_refuses d (cc_path c) = None) \<longrightarrow>
        Scan match_id d' file_name = drop n completed \<and>
        (if ok then within (cd_retention cd) bytes (Scan match_id d' file_name) else Scan match_id d' file_name = []))"
proof -
  define completed where "completed = Scan match_id d file_name"
  define cd1 where "cd1 = cd\<lparr>cd_match := match, cd_failure_logged := False, cd_open := False, cd_completed := completed,
      cd_deleted := 0, cd_total := foldl (\<lambda>held c. held + cc_size c) 0 completed\<rparr>"
  have fields: "Remaining cd1 = completed" "cd_retention cd1 = cd_retention cd" "cd_deleted cd1 = 0" "cd_completed cd1 = completed"
    by (simp_all add: cd1_def Remaining_def)
  have held: "unat (cd_total cd1) = sizes completed"
    using unat_foldl_sizes [of 0 completed] assms(2) by (simp add: cd1_def sizes_def completed_def)
  have limits: "cr_max_files (cd_retention cd1) \<noteq> Some 0" "unat (cd_total cd1) + unat bytes < 2 ^ 64"
    using assms held by (simp_all add: fields completed_def)
  obtain ok cd' d' n where room: "MakeRoom True bytes cd1 d = Some (ok, cd', d')" "n \<le> length completed"
      "cd_deleted cd' = n" "cd_completed cd' = completed" "unat (cd_total cd') = left_after completed (cd_total cd1) n"
      "\<forall>i < n. \<not> enough completed (cd_total cd1) True bytes (cd_retention cd) i"
      "ok \<longleftrightarrow> enough completed (cd_total cd1) True bytes (cd_retention cd) n" "\<not> ok \<longrightarrow> n = length completed"
      "disk_after d d' (map cc_path (take n completed))"
    using MakeRoom_eq [OF limits, of True d] unfolding fields add_0 by blast
  obtain new where new: "dk_reports d' = dk_reports d @ new" "attempts new = outcomes d (map cc_path (take n completed))"
      "dk_entries d' = filter (\<lambda>e. Deleted (de_name e) \<notin> set new) (dk_entries d)"
    using room(9) by (auto simp: disk_after_def)
  have left: "unat (cd_total cd') = sizes (drop n completed)"
    using room(5) held sizes_split [of completed n] by (simp add: left_after_def sizes_def)
  define cd2 where "cd2 = (if ok then cd'\<lparr>cd_open := True, cd_total := cd_total cd' + bytes\<rparr> else cd')"
  have opened: "Open match_id cd d match file_name bytes = Some (ok, cd2, Report cd2 d')"
    using room(1) by (simp add: Open_def Let_def cd2_def cd1_def completed_def)
  have rem: "Remaining cd2 = drop n completed" by (simp add: cd2_def Remaining_def room(3,4))
  have fits: "within (cd_retention cd) bytes (drop n completed) \<and> unat (cd_total cd2) = sizes (drop n completed) + unat bytes" if ok
    using that left assms(2) sizes_split [of completed n] room(2,7) enough_within [OF held room(2)]
    by (simp add: cd2_def unat_word_ariths completed_def)
  have over: "\<forall>i < n. \<not> within (cd_retention cd) bytes (drop i completed)"
    using room(2,6) enough_within [OF held] by simp
  let ?new = "new @ [Directory (length (Remaining cd2) + (if cd_open cd2 then 1 else 0)) (cd_total cd2)]"
  have disk: "dk_reports (Report cd2 d') = dk_reports d @ ?new" "attempts ?new = outcomes d (map cc_path (take n completed))"
    "dk_entries (Report cd2 d') = filter (\<lambda>e. Deleted (de_name e) \<notin> set ?new) (dk_entries d)"
    using new by (simp_all add: Report_def)
  have in_order: "attempts ?new = map (\<lambda>i. let name = cc_path (completed ! i) in
      if i < length (dk_faults d) \<or> dk_refuses d name \<noteq> None then DeleteFailed name else Deleted name) [0..<n]"
    unfolding disk(2) using room(2) by (auto simp: outcomes_def Let_def nth_enumerate_eq intro!: nth_equalityI)
  have decided: "if ok then within (cd_retention cd) bytes (Remaining cd2) \<and> unat (cd_total cd2) = sizes (Remaining cd2) + unat bytes
      else Remaining cd2 = []"
    using fits room(8) by (simp add: rem)
  have "Scan match_id (Report cd2 d') file_name = drop n completed"
    if "distinct (map de_name (dk_entries d))" "dk_faults d = []" "\<forall>c \<in> set completed. dk_refuses d (cc_path c) = None"
  proof -
    have "attempts ?new = map Deleted (map cc_path (take n completed))"
      unfolding disk(2) using that(2,3) by (intro outcomes_all) (auto dest: in_set_takeD)
    then have "Deleted name \<in> set ?new \<longleftrightarrow> name \<in> cc_path ` set (take n completed)" for name
      unfolding deleted_attempt [of _ ?new] by auto
    then show ?thesis
      using Scan_after [OF disk(3)] filter_taken [OF Scan_distinct [OF that(1)]] by (simp add: completed_def)
  qed
  then have on_disk: "distinct (map de_name (dk_entries d)) \<and> dk_faults d = [] \<and> (\<forall>c \<in> set completed. dk_refuses d (cc_path c) = None) \<longrightarrow>
      Scan match_id (Report cd2 d') file_name = drop n completed \<and>
      (if ok then within (cd_retention cd) bytes (Scan match_id (Report cd2 d') file_name) else Scan match_id (Report cd2 d') file_name = [])"
    using decided by (cases ok) (auto simp: rem)
  show ?thesis unfolding Let_def completed_def [symmetric]
    by (intro exI conjI, rule opened, rule room(2), rule rem, rule disk(1), rule in_order [unfolded Let_def], rule disk(3), rule over,
      rule decided, rule on_disk)
qed

text \<open>Two captures of 60 bytes in a directory of at most 100 bytes and 3 files.\<close>

definition sample_entry :: "string \<Rightarrow> dir_entry" where
  "sample_entry name =
     \<lparr>de_name = name, de_regular = True, de_symlink = False, de_size = Some 60, de_content = kCaptureMagic\<rparr>"

definition sample_disk :: disk where
  "sample_disk =
     \<lparr>dk_entries = [sample_entry ''20250102T000000000Z-0002.acap'', sample_entry ''20250101T000000000Z-0001.acap'',
        sample_entry ''notes.txt''],
      dk_refuses = (\<lambda>_. None), dk_faults = [], dk_reports = []\<rparr>"

definition sample_retention :: CaptureRetention where
  "sample_retention = \<lparr>cr_max_files = Some 3, cr_max_bytes = Some 100\<rparr>"

lemma sample_scan:
  "Scan (\<lambda>_. False) sample_disk ''new.acap'' =
     [\<lparr>cc_path = ''20250101T000000000Z-0001.acap'', cc_size = 60\<rparr>,
      \<lparr>cc_path = ''20250102T000000000Z-0002.acap'', cc_size = 60\<rparr>]"
  by (simp add: Scan_def sample_disk_def sample_entry_def map_filter_def scanned_def IsCaptureFileName_def
      IsDigit_def kStart_def kExtension_def kNumberDigits_def StartsWithMagic_def ReadMagic_def stream_read_def
      stream_of_def kCaptureMagic_def less_eq_char_def)

theorem retention_plan_least_witness:
  "PlanRetention (Scan (\<lambda>_. False) sample_disk ''new.acap'') 120 True 30 sample_retention =
     Some \<lparr>rp_deletions = 1, rp_fits = True\<rparr> \<and>
   \<not> enough (Scan (\<lambda>_. False) sample_disk ''new.acap'') 120 True 30 sample_retention 0"
proof -
  have plan: "PlanRetention (Scan (\<lambda>_. False) sample_disk ''new.acap'') 120 True 30 sample_retention =
     Some \<lparr>rp_deletions = 1, rp_fits = True\<rparr>"
    by (simp add: sample_scan PlanRetention_def sample_retention_def less_size_def)
  then show ?thesis
    using retention_plan_least [of sample_retention 120 30 "Scan (\<lambda>_. False) sample_disk ''new.acap''" True]
    by (auto simp: sample_retention_def)
qed

text \<open>The older of the two goes, and what is left is within the limits.\<close>

theorem open_keeps_limits_witness:
  "\<exists>ok cd' d' n. Open (\<lambda>_. False) (CaptureDirectory_init sample_retention) sample_disk [7] ''new.acap'' 30 = Some (ok, cd', d') \<and>
     Scan (\<lambda>_. False) d' ''new.acap'' = drop n (Scan (\<lambda>_. False) sample_disk ''new.acap'') \<and> 0 < n \<and>
     (if ok then within sample_retention 30 (Scan (\<lambda>_. False) d' ''new.acap'') else Scan (\<lambda>_. False) d' ''new.acap'' = [])"
proof -
  let ?scan = "Scan (\<lambda>_. False) sample_disk ''new.acap''"
  have over: "\<not> within sample_retention 30 (drop 0 ?scan)" and some: "?scan \<noteq> []"
    by (simp_all add: sample_scan within_def sizes_def sample_retention_def)
  have calm: "distinct (map de_name (dk_entries sample_disk)) \<and> dk_faults sample_disk = [] \<and>
      (\<forall>c \<in> set ?scan. dk_refuses sample_disk (cc_path c) = None)"
    by (simp add: sample_disk_def sample_entry_def)
  have ret: "cd_retention (CaptureDirectory_init sample_retention) = sample_retention" by (simp add: CaptureDirectory_init_def)
  have "cr_max_files (cd_retention (CaptureDirectory_init sample_retention)) \<noteq> Some 0"
    and "sizes ?scan + unat (30 :: u64) < 2 ^ 64"
    by (simp_all add: sample_scan sizes_def CaptureDirectory_init_def sample_retention_def)
  from open_keeps_limits [OF this, of "[7]", unfolded Let_def ret] obtain ok cd' d' n where
      *: "Open (\<lambda>_. False) (CaptureDirectory_init sample_retention) sample_disk [7] ''new.acap'' 30 = Some (ok, cd', d')"
      "Scan (\<lambda>_. False) d' ''new.acap'' = drop n ?scan" "Remaining cd' = drop n ?scan"
      "if ok then within sample_retention 30 (Scan (\<lambda>_. False) d' ''new.acap'') else Scan (\<lambda>_. False) d' ''new.acap'' = []"
    using calm by (elim exE conjE) (drule mp [OF _ calm], elim conjE, rule that, assumption+)
  have "0 < n"
  proof (rule ccontr)
    assume "\<not> 0 < n"
    then show False using *(2,4) over some by (simp split: if_splits)
  qed
  then show ?thesis using * by blast
qed

end
