(* ===== verification/Capture_Writer.thy ===== *)
theory Capture_Writer
  imports Failures Capture_Retention
begin

text \<open>
  The thread behind a Capturer (\<open>src/modules/host/capture_writer.cpp\<close>): the queue the
  Simulation thread hands each Match's file opened, its records and its file closed to,
  and the writer thread's three moments for each item: taking it under the lock, handling
  it without, and recording its loss under the lock again. The Simulation thread's calls
  fall anywhere between. \<open>wr_files\<close> is what this writer's files hold: writing appends to
  one, and a file retention deletes is gone from it. What the directory lists when a file
  is opened is an input of the opening, whatever it is, since other programs change it too:
  listing the writer's own earlier files is the case that deletes them. What retention
  reports is kept in order over the run; the writer's own log lines and observer calls,
  which only count what is modelled here, are left out.
\<close>

section \<open>Losses\<close>

datatype CaptureMode = kOptional | kStrict
datatype CaptureHealth = kEnabled | kDegraded | kStopped

datatype CaptureStop = kRecordTooLong | kQueueFull | kWriteFailed | kRetentionBudget

datatype CaptureStep = kCreate | kWrite | kFlush | kQueueFull | kRecordTooLong | kRetentionBudget

fun OptionalLossCode :: "CaptureStep \<Rightarrow> Code" where
  "OptionalLossCode kFlush = kCaptureFlushFailed"
| "OptionalLossCode CaptureStep.kQueueFull = kCaptureQueueFull"
| "OptionalLossCode CaptureStep.kRecordTooLong = kCaptureRecordTooLong"
| "OptionalLossCode CaptureStep.kRetentionBudget = kCaptureRetentionBudget"
| "OptionalLossCode kCreate = kCaptureWriteFailed"
| "OptionalLossCode kWrite = kCaptureWriteFailed"

fun CaptureStopName :: "CaptureStop \<Rightarrow> string" where
  "CaptureStopName CaptureStop.kRecordTooLong = ''record_too_long''"
| "CaptureStopName CaptureStop.kQueueFull = ''queue_full''"
| "CaptureStopName kWriteFailed = ''write_failed''"
| "CaptureStopName CaptureStop.kRetentionBudget = ''retention_budget''"

fun CaptureStepName :: "CaptureStep \<Rightarrow> string" where
  "CaptureStepName kCreate = ''create''"
| "CaptureStepName kWrite = ''write''"
| "CaptureStepName kFlush = ''flush''"
| "CaptureStepName CaptureStep.kQueueFull = ''queue_full''"
| "CaptureStepName CaptureStep.kRecordTooLong = ''record_too_long''"
| "CaptureStepName CaptureStep.kRetentionBudget = ''retention_budget''"

fun CaptureModeName :: "CaptureMode \<Rightarrow> string" where
  "CaptureModeName kOptional = ''optional''"
| "CaptureModeName kStrict = ''strict''"

fun CaptureHealthName :: "CaptureHealth \<Rightarrow> string" where
  "CaptureHealthName kEnabled = ''enabled''"
| "CaptureHealthName kDegraded = ''degraded''"
| "CaptureHealthName CaptureHealth.kStopped = ''stopped''"

fun StopAt :: "CaptureStep \<Rightarrow> CaptureStop" where
  "StopAt CaptureStep.kQueueFull = CaptureStop.kQueueFull"
| "StopAt CaptureStep.kRecordTooLong = CaptureStop.kRecordTooLong"
| "StopAt CaptureStep.kRetentionBudget = CaptureStop.kRetentionBudget"
| "StopAt kCreate = kWriteFailed"
| "StopAt kWrite = kWriteFailed"
| "StopAt kFlush = kWriteFailed"

text \<open>\<open>to_string\<close> is Boost's text of a UUID.\<close>

definition LostCapture :: "(uuid \<Rightarrow> string) \<Rightarrow> CaptureMode \<Rightarrow> uuid \<Rightarrow> CaptureStep \<Rightarrow> string \<Rightarrow> Failure" where
  "LostCapture to_string mode match step detail =
     \<lparr>fl_code = (if mode = kStrict then kStrictCaptureFailed else OptionalLossCode step),
      fl_context = [\<lparr>cx_key = ''match'', cx_value = to_string match\<rparr>,
                    \<lparr>cx_key = ''step'', cx_value = CaptureStepName step\<rparr>],
      fl_detail = detail\<rparr>"

section \<open>The writer\<close>

datatype Item = OpenItem uuid string "byte list" | RecordItem uuid "byte list" | CloseItem uuid

fun item_match :: "Item \<Rightarrow> uuid" where
  "item_match (OpenItem match path header) = match"
| "item_match (RecordItem match encoded) = match"
| "item_match (CloseItem match) = match"

fun is_record :: "Item \<Rightarrow> bool" where
  "is_record (RecordItem match encoded) = True"
| "is_record _ = False"

type_synonym Failed = "CaptureStep \<times> string"

datatype writer_thread = Waiting | Holding Item | Handled Item "Failed option"

definition nil_uuid :: uuid where "nil_uuid = replicate 16 0"

record writer =
  wr_mode :: CaptureMode
  wr_capacity :: nat
  wr_directory :: CaptureDirectory
  wr_disk :: disk
  wr_queue :: "Item list"
  wr_records_queued :: nat
  wr_stopped :: "uuid set"
  wr_open_match :: uuid
  wr_thread :: writer_thread
  wr_health :: CaptureHealth
  wr_loss :: "Failure option"
  wr_files :: "string \<Rightarrow> byte list option"
  wr_file_match :: uuid
  wr_path :: string
  wr_records :: nat

definition Writer_init :: "CaptureMode \<Rightarrow> nat \<Rightarrow> CaptureRetention \<Rightarrow> disk \<Rightarrow> writer" where
  "Writer_init mode capacity retention d =
     \<lparr>wr_mode = mode, wr_capacity = capacity, wr_directory = CaptureDirectory_init retention, wr_disk = d,
      wr_queue = [], wr_records_queued = 0, wr_stopped = {}, wr_open_match = nil_uuid, wr_thread = Waiting,
      wr_health = kEnabled, wr_loss = None, wr_files = (\<lambda>_. None), wr_file_match = nil_uuid, wr_path = [],
      wr_records = 0\<rparr>"

definition LoseLocked :: "(uuid \<Rightarrow> string) \<Rightarrow> uuid \<Rightarrow> CaptureStep \<Rightarrow> string \<Rightarrow> writer \<Rightarrow> writer" where
  "LoseLocked to_string match step detail s =
     (if wr_health s \<noteq> kEnabled then s
      else s\<lparr>wr_loss := Some (LostCapture to_string (wr_mode s) match step detail),
             wr_health := (if wr_mode s = kOptional then kDegraded else CaptureHealth.kStopped)\<rparr>)"

definition StopLocked :: "(uuid \<Rightarrow> string) \<Rightarrow> uuid \<Rightarrow> CaptureStep \<Rightarrow> string \<Rightarrow> writer \<Rightarrow> writer" where
  "StopLocked to_string match step detail s =
     (if match \<in> wr_stopped s then s
      else LoseLocked to_string match step detail (s\<lparr>wr_stopped := insert match (wr_stopped s)\<rparr>))"

definition StopCapturesLocked :: "writer \<Rightarrow> writer" where
  "StopCapturesLocked s =
     (if wr_health s = CaptureHealth.kStopped then s else s\<lparr>wr_health := CaptureHealth.kStopped\<rparr>)"

subsection \<open>The Simulation thread's calls\<close>

definition Writer_Begin :: "uuid \<Rightarrow> writer \<Rightarrow> writer" where
  "Writer_Begin match s = s\<lparr>wr_open_match := match\<rparr>"

definition Writer_Open :: "uuid \<Rightarrow> string \<Rightarrow> byte list \<Rightarrow> writer \<Rightarrow> writer" where
  "Writer_Open match path header s = s\<lparr>wr_queue := wr_queue s @ [OpenItem match path header]\<rparr>"

definition Writer_Close :: "uuid \<Rightarrow> writer \<Rightarrow> writer" where
  "Writer_Close match s =
     s\<lparr>wr_open_match := (if wr_open_match s = match then nil_uuid else wr_open_match s),
       wr_queue := wr_queue s @ [CloseItem match]\<rparr>"

definition Writer_Push :: "(uuid \<Rightarrow> string) \<Rightarrow> uuid \<Rightarrow> byte list \<Rightarrow> writer \<Rightarrow> writer" where
  "Writer_Push to_string match encoded s =
     (if match \<in> wr_stopped s \<or> wr_health s = CaptureHealth.kStopped then s
      else if wr_records_queued s \<ge> wr_capacity s then StopLocked to_string match CaptureStep.kQueueFull [] s
      else s\<lparr>wr_records_queued := wr_records_queued s + 1, wr_queue := wr_queue s @ [RecordItem match encoded]\<rparr>)"

definition Writer_Stop :: "(uuid \<Rightarrow> string) \<Rightarrow> uuid \<Rightarrow> CaptureStep \<Rightarrow> writer \<Rightarrow> writer" where
  "Writer_Stop to_string match step s = StopLocked to_string match step [] s"

text \<open>What \<open>WaitUntilWritten\<close> and \<open>Finish\<close> wait for.\<close>

definition all_written :: "writer \<Rightarrow> bool" where
  "all_written s \<longleftrightarrow> wr_queue s = [] \<and> wr_thread s = Waiting"

definition Writer_Finish :: "writer \<Rightarrow> writer" where
  "Writer_Finish s = StopCapturesLocked s"

subsection \<open>The writer thread\<close>

text \<open>
  How one write goes: whole and flushed, or failing at the write or the flush with so many
  of its bytes in the file, an exception included; what an item's handling meets: the
  directory's listing when a file is opened, whether it can be created, how its write
  goes, and an exception before anything is done.
\<close>

datatype write_end = Written | WriteFails nat string | FlushFails nat string

record io =
  io_listing :: disk
  io_created :: bool
  io_write :: write_end
  io_throws :: "string option"

text \<open>\<open>path.filename()\<close>, and the files left once a directory went from one state to another.\<close>

definition filename :: "string \<Rightarrow> string" where
  "filename path = rev (takeWhile (\<lambda>c. c \<noteq> CHR ''/'') (rev path))"

definition removed :: "disk \<Rightarrow> disk \<Rightarrow> string set" where
  "removed d d' = set (map de_name (dk_entries d)) - set (map de_name (dk_entries d'))"

definition without :: "string set \<Rightarrow> (string \<Rightarrow> byte list option) \<Rightarrow> string \<Rightarrow> byte list option" where
  "without names files = (\<lambda>path. if filename path \<in> names then None else files path)"

definition written_to :: "writer \<Rightarrow> string \<Rightarrow> byte list" where
  "written_to s path = (case wr_files s path of None \<Rightarrow> [] | Some bytes \<Rightarrow> bytes)"

definition append_file :: "byte list \<Rightarrow> writer \<Rightarrow> writer" where
  "append_file bytes s =
     s\<lparr>wr_files := (wr_files s)(wr_path s := Some (written_to s (wr_path s) @ bytes))\<rparr>"

definition Writer_Write :: "write_end \<Rightarrow> byte list \<Rightarrow> writer \<Rightarrow> Failed option \<times> writer" where
  "Writer_Write went encoded s =
     (case went of
        WriteFails n detail \<Rightarrow> (Some (kWrite, detail), append_file (take n encoded) s)
      | FlushFails n detail \<Rightarrow> (Some (kFlush, detail), append_file (take n encoded) s)
      | Written \<Rightarrow> (let s = append_file encoded s in (None, s\<lparr>wr_records := wr_records s + 1\<rparr>)))"

definition OpenFile ::
  "(string \<Rightarrow> bool) \<Rightarrow> io \<Rightarrow> uuid \<Rightarrow> string \<Rightarrow> byte list \<Rightarrow> writer \<Rightarrow> (Failed option \<times> writer) option" where
  "OpenFile match_id went match path header s =
     (let listing = (io_listing went)\<lparr>dk_reports := dk_reports (wr_disk s)\<rparr>
      in case Open match_id (wr_directory s) listing match (filename path) (word_of_nat (length header)) of
        None \<Rightarrow> None
      | Some (fits, cd, d) \<Rightarrow>
          (let s = s\<lparr>wr_directory := cd, wr_disk := d, wr_files := without (removed listing d) (wr_files s)\<rparr>
           in if \<not> fits then Some (Some (CaptureStep.kRetentionBudget, []), s)
              else if \<not> io_created went then Some (Some (kCreate, path), s)
              else Some (Writer_Write (io_write went) header
                (s\<lparr>wr_files := (wr_files s)(path := Some []), wr_file_match := match, wr_path := path, wr_records := 0\<rparr>))))"

definition Persist :: "io \<Rightarrow> byte list \<Rightarrow> writer \<Rightarrow> (Failed option \<times> writer) option" where
  "Persist went encoded s =
     (case Reserve (wr_directory s) (wr_disk s) (word_of_nat (length encoded)) of
        None \<Rightarrow> None
      | Some (fits, cd, d) \<Rightarrow>
          (let s = s\<lparr>wr_directory := cd, wr_disk := d, wr_files := without (removed (wr_disk s) d) (wr_files s)\<rparr>
           in if \<not> fits then Some (Some (CaptureStep.kRetentionBudget, []), s)
              else Some (Writer_Write (io_write went) encoded s)))"

definition CloseFile :: "uuid \<Rightarrow> writer \<Rightarrow> writer" where
  "CloseFile match s =
     (let s = s\<lparr>wr_stopped := wr_stopped s - {match}\<rparr>
      in if wr_file_match s \<noteq> match then s else s\<lparr>wr_file_match := nil_uuid\<rparr>)"

fun Handle :: "(string \<Rightarrow> bool) \<Rightarrow> io \<Rightarrow> Item \<Rightarrow> writer \<Rightarrow> (Failed option \<times> writer) option" where
  "Handle match_id went (OpenItem match path header) s = OpenFile match_id went match path header s"
| "Handle match_id went (RecordItem match encoded) s =
     (if wr_file_match s = match then Persist went encoded s else Some (None, s))"
| "Handle match_id went (CloseItem match) s = Some (None, CloseFile match s)"

text \<open>An exception before a file is touched, or from a closed file's log line.\<close>

definition HandleGuarded :: "(string \<Rightarrow> bool) \<Rightarrow> io \<Rightarrow> Item \<Rightarrow> writer \<Rightarrow> (Failed option \<times> writer) option" where
  "HandleGuarded match_id went item s =
     (case io_throws went of
        None \<Rightarrow> Handle match_id went item s
      | Some what \<Rightarrow>
          (case item of
             CloseItem match \<Rightarrow> Some (Some (kWrite, what), CloseFile match s)
           | _ \<Rightarrow> Some (Some (kWrite, what), s)))"

text \<open>One turn of \<open>Run\<close>'s loop: up to its unlock, its handling, and from its lock on.\<close>

definition Run_take :: "Item \<Rightarrow> Item list \<Rightarrow> writer \<Rightarrow> writer" where
  "Run_take item rest s =
     s\<lparr>wr_queue := rest, wr_thread := Holding item,
       wr_records_queued := (if is_record item then wr_records_queued s - 1 else wr_records_queued s)\<rparr>"

definition Run_finish :: "(uuid \<Rightarrow> string) \<Rightarrow> Item \<Rightarrow> Failed option \<Rightarrow> writer \<Rightarrow> writer" where
  "Run_finish to_string item loss s =
     (let s = s\<lparr>wr_thread := Waiting\<rparr>
      in case loss of
           None \<Rightarrow> s
         | Some (step, detail) \<Rightarrow>
             (let queue = filter (\<lambda>queued. \<not> (is_record queued \<and> item_match queued = item_match item)) (wr_queue s);
                  s = s\<lparr>wr_queue := queue, wr_records_queued := length (filter is_record queue)\<rparr>
              in StopLocked to_string (item_match item) step detail s))"

section \<open>Both threads\<close>

text \<open>
  What has been asked of the writer, kept beside it: where each Match's capture is, what
  was admitted of it in order (its header, then its records), the path it was opened at,
  the Matches a failed item has cut short, and what the Simulation thread handed in for
  each, admitted or not, until its capture stopped.
\<close>

datatype phase = Fresh | Opened | Closed

record history =
  hs_phase :: "uuid \<Rightarrow> phase"
  hs_admitted :: "uuid \<Rightarrow> byte list list"
  hs_path :: "uuid \<Rightarrow> string option"
  hs_broken :: "uuid set"
  hs_offered :: "uuid \<Rightarrow> byte list list"

definition history_init :: history where
  "history_init = \<lparr>hs_phase = (\<lambda>_. Fresh), hs_admitted = (\<lambda>_. []), hs_path = (\<lambda>_. None), hs_broken = {},
     hs_offered = (\<lambda>_. [])\<rparr>"

definition offer :: "uuid \<Rightarrow> byte list \<Rightarrow> writer \<Rightarrow> history \<Rightarrow> history" where
  "offer m encoded s h =
     (if m \<in> wr_stopped s then h else h\<lparr>hs_offered := (hs_offered h)(m := hs_offered h m @ [encoded])\<rparr>)"

text \<open>
  The calls come as the Capturer makes them: a Match is opened once, at a path of its own
  (\<open>CaptureFileName\<close> holds its Match ID), while none is open; nothing is handed in for it
  after its close; and \<open>Finish\<close> waits for the queue.
\<close>

inductive writer_step :: "(string \<Rightarrow> bool) \<Rightarrow> (uuid \<Rightarrow> string) \<Rightarrow> writer \<times> history \<Rightarrow> writer \<times> history \<Rightarrow> bool"
  for match_id to_string where
  begin_match: "writer_step match_id to_string (s, h) (Writer_Begin m s, h)"
| open_match: "m \<noteq> nil_uuid \<Longrightarrow> hs_phase h m = Fresh \<Longrightarrow> hs_admitted h m = [] \<Longrightarrow>
    hs_offered h m = [] \<Longrightarrow> (\<forall>m'. hs_path h m' \<noteq> Some path) \<Longrightarrow>
    (\<forall>m'. hs_phase h m' \<noteq> Opened) \<Longrightarrow>
    writer_step match_id to_string (s, h)
      (Writer_Open m path header s,
       h\<lparr>hs_phase := (hs_phase h)(m := Opened), hs_admitted := (hs_admitted h)(m := [header]),
         hs_path := (hs_path h)(m := Some path), hs_offered := (hs_offered h)(m := [header])\<rparr>)"
| push: "m \<noteq> nil_uuid \<Longrightarrow> hs_phase h m \<noteq> Closed \<Longrightarrow> s' = Writer_Push to_string m encoded s \<Longrightarrow>
    writer_step match_id to_string (s, h)
      (s', if wr_queue s' = wr_queue s then offer m encoded s h
           else (offer m encoded s h)\<lparr>hs_admitted := (hs_admitted h)(m := hs_admitted h m @ [encoded])\<rparr>)"
| stop: "writer_step match_id to_string (s, h) (Writer_Stop to_string m step s, h)"
| close: "hs_phase h m \<noteq> Closed \<Longrightarrow>
    writer_step match_id to_string (s, h) (Writer_Close m s, h\<lparr>hs_phase := (hs_phase h)(m := Closed)\<rparr>)"
| finish: "all_written s \<Longrightarrow> writer_step match_id to_string (s, h) (Writer_Finish s, h)"
| take_item: "wr_thread s = Waiting \<Longrightarrow> wr_queue s = item # rest \<Longrightarrow>
    writer_step match_id to_string (s, h) (Run_take item rest s, h)"
| handle_item: "wr_thread s = Holding item \<Longrightarrow> HandleGuarded match_id went item s = Some (loss, s') \<Longrightarrow>
    writer_step match_id to_string (s, h)
      (s'\<lparr>wr_thread := Handled item loss\<rparr>,
       if loss = None then h else h\<lparr>hs_broken := insert (item_match item) (hs_broken h)\<rparr>)"
| finish_item: "wr_thread s = Handled item loss \<Longrightarrow>
    writer_step match_id to_string (s, h) (Run_finish to_string item loss s, h)"

inductive writer_reachable ::
  "(string \<Rightarrow> bool) \<Rightarrow> (uuid \<Rightarrow> string) \<Rightarrow> writer \<Rightarrow> writer \<times> history \<Rightarrow> bool" for match_id to_string start where
  init: "writer_reachable match_id to_string start (start, history_init)"
| step: "writer_reachable match_id to_string start s \<Longrightarrow> writer_step match_id to_string s s' \<Longrightarrow>
    writer_reachable match_id to_string start s'"

end
