(* ===== verification/Capture_Name.thy ===== *)
theory Capture_Name
  imports Capture_Retention
begin

text \<open>
  The name of a Match's capture file (\<open>CaptureFileName\<close> of
  \<open>src/modules/host/capture_retention.cpp\<close>): its start in UTC to the millisecond, then its
  Match ID. The calendar is \<open>std::chrono\<close>'s proleptic Gregorian one. Names sort as their
  Matches started, which is what retention's oldest-first order rests on, and
  \<open>IsCaptureFileName\<close> knows them.
\<close>

section \<open>The calendar\<close>

definition leap_year :: "nat \<Rightarrow> bool" where
  "leap_year y \<longleftrightarrow> y mod 4 = 0 \<and> (y mod 100 \<noteq> 0 \<or> y mod 400 = 0)"

definition month_lengths :: "nat \<Rightarrow> nat list" where
  "month_lengths y = [31, if leap_year y then 29 else 28, 31, 30, 31, 30, 31, 31, 30, 31, 30, 31]"

definition year_length :: "nat \<Rightarrow> nat" where
  "year_length y = (if leap_year y then 366 else 365)"

lemma year_length_pos [simp]: "0 < year_length y"
  by (simp add: year_length_def)

lemma year_length_months: "sum_list (month_lengths y) = year_length y"
  by (simp add: month_lengths_def year_length_def)

text \<open>The year of the day \<open>d\<close> days after the first of the year \<open>y\<close>, and the day in it.\<close>

function year_of :: "nat \<Rightarrow> nat \<Rightarrow> nat \<times> nat" where
  "year_of y d = (if d < year_length y then (y, d) else year_of (y + 1) (d - year_length y))"
  by pat_completeness auto
termination
  by (relation "measure snd") (auto simp: year_length_def split: if_splits)

declare year_of.simps [simp del]

fun month_of :: "nat list \<Rightarrow> nat \<Rightarrow> nat \<times> nat" where
  "month_of [] d = (0, d)"
| "month_of (len # lens) d =
     (if d < len then (0, d) else (case month_of lens (d - len) of (m, r) \<Rightarrow> (m + 1, r)))"

text \<open>Year, month and day of the month, of a day since 1970-01-01.\<close>

definition civil :: "nat \<Rightarrow> nat \<times> nat \<times> nat" where
  "civil days =
     (case year_of 1970 days of (y, d) \<Rightarrow>
        (case month_of (month_lengths y) d of (m, r) \<Rightarrow> (y, m + 1, r + 1)))"

section \<open>The name\<close>

text \<open>\<open>std::format\<close>'s zero-padded field of at least \<open>w\<close> digits.\<close>

definition padded :: "nat \<Rightarrow> nat \<Rightarrow> string" where
  "padded w n = replicate (w - length (decimal n)) CHR ''0'' @ decimal n"

definition CaptureFileName :: "(uuid \<Rightarrow> string) \<Rightarrow> nat \<Rightarrow> uuid \<Rightarrow> string" where
  "CaptureFileName to_string started match =
     (let seconds = started div 1000;
          time = seconds mod 86400
      in case civil (seconds div 86400) of (y, m, d) \<Rightarrow>
           padded 4 y @ padded 2 m @ padded 2 d @ ''T'' @
           padded 2 (time div 3600) @ padded 2 (time div 60 mod 60) @ padded 2 (time mod 60) @
           padded 3 (started - seconds * 1000) @ ''Z-'' @ to_string match @ kExtension)"

section \<open>The order of dates\<close>

lemma year_of_year: "y \<le> fst (year_of y d)"
  by (induction y d rule: year_of.induct) (subst year_of.simps, auto dest: Suc_leD)

lemma year_of_mono:
  "d < d' \<Longrightarrow> fst (year_of y d) < fst (year_of y d') \<or>
     fst (year_of y d) = fst (year_of y d') \<and> snd (year_of y d) < snd (year_of y d')"
proof (induction y d arbitrary: d' rule: year_of.induct)
  case (1 y d)
  show ?case
  proof (cases "d' < year_length y")
    case True
    then show ?thesis using "1.prems" by (simp add: year_of.simps)
  next
    case False
    then have d': "year_of y d' = year_of (y + 1) (d' - year_length y)" by (subst year_of.simps) simp
    show ?thesis
    proof (cases "d < year_length y")
      case True
      then show ?thesis using d' year_of_year [of "y + 1" "d' - year_length y"] by (simp add: year_of.simps [of y d])
    next
      case gt: False
      then have "year_of y d = year_of (y + 1) (d - year_length y)" by (subst year_of.simps) simp
      then show ?thesis using "1.IH" [OF gt, of "d' - year_length y"] "1.prems" gt d' by simp
    qed
  qed
qed

lemma year_of_day: "snd (year_of y d) < year_length (fst (year_of y d))"
proof (induction y d rule: year_of.induct)
  case (1 y d)
  then show ?case by (cases "d < year_length y") (simp_all add: year_of.simps [of y d])
qed

lemma month_of_mono:
  "d < d' \<Longrightarrow> d' < sum_list lens \<Longrightarrow> fst (month_of lens d) < fst (month_of lens d') \<or>
     fst (month_of lens d) = fst (month_of lens d') \<and> snd (month_of lens d) < snd (month_of lens d')"
proof (induction lens d arbitrary: d' rule: month_of.induct)
  case (2 len lens d)
  show ?case
  proof (cases "d < len")
    case True
    then show ?thesis using "2.prems" by (auto split: prod.splits)
  next
    case False
    then show ?thesis using "2.IH" [of "d' - len"] "2.prems" by (auto split: prod.splits)
  qed
qed simp

lemma month_of_bounds:
  "d < sum_list lens \<Longrightarrow> fst (month_of lens d) < length lens \<and> snd (month_of lens d) < lens ! fst (month_of lens d)"
  by (induction lens d rule: month_of.induct) (auto split: prod.splits)

text \<open>A date as the number its eight digits spell.\<close>

definition date_number :: "nat \<times> nat \<times> nat \<Rightarrow> nat" where
  "date_number date = (case date of (y, m, d) \<Rightarrow> (y * 100 + m) * 100 + d)"

lemma length_months: "length (month_lengths y) = 12"
  by (simp add: month_lengths_def)

lemma month_lengths_le: "len \<in> set (month_lengths y) \<Longrightarrow> len \<le> 31"
  by (auto simp: month_lengths_def split: if_splits)

lemma civil_bounds:
  assumes "civil days = (y, m, d)"
  shows "1970 \<le> y \<and> 1 \<le> m \<and> m \<le> 12 \<and> 1 \<le> d \<and> d \<le> 31"
proof -
  obtain y' r where y: "year_of 1970 days = (y', r)" by fastforce
  obtain m' s where m: "month_of (month_lengths y') r = (m', s)" by fastforce
  have "r < sum_list (month_lengths y')" using year_of_day [of 1970 days] y by (simp add: year_length_months)
  from month_of_bounds [OF this] m have "m' < 12" "s < month_lengths y' ! m'" by (simp_all add: length_months)
  moreover have "month_lengths y' ! m' \<le> 31"
    using month_lengths_le [OF nth_mem, of m' y'] \<open>m' < 12\<close> by (simp add: length_months)
  ultimately show ?thesis using assms y m year_of_year [of 1970 days] by (auto simp: civil_def)
qed

lemma civil_mono:
  assumes "days < days'"
  shows "date_number (civil days) < date_number (civil days')"
proof -
  obtain y r y' r' where y: "year_of 1970 days = (y, r)" "year_of 1970 days' = (y', r')" by fastforce
  obtain m s m' s' where m: "month_of (month_lengths y) r = (m, s)" "month_of (month_lengths y') r' = (m', s')" by fastforce
  have civil: "civil days = (y, m + 1, s + 1)" "civil days' = (y', m' + 1, s' + 1)" by (simp_all add: civil_def y m)
  note bounds = civil_bounds [OF civil(1)] civil_bounds [OF civil(2)]
  have "y < y' \<or> y = y' \<and> (m < m' \<or> m = m' \<and> s < s')"
  proof (cases "y = y'")
    case True
    then have "r < r'" "r' < sum_list (month_lengths y)"
      using year_of_mono [OF assms, of 1970] year_of_day [of 1970 days'] by (simp_all add: y year_length_months)
    from month_of_mono [OF this] show ?thesis using m True by simp
  next
    case False
    then show ?thesis using year_of_mono [OF assms, of 1970] by (simp add: y)
  qed
  then show ?thesis using bounds by (auto simp: civil date_number_def)
qed

section \<open>Digits\<close>

text \<open>The \<open>w\<close> digits of a number below \<open>10 ^ w\<close>.\<close>

primrec digits :: "nat \<Rightarrow> nat \<Rightarrow> string" where
  "digits 0 n = []"
| "digits (Suc w) n = digits w (n div 10) @ [char_of (48 + n mod 10)]"

lemma length_digits [simp]: "length (digits w n) = w"
  by (induction w arbitrary: n) simp_all

lemma zero_char: "char_of (48 :: nat) = CHR ''0''"
  by code_simp

lemma digits_0: "digits w 0 = replicate w CHR ''0''"
  by (induction w) (simp_all add: zero_char replicate_append_same)

lemma decimal_length: "n < 10 ^ w \<Longrightarrow> 0 < w \<Longrightarrow> length (decimal n) \<le> w"
proof (induction w arbitrary: n)
  case (Suc w)
  then show ?case using decimal.simps [of n] by (cases w) (auto simp: div_less_iff_less_mult)
qed simp

lemma padded_digits: "n < 10 ^ w \<Longrightarrow> 0 < w \<Longrightarrow> padded w n = digits w n"
proof (induction w arbitrary: n)
  case (Suc w)
  show ?case
  proof (cases "n < 10")
    case True
    then show ?thesis by (simp add: padded_def decimal.simps [of n] digits_0 replicate_append_same)
  next
    case False
    then have "0 < w" using Suc.prems by (cases w) auto
    moreover have "n div 10 < 10 ^ w" using Suc.prems by (simp add: div_less_iff_less_mult)
    ultimately show ?thesis using Suc.IH [of "n div 10"] False
      by (simp add: padded_def decimal.simps [of n] Suc_diff_le)
  qed
qed simp

lemma digits_append: "digits (v + w) n = digits v (n div 10 ^ w) @ digits w n"
  by (induction w arbitrary: n) (simp_all add: div_mult2_eq)

lemma digits_pair: "b < 10 ^ w \<Longrightarrow> digits v a @ digits w b = digits (v + w) (a * 10 ^ w + b)"
proof -
  have "digits w b = digits w (a * 10 ^ w + b)" if "b < 10 ^ w"
    using that
  proof (induction w arbitrary: b)
    case (Suc w)
    have "a * 10 ^ Suc w + b = b + 10 * (a * 10 ^ w)" by simp
    then have "(a * 10 ^ Suc w + b) div 10 = a * 10 ^ w + b div 10" "(a * 10 ^ Suc w + b) mod 10 = b mod 10"
      by (simp_all only: div_mult_self2 mod_mult_self2)
    moreover have "b div 10 < 10 ^ w" using Suc.prems by (simp add: div_less_iff_less_mult)
    ultimately show ?case using Suc.IH [of "b div 10"] by (simp only: digits.simps)
  qed simp
  moreover assume "b < 10 ^ w"
  ultimately show ?thesis by (simp add: digits_append)
qed


lemma char_digit_less: "a < 10 \<Longrightarrow> b < 10 \<Longrightarrow> (char_of (48 + a) :: char) < char_of (48 + b) \<longleftrightarrow> (a :: nat) < b"
  by (simp add: less_char_def)

lemma char_digit_eq: "a < 10 \<Longrightarrow> b < 10 \<Longrightarrow> (char_of (48 + a) :: char) = char_of (48 + b) \<longleftrightarrow> (a :: nat) = b"
  using char_digit_less [of a b] char_digit_less [of b a] by (metis less_irrefl linorder_neqE_nat)

lemma less_append: "length xs = length ys \<Longrightarrow> (xs :: string) @ us < ys @ vs \<longleftrightarrow> xs < ys \<or> xs = ys \<and> us < vs"
  by (induction xs ys rule: list_induct2) auto

lemma digits_eq: "a < 10 ^ w \<Longrightarrow> b < 10 ^ w \<Longrightarrow> digits w a = digits w b \<longleftrightarrow> a = b"
proof (induction w arbitrary: a b)
  case (Suc w)
  have "a div 10 < 10 ^ w" "b div 10 < 10 ^ w" using Suc.prems by (simp_all add: div_less_iff_less_mult)
  then show ?case using Suc.IH [of "a div 10" "b div 10"]
    by (auto simp: char_digit_eq) (metis div_mult_mod_eq)
qed simp

lemma lex_ten:
  "r < 10 \<Longrightarrow> s < 10 \<Longrightarrow> 10 * p + r < 10 * q + s \<longleftrightarrow> p < q \<or> p = q \<and> r < (s :: nat)"
  by auto

lemma digits_less: "a < 10 ^ w \<Longrightarrow> b < 10 ^ w \<Longrightarrow> digits w a < digits w b \<longleftrightarrow> a < b"
proof (induction w arbitrary: a b)
  case (Suc w)
  have small: "a div 10 < 10 ^ w" "b div 10 < 10 ^ w" using Suc.prems by (simp_all add: div_less_iff_less_mult)
  have "a < b \<longleftrightarrow> a div 10 < b div 10 \<or> a div 10 = b div 10 \<and> a mod 10 < b mod 10"
    using lex_ten [of "a mod 10" "b mod 10" "a div 10" "b div 10"] by (simp add: mult.commute [of 10])
  then show ?case using Suc.IH [OF small] digits_eq [OF small]
    by (simp add: less_append char_digit_less)
qed simp

section \<open>The order of names\<close>

text \<open>A name's date and time of day as numbers, for starts before the year 10000.\<close>

definition four_digit_year :: "nat \<Rightarrow> bool" where
  "four_digit_year started \<longleftrightarrow> fst (civil (started div 1000 div 86400)) < 10000"

definition day_time :: "nat \<Rightarrow> nat" where
  "day_time started =
     (let time = started div 1000 mod 86400
      in ((time div 3600 * 100 + time div 60 mod 60) * 100 + time mod 60) * 1000 + started mod 1000)"

lemma day_time_less: "day_time started < 10 ^ 9"
proof -
  have "((h * 100 + mi) * 100 + s) * 1000 + ms < 10 ^ 9" if "h < 24" "mi < 60" "s < 60" "ms < 1000" for h mi s ms :: nat
    using that by simp
  from this [of "started div 1000 mod 86400 div 3600" "started div 1000 mod 86400 div 60 mod 60"
      "started div 1000 mod 86400 mod 60" "started mod 1000"]
  show ?thesis by (simp add: day_time_def Let_def div_less_iff_less_mult)
qed

lemma digits_date:
  "m < 100 \<Longrightarrow> d < 100 \<Longrightarrow> digits 4 y @ digits 2 m @ digits 2 d = digits 8 ((y * 100 + m) * 100 + d)"
  using digits_pair [of m 2 4 y] digits_pair [of d 2 6 "y * 100 + m"] by (simp flip: append_assoc)

lemma digits_time:
  "m < 100 \<Longrightarrow> s < 100 \<Longrightarrow> ms < 1000 \<Longrightarrow>
   digits 2 h @ digits 2 m @ digits 2 s @ digits 3 ms = digits 9 (((h * 100 + m) * 100 + s) * 1000 + ms)"
  using digits_pair [of m 2 2 h] digits_pair [of s 2 4 "h * 100 + m"] digits_pair [of ms 3 6 "(h * 100 + m) * 100 + s"]
  by (simp flip: append_assoc)

lemma padded_time:
  "h < 100 \<Longrightarrow> m < 100 \<Longrightarrow> s < 100 \<Longrightarrow> ms < 1000 \<Longrightarrow>
   padded 2 h @ padded 2 m @ padded 2 s @ padded 3 ms = digits 9 (((h * 100 + m) * 100 + s) * 1000 + ms)"
  using digits_time [of m s ms h] by (simp add: padded_digits)

lemma CaptureFileName_digits:
  assumes "four_digit_year started"
  shows "CaptureFileName to_string started match =
     digits 8 (date_number (civil (started div 1000 div 86400))) @ ''T'' @ digits 9 (day_time started) @ ''Z-'' @
     to_string match @ kExtension"
proof -
  let ?time = "started div 1000 mod 86400"
  obtain y m d where civil: "civil (started div 1000 div 86400) = (y, m, d)" by (metis prod_cases3)
  note bounds = civil_bounds [OF civil]
  have y: "y < 10 ^ 4" using assms civil by (simp add: four_digit_year_def)
  have small: "m < 10 ^ 2" "d < 10 ^ 2" using bounds by simp_all
  have time: "?time div 3600 < 10 ^ 2" "?time div 60 mod 60 < 10 ^ 2" "?time mod 60 < 10 ^ 2" "started mod 1000 < 10 ^ 3"
    using mod_less_divisor [of 60 "?time div 60"] mod_less_divisor [of 60 ?time]
    by (simp_all add: div_less_iff_less_mult del: mod_less_divisor)
  have "padded 4 y @ padded 2 m @ padded 2 d = digits 8 (date_number (y, m, d))"
    using y small digits_date [of m d y] by (simp add: padded_digits date_number_def)
  moreover have "padded 2 (?time div 3600) @ padded 2 (?time div 60 mod 60) @ padded 2 (?time mod 60) @
      padded 3 (started mod 1000) = digits 9 (day_time started)"
    unfolding day_time_def Let_def by (rule padded_time) (use time in simp_all)
  moreover have "started - started div 1000 * 1000 = started mod 1000"
    by (simp add: minus_div_mult_eq_mod)
  ultimately show ?thesis by (simp add: CaptureFileName_def Let_def civil flip: append_assoc)
qed

lemma lex_base:
  assumes "r < k" and "s < (k :: nat)"
  shows "p * k + r < q * k + s \<longleftrightarrow> p < q \<or> p = q \<and> r < s"
proof -
  have "p * k + r < q * k + s" if "p < q" "r < k" for p q r s
  proof -
    have "Suc p * k \<le> q * k" using that by (intro mult_le_mono1) simp
    then show ?thesis using that by simp
  qed
  from this [of p q r s] this [of q p s r] show ?thesis using assms by (cases p q rule: linorder_cases) auto
qed

lemma lex_div: "0 < k \<Longrightarrow> a < b \<longleftrightarrow> a div k < b div k \<or> a div k = b div k \<and> a mod k < (b mod k :: nat)"
  using lex_base [of "a mod k" k "b mod k" "a div k" "b div k"] by simp

lemma sixty_mono:
  assumes "t < (t' :: nat)"
  shows "(t div 3600 * 100 + t div 60 mod 60) * 100 + t mod 60 < (t' div 3600 * 100 + t' div 60 mod 60) * 100 + t' mod 60"
proof -
  have hours: "u div 3600 = u div 60 div 60" for u :: nat by (simp add: div_mult2_eq [of u 60 60, simplified])
  have less: "u mod 60 < 100" for u :: nat using mod_less_divisor [of 60 u] by simp
  have minutes: "u div 60 * 100 + u mod 60 < v div 60 * 100 + v mod 60 \<longleftrightarrow> u < v" for u v :: nat
    using lex_base [of "u mod 60" 100 "v mod 60" "u div 60" "v div 60"] less lex_div [of 60 u v] by simp
  have minutes_eq: "u div 60 * 100 + u mod 60 = v div 60 * 100 + v mod 60 \<longleftrightarrow> u = v" for u v :: nat
    using minutes [of u v] minutes [of v u] by (metis linorder_neqE_nat less_irrefl)
  show ?thesis unfolding hours using assms lex_div [of 60 t t'] lex_base [of "t mod 60" 100 "t' mod 60"
    "t div 60 div 60 * 100 + t div 60 mod 60" "t' div 60 div 60 * 100 + t' div 60 mod 60"] less minutes [of "t div 60" "t' div 60"] minutes_eq [of "t div 60" "t' div 60"]
    by simp
qed

lemma day_time_mono:
  assumes "started < started'" and "started div 1000 div 86400 = started' div 1000 div 86400"
  shows "day_time started < day_time started'"
proof -
  let ?t = "started div 1000 mod 86400" and ?t' = "started' div 1000 mod 86400"
  have "started div 1000 < started' div 1000 \<or> started div 1000 = started' div 1000 \<and> started mod 1000 < started' mod 1000"
    using lex_div [of 1000 started started'] assms(1) by simp
  moreover have "started div 1000 < started' div 1000 \<Longrightarrow> ?t < ?t'"
    using lex_div [of 86400 "started div 1000" "started' div 1000"] assms(2) by simp
  ultimately have "?t < ?t' \<or> ?t = ?t' \<and> started mod 1000 < started' mod 1000" by auto
  then show ?thesis using sixty_mono [of ?t ?t'] unfolding day_time_def Let_def
    by (subst lex_base) auto
qed

lemma digits_IsDigit: "list_all IsDigit (digits w n)"
proof (induction w arbitrary: n)
  case (Suc w)
  have "IsDigit (char_of (48 + n mod 10))" by (simp add: IsDigit_def less_eq_char_def)
  then show ?case using Suc by simp
qed simp

lemma list_all2_replicate: "list_all2 P (replicate n x) ys \<longleftrightarrow> length ys = n \<and> list_all (P x) ys"
proof (induction n arbitrary: ys)
  case (Suc n)
  then show ?case by (cases ys) auto
qed auto

lemma IsCaptureFileName_parts:
  assumes "list_all2 (\<lambda>pattern c. if pattern = CHR ''D'' then IsDigit c else pattern = c) kStart start"
    and "length start = length kStart" and "match_id match" and "4 \<le> length match"
  shows "IsCaptureFileName match_id (start @ match @ kExtension)"
proof -
  have "drop (length (start @ match @ kExtension) - length kExtension) (start @ match @ kExtension) = kExtension"
    by simp
  moreover have "take (length (start @ match @ kExtension) - length kStart - length kExtension)
      (drop (length kStart) (start @ match @ kExtension)) = match"
    using assms(2) by simp
  moreover have "take (length kStart) (start @ match @ kExtension) = start" using assms(2) by simp
  ultimately show ?thesis using assms by (simp add: IsCaptureFileName_def Let_def kNumberDigits_def)
qed

lemma kStart_shape: "kStart = replicate 8 CHR ''D'' @ ''T'' @ replicate 9 CHR ''D'' @ ''Z-''"
  by code_simp

text \<open>
  C37: captures sort as their Matches started. A capture's name is one retention knows for a
  capture, and of two Matches started at different milliseconds before the year 10000 the
  earlier one's name sorts first, so sorting names is oldest first. Two captures have the
  same name only if they started together and their Match IDs are written the same.
\<close>

theorem capture_names_sort:
  assumes "four_digit_year a" and "four_digit_year b"
    and "\<And>m. match_id (to_string m)" and "\<And>m. 4 \<le> length (to_string m)"
  shows "IsCaptureFileName match_id (CaptureFileName to_string a m) \<and>
    (a < b \<longrightarrow> CaptureFileName to_string a m < CaptureFileName to_string b n) \<and>
    (CaptureFileName to_string a m = CaptureFileName to_string b n \<longleftrightarrow> a = b \<and> to_string m = to_string n)"
proof -
  let ?d = "\<lambda>t. digits 8 (date_number (civil (t div 1000 div 86400)))" and ?t = "\<lambda>t. digits 9 (day_time t)"
  have date: "date_number (civil (t div 1000 div 86400)) < 10 ^ 8" if "four_digit_year t" for t
  proof -
    obtain y m d where civil: "civil (t div 1000 div 86400) = (y, m, d)" by (metis prod_cases3)
    then show ?thesis using civil_bounds [OF civil] that by (simp add: four_digit_year_def date_number_def)
  qed
  note names = CaptureFileName_digits [OF assms(1), of to_string m] CaptureFileName_digits [OF assms(2), of to_string n]
  have days: "date_number (civil x) < date_number (civil y) \<longleftrightarrow> x < y" for x y
    using civil_mono [of x y] civil_mono [of y x] by (metis less_asym less_irrefl linorder_neqE_nat)
  have before: "x < y \<Longrightarrow> four_digit_year x \<Longrightarrow> four_digit_year y \<Longrightarrow> ?d x < ?d y \<or> ?d x = ?d y \<and> ?t x < ?t y" for x y
  proof -
    assume le: "x < y" and four: "four_digit_year x" "four_digit_year y"
    have "x div 1000 div 86400 \<le> y div 1000 div 86400" using le by (intro div_le_mono) simp
    then show "?d x < ?d y \<or> ?d x = ?d y \<and> ?t x < ?t y"
      using day_time_mono [OF le] digits_less [OF date date, OF four] days
        digits_less [OF day_time_less day_time_less, of x y] by (auto simp: order_le_less)
  qed
  have less: "a < b \<longrightarrow> CaptureFileName to_string a m < CaptureFileName to_string b n"
    unfolding names using before [of a b] assms(1,2) by (auto simp: less_append)
  have eq: "CaptureFileName to_string a m = CaptureFileName to_string b n \<longleftrightarrow> a = b \<and> to_string m = to_string n"
  proof
    assume same: "CaptureFileName to_string a m = CaptureFileName to_string b n"
    then have parts: "?d a = ?d b" "?t a = ?t b" "to_string m = to_string n" unfolding names by simp_all
    then show "a = b \<and> to_string m = to_string n" using before [of a b] before [of b a] assms(1,2)
      by (metis less_irrefl linorder_neqE_nat)
  qed (unfold names, simp)
  have known: "IsCaptureFileName match_id (CaptureFileName to_string a m)"
  proof -
    let ?name = "CaptureFileName to_string a m" and ?start = "?d a @ ''T'' @ ?t a @ ''Z-''"
    have name: "?name = ?start @ to_string m @ kExtension" unfolding names by simp
    have "list_all2 (\<lambda>pattern c. if pattern = CHR ''D'' then IsDigit c else pattern = c) kStart ?start"
      unfolding kStart_shape by (intro list_all2_appendI) (simp_all add: list_all2_replicate digits_IsDigit)
    moreover have "length ?start = length kStart" by (simp add: kStart_def)
    ultimately show ?thesis unfolding name by (intro IsCaptureFileName_parts assms(3,4))
  qed
  show ?thesis using known less eq by blast
qed

theorem capture_names_sort_witness:
  "IsCaptureFileName (\<lambda>_. True) (CaptureFileName (\<lambda>_. ''match'') 999 []) \<and>
   CaptureFileName (\<lambda>_. ''match'') 999 [] < CaptureFileName (\<lambda>_. ''match'') 1000 []"
proof -
  have "civil 0 = (1970, 1, 1)" by (simp add: civil_def year_of.simps year_length_def leap_year_def month_lengths_def)
  then have "four_digit_year 999" "four_digit_year 1000" by (simp_all add: four_digit_year_def)
  from capture_names_sort [OF this, of "\<lambda>_. True" "\<lambda>_. ''match''"] show ?thesis by simp
qed

end
