(* ===== verification/Capturer.thy ===== *)
theory Capturer
  imports Capture_Writer Capture_Name
begin

text \<open>
  The Capturer (\<open>src/modules/host/capturer.cpp\<close>): what the Simulation thread tells it of a
  Match, encoded and handed to the writer. Each operation yields the writer's calls it
  makes, in order, and the Capturer after it. The Link's codec, the position grid's snap
  and Boost's UUID text are parameters; the writer's health, which its thread may change at
  any moment, is an argument where it is asked.
\<close>

section \<open>State\<close>

type_synonym EntityId = u32

record CaptureEntrant =
  ce_session :: uuid
  ce_entity :: EntityId
  ce_character :: string
  ce_spawn :: vec3

record capturer =
  cp_directory :: string
  cp_header :: Header
  cp_match :: uuid
  cp_open :: bool
  cp_first_tick :: u64
  cp_players :: "(EntityId \<times> Player) list"
  cp_sessions :: "(uuid \<times> Player) list"
  cp_failed :: bool

definition Capturer_init :: "string \<Rightarrow> Header \<Rightarrow> capturer" where
  "Capturer_init directory header =
     \<lparr>cp_directory = directory, cp_header = header, cp_match = nil_uuid, cp_open = False, cp_first_tick = 0,
      cp_players = [], cp_sessions = [], cp_failed = False\<rparr>"

datatype WriterCall =
    BeginCall uuid
  | OpenCall uuid string "byte list"
  | PushCall uuid "byte list"
  | StopCall uuid CaptureStep
  | CloseCall uuid

record capture_codec =
  cc_encode :: "CaptureRecord \<Rightarrow> byte list option"
  cc_to_string :: "uuid \<Rightarrow> string"
  cc_snap :: "vec3 \<Rightarrow> vec3"

text \<open>\<open>directory / name\<close>, and \<open>emplace\<close>, which keeps what a key already has.\<close>

definition path_join :: "string \<Rightarrow> string \<Rightarrow> string" where
  "path_join directory name =
     (if directory = [] \<or> List.last directory = CHR ''/'' then directory @ name else directory @ ''/'' @ name)"

definition emplace :: "'k \<Rightarrow> 'v \<Rightarrow> ('k \<times> 'v) list \<Rightarrow> ('k \<times> 'v) list" where
  "emplace key v entries = (if map_of entries key = None then entries @ [(key, v)] else entries)"

section \<open>Offsets\<close>

text \<open>The ticks as signed 64-bit integers; their difference overflows for none below \<open>2 ^ 62\<close>.\<close>

definition Offset :: "u64 \<Rightarrow> u64 \<Rightarrow> int" where
  "Offset since to = sint to - sint since"

definition clamp :: "int \<Rightarrow> int \<Rightarrow> int \<Rightarrow> int" where
  "clamp v low high = (if v < low then low else if high < v then high else v)"

definition OffsetOf :: "capturer \<Rightarrow> u64 \<Rightarrow> u32" where
  "OffsetOf cp tick = word_of_int (clamp (Offset (cp_first_tick cp) tick) 0 (2 ^ 32 - 1))"

definition PlayerOf :: "capturer \<Rightarrow> EntityId \<Rightarrow> Player" where
  "PlayerOf cp entity = (case map_of (cp_players cp) entity of None \<Rightarrow> 0 | Some player \<Rightarrow> player)"

section \<open>Operations\<close>

text \<open>
  \<open>Admit\<close>: the bytes, or why there are none. A codec's failure is the server's own bug,
  kept for Host; a record too long stops the capture.
\<close>

definition Capturer_Admit :: "EncodeError + byte list \<Rightarrow> capturer \<Rightarrow> byte list option \<times> WriterCall list \<times> capturer" where
  "Capturer_Admit encoded cp =
     (case encoded of
        Inr bytes \<Rightarrow> (Some bytes, [], cp)
      | Inl CodecFailure \<Rightarrow> (None, [], cp\<lparr>cp_failed := True\<rparr>)
      | Inl RecordTooLong \<Rightarrow> (None, [StopCall (cp_match cp) CaptureStep.kRecordTooLong], cp))"

definition Capturer_Queue :: "EncodeError + byte list \<Rightarrow> capturer \<Rightarrow> WriterCall list \<times> capturer" where
  "Capturer_Queue encoded cp =
     (case Capturer_Admit encoded cp of
        (Some bytes, calls, cp) \<Rightarrow> (calls @ [PushCall (cp_match cp) bytes], cp)
      | (None, calls, cp) \<Rightarrow> (calls, cp))"

fun queue_joins :: "capture_codec \<Rightarrow> CaptureEntrant list \<Rightarrow> capturer \<Rightarrow> WriterCall list \<times> capturer" where
  "queue_joins codec [] cp = ([], cp)"
| "queue_joins codec (entrant # entrants) cp =
     (let player = word_of_nat (length (cp_players cp) + 1);
          cp = cp\<lparr>cp_players := emplace (ce_entity entrant) player (cp_players cp),
                  cp_sessions := emplace (ce_session entrant) player (cp_sessions cp)\<rparr>
      in case Capturer_Queue (EncodeJoin (cc_encode codec) player
             \<lparr>jo_session = ce_session entrant, jo_character = ce_character entrant,
              jo_spawn = cc_snap codec (ce_spawn entrant)\<rparr>) cp of
           (calls, cp) \<Rightarrow>
             (case queue_joins codec entrants cp of (queued, cp) \<Rightarrow> (calls @ queued, cp)))"

definition Capturer_StartMatch ::
  "capture_codec \<Rightarrow> CaptureHealth \<Rightarrow> uuid \<Rightarrow> CaptureEntrant list \<Rightarrow> u64 \<Rightarrow> nat \<Rightarrow> capturer \<Rightarrow> WriterCall list \<times> capturer" where
  "Capturer_StartMatch codec health match players first_tick started cp =
     (case (if cp_open cp then ([CloseCall (cp_match cp)], cp\<lparr>cp_open := False\<rparr>) else ([], cp)) of
        (closing, cp) \<Rightarrow>
          if health = CaptureHealth.kStopped then (closing, cp)
          else
            let cp = cp\<lparr>cp_match := match, cp_open := True, cp_first_tick := first_tick, cp_players := [], cp_sessions := []\<rparr>;
                header = (cp_header cp)\<lparr>hd_match := match, hd_started := int started\<rparr>
            in case Capturer_Admit (EncodeHeader (cc_encode codec) header) cp of
                 (None, calls, cp) \<Rightarrow> (closing @ [BeginCall match] @ calls, cp)
               | (Some bytes, calls, cp) \<Rightarrow>
                   (case queue_joins codec players cp of
                      (queued, cp) \<Rightarrow>
                        (closing @ [BeginCall match] @ calls @
                         [OpenCall match (path_join (cp_directory cp) (CaptureFileName (cc_to_string codec) started match)) bytes] @
                         queued, cp)))"

definition Capturer_Command :: "capture_codec \<Rightarrow> u64 \<Rightarrow> EntityId \<Rightarrow> Command \<Rightarrow> capturer \<Rightarrow> WriterCall list \<times> capturer" where
  "Capturer_Command codec tick entity command cp =
     (let player = PlayerOf cp entity
      in if \<not> cp_open cp \<or> player = 0 then ([], cp)
         else let seen = clamp (Offset (cp_first_tick cp) (cm_seen_tick command)) (- (2 ^ 31)) (2 ^ 31 - 1);
                  captured = command\<lparr>cm_seen_tick := 0\<rparr>
              in Capturer_Queue (EncodeEvent (cc_encode codec)
                   \<lparr>at_offset = OffsetOf cp tick, at_event = CapturedCommand player seen captured\<rparr>) cp)"

definition Capturer_Leave :: "capture_codec \<Rightarrow> u64 \<Rightarrow> EntityId \<Rightarrow> capturer \<Rightarrow> WriterCall list \<times> capturer" where
  "Capturer_Leave codec tick entity cp =
     (let player = PlayerOf cp entity
      in if \<not> cp_open cp \<or> player = 0 then ([], cp)
         else Capturer_Queue (EncodeEvent (cc_encode codec)
                \<lparr>at_offset = OffsetOf cp tick, at_event = Leave player\<rparr>) cp)"

definition Capturer_Death :: "capture_codec \<Rightarrow> u64 \<Rightarrow> EntityId \<Rightarrow> EntityId \<Rightarrow> capturer \<Rightarrow> WriterCall list \<times> capturer" where
  "Capturer_Death codec tick victim killer cp =
     (let dead = PlayerOf cp victim
      in if \<not> cp_open cp \<or> dead = 0 then ([], cp)
         else Capturer_Queue (EncodeEvent (cc_encode codec)
                \<lparr>at_offset = OffsetOf cp tick, at_event = Death dead (PlayerOf cp killer)\<rparr>) cp)"

definition Capturer_EndMatch :: "capture_codec \<Rightarrow> u64 \<Rightarrow> uuid option \<Rightarrow> capturer \<Rightarrow> WriterCall list \<times> capturer" where
  "Capturer_EndMatch codec last_tick winner cp =
     (if \<not> cp_open cp then ([], cp)
      else let winning = (case winner of None \<Rightarrow> None | Some session \<Rightarrow> map_of (cp_sessions cp) session)
           in case Capturer_Queue (EncodeEvent (cc_encode codec)
                  \<lparr>at_offset = OffsetOf cp last_tick, at_event = MatchEnd winning\<rparr>) cp of
                (calls, cp) \<Rightarrow> (calls @ [CloseCall (cp_match cp)], cp\<lparr>cp_open := False, cp_players := [], cp_sessions := []\<rparr>))"

text \<open>\<open>Finish\<close>, once the writer has finished (\<open>Writer_Finish\<close>); nothing is told after it.\<close>

definition Capturer_Finish :: "capturer \<Rightarrow> capturer" where
  "Capturer_Finish cp = cp\<lparr>cp_open := False\<rparr>"

text \<open>\<open>Loss\<close>: the health says without the lock that nothing was lost.\<close>

definition Capturer_Loss :: "writer \<Rightarrow> Failure option" where
  "Capturer_Loss s = (if wr_health s = kEnabled then None else wr_loss s)"

section \<open>A run of the Capturer\<close>

datatype CaptureInput =
    StartIn CaptureHealth uuid "CaptureEntrant list" u64 nat
  | CommandIn u64 EntityId Command
  | LeaveIn u64 EntityId
  | DeathIn u64 EntityId EntityId
  | EndIn u64 "uuid option"

fun Capturer_step :: "capture_codec \<Rightarrow> CaptureInput \<Rightarrow> capturer \<Rightarrow> WriterCall list \<times> capturer" where
  "Capturer_step codec (StartIn health match players first_tick started) cp =
     Capturer_StartMatch codec health match players first_tick started cp"
| "Capturer_step codec (CommandIn tick entity command) cp = Capturer_Command codec tick entity command cp"
| "Capturer_step codec (LeaveIn tick entity) cp = Capturer_Leave codec tick entity cp"
| "Capturer_step codec (DeathIn tick victim killer) cp = Capturer_Death codec tick victim killer cp"
| "Capturer_step codec (EndIn tick winner) cp = Capturer_EndMatch codec tick winner cp"

fun Capturer_run :: "capture_codec \<Rightarrow> CaptureInput list \<Rightarrow> capturer \<Rightarrow> WriterCall list \<times> capturer" where
  "Capturer_run codec [] cp = ([], cp)"
| "Capturer_run codec (item # items) cp =
     (case Capturer_step codec item cp of
        (calls, cp) \<Rightarrow> (case Capturer_run codec items cp of (rest, cp) \<Rightarrow> (calls @ rest, cp)))"

end
