(* ===== verification/Host.thy ===== *)
theory Host
  imports Host_Match Host_Gate Capturer
begin

text \<open>
  The server (\<open>src/modules/host/host.cpp\<close>, \<open>host_network.cpp\<close>, \<open>host_match.cpp\<close>,
  \<open>host_impl.h\<close>): what it does with each peer's messages and departures on the Network I/O
  thread, and with each tick on the Simulation thread, over the Match, the peer gate, the
  players' command queues and the Capturer. The Link's codec and its transport are \<open>env\<close>,
  the SimulationWorld \<open>ops\<close>, the IDs \<open>ids\<close>. What the Capturer is told is kept in order.
  An \<open>at\<close> that finds nothing throws, which sets \<open>ho_threw\<close>. Metrics, log lines and a tick's
  own messages are left out, the last but for how their sending failed.
\<close>

section \<open>Debug subscriptions\<close>

record DebugPeer =
  dp_flags :: u8
  dp_unserved_seen :: u8

record DebugSubscriptions =
  ds_served :: u8
  ds_peers :: "(PeerId \<times> DebugPeer) list"

definition kShotJudgements :: u8 where "kShotJudgements = 1"

definition DebugSubscriptions_Subscribe :: "DebugSubscriptions \<Rightarrow> PeerId \<Rightarrow> u8 \<Rightarrow> u8 \<times> DebugSubscriptions" where
  "DebugSubscriptions_Subscribe d peer flags =
     (let subscribed = (case map_of (ds_peers d) peer of None \<Rightarrow> \<lparr>dp_flags = 0, dp_unserved_seen = 0\<rparr> | Some p \<Rightarrow> p);
          unserved = and flags (not (ds_served d));
          first_seen = and unserved (not (dp_unserved_seen subscribed))
      in (first_seen, d\<lparr>ds_peers := (peer, \<lparr>dp_flags = flags, dp_unserved_seen = or (dp_unserved_seen subscribed) unserved\<rparr>) #
            erase_key peer (ds_peers d)\<rparr>))"

definition DebugSubscriptions_Serves :: "DebugSubscriptions \<Rightarrow> u8 \<Rightarrow> bool" where
  "DebugSubscriptions_Serves d stream \<longleftrightarrow> and (ds_served d) stream \<noteq> 0"

definition DebugSubscriptions_Wants :: "DebugSubscriptions \<Rightarrow> PeerId \<Rightarrow> u8 \<Rightarrow> bool" where
  "DebugSubscriptions_Wants d peer stream \<longleftrightarrow>
     DebugSubscriptions_Serves d stream \<and>
     (case map_of (ds_peers d) peer of None \<Rightarrow> False | Some found \<Rightarrow> and (dp_flags found) stream \<noteq> 0)"

definition DebugSubscriptions_Forget :: "DebugSubscriptions \<Rightarrow> PeerId \<Rightarrow> DebugSubscriptions" where
  "DebugSubscriptions_Forget d peer = d\<lparr>ds_peers := erase_key peer (ds_peers d)\<rparr>"

section \<open>State\<close>

datatype HostMessage =
    RefusedMessage JoinRefusal
  | AdmittedMessage "uuid Admission"
  | LobbyMessage "uuid Roster"
  | MatchStartMessage "uuid MatchStart" "vec3 list" u64 uuid
  | MatchEndMessage "uuid option"

text \<open>The body of a peer's message: what it is not, or what it says.\<close>

datatype ClientMessage =
    JoinSaid JoinRequest
  | CommandsSaid "SequencedCommand list"
  | ReadySaid u32
  | DebugSubscribeSaid u8
  | ReplaySaid

datatype Said = Undecodable | NotFromAClient | Said ClientMessage

record HostPlayer =
  hp_peer :: PeerId
  hp_commands :: CommandQueue

record HostConfig =
  hc_match :: MatchConfig
  hc_tick_rate_hz :: u8
  hc_spawn_points :: "vec3 list"
  hc_captures :: bool

record SimTick =
  st_tick :: u64
  st_deaths :: "(EntityId \<times> EntityId) list"
  st_actions :: "uuid option list"

record 'w sim_ops =
  si_start :: "uuid MatchPlayer list \<Rightarrow> vec3 list \<Rightarrow> 'w \<Rightarrow> vec3 list \<times> 'w"
  si_remove :: "EntityId \<Rightarrow> 'w \<Rightarrow> 'w"
  si_end :: "'w \<Rightarrow> 'w"
  si_tick :: "(EntityId \<times> Command) list \<Rightarrow> 'w \<Rightarrow> SimTick \<times> 'w"

text \<open>Why the protocol cannot carry a message, if it cannot; and how the \<open>n\<close>th send goes.\<close>

record 'f link_env =
  le_encode :: "HostMessage \<Rightarrow> 'f option"
  le_send :: "nat \<Rightarrow> PeerId \<Rightarrow> HostMessage \<Rightarrow> 'f + bool"

text \<open>Where the Simulation thread is in a tick: its \<open>input\<close> taken, or its policy's actions still to be acted on.\<close>

datatype sim_thread =
    Between
  | Prepared "(EntityId \<times> Command) list"
  | Acting "uuid option list"

record ('f, 'w) hosted =
  ho_world :: 'w
  ho_told :: "CaptureInput list"
  ho_bodies :: "(uuid \<times> EntityId) list"
  ho_simulating :: bool
  ho_tick :: u64
  ho_invariant_failure :: "'f FailureLatch"
  ho_match :: "uuid Match"
  ho_players :: "(uuid \<times> HostPlayer) list"
  ho_match_start_tick :: u64
  ho_match_id :: uuid
  ho_match_winner :: "uuid option"
  ho_debug :: DebugSubscriptions
  ho_sends :: nat
  ho_sent :: "(PeerId \<times> HostMessage) list"
  ho_closed :: "PeerId list"
  ho_thread :: sim_thread
  ho_threw :: bool

type_synonym ('f, 'w) host = "('f, ('f, 'w) hosted) server"

definition Host_init :: "HostConfig \<Rightarrow> 'w \<Rightarrow> u8 \<Rightarrow> ('f, 'w) host" where
  "Host_init config world served =
     \<lparr>sv_gate = PeerGate_init, sv_accepted = [], sv_received_bytes = 0,
      sv_transport_failure = \<lparr>fl_recorded = False, fl_failure = None\<rparr>,
      sv_own = \<lparr>ho_world = world, ho_told = [], ho_bodies = [], ho_simulating = False, ho_tick = 0,
        ho_invariant_failure = \<lparr>fl_recorded = False, fl_failure = None\<rparr>,
        ho_match = Match_init (hc_match config), ho_players = [], ho_match_start_tick = 0, ho_match_id = nil_uuid,
        ho_match_winner = None, ho_debug = \<lparr>ds_served = served, ds_peers = []\<rparr>, ho_sends = 0, ho_sent = [],
        ho_closed = [], ho_thread = Between, ho_threw = False\<rparr>\<rparr>"

definition on_own :: "(('f, 'w) hosted \<Rightarrow> ('f, 'w) hosted) \<Rightarrow> ('f, 'w) host \<Rightarrow> ('f, 'w) host" where
  "on_own f s = s\<lparr>sv_own := f (sv_own s)\<rparr>"

definition on_gate :: "(PeerGate \<Rightarrow> PeerGate) \<Rightarrow> ('f, 'w) host \<Rightarrow> ('f, 'w) host" where
  "on_gate f s = s\<lparr>sv_gate := f (sv_gate s)\<rparr>"

definition throw :: "('f, 'w) host \<Rightarrow> ('f, 'w) host" where
  "throw = on_own (\<lambda>o'. o'\<lparr>ho_threw := True\<rparr>)"

definition tell :: "CaptureInput \<Rightarrow> ('f, 'w) hosted \<Rightarrow> ('f, 'w) hosted" where
  "tell item o' = o'\<lparr>ho_told := ho_told o' @ [item]\<rparr>"

section \<open>Sending to players\<close>

definition Failed :: "('f, 'w) host \<Rightarrow> bool" where
  "Failed s \<longleftrightarrow> fl_recorded (sv_transport_failure s) \<or> fl_recorded (ho_invariant_failure (sv_own s))"

definition record_invariant :: "'f \<Rightarrow> ('f, 'w) host \<Rightarrow> ('f, 'w) host" where
  "record_invariant failure =
     on_own (\<lambda>o'. o'\<lparr>ho_invariant_failure := FailureLatch_Record (ho_invariant_failure o') failure\<rparr>)"

definition record_transport :: "'f \<Rightarrow> ('f, 'w) host \<Rightarrow> ('f, 'w) host" where
  "record_transport failure s = s\<lparr>sv_transport_failure := FailureLatch_Record (sv_transport_failure s) failure\<rparr>"

definition Deliver :: "'f link_env \<Rightarrow> PeerId \<Rightarrow> HostMessage \<Rightarrow> ('f, 'w) host \<Rightarrow> ('f, 'w) host" where
  "Deliver env peer message s =
     (if Failed s then s
      else
        let sends = ho_sends (sv_own s);
            s = on_own (\<lambda>o'. o'\<lparr>ho_sends := sends + 1\<rparr>) s
        in case le_send env sends peer message of
             Inl failure \<Rightarrow> record_transport failure s
           | Inr accepted \<Rightarrow>
               if accepted then on_own (\<lambda>o'. o'\<lparr>ho_sent := ho_sent o' @ [(peer, message)]\<rparr>) s else s)"

definition Reply :: "'f link_env \<Rightarrow> PeerId \<Rightarrow> HostMessage \<Rightarrow> ('f, 'w) host \<Rightarrow> ('f, 'w) host" where
  "Reply env peer message s =
     (case le_encode env message of
        Some failure \<Rightarrow> record_invariant failure s
      | None \<Rightarrow> Deliver env peer message s)"

fun deliver_all :: "'f link_env \<Rightarrow> HostMessage \<Rightarrow> uuid list \<Rightarrow> ('f, 'w) host \<Rightarrow> ('f, 'w) host" where
  "deliver_all env message [] s = s"
| "deliver_all env message (session # rest) s =
     (case map_of (ho_players (sv_own s)) session of
        None \<Rightarrow> throw s
      | Some player \<Rightarrow> deliver_all env message rest (Deliver env (hp_peer player) message s))"

definition SendTo :: "'f link_env \<Rightarrow> uuid list \<Rightarrow> HostMessage \<Rightarrow> ('f, 'w) host \<Rightarrow> ('f, 'w) host" where
  "SendTo env players message s =
     (case le_encode env message of
        Some failure \<Rightarrow> record_invariant failure s
      | None \<Rightarrow> deliver_all env message players s)"

definition SendRoster :: "'f link_env \<Rightarrow> ('f, 'w) host \<Rightarrow> ('f, 'w) host" where
  "SendRoster env s =
     (let roster = Match_GetRoster (ho_match (sv_own s))
      in SendTo env (map re_session (ro_players roster)) (LobbyMessage roster) s)"

section \<open>The Network I/O thread\<close>

definition HandleDisconnect :: "'f link_env \<Rightarrow> PeerId \<Rightarrow> Leaving \<Rightarrow> ('f, 'w) host \<Rightarrow> ('f, 'w) host" where
  "HandleDisconnect env peer how s =
     (let s = on_own (\<lambda>o'. o'\<lparr>ho_debug := DebugSubscriptions_Forget (ho_debug o') peer\<rparr>)
                (on_gate (\<lambda>g. PeerGate_Left g peer) s)
      in case Match_SessionOf (ho_match (sv_own s)) peer of
           None \<Rightarrow> s
         | Some session \<Rightarrow>
             (case Match_Leave (ho_match (sv_own s)) peer of
                (departure, m) \<Rightarrow>
                  let s = on_own (\<lambda>o'. o'\<lparr>ho_match := m, ho_players := erase_key session (ho_players o')\<rparr>) s
                  in case departure of
                       kNone \<Rightarrow> s
                     | kFromLobby \<Rightarrow> SendRoster env s
                     | kFromMatch \<Rightarrow> s
                     | kEndedMatch \<Rightarrow> on_own (\<lambda>o'. o'\<lparr>ho_match_winner := None\<rparr>) s))"

definition Expel :: "'f link_env \<Rightarrow> PeerId \<Rightarrow> ('f, 'w) host \<Rightarrow> ('f, 'w) host" where
  "Expel env peer s =
     HandleDisconnect env peer kMisbehaving
       (on_own (\<lambda>o'. o'\<lparr>ho_closed := ho_closed o' @ [peer]\<rparr>) (on_gate (\<lambda>g. PeerGate_Expelled g peer) s))"

definition Judge :: "'f link_env \<Rightarrow> PeerId \<Rightarrow> PeerRejection \<Rightarrow> time \<Rightarrow> ('f, 'w) host \<Rightarrow> Verdict \<times> ('f, 'w) host" where
  "Judge env peer rejection now s =
     (case PeerGate_Judge (sv_gate s) peer rejection now of
        (verdict, g) \<Rightarrow>
          let s = s\<lparr>sv_gate := g\<rparr>
          in (verdict, if verdict = kDisconnect then Expel env peer s else s))"

definition HandleJoinRequest ::
  "'f link_env \<Rightarrow> (nat \<Rightarrow> uuid) \<Rightarrow> HostConfig \<Rightarrow> PeerId \<Rightarrow> JoinRequest \<Rightarrow> time \<Rightarrow> ('f, 'w) host \<Rightarrow> ('f, 'w) host" where
  "HandleJoinRequest env ids config peer request now s =
     (case Match_Join ids (ho_match (sv_own s)) peer request of
        (Inl refusal, m) \<Rightarrow>
          snd (Judge env peer PeerRejection.kJoinRefused now
            (Reply env peer (RefusedMessage refusal) (on_own (\<lambda>o'. o'\<lparr>ho_match := m\<rparr>) s)))
      | (Inr admission, m) \<Rightarrow>
          let s = Reply env peer (AdmittedMessage admission)
                (on_gate (\<lambda>g. PeerGate_Admitted g peer) (on_own (\<lambda>o'. o'\<lparr>ho_match := m\<rparr>) s))
          in case map_of (ho_players (sv_own s)) (ad_session admission) of
               Some _ \<Rightarrow> s
             | None \<Rightarrow>
                 SendRoster env (on_own (\<lambda>o'. o'\<lparr>ho_players := ho_players o' @
                   [(ad_session admission, \<lparr>hp_peer = peer, hp_commands = CommandQueue_init (hc_tick_rate_hz config)\<rparr>)]\<rparr>) s))"

definition HandleReady :: "'f link_env \<Rightarrow> PeerId \<Rightarrow> u32 \<Rightarrow> time \<Rightarrow> ('f, 'w) host \<Rightarrow> ('f, 'w) host" where
  "HandleReady env peer version now s =
     (case Match_Ready (ho_match (sv_own s)) peer version of
        (ready, m) \<Rightarrow>
          let s = on_own (\<lambda>o'. o'\<lparr>ho_match := m\<rparr>) s
          in if ready then s else snd (Judge env peer PeerRejection.kStaleReady now s))"

definition HandleDebugSubscribe :: "PeerId \<Rightarrow> u8 \<Rightarrow> ('f, 'w) host \<Rightarrow> ('f, 'w) host" where
  "HandleDebugSubscribe peer flags =
     on_own (\<lambda>o'. o'\<lparr>ho_debug := snd (DebugSubscriptions_Subscribe (ho_debug o') peer flags)\<rparr>)"

fun ToPeerRejection :: "Rejection \<Rightarrow> PeerRejection" where
  "ToPeerRejection kStale = kStaleCommand"
| "ToPeerRejection kNonFinite = kNonFiniteCommand"
| "ToPeerRejection kOutOfRange = kOutOfRangeCommand"

text \<open>The loop of \<open>HandleCommands\<close>: the queue taken once; no more of it once its player is disconnected.\<close>

fun take_in ::
  "'f link_env \<Rightarrow> (vec3 \<Rightarrow> f32) \<Rightarrow> PeerId \<Rightarrow> uuid \<Rightarrow> SequencedCommand list \<Rightarrow> time \<Rightarrow> ('f, 'w) host \<Rightarrow> ('f, 'w) host" where
  "take_in env vlength peer session [] now s = s"
| "take_in env vlength peer session (command # commands) now s =
     (case map_of (ho_players (sv_own s)) session of
        None \<Rightarrow> throw s
      | Some player \<Rightarrow>
          (case TryEnqueue vlength (hp_commands player) command of
             (enqueued, queue) \<Rightarrow>
               let s = on_own (\<lambda>o'. o'\<lparr>ho_players := map (\<lambda>(key, p).
                         (key, if key = session then p\<lparr>hp_commands := queue\<rparr> else p)) (ho_players o')\<rparr>) s
               in case enqueued of
                    Inl rejection \<Rightarrow>
                      (case Judge env peer (ToPeerRejection rejection) now s of
                         (verdict, s) \<Rightarrow>
                           if verdict = kDisconnect then s else take_in env vlength peer session commands now s)
                  | Inr _ \<Rightarrow> take_in env vlength peer session commands now s))"

definition HandleCommands ::
  "'f link_env \<Rightarrow> (vec3 \<Rightarrow> f32) \<Rightarrow> PeerId \<Rightarrow> SequencedCommand list \<Rightarrow> time \<Rightarrow> ('f, 'w) host \<Rightarrow> ('f, 'w) host" where
  "HandleCommands env vlength peer commands now s =
     (case Match_SessionOf (ho_match (sv_own s)) peer of
        None \<Rightarrow> snd (Judge env peer kCommandsBeforeJoining now s)
      | Some session \<Rightarrow>
          if \<not> Match_IsPlaying (ho_match (sv_own s)) session
          then snd (Judge env peer kCommandsOutsideMatch now s)
          else if map_of (ho_players (sv_own s)) session = None then throw s
          else take_in env vlength peer session commands now s)"

definition RefuseAsNoReplayServer :: "'f link_env \<Rightarrow> PeerId \<Rightarrow> time \<Rightarrow> ('f, 'w) host \<Rightarrow> ('f, 'w) host" where
  "RefuseAsNoReplayServer env peer now s =
     snd (Judge env peer PeerRejection.kJoinRefused now (Reply env peer (RefusedMessage kNotAReplayServer) s))"

definition HandleMessage ::
  "'f link_env \<Rightarrow> (vec3 \<Rightarrow> f32) \<Rightarrow> (nat \<Rightarrow> uuid) \<Rightarrow> HostConfig \<Rightarrow> time \<Rightarrow> Said PeerMessage \<Rightarrow> ('f, 'w) host \<Rightarrow> ('f, 'w) host" where
  "HandleMessage env vlength ids config now message s =
     (let peer = pm_from message
      in case pm_body message of
           Undecodable \<Rightarrow> snd (Judge env peer kUndecodable now s)
         | NotFromAClient \<Rightarrow> snd (Judge env peer kNotAClientMessage now s)
         | Said (JoinSaid request) \<Rightarrow> HandleJoinRequest env ids config peer request now s
         | Said (CommandsSaid commands) \<Rightarrow> HandleCommands env vlength peer commands now s
         | Said (ReadySaid version) \<Rightarrow> HandleReady env peer version now s
         | Said (DebugSubscribeSaid flags) \<Rightarrow> HandleDebugSubscribe peer flags s
         | Said ReplaySaid \<Rightarrow> RefuseAsNoReplayServer env peer now s)"

definition host_handlers ::
  "'f link_env \<Rightarrow> (vec3 \<Rightarrow> f32) \<Rightarrow> (nat \<Rightarrow> uuid) \<Rightarrow> HostConfig \<Rightarrow> time \<Rightarrow> ('f, ('f, 'w) hosted, Said) PeerHandlers" where
  "host_handlers env vlength ids config now =
     \<lparr>ph_disconnected = HandleDisconnect env, ph_message = HandleMessage env vlength ids config now,
      ph_overdue = Expel env\<rparr>"

definition PumpNetwork ::
  "'f link_env \<Rightarrow> (vec3 \<Rightarrow> f32) \<Rightarrow> (nat \<Rightarrow> uuid) \<Rightarrow> HostConfig \<Rightarrow> PeerEvent list \<Rightarrow> 'f + Said PeerMessage list \<Rightarrow> time \<Rightarrow>
   ('f, 'w) host \<Rightarrow> ('f, 'w) host" where
  "PumpNetwork env vlength ids config events received now s =
     PumpPeers (host_handlers env vlength ids config now) events received now s"

section \<open>The Simulation thread\<close>

text \<open>\<open>EndMatch\<close>: the match in progress, if any, its players told and back in the Lobby.\<close>

definition EndMatch :: "'f link_env \<Rightarrow> uuid option \<Rightarrow> ('f, 'w) host \<Rightarrow> ('f, 'w) host" where
  "EndMatch env winner s =
     (case Match_End (ho_match (sv_own s)) winner of
        (None, m) \<Rightarrow> s
      | (Some ended, m) \<Rightarrow>
          let s = on_own (\<lambda>o'. o'\<lparr>ho_match := m\<rparr>) s;
              s = SendTo env (me_players ended) (MatchEndMessage (me_winner ended)) s;
              s = on_own (\<lambda>o'. o'\<lparr>ho_match_winner := me_winner ended\<rparr>) s
          in SendRoster env s)"

definition entrants_of :: "uuid MatchPlayer list \<Rightarrow> vec3 list \<Rightarrow> CaptureEntrant list" where
  "entrants_of players spawns =
     map (\<lambda>(player, spawn). \<lparr>ce_session = mp_session player, ce_entity = mp_entity player,
        ce_character = mp_character player, ce_spawn = spawn\<rparr>) (zip players spawns)"

text \<open>The loop over the start's players: each has a known character, a body and a fresh queue.\<close>

fun enter_players :: "HostConfig \<Rightarrow> uuid MatchPlayer list \<Rightarrow> ('f, 'w) host \<Rightarrow> ('f, 'w) host" where
  "enter_players config [] s = s"
| "enter_players config (player # players) s =
     (if mp_character player \<notin> set (mc_characters (hc_match config)) \<or>
         map_of (ho_players (sv_own s)) (mp_session player) = None then throw s
      else enter_players config players
        (on_own (\<lambda>o'. o'\<lparr>ho_bodies := emplace (mp_session player) (mp_entity player) (ho_bodies o'),
            ho_players := map (\<lambda>(key, p). (key, if key = mp_session player
              then p\<lparr>hp_commands := CommandQueue_init (hc_tick_rate_hz config)\<rparr> else p)) (ho_players o')\<rparr>) s))"

definition StartMatchIfReady ::
  "'f link_env \<Rightarrow> 'w sim_ops \<Rightarrow> (nat \<Rightarrow> uuid) \<Rightarrow> HostConfig \<Rightarrow> CaptureHealth \<Rightarrow> nat \<Rightarrow> ('f, 'w) host \<Rightarrow> ('f, 'w) host" where
  "StartMatchIfReady env ops ids config health clock s =
     (case Match_TryStart ids (ho_match (sv_own s)) of
        (None, m) \<Rightarrow> on_own (\<lambda>o'. o'\<lparr>ho_match := m\<rparr>) s
      | (Some start, m) \<Rightarrow>
          let s = enter_players config (ms_players start) (on_own (\<lambda>o'. o'\<lparr>ho_match := m\<rparr>) s)
          in if ho_threw (sv_own s) then s
             else case si_start ops (ms_players start) (hc_spawn_points config) (ho_world (sv_own s)) of
               (spawns, world) \<Rightarrow>
                 let first_tick = ho_tick (sv_own s) + 1;
                     s = on_own (\<lambda>o'. o'\<lparr>ho_world := world, ho_simulating := True, ho_match_start_tick := first_tick,
                           ho_match_id := ms_match start\<rparr>) s;
                     s = (if hc_captures config
                          then on_own (tell (StartIn health (ms_match start) (entrants_of (ms_players start) spawns) first_tick clock)) s
                          else s)
                 in SendTo env (map mp_session (ms_players start))
                      (MatchStartMessage start spawns first_tick (ms_match start)) s)"

definition TakeOutEndedMatch :: "'w sim_ops \<Rightarrow> HostConfig \<Rightarrow> ('f, 'w) host \<Rightarrow> ('f, 'w) host" where
  "TakeOutEndedMatch ops config =
     on_own (\<lambda>o'.
       let o' = o'\<lparr>ho_world := si_end ops (ho_world o')\<rparr>;
           o' = (if hc_captures config
                 then tell (EndIn (ho_tick o') (ho_match_winner o'))
                        (fold (\<lambda>(session, entity). tell (LeaveIn (ho_tick o') entity))
                           (filter (\<lambda>(session, entity). map_of (ho_players o') session = None) (ho_bodies o')) o')
                 else o')
       in o'\<lparr>ho_bodies := [], ho_simulating := False\<rparr>)"

text \<open>The bodies of players who left the match in progress, out before the next tick.\<close>

definition take_out :: "'w sim_ops \<Rightarrow> HostConfig \<Rightarrow> u64 \<Rightarrow> uuid \<times> EntityId \<Rightarrow> ('f, 'w) hosted \<Rightarrow> ('f, 'w) hosted" where
  "take_out ops config next_tick body o' =
     (let o' = o'\<lparr>ho_world := si_remove ops (snd body) (ho_world o')\<rparr>
      in if hc_captures config then tell (LeaveIn next_tick (snd body)) o' else o')"

definition erase_gone :: "'w sim_ops \<Rightarrow> HostConfig \<Rightarrow> u64 \<Rightarrow> ('f, 'w) hosted \<Rightarrow> ('f, 'w) hosted" where
  "erase_gone ops config next_tick o' =
     (let playing = (\<lambda>body. Match_IsPlaying (ho_match o') (fst body))
      in (fold (take_out ops config next_tick) (filter (\<lambda>body. \<not> playing body) (ho_bodies o')) o')
           \<lparr>ho_bodies := filter playing (ho_bodies o')\<rparr>)"

text \<open>One command for each player in the match, told to the Capturer if it was sent.\<close>

fun take_inputs :: "HostConfig \<Rightarrow> u64 \<Rightarrow> uuid list \<Rightarrow> ('f, 'w) host \<Rightarrow> (EntityId \<times> Command) list \<times> ('f, 'w) host" where
  "take_inputs config next_tick [] s = ([], s)"
| "take_inputs config next_tick (session # rest) s =
     (case (map_of (ho_players (sv_own s)) session, map_of (ho_bodies (sv_own s)) session) of
        (Some player, Some entity) \<Rightarrow>
          (case Next (hp_commands player) of
             (next, queue) \<Rightarrow>
               let s = on_own (\<lambda>o'. o'\<lparr>ho_players := map (\<lambda>(key, p).
                         (key, if key = session then p\<lparr>hp_commands := queue\<rparr> else p)) (ho_players o')\<rparr>) s;
                   s = (if hc_captures config \<and> tc_sent next
                        then on_own (tell (CommandIn next_tick entity (tc_command next))) s else s)
               in case take_inputs config next_tick rest s of
                    (commands, s) \<Rightarrow> ((entity, tc_command next) # commands, s))
      | _ \<Rightarrow> ([], throw s))"

definition PrepareTick ::
  "'f link_env \<Rightarrow> 'w sim_ops \<Rightarrow> (nat \<Rightarrow> uuid) \<Rightarrow> HostConfig \<Rightarrow> CaptureHealth \<Rightarrow> nat \<Rightarrow> ('f, 'w) host \<Rightarrow>
   (EntityId \<times> Command) list \<times> ('f, 'w) host" where
  "PrepareTick env ops ids config health clock s =
     (let s = (if ho_simulating (sv_own s) \<and> \<not> m_in_match (ho_match (sv_own s)) then TakeOutEndedMatch ops config s else s);
          next_tick = ho_tick (sv_own s) + 1;
          s = on_own (erase_gone ops config next_tick) s;
          s = on_own (\<lambda>o'. o'\<lparr>ho_match := Match_Tick (ho_match o')\<rparr>) s;
          s = StartMatchIfReady env ops ids config health clock s
      in if ho_threw (sv_own s) then ([], s)
         else take_inputs config next_tick (Match_Playing (ho_match (sv_own s))) s)"

definition CaptureDeaths :: "HostConfig \<Rightarrow> SimTick \<Rightarrow> ('f, 'w) hosted \<Rightarrow> ('f, 'w) hosted" where
  "CaptureDeaths config result o' =
     (if \<not> hc_captures config then o'
      else fold (\<lambda>(victim, killer). tell (DeathIn (st_tick result) victim killer)) (st_deaths result) o')"

text \<open>
  \<open>Host::Tick\<close> between taking its input and acting on policy. \<open>broken\<close> is the Capturer's own
  failure, if it has one; \<open>sending\<close> how sending the tick's messages failed, if it did, and
  whether that was a broken invariant.
\<close>

definition RunTick ::
  "'w sim_ops \<Rightarrow> HostConfig \<Rightarrow> (EntityId \<times> Command) list \<Rightarrow> 'f option \<Rightarrow> ('f \<times> bool) option \<Rightarrow> ('f, 'w) host \<Rightarrow>
   uuid option list \<times> ('f, 'w) host" where
  "RunTick ops config commands broken sending s =
     (case si_tick ops commands (ho_world (sv_own s)) of
        (result, world) \<Rightarrow>
          let s = on_own (\<lambda>o'. CaptureDeaths config result (o'\<lparr>ho_world := world, ho_tick := st_tick result\<rparr>)) s;
              s = (case broken of Some failure \<Rightarrow> if hc_captures config then record_invariant failure s else s | None \<Rightarrow> s);
              s = (case sending of
                     None \<Rightarrow> s
                   | Some (failure, invariant) \<Rightarrow> if invariant then record_invariant failure s else record_transport failure s)
          in (st_actions result, s))"

section \<open>Both threads\<close>

text \<open>
  What the lock makes one step: one event, message or the overdue peers of a round; a tick's
  preparation, and each of its actions. \<open>Host::EndMatch\<close> may come from any thread.
\<close>

datatype 'f host_event =
    PeerIn PeerEvent time
  | MessageIn "Said PeerMessage" time
  | ReceiveFailed 'f
  | OverdueIn time
  | PrepareIn CaptureHealth nat
  | RunIn "'f option" "('f \<times> bool) option"
  | ActIn
  | EndMatchIn

definition overdue_step :: "'f link_env \<Rightarrow> time \<Rightarrow> ('f, 'w) host \<Rightarrow> ('f, 'w) host" where
  "overdue_step env now s =
     (case PeerGate_TakeOverdue (sv_gate s) now of
        (overdue, gate) \<Rightarrow>
          let s = fold (Expel env) overdue (s\<lparr>sv_gate := gate\<rparr>)
          in s\<lparr>sv_gate := PeerGate_EndRound (sv_gate s)\<rparr>)"

fun host_step ::
  "'f link_env \<Rightarrow> 'w sim_ops \<Rightarrow> (vec3 \<Rightarrow> f32) \<Rightarrow> (nat \<Rightarrow> uuid) \<Rightarrow> HostConfig \<Rightarrow> ('f, 'w) host \<Rightarrow> 'f host_event \<Rightarrow> ('f, 'w) host" where
  "host_step env ops vlength ids config s (PeerIn event now) = pump_event (host_handlers env vlength ids config now) now event s"
| "host_step env ops vlength ids config s (MessageIn message now) = pump_message (host_handlers env vlength ids config now) message s"
| "host_step env ops vlength ids config s (ReceiveFailed failure) = record_transport failure s"
| "host_step env ops vlength ids config s (OverdueIn now) = overdue_step env now s"
| "host_step env ops vlength ids config s (PrepareIn health clock) =
     (case ho_thread (sv_own s) of
        Between \<Rightarrow>
          (case PrepareTick env ops ids config health clock s of
             (commands, s) \<Rightarrow> on_own (\<lambda>o'. o'\<lparr>ho_thread := Prepared commands\<rparr>) s)
      | _ \<Rightarrow> s)"
| "host_step env ops vlength ids config s (RunIn broken sending) =
     (case ho_thread (sv_own s) of
        Prepared commands \<Rightarrow>
          (case RunTick ops config commands broken sending s of
             (actions, s) \<Rightarrow> on_own (\<lambda>o'. o'\<lparr>ho_thread := Acting actions\<rparr>) s)
      | _ \<Rightarrow> s)"
| "host_step env ops vlength ids config s ActIn =
     (case ho_thread (sv_own s) of
        Acting (winner # actions) \<Rightarrow> on_own (\<lambda>o'. o'\<lparr>ho_thread := Acting actions\<rparr>) (EndMatch env winner s)
      | Acting [] \<Rightarrow> on_own (\<lambda>o'. o'\<lparr>ho_thread := Between\<rparr>) s
      | Prepared _ \<Rightarrow> s
      | Between \<Rightarrow> s)"
| "host_step env ops vlength ids config s EndMatchIn = EndMatch env None s"

section \<open>What the runtime asks of it\<close>

definition QueuedCommands :: "uuid \<Rightarrow> ('f, 'w) host \<Rightarrow> nat" where
  "QueuedCommands session s =
     (if \<not> Match_IsPlaying (ho_match (sv_own s)) session then 0
      else case map_of (ho_players (sv_own s)) session of None \<Rightarrow> 0 | Some player \<Rightarrow> Queued (hp_commands player))"

definition TakeTransportFailure :: "('f, 'w) host \<Rightarrow> 'f option \<times> ('f, 'w) host" where
  "TakeTransportFailure s =
     (case FailureLatch_Take (sv_transport_failure s) of (failure, latch) \<Rightarrow> (failure, s\<lparr>sv_transport_failure := latch\<rparr>))"

definition TakeInvariantFailure :: "('f, 'w) host \<Rightarrow> 'f option \<times> ('f, 'w) host" where
  "TakeInvariantFailure s =
     (case FailureLatch_Take (ho_invariant_failure (sv_own s)) of
        (failure, latch) \<Rightarrow> (failure, on_own (\<lambda>o'. o'\<lparr>ho_invariant_failure := latch\<rparr>) s))"

text \<open>Of the Capturer's writer, if there is one.\<close>

definition CaptureFailure :: "HostConfig \<Rightarrow> writer \<Rightarrow> Failure option" where
  "CaptureFailure config writer =
     (if \<not> hc_captures config \<or> wr_health writer \<noteq> CaptureHealth.kStopped then None
      else case Capturer_Loss writer of
        Some lost \<Rightarrow> if DispositionOf (fl_code lost) \<noteq> kRuntime then None else Some lost
      | None \<Rightarrow> None)"

definition FinishCapture :: "HostConfig \<Rightarrow> writer \<Rightarrow> Failure option" where
  "FinishCapture config writer = CaptureFailure config (if hc_captures config then Writer_Finish writer else writer)"

end
