(* ===== verification/Host_Correct.thy ===== *)
theory Host_Correct
  imports Host
begin

text \<open>
  The server as a whole, over every interleaving of its two threads: who is joined, who has
  a body and who has a queue always agree, so no lookup the code does with \<open>at\<close> ever fails;
  and a round of network work is one run of the steps the lock makes.
\<close>

section \<open>What sending changes\<close>

definition quiet :: "('f, 'w) host \<Rightarrow> ('f, 'w) host \<Rightarrow> bool" where
  "quiet s s' \<longleftrightarrow> sv_gate s' = sv_gate s \<and>
     (\<exists>latch sends sent. sv_own s' = (sv_own s)\<lparr>ho_invariant_failure := latch, ho_sends := sends, ho_sent := sent\<rparr>)"

lemma quiet_refl [simp]: "quiet s s"
  unfolding quiet_def by (intro conjI refl exI [of _ "ho_invariant_failure (sv_own s)"] exI [of _ "ho_sends (sv_own s)"]
      exI [of _ "ho_sent (sv_own s)"]) simp

lemma quiet_trans: "quiet a b \<Longrightarrow> quiet b c \<Longrightarrow> quiet a c"
  unfolding quiet_def by force

lemma own_fields [simp]:
  "sv_own (on_own f s) = f (sv_own s)" "sv_gate (on_own f s) = sv_gate s" "sv_own (on_gate g s) = sv_own s"
  by (simp_all add: on_own_def on_gate_def)

lemma quiet_invariant [simp]: "quiet s (record_invariant failure s)"
  unfolding quiet_def record_invariant_def
  by (intro conjI exI [of _ "FailureLatch_Record (ho_invariant_failure (sv_own s)) failure"] exI [of _ "ho_sends (sv_own s)"]
      exI [of _ "ho_sent (sv_own s)"]) simp_all

lemma quiet_transport [simp]: "quiet s (record_transport failure s)"
  unfolding quiet_def record_transport_def
  by (intro conjI exI [of _ "ho_invariant_failure (sv_own s)"] exI [of _ "ho_sends (sv_own s)"]
      exI [of _ "ho_sent (sv_own s)"]) simp_all

lemma quiet_sends: "quiet s (on_own (\<lambda>o'. o'\<lparr>ho_sends := n\<rparr>) s)"
  unfolding quiet_def by (intro conjI exI [of _ "ho_invariant_failure (sv_own s)"] exI [of _ n] exI [of _ "ho_sent (sv_own s)"]) simp_all

lemma quiet_sent: "quiet s (on_own (\<lambda>o'. o'\<lparr>ho_sent := ho_sent o' @ xs\<rparr>) s)"
  unfolding quiet_def by (intro conjI exI [of _ "ho_invariant_failure (sv_own s)"] exI [of _ "ho_sends (sv_own s)"]
      exI [of _ "ho_sent (sv_own s) @ xs"]) simp_all

lemma quiet_Deliver: "quiet s (Deliver env peer message s)"
proof (cases "Failed s")
  case False
  let ?s = "on_own (\<lambda>o'. o'\<lparr>ho_sends := ho_sends (sv_own s) + 1\<rparr>) s"
  have "quiet ?s (Deliver env peer message s)"
    using False by (auto simp: Deliver_def Let_def quiet_sent split: sum.split)
  then show ?thesis using quiet_sends quiet_trans by blast
qed (simp add: Deliver_def)

lemma quiet_Reply: "quiet s (Reply env peer message s)"
  by (simp add: Reply_def quiet_Deliver split: option.split)

lemma quiet_fields:
  assumes "quiet s s'"
  shows "ho_world (sv_own s') = ho_world (sv_own s)" "ho_told (sv_own s') = ho_told (sv_own s)"
    "ho_bodies (sv_own s') = ho_bodies (sv_own s)" "ho_simulating (sv_own s') = ho_simulating (sv_own s)"
    "ho_tick (sv_own s') = ho_tick (sv_own s)" "ho_match (sv_own s') = ho_match (sv_own s)"
    "ho_players (sv_own s') = ho_players (sv_own s)" "ho_threw (sv_own s') = ho_threw (sv_own s)"
    "ho_thread (sv_own s') = ho_thread (sv_own s)" "ho_match_winner (sv_own s') = ho_match_winner (sv_own s)"
    "ho_match_id (sv_own s') = ho_match_id (sv_own s)"
  using assms by (auto simp: quiet_def)

lemma quiet_SendTo:
  assumes "set players \<subseteq> fst ` set (ho_players (sv_own s))"
  shows "quiet s (SendTo env players message s)"
proof -
  have "quiet s (deliver_all env message players s)" using assms
  proof (induction players arbitrary: s)
    case (Cons session rest)
    then obtain player where player: "map_of (ho_players (sv_own s)) session = Some player"
      by (cases "map_of (ho_players (sv_own s)) session") (auto simp: map_of_eq_None_iff)
    let ?s = "Deliver env (hp_peer player) message s"
    have "quiet ?s (deliver_all env message rest ?s)"
      using Cons quiet_fields(7) [OF quiet_Deliver [of s env "hp_peer player" message]] by auto
    then show ?case using player quiet_trans [OF quiet_Deliver] by simp
  qed simp
  then show ?thesis by (simp add: SendTo_def split: option.split)
qed

section \<open>Who is joined, who has a queue and who has a body\<close>

definition peer_list :: "uuid Match \<Rightarrow> (PeerId \<times> uuid) list" where
  "peer_list m = map (\<lambda>entry. (fst entry, mb_session (snd entry))) (m_members m)"

text \<open>Each player of the book has a queue, kept with the peer the book has for it.\<close>

definition queue_peers :: "(uuid \<times> HostPlayer) list \<Rightarrow> (PeerId \<times> uuid) list" where
  "queue_peers players = map (\<lambda>(key, p). (hp_peer p, key)) players"

definition peers_ok :: "uuid Match \<Rightarrow> (uuid \<times> HostPlayer) list \<Rightarrow> bool" where
  "peers_ok m players \<longleftrightarrow> distinct (map fst players) \<and> set (queue_peers players) = set (peer_list m)"

definition bodies_ok :: "uuid Match \<Rightarrow> bool \<Rightarrow> (uuid \<times> EntityId) list \<Rightarrow> bool" where
  "bodies_ok m simulating bodies \<longleftrightarrow> distinct (map fst bodies) \<and> (\<not> simulating \<longrightarrow> bodies = []) \<and>
     (m_in_match m \<longrightarrow> simulating \<and> set (sessions m) \<subseteq> fst ` set bodies)"

definition hosted_inv :: "(nat \<Rightarrow> uuid) \<Rightarrow> HostConfig \<Rightarrow> ('f, 'w) hosted \<Rightarrow> bool" where
  "hosted_inv ids config o' \<longleftrightarrow>
     match_inv ids (hc_match config) (ho_match o') \<and> peers_ok (ho_match o') (ho_players o') \<and>
     bodies_ok (ho_match o') (ho_simulating o') (ho_bodies o') \<and> \<not> ho_threw o'"

lemma hosted_inv_quiet: "quiet s s' \<Longrightarrow> hosted_inv ids config (sv_own s') = hosted_inv ids config (sv_own s)"
  by (simp add: hosted_inv_def quiet_fields)

lemma hosted_inv_init: "hosted_inv ids config (sv_own (Host_init config world served))"
  by (simp add: hosted_inv_def Host_init_def match_inv_init peers_ok_def bodies_ok_def queue_peers_def)
    (simp add: Match_init_def peer_list_def)

lemma sessions_peers: "sessions m = map snd (peer_list m)"
  by (simp add: sessions_def peer_list_def comp_def case_prod_beta)

lemma queue_peers_keys: "snd ` set (queue_peers players) = fst ` set players"
  by (force simp: queue_peers_def)

lemma peers_ok_keys: "peers_ok m players \<Longrightarrow> fst ` set players = set (sessions m)"
  using queue_peers_keys [of players] by (simp add: peers_ok_def sessions_peers)

lemma roster_sessions: "set (map re_session (ro_players (Match_GetRoster m))) \<subseteq> set (sessions m)"
  by (auto simp: Match_GetRoster_def MembersBySession_def sessions_def)

lemma Playing_sessions: "set (Match_Playing m) = (if m_in_match m then set (sessions m) else {})"
  by (force simp: Match_Playing_def MembersBySession_def sessions_def)

lemma quiet_SendRoster: "peers_ok (ho_match (sv_own s)) (ho_players (sv_own s)) \<Longrightarrow> quiet s (SendRoster env s)"
  unfolding SendRoster_def Let_def
  by (rule quiet_SendTo) (use roster_sessions in \<open>simp add: peers_ok_keys\<close>)

lemma same_titles_peers: "same_titles m m' \<Longrightarrow> peer_list m' = peer_list m"
proof -
  assume "same_titles m m'"
  then have "map (map_prod id fst) (map (map_prod id title) (m_members m')) = map (map_prod id fst) (map (map_prod id title) (m_members m))"
    by (simp add: same_titles_def)
  then show ?thesis by (simp add: peer_list_def title_def comp_def case_prod_beta map_prod_def)
qed

lemma SessionOf_peers:
  assumes "match_inv ids config m"
  shows "Match_SessionOf m peer = Some session \<longleftrightarrow> (peer, session) \<in> set (peer_list m)"
proof -
  have "distinct (map fst (m_members m))" using assms by (simp add: match_inv_def)
  then have found: "find_member m peer = Some member \<longleftrightarrow> (peer, member) \<in> set (m_members m)" for member
    by (simp add: find_member_Some)
  have "Match_SessionOf m peer = Some session \<longleftrightarrow> (\<exists>member. find_member m peer = Some member \<and> mb_session member = session)"
    by (auto simp: Match_SessionOf_def)
  then show ?thesis by (force simp: found peer_list_def)
qed

lemma peers_distinct:
  assumes "match_inv ids config m" and "strict_mono ids"
  shows "distinct (map fst (peer_list m))" and "distinct (map snd (peer_list m))"
proof -
  show "distinct (map fst (peer_list m))" using assms(1) by (simp add: match_inv_def peer_list_def comp_def case_prod_beta)
  have "sorted_wrt (<) (sessions m)" using assms by (simp add: match_inv_def sessions_ok_def)
  then show "distinct (map snd (peer_list m))" by (simp add: sessions_peers strict_sorted_iff)
qed

lemma peers_Leave: "peer_list (snd (Match_Leave m peer)) = filter (\<lambda>x. fst x \<noteq> peer) (peer_list m)"
proof (cases "find_member m peer")
  case None
  then have "filter (\<lambda>x. fst x \<noteq> peer) (peer_list m) = peer_list m"
    by (force simp: find_member_None peer_list_def intro: filter_True)
  then show ?thesis using None by (simp add: Match_Leave_def)
next
  case (Some member)
  have "map f (filter (\<lambda>entry. fst entry \<noteq> peer) ms) = filter (\<lambda>x. fst x \<noteq> peer) (map f ms)"
    if "\<And>entry. fst (f entry) = fst entry" for f :: "PeerId \<times> uuid Member \<Rightarrow> PeerId \<times> uuid" and ms
    using that by (induction ms) auto
  then have drop: "map (\<lambda>entry. (fst entry, mb_session (snd entry))) (filter (\<lambda>entry. fst entry \<noteq> peer) ms) =
      filter (\<lambda>x. fst x \<noteq> peer) (map (\<lambda>entry. (fst entry, mb_session (snd entry))) ms)" for ms :: "(PeerId \<times> uuid Member) list"
    by simp
  have ready: "mb_session (if b then member\<lparr>mb_ready_version := v\<rparr> else member) = mb_session member" for b v and member :: "uuid Member"
    by simp
  show ?thesis using Some
    unfolding peer_list_def drop [symmetric]
    by (simp add: Match_Leave_def Match_End_def Let_def comp_def case_prod_beta ready)
qed

lemma peers_ok_Leave:
  assumes "peers_ok m players" and "match_inv ids config m" and "strict_mono ids" and "Match_SessionOf m peer = Some session"
  shows "peers_ok (snd (Match_Leave m peer)) (erase_key session players)"
proof -
  have here: "(peer, session) \<in> set (peer_list m)" using SessionOf_peers [OF assms(2)] assms(4) by blast
  have same: "p = peer \<longleftrightarrow> s = session" if "(p, s) \<in> set (peer_list m)" for p s
  proof
    show "s = session" if "p = peer"
      using eq_key_imp_eq_value [OF peers_distinct(1) [OF assms(2,3)] here] that \<open>(p, s) \<in> set (peer_list m)\<close> by simp
    show "p = peer" if "s = session"
      using inj_onD [of snd "set (peer_list m)", OF _ _ here \<open>(p, s) \<in> set (peer_list m)\<close>]
        peers_distinct(2) [OF assms(2,3)] that by (simp add: distinct_map)
  qed
  have "set (queue_peers (erase_key session players)) = {x \<in> set (queue_peers players). snd x \<noteq> session}"
    by (auto simp: queue_peers_def erase_key_def)
  also have "\<dots> = {x \<in> set (peer_list m). fst x \<noteq> peer}" using assms(1) same by (force simp: peers_ok_def)
  finally have "set (queue_peers (erase_key session players)) = {x \<in> set (peer_list m). fst x \<noteq> peer}" .
  moreover have "distinct (map fst (erase_key session players))"
    using assms(1) by (simp add: peers_ok_def erase_key_def distinct_map_filter)
  ultimately show ?thesis by (simp add: peers_ok_def peers_Leave)
qed

section \<open>The Network I/O thread keeps it\<close>

lemma hosted_invI:
  assumes "match_inv ids (hc_match config) (ho_match o')" and "peers_ok (ho_match o') (ho_players o')"
    and "bodies_ok (ho_match o') (ho_simulating o') (ho_bodies o')" and "\<not> ho_threw o'"
  shows "hosted_inv ids config o'"
  using assms by (simp add: hosted_inv_def)

lemma hosted_invD:
  assumes "hosted_inv ids config o'"
  shows "match_inv ids (hc_match config) (ho_match o')" and "peers_ok (ho_match o') (ho_players o')"
    and "bodies_ok (ho_match o') (ho_simulating o') (ho_bodies o')" and "\<not> ho_threw o'"
  using assms by (simp_all add: hosted_inv_def)

lemma in_match_Leave: "m_in_match (snd (Match_Leave m peer)) \<Longrightarrow> m_in_match m"
  by (auto simp: Match_Leave_def Match_End_def Let_def split: if_splits)

lemma bodies_ok_mono:
  assumes "bodies_ok m simulating bodies" and "m_in_match m' \<Longrightarrow> m_in_match m" and "set (peer_list m') \<subseteq> set (peer_list m)"
  shows "bodies_ok m' simulating bodies"
  using assms unfolding bodies_ok_def sessions_peers by auto

lemma peers_ok_same: "peers_ok m players \<Longrightarrow> peer_list m' = peer_list m \<Longrightarrow> peers_ok m' players"
  by (simp add: peers_ok_def)

text \<open>A step that keeps who is joined, and does not start a match, keeps all of it.\<close>

lemma hosted_inv_same:
  assumes "hosted_inv ids config o'" and "match_inv ids (hc_match config) (ho_match o'')"
    and "peer_list (ho_match o'') = peer_list (ho_match o')" and "m_in_match (ho_match o'') \<Longrightarrow> m_in_match (ho_match o')"
    and "ho_players o'' = ho_players o'" and "ho_bodies o'' = ho_bodies o'" and "ho_simulating o'' = ho_simulating o'"
    and "ho_threw o'' = ho_threw o'"
  shows "hosted_inv ids config o''"
  using assms hosted_invD [OF assms(1)] peers_ok_same bodies_ok_mono [of "ho_match o'" _ _ "ho_match o''"]
  by (intro hosted_invI) simp_all

lemma hosted_inv_gate: "hosted_inv ids config (sv_own s) \<Longrightarrow> hosted_inv ids config (sv_own (on_gate g s))"
  by simp

lemma HandleDisconnect_inv:
  assumes "hosted_inv ids config (sv_own s)" and "strict_mono ids"
  shows "hosted_inv ids config (sv_own (HandleDisconnect env peer how s))"
proof -
  let ?m = "ho_match (sv_own s)"
  let ?s = "on_own (\<lambda>o'. o'\<lparr>ho_debug := DebugSubscriptions_Forget (ho_debug o') peer\<rparr>) (on_gate (\<lambda>g. PeerGate_Left g peer) s)"
  have inv: "hosted_inv ids config (sv_own ?s)"
    by (rule hosted_inv_same [OF assms(1)]) (use hosted_invD(1) [OF assms(1)] in simp_all)
  show ?thesis
  proof (cases "Match_SessionOf ?m peer")
    case None
    then show ?thesis using inv by (simp add: HandleDisconnect_def Let_def)
  next
    case (Some session)
    obtain departure m where left: "Match_Leave ?m peer = (departure, m)" by fastforce
    let ?s' = "on_own (\<lambda>o'. o'\<lparr>ho_match := m, ho_players := erase_key session (ho_players o')\<rparr>) ?s"
    have "match_inv ids (hc_match config) m" using match_inv_Leave [OF hosted_invD(1) [OF assms(1)], of peer] left by simp
    moreover have players: "peers_ok m (erase_key session (ho_players (sv_own s)))"
      using peers_ok_Leave [OF hosted_invD(2) [OF assms(1)] hosted_invD(1) [OF assms(1)] assms(2) Some] left by simp
    moreover have "bodies_ok m (ho_simulating (sv_own s)) (ho_bodies (sv_own s))"
      using bodies_ok_mono [OF hosted_invD(3) [OF assms(1)], of m] in_match_Leave [of ?m peer] peers_Leave [of ?m peer] left by auto
    ultimately have inv': "hosted_inv ids config (sv_own ?s')" using hosted_invD(4) [OF assms(1)] by (intro hosted_invI) simp_all
    have result: "HandleDisconnect env peer how s = (case departure of kFromLobby \<Rightarrow> SendRoster env ?s'
        | kEndedMatch \<Rightarrow> on_own (\<lambda>o'. o'\<lparr>ho_match_winner := None\<rparr>) ?s' | _ \<Rightarrow> ?s')"
      using Some left by (simp add: HandleDisconnect_def Let_def split: Departure.splits)
    have "quiet ?s' (SendRoster env ?s')" by (rule quiet_SendRoster) (use players in simp)
    then have roster: "hosted_inv ids config (sv_own (SendRoster env ?s'))" using hosted_inv_quiet inv' by blast
    have winner: "hosted_inv ids config (sv_own (on_own (\<lambda>o'. o'\<lparr>ho_match_winner := None\<rparr>) ?s'))"
      using inv' by (simp add: hosted_inv_def)
    show ?thesis unfolding result by (cases departure) (simp_all only: Departure.case inv' roster winner)
  qed
qed

lemma Expel_inv:
  assumes "hosted_inv ids config (sv_own s)" and "strict_mono ids"
  shows "hosted_inv ids config (sv_own (Expel env peer s))"
  unfolding Expel_def
  by (rule HandleDisconnect_inv [OF _ assms(2)]) (use assms(1) in \<open>simp add: hosted_inv_def\<close>)

lemma Judge_inv:
  assumes "hosted_inv ids config (sv_own s)" and "strict_mono ids"
  shows "hosted_inv ids config (sv_own (snd (Judge env peer rejection now s)))"
  using assms by (auto simp: Judge_def Let_def intro: Expel_inv split: prod.split)

lemma Judge_kept: "fst (Judge env peer rejection now s) \<noteq> kDisconnect \<Longrightarrow> sv_own (snd (Judge env peer rejection now s)) = sv_own s"
  by (auto simp: Judge_def Let_def split: prod.splits)

lemma Reply_inv: "hosted_inv ids config (sv_own s) \<Longrightarrow> hosted_inv ids config (sv_own (Reply env peer message s))"
  using hosted_inv_quiet [OF quiet_Reply] by blast

lemma HandleReady_inv:
  assumes "hosted_inv ids config (sv_own s)" and "strict_mono ids"
  shows "hosted_inv ids config (sv_own (HandleReady env peer version now s))"
proof -
  obtain ready m where step: "Match_Ready (ho_match (sv_own s)) peer version = (ready, m)" by fastforce
  let ?s = "on_own (\<lambda>o'. o'\<lparr>ho_match := m\<rparr>) s"
  have "same_titles (ho_match (sv_own s)) m" "m_in_match m = m_in_match (ho_match (sv_own s))"
    using step by (auto simp: Match_Ready_def same_titles_def title_def split: if_splits)
  then have "hosted_inv ids config (sv_own ?s)"
    using match_inv_Ready [OF hosted_invD(1) [OF assms(1)], of peer version] step same_titles_peers
    by (intro hosted_inv_same [OF assms(1)]) auto
  then show ?thesis using step Judge_inv [OF _ assms(2), of config ?s] by (simp add: HandleReady_def Let_def)
qed

text \<open>A change to players' queues alone.\<close>

lemma hosted_inv_queues:
  assumes "hosted_inv ids config o'" and "\<And>key p. hp_peer (f key p) = hp_peer p"
    and "ho_players o'' = map (\<lambda>(key, p). (key, f key p)) (ho_players o')" and "ho_match o'' = ho_match o'"
    and "ho_bodies o'' = ho_bodies o'" and "ho_simulating o'' = ho_simulating o'" and "ho_threw o'' = ho_threw o'"
  shows "hosted_inv ids config o''"
proof -
  have "queue_peers (map (\<lambda>(key, p). (key, f key p)) players) = queue_peers players" for players
    using assms(2) by (auto simp: queue_peers_def)
  moreover have "map fst (map (\<lambda>(key, p). (key, f key p)) players) = map fst players" for players by auto
  ultimately have "peers_ok m (map (\<lambda>(key, p). (key, f key p)) players) = peers_ok m players" for m players
    by (simp only: peers_ok_def)
  then show ?thesis using assms hosted_invD [OF assms(1)] by (intro hosted_invI) simp_all
qed

lemma players_keys: "fst ` set (map (\<lambda>(key, p). (key, f key p)) players) = fst ` set players"
  by force

lemma take_in_inv:
  assumes "hosted_inv ids config (sv_own s)" and "strict_mono ids" and "session \<in> fst ` set (ho_players (sv_own s))"
  shows "hosted_inv ids config (sv_own (take_in env vlength peer session commands now s))"
  using assms(1,3)
proof (induction commands arbitrary: s)
  case (Cons command commands)
  obtain player where player: "map_of (ho_players (sv_own s)) session = Some player"
    using Cons.prems(2) by (cases "map_of (ho_players (sv_own s)) session") (auto simp: map_of_eq_None_iff)
  obtain enqueued queue where step: "TryEnqueue vlength (hp_commands player) command = (enqueued, queue)" by fastforce
  let ?f = "\<lambda>key p. if key = session then p\<lparr>hp_commands := queue\<rparr> else p"
  let ?s = "on_own (\<lambda>o'. o'\<lparr>ho_players := map (\<lambda>(key, p). (key, ?f key p)) (ho_players o')\<rparr>) s"
  have inv: "hosted_inv ids config (sv_own ?s)"
    by (rule hosted_inv_queues [where f = ?f, OF Cons.prems(1)]) simp_all
  have key: "session \<in> fst ` set (ho_players (sv_own ?s))"
    using Cons.prems(2) players_keys [of ?f "ho_players (sv_own s)"] by simp
  show ?case
  proof (cases enqueued)
    case (Inr r)
    have "take_in env vlength peer session (command # commands) now s = take_in env vlength peer session commands now ?s"
      by (simp only: take_in.simps player step Inr option.case prod.case sum.case Let_def)
    then show ?thesis using Cons.IH [OF inv key] by (simp only:)
  next
    case (Inl rejection)
    obtain verdict s' where judged: "Judge env peer (ToPeerRejection rejection) now ?s = (verdict, s')" by fastforce
    have inv': "hosted_inv ids config (sv_own s')" 
      using Judge_inv [OF inv assms(2), of env peer "ToPeerRejection rejection" now] unfolding judged snd_conv .
    have "take_in env vlength peer session (command # commands) now s =
        (if verdict = kDisconnect then s' else take_in env vlength peer session commands now s')"
      by (simp only: take_in.simps player step Inl option.case prod.case sum.case Let_def judged)
    moreover have "sv_own s' = sv_own ?s" if "verdict \<noteq> kDisconnect"
      using Judge_kept [of env peer "ToPeerRejection rejection" now ?s] judged that by (simp only: fst_conv snd_conv not_False_eq_True)
    then have "session \<in> fst ` set (ho_players (sv_own s'))" if "verdict \<noteq> kDisconnect" using key that by (simp only: not_False_eq_True)
    ultimately show ?thesis using Cons.IH [OF inv'] inv' by simp
  qed
qed simp

lemma HandleCommands_inv:
  assumes "hosted_inv ids config (sv_own s)" and "strict_mono ids"
  shows "hosted_inv ids config (sv_own (HandleCommands env vlength peer commands now s))"
proof (cases "Match_SessionOf (ho_match (sv_own s)) peer")
  case None
  then show ?thesis using Judge_inv [OF assms] by (simp add: HandleCommands_def)
next
  case (Some session)
  have "(peer, session) \<in> set (peer_list (ho_match (sv_own s)))" using SessionOf_peers [OF hosted_invD(1) [OF assms(1)]] Some by blast
  then have "session \<in> fst ` set (ho_players (sv_own s))"
    using peers_ok_keys [OF hosted_invD(2) [OF assms(1)]] by (force simp: sessions_peers)
  then have found: "map_of (ho_players (sv_own s)) session \<noteq> None"
    and taken: "hosted_inv ids config (sv_own (take_in env vlength peer session commands now s))"
    using take_in_inv [OF assms] by (simp_all only: map_of_eq_None_iff not_not)
  have "HandleCommands env vlength peer commands now s =
      (if \<not> Match_IsPlaying (ho_match (sv_own s)) session then snd (Judge env peer kCommandsOutsideMatch now s)
       else take_in env vlength peer session commands now s)"
    using Some found by (simp only: HandleCommands_def option.case if_False)
  then show ?thesis using taken Judge_inv [OF assms] by simp
qed


lemma Join_takes:
  "Match_Join ids m peer request = (Inr admission, m') \<Longrightarrow> find_member m peer = None \<Longrightarrow> m_taken m' = m_taken m + 1"
  by (auto simp: Match_Join_def Let_def split: if_splits option.splits)

lemma Join_again:
  assumes "Match_Join ids m peer request = (Inr admission, m)"
  shows "ad_session admission \<in> set (sessions m)"
proof -
  have "find_member m peer \<noteq> None" using Join_takes [OF assms] by auto
  then show ?thesis using assms
    by (force simp: Match_Join_def admission_of_def sessions_def find_member_def dest: map_of_SomeD split: option.splits)
qed

lemma HandleJoinRequest_inv:
  assumes "hosted_inv ids config (sv_own s)" and "strict_mono ids"
  shows "hosted_inv ids config (sv_own (HandleJoinRequest env ids config peer request now s))"
proof -
  let ?m = "ho_match (sv_own s)"
  obtain result m where step: "Match_Join ids ?m peer request = (result, m)" by fastforce
  have match: "match_inv ids (hc_match config) m"
    using match_inv_Join [OF hosted_invD(1) [OF assms(1)], of peer request] step by simp
  show ?thesis
  proof (cases rule: Join_cases [of ids ?m peer request])
    case unchanged
    then have same: "m = ?m" using step by simp
    have inv: "hosted_inv ids config (sv_own (on_own (\<lambda>o'. o'\<lparr>ho_match := m\<rparr>) s))"
      by (rule hosted_inv_same [OF assms(1)]) (use match same in simp_all)
    show ?thesis
    proof (cases result)
      case (Inl refusal)
      then show ?thesis using Judge_inv [OF Reply_inv [OF inv] assms(2)] step by (simp add: HandleJoinRequest_def)
    next
      case (Inr admission)
      have "ad_session admission \<in> set (sessions ?m)"
        using Join_again step same Inr by metis
      then have "ad_session admission \<in> fst ` set (ho_players (sv_own s))"
        using peers_ok_keys [OF hosted_invD(2) [OF assms(1)]] by simp
      let ?s = "Reply env peer (AdmittedMessage admission) (on_gate (\<lambda>g. PeerGate_Admitted g peer) (on_own (\<lambda>o'. o'\<lparr>ho_match := m\<rparr>) s))"
      have "ho_players (sv_own ?s) = ho_players (sv_own s)" by (simp add: quiet_fields(7) [OF quiet_Reply])
      then have "map_of (ho_players (sv_own ?s)) (ad_session admission) \<noteq> None"
        using \<open>ad_session admission \<in> fst ` _\<close> by (simp only: map_of_eq_None_iff not_not)
      then have "HandleJoinRequest env ids config peer request now s = ?s"
        using step Inr by (auto simp: HandleJoinRequest_def Let_def)
      then show ?thesis using Reply_inv [OF hosted_inv_gate [OF inv]] by simp
    qed
  next
    case (joined member)
    have admission: "result = Inr (admission_of member)" using joined(7) step by simp
    have m: "m = ?m\<lparr>m_members := m_members ?m @ [(peer, member)], m_roster_version := m_roster_version ?m + 1, m_taken := m_taken ?m + 1\<rparr>"
      using joined(7) step by simp
    have peers: "peer_list m = peer_list ?m @ [(peer, mb_session member)]" by (simp add: m peer_list_def)
    have fresh: "mb_session member \<notin> fst ` set (ho_players (sv_own s))"
      using peers_ok_keys [OF hosted_invD(2) [OF assms(1)]] hosted_invD(1) [OF assms(1)] assms(2)
      by (auto simp: joined(5) match_inv_def sessions_ok_def)
    let ?s = "Reply env peer (AdmittedMessage (admission_of member)) (on_gate (\<lambda>g. PeerGate_Admitted g peer) (on_own (\<lambda>o'. o'\<lparr>ho_match := m\<rparr>) s))"
    let ?queue = "\<lparr>hp_peer = peer, hp_commands = CommandQueue_init (hc_tick_rate_hz config)\<rparr>"
    let ?s' = "on_own (\<lambda>o'. o'\<lparr>ho_players := ho_players o' @ [(ad_session (admission_of member), ?queue)]\<rparr>) ?s"
    have own: "ho_players (sv_own ?s) = ho_players (sv_own s)" "ho_match (sv_own ?s) = m" "ho_bodies (sv_own ?s) = ho_bodies (sv_own s)"
      "ho_simulating (sv_own ?s) = ho_simulating (sv_own s)" "ho_threw (sv_own ?s) = ho_threw (sv_own s)"
      by (simp_all add: quiet_fields [OF quiet_Reply])
    have queued': "queue_peers (ho_players (sv_own s) @ [(mb_session member, ?queue)]) = queue_peers (ho_players (sv_own s)) @ [(peer, mb_session member)]"
      by (simp add: queue_peers_def)
    have players: "peers_ok m (ho_players (sv_own s) @ [(mb_session member, ?queue)])"
      using hosted_invD(2) [OF assms(1)] fresh by (simp add: peers_ok_def queued' peers)
    have bodies: "bodies_ok m (ho_simulating (sv_own s)) (ho_bodies (sv_own s))"
      using hosted_invD(3) [OF assms(1)] joined(2) by (simp add: bodies_ok_def m)
    have session: "ad_session (admission_of member) = mb_session member" by (simp add: admission_of_def)
    have inv: "hosted_inv ids config (sv_own ?s')"
      by (rule hosted_invI) (use match players bodies hosted_invD(4) [OF assms(1)] in \<open>simp_all add: own session\<close>)
    have "quiet ?s' (SendRoster env ?s')" by (rule quiet_SendRoster) (rule hosted_invD(2) [OF inv])
    then have sent: "hosted_inv ids config (sv_own (SendRoster env ?s'))" using hosted_inv_quiet inv by blast
    have "map_of (ho_players (sv_own ?s)) (ad_session (admission_of member)) = None"
      using fresh by (simp add: own map_of_eq_None_iff session)
    then have "HandleJoinRequest env ids config peer request now s = SendRoster env ?s'"
      using step admission by (simp only: HandleJoinRequest_def Let_def prod.case sum.case option.case)
    then show ?thesis using sent by (simp only:)
  qed
qed

lemma HandleMessage_inv:
  assumes "hosted_inv ids config (sv_own s)" and "strict_mono ids"
  shows "hosted_inv ids config (sv_own (HandleMessage env vlength ids config now message s))"
proof (cases "pm_body message")
  case Undecodable
  then show ?thesis using Judge_inv [OF assms] by (simp add: HandleMessage_def)
next
  case NotFromAClient
  then show ?thesis using Judge_inv [OF assms] by (simp add: HandleMessage_def)
next
  case (Said said)
  have refused: "hosted_inv ids config (sv_own (RefuseAsNoReplayServer env (pm_from message) now s))"
    using Judge_inv [OF Reply_inv [OF assms(1)] assms(2)] by (simp add: RefuseAsNoReplayServer_def)
  have subscribed: "hosted_inv ids config (sv_own (HandleDebugSubscribe (pm_from message) flags s))" for flags
    unfolding HandleDebugSubscribe_def by (rule hosted_inv_same [OF assms(1)]) (use hosted_invD(1) [OF assms(1)] in simp_all)
  show ?thesis using Said HandleJoinRequest_inv [OF assms] HandleCommands_inv [OF assms] HandleReady_inv [OF assms] refused subscribed
    by (cases said) (simp_all only: HandleMessage_def Let_def Said.case ClientMessage.case)
qed

lemma host_handlers_fields [simp]:
  "ph_disconnected (host_handlers env vlength ids config now) = HandleDisconnect env"
  "ph_message (host_handlers env vlength ids config now) = HandleMessage env vlength ids config now"
  "ph_overdue (host_handlers env vlength ids config now) = Expel env"
  by (simp_all add: host_handlers_def)

lemma pump_event_inv:
  assumes "hosted_inv ids config (sv_own s)" and "strict_mono ids"
  shows "hosted_inv ids config (sv_own (pump_event (host_handlers env vlength ids config now) now event s))"
  using assms HandleDisconnect_inv [OF assms] by (simp add: pump_event_def split: PeerEventType.split)

lemma pump_message_inv:
  assumes "hosted_inv ids config (sv_own s)" and "strict_mono ids"
  shows "hosted_inv ids config (sv_own (pump_message (host_handlers env vlength ids config now) message s))"
  using assms HandleMessage_inv [OF _ assms(2), of config "s\<lparr>sv_received_bytes := sv_received_bytes s + pm_bytes message\<rparr>"]
  by (simp add: pump_message_def)

lemma expel_all_inv:
  assumes "hosted_inv ids config (sv_own s)" and "strict_mono ids"
  shows "hosted_inv ids config (sv_own (fold (Expel env) peers s))"
  using assms(1) by (induction peers arbitrary: s) (simp_all add: Expel_inv [OF _ assms(2)])

lemma overdue_inv:
  assumes "hosted_inv ids config (sv_own s)" and "strict_mono ids"
  shows "hosted_inv ids config (sv_own (overdue_step env now s))"
  using assms(1) by (simp add: overdue_step_def Let_def expel_all_inv [OF _ assms(2)] split: prod.split)

end
