(* ===== verification/Host_Run.thy ===== *)
theory Host_Run
  imports Host_Correct
begin

text \<open>
  Every run of the server over both its threads: the Simulation thread keeps the agreement of
  the book of players, their queues and their bodies too, so no run ever throws.
\<close>

section \<open>The Simulation thread keeps the agreement\<close>

lemma EndMatch_inv:
  assumes "hosted_inv ids config (sv_own s)"
  shows "hosted_inv ids config (sv_own (EndMatch env winner s))"
proof -
  let ?m = "ho_match (sv_own s)"
  obtain ended m where step: "Match_End ?m winner = (ended, m)" by fastforce
  show ?thesis
  proof (cases ended)
    case None
    then show ?thesis using assms step by (simp add: EndMatch_def)
  next
    case (Some end')
    have m: "same_titles ?m m" "\<not> m_in_match m" "me_players end' = Match_Playing ?m"
      using step Some by (auto simp: Match_End_def same_titles_def split: if_splits)
    let ?s = "on_own (\<lambda>o'. o'\<lparr>ho_match := m\<rparr>) s"
    have inv: "hosted_inv ids config (sv_own ?s)"
      using match_inv_End [OF hosted_invD(1) [OF assms], of winner] step same_titles_peers [OF m(1)] m(2)
      by (intro hosted_inv_same [OF assms]) simp_all
    let ?s' = "SendTo env (me_players end') (MatchEndMessage (me_winner end')) ?s"
    have "set (me_players end') \<subseteq> fst ` set (ho_players (sv_own ?s))"
      using peers_ok_keys [OF hosted_invD(2) [OF assms]] by (simp add: m(3) Playing_sessions)
    then have inv': "hosted_inv ids config (sv_own ?s')" using hosted_inv_quiet [OF quiet_SendTo] inv by blast
    let ?s'' = "on_own (\<lambda>o'. o'\<lparr>ho_match_winner := me_winner end'\<rparr>) ?s'"
    have inv'': "hosted_inv ids config (sv_own ?s'')"
      by (rule hosted_inv_same [OF inv']) (use hosted_invD(1) [OF inv'] in simp_all)
    have "hosted_inv ids config (sv_own (SendRoster env ?s''))"
      using hosted_inv_quiet [OF quiet_SendRoster [OF hosted_invD(2) [OF inv'']]] inv'' by blast
    then show ?thesis using step Some by (simp only: EndMatch_def Let_def prod.case option.case)
  qed
qed

text \<open>What only drives the world and tells the Capturer.\<close>

definition driven :: "('f, 'w) hosted \<Rightarrow> ('f, 'w) hosted \<Rightarrow> bool" where
  "driven o' o'' \<longleftrightarrow> (\<exists>world told. o'' = o'\<lparr>ho_world := world, ho_told := told\<rparr>)"

lemma driven_refl [simp]: "driven o' o'"
  unfolding driven_def by (intro exI [of _ "ho_world o'"] exI [of _ "ho_told o'"]) simp

lemma driven_trans: "driven a b \<Longrightarrow> driven b c \<Longrightarrow> driven a c"
  unfolding driven_def by force

lemma driven_tell [simp]: "driven o' (tell item o')"
  unfolding driven_def tell_def by (intro exI [of _ "ho_world o'"] exI [of _ "ho_told o' @ [item]"]) simp

lemma driven_world [simp]: "driven o' (o'\<lparr>ho_world := world\<rparr>)"
  unfolding driven_def by (intro exI [of _ world] exI [of _ "ho_told o'"]) simp

lemma driven_fold: "(\<And>x o'. driven o' (f x o')) \<Longrightarrow> driven o' (fold f xs o')"
  by (induction xs arbitrary: o') (auto intro: driven_trans)

lemma driven_fields:
  assumes "driven o' o''"
  shows "ho_bodies o'' = ho_bodies o'" "ho_simulating o'' = ho_simulating o'" "ho_tick o'' = ho_tick o'"
    "ho_match o'' = ho_match o'" "ho_players o'' = ho_players o'" "ho_threw o'' = ho_threw o'"
  using assms by (auto simp: driven_def)

lemma driven_take_out: "driven o' (take_out ops config next_tick body o')"
  by (simp add: take_out_def Let_def driven_trans [OF driven_world driven_tell])

lemma driven_deaths: "driven o' (CaptureDeaths config result o')"
  by (auto simp: CaptureDeaths_def case_prod_beta intro: driven_fold)

lemma TakeOutEndedMatch_own:
  obtains o' where "driven (sv_own s) o'"
    and "sv_own (TakeOutEndedMatch ops config s) = o'\<lparr>ho_bodies := [], ho_simulating := False\<rparr>"
proof -
  let ?o = "(sv_own s)\<lparr>ho_world := si_end ops (ho_world (sv_own s))\<rparr>"
  let ?leaves = "fold (\<lambda>(session, entity). tell (LeaveIn (ho_tick ?o) entity))
      (filter (\<lambda>(session, entity). map_of (ho_players ?o) session = None) (ho_bodies ?o)) ?o"
  have "driven ?o ?leaves" by (rule driven_fold) (simp add: case_prod_beta)
  then have "driven (sv_own s) (tell (EndIn (ho_tick ?o) (ho_match_winner ?o)) ?leaves)"
    by (rule driven_trans [OF driven_trans [OF driven_world] driven_tell])
  then have driven: "driven (sv_own s) (if hc_captures config then tell (EndIn (ho_tick ?o) (ho_match_winner ?o)) ?leaves else ?o)"
    by (cases "hc_captures config") (simp_all only: if_True if_False driven_world)
  show ?thesis by (rule that [OF driven]) (simp only: TakeOutEndedMatch_def Let_def own_fields)
qed

lemma TakeOutEndedMatch_inv:
  assumes "hosted_inv ids config (sv_own s)" and "\<not> m_in_match (ho_match (sv_own s))"
  shows "hosted_inv ids config (sv_own (TakeOutEndedMatch ops config s))"
proof -
  obtain o' where o': "driven (sv_own s) o'" "sv_own (TakeOutEndedMatch ops config s) = o'\<lparr>ho_bodies := [], ho_simulating := False\<rparr>"
    by (rule TakeOutEndedMatch_own)
  show ?thesis using assms hosted_invD [OF assms(1)]
    by (intro hosted_invI) (simp_all add: o'(2) driven_fields [OF o'(1)] bodies_ok_def)
qed

lemma IsPlaying_sessions: "Match_IsPlaying m session \<longleftrightarrow> m_in_match m \<and> session \<in> set (sessions m)"
  by (auto simp: Match_IsPlaying_def sessions_def list_ex_iff)

lemma erase_gone_own:
  obtains o'' where "driven o' o''"
    and "erase_gone ops config next_tick o' = o''\<lparr>ho_bodies := filter (\<lambda>body. Match_IsPlaying (ho_match o') (fst body)) (ho_bodies o')\<rparr>"
proof -
  have "driven o' (fold (take_out ops config next_tick) bodies o')" for bodies
    by (rule driven_fold) (rule driven_take_out)
  then show ?thesis by (rule that) (simp only: erase_gone_def Let_def)
qed

lemma erase_gone_inv:
  assumes "hosted_inv ids config o'"
  shows "hosted_inv ids config (erase_gone ops config next_tick o')"
proof -
  obtain o'' where o'': "driven o' o''"
    "erase_gone ops config next_tick o' = o''\<lparr>ho_bodies := filter (\<lambda>body. Match_IsPlaying (ho_match o') (fst body)) (ho_bodies o')\<rparr>"
    by (rule erase_gone_own)
  have "bodies_ok (ho_match o') (ho_simulating o') (filter (\<lambda>body. Match_IsPlaying (ho_match o') (fst body)) (ho_bodies o'))"
    using hosted_invD(3) [OF assms]
    by (force simp: bodies_ok_def distinct_map_filter IsPlaying_sessions)
  then show ?thesis using hosted_invD [OF assms]
    by (intro hosted_invI) (simp_all add: o''(2) driven_fields [OF o''(1)])
qed

section \<open>Starting a match\<close>

lemma emplace_keys: "fst ` set (emplace key v entries) = insert key (fst ` set entries)"
  by (auto simp: emplace_def map_of_eq_None_iff)

lemma distinct_emplace: "distinct (map fst entries) \<Longrightarrow> distinct (map fst (emplace key v entries))"
  by (simp add: emplace_def map_of_eq_None_iff)

text \<open>Each player of the start with a known character and a queue gets a body, and a fresh queue.\<close>

lemma enter_players_own:
  assumes "\<forall>player \<in> set players. mp_character player \<in> set (mc_characters (hc_match config)) \<and>
      mp_session player \<in> fst ` set (ho_players (sv_own s))"
    and "distinct (map fst (ho_bodies (sv_own s)))"
  shows "\<exists>bodies f. sv_own (enter_players config players s) =
        (sv_own s)\<lparr>ho_bodies := bodies, ho_players := map (\<lambda>(key, p). (key, f key p)) (ho_players (sv_own s))\<rparr> \<and>
      (\<forall>key p. hp_peer (f key p) = hp_peer p) \<and> distinct (map fst bodies) \<and>
      fst ` set bodies = fst ` set (ho_bodies (sv_own s)) \<union> mp_session ` set players"
  using assms
proof (induction players arbitrary: s)
  case Nil
  then show ?case
    by (intro exI [of _ "ho_bodies (sv_own s)"] exI [of _ "\<lambda>key p. p"]) (simp add: case_prod_beta)
next
  case (Cons player players)
  let ?f = "\<lambda>key p. if key = mp_session player then p\<lparr>hp_commands := CommandQueue_init (hc_tick_rate_hz config)\<rparr> else p"
  let ?s = "on_own (\<lambda>o'. o'\<lparr>ho_bodies := emplace (mp_session player) (mp_entity player) (ho_bodies o'),
      ho_players := map (\<lambda>(key, p). (key, ?f key p)) (ho_players o')\<rparr>) s"
  have step: "enter_players config (player # players) s = enter_players config players ?s"
    using Cons.prems by (simp add: map_of_eq_None_iff)
  have known: "\<forall>player \<in> set players. mp_character player \<in> set (mc_characters (hc_match config)) \<and>
      mp_session player \<in> fst ` set (ho_players (sv_own ?s))"
    using Cons.prems(1) players_keys [of ?f "ho_players (sv_own s)"] by simp
  have "distinct (map fst (ho_bodies (sv_own ?s)))" using Cons.prems(2) by (simp add: distinct_emplace)
  from Cons.IH [OF known this] obtain bodies g where rest: "sv_own (enter_players config players ?s) =
        (sv_own ?s)\<lparr>ho_bodies := bodies, ho_players := map (\<lambda>(key, p). (key, g key p)) (ho_players (sv_own ?s))\<rparr>"
      "\<forall>key p. hp_peer (g key p) = hp_peer p" "distinct (map fst bodies)"
      "fst ` set bodies = fst ` set (ho_bodies (sv_own ?s)) \<union> mp_session ` set players"
    by (elim exE conjE)
  have own: "sv_own (enter_players config players ?s) =
      (sv_own s)\<lparr>ho_bodies := bodies, ho_players := map (\<lambda>(key, p). (key, g key (?f key p))) (ho_players (sv_own s))\<rparr>"
    unfolding rest(1) by (simp add: case_prod_beta comp_def)
  have keys: "fst ` set bodies = fst ` set (ho_bodies (sv_own s)) \<union> mp_session ` set (player # players)"
    unfolding rest(4) by (simp add: emplace_keys)
  show ?case unfolding step
    by (intro exI [of _ bodies] exI [of _ "\<lambda>key p. g key (?f key p)"] conjI own rest(3) keys) (simp add: rest(2))
qed


lemma start_sessions:
  assumes "Match_TryStart ids m = (Some start, m')" and "match_inv ids config m"
  shows "mp_session ` set (ms_players start) = set (sessions m)"
    and "\<forall>player \<in> set (ms_players start). mp_character player \<in> set (mc_characters config)"
    and "peer_list m' = peer_list m" and "m_in_match m'"
proof -
  have players: "ms_players start = map2 (\<lambda>member k. \<lparr>mp_session = mb_session member, mp_entity = m_next_entity m + word_of_nat k,
         mp_character = mb_character member, mp_spawn = mb_spawn member\<rparr>) (MembersBySession m) [0..<length (MembersBySession m)]"
    using assms(1) by (auto simp: Match_TryStart_def fold_start_player split: if_splits)
  have members: "set (MembersBySession m) = snd ` set (m_members m)" by (simp add: MembersBySession_def)
  have "map mp_session (ms_players start) = map mb_session (MembersBySession m)"
    "map mp_character (ms_players start) = map mb_character (MembersBySession m)"
    unfolding players by (intro nth_equalityI; simp)+
  then have by_session: "mp_session ` set (ms_players start) = mb_session ` snd ` set (m_members m)"
    and by_character: "mp_character ` set (ms_players start) = mb_character ` snd ` set (m_members m)"
    unfolding members [symmetric] by (metis list.set_map)+
  show "mp_session ` set (ms_players start) = set (sessions m)"
    unfolding by_session by (simp add: sessions_def image_image case_prod_beta)
  have "mb_character ` snd ` set (m_members m) \<subseteq> set (mc_characters config)"
    using assms(2) by (auto simp: match_inv_def config_kept_def member_ok_def list_all_iff)
  then show "\<forall>player \<in> set (ms_players start). mp_character player \<in> set (mc_characters config)"
    unfolding by_character [symmetric] by auto
  show "peer_list m' = peer_list m" "m_in_match m'"
    using assms(1) by (auto simp: Match_TryStart_def peer_list_def split: if_splits prod.splits)
qed

lemma StartMatchIfReady_inv:
  assumes "hosted_inv ids config (sv_own s)"
  shows "hosted_inv ids config (sv_own (StartMatchIfReady env ops ids config health clock s))"
proof -
  let ?m = "ho_match (sv_own s)"
  obtain started m where step: "Match_TryStart ids ?m = (started, m)" by fastforce
  have match: "match_inv ids (hc_match config) m" using match_inv_TryStart [OF hosted_invD(1) [OF assms]] step by simp
  let ?s = "on_own (\<lambda>o'. o'\<lparr>ho_match := m\<rparr>) s"
  show ?thesis
  proof (cases started)
    case None
    then have "m = ?m" using step by (auto simp: Match_TryStart_def split: if_splits prod.splits)
    then have "hosted_inv ids config (sv_own ?s)" by (intro hosted_inv_same [OF assms]) (use match in simp_all)
    then show ?thesis using step None by (simp add: StartMatchIfReady_def)
  next
    case (Some start)
    note start = start_sessions [OF step [unfolded Some] hosted_invD(1) [OF assms]]
    have keys: "fst ` set (ho_players (sv_own s)) = set (sessions ?m)" by (rule peers_ok_keys [OF hosted_invD(2) [OF assms]])
    have known: "\<forall>player \<in> set (ms_players start). mp_character player \<in> set (mc_characters (hc_match config)) \<and>
        mp_session player \<in> fst ` set (ho_players (sv_own ?s))"
      using start(1,2) keys by auto
    have "distinct (map fst (ho_bodies (sv_own ?s)))"
      using hosted_invD(3) [OF assms] by (simp add: bodies_ok_def)
    from enter_players_own [OF known this] obtain bodies f where entered: "sv_own (enter_players config (ms_players start) ?s) =
        (sv_own ?s)\<lparr>ho_bodies := bodies, ho_players := map (\<lambda>(key, p). (key, f key p)) (ho_players (sv_own ?s))\<rparr>"
      "\<forall>key p. hp_peer (f key p) = hp_peer p" "distinct (map fst bodies)"
      "fst ` set bodies = fst ` set (ho_bodies (sv_own ?s)) \<union> mp_session ` set (ms_players start)"
      by (elim exE conjE)
    let ?in = "enter_players config (ms_players start) ?s"
    have unthrown: "\<not> ho_threw (sv_own ?in)" using hosted_invD(4) [OF assms] by (simp add: entered(1))
    obtain spawns world where world: "si_start ops (ms_players start) (hc_spawn_points config) (ho_world (sv_own ?in)) = (spawns, world)"
      by fastforce
    let ?tick = "ho_tick (sv_own ?in) + 1"
    let ?s1 = "on_own (\<lambda>o'. o'\<lparr>ho_world := world, ho_simulating := True, ho_match_start_tick := ?tick, ho_match_id := ms_match start\<rparr>) ?in"
    let ?s2 = "if hc_captures config
        then on_own (tell (StartIn health (ms_match start) (entrants_of (ms_players start) spawns) ?tick clock)) ?s1 else ?s1"
    have result: "StartMatchIfReady env ops ids config health clock s =
        SendTo env (map mp_session (ms_players start)) (MatchStartMessage start spawns ?tick (ms_match start)) ?s2"
      using unthrown by (simp only: StartMatchIfReady_def step Some prod.case option.case Let_def world if_False)
    have driven: "driven (sv_own ?s1) (sv_own ?s2)" by simp
    have queues: "queue_peers (map (\<lambda>(key, p). (key, f key p)) players) = queue_peers players" for players
      using entered(2) by (auto simp: queue_peers_def)
    have "peers_ok m (map (\<lambda>(key, p). (key, f key p)) (ho_players (sv_own s)))"
      using hosted_invD(2) [OF assms] by (simp add: peers_ok_def queues start(3) comp_def case_prod_beta)
    moreover have "set (sessions m) \<subseteq> fst ` set bodies" using start(1) by (auto simp: entered(4) sessions_peers start(3))
    ultimately have "hosted_inv ids config (sv_own ?s2)"
      using match unthrown entered(3)
      by (intro hosted_invI) (simp_all add: driven_fields [OF driven] entered(1) bodies_ok_def)
    moreover have "set (map mp_session (ms_players start)) \<subseteq> fst ` set (ho_players (sv_own ?s2))"
      using start(1) keys players_keys [of f "ho_players (sv_own s)"] by (simp add: driven_fields [OF driven] entered(1))
    ultimately show ?thesis unfolding result using hosted_inv_quiet [OF quiet_SendTo] by blast
  qed
qed


section \<open>One tick, and every run\<close>

lemma take_inputs_inv:
  assumes "hosted_inv ids config (sv_own s)" and "set players \<subseteq> fst ` set (ho_players (sv_own s))"
    and "set players \<subseteq> fst ` set (ho_bodies (sv_own s))"
  shows "hosted_inv ids config (sv_own (snd (take_inputs config' next_tick players s)))"
  using assms
proof (induction players arbitrary: s)
  case (Cons session players)
  obtain player where player: "map_of (ho_players (sv_own s)) session = Some player"
    using Cons.prems(2) by (cases "map_of (ho_players (sv_own s)) session") (auto simp: map_of_eq_None_iff)
  obtain entity where entity: "map_of (ho_bodies (sv_own s)) session = Some entity"
    using Cons.prems(3) by (cases "map_of (ho_bodies (sv_own s)) session") (auto simp: map_of_eq_None_iff)
  obtain taken queue where taken: "Next (hp_commands player) = (taken, queue)" by fastforce
  let ?f = "\<lambda>key p. if key = session then p\<lparr>hp_commands := queue\<rparr> else p"
  let ?s = "on_own (\<lambda>o'. o'\<lparr>ho_players := map (\<lambda>(key, p). (key, ?f key p)) (ho_players o')\<rparr>) s"
  let ?s' = "if hc_captures config' \<and> tc_sent taken
      then on_own (tell (CommandIn next_tick entity (tc_command taken))) ?s else ?s"
  have inv: "hosted_inv ids config (sv_own ?s)"
    by (rule hosted_inv_queues [where f = ?f, OF Cons.prems(1)]) simp_all
  have driven: "driven (sv_own ?s) (sv_own ?s')" by simp
  have inv': "hosted_inv ids config (sv_own ?s')"
    by (rule hosted_inv_same [OF inv]) (use hosted_invD(1) [OF inv] in \<open>simp_all add: driven_fields [OF driven]\<close>)
  have keys: "set players \<subseteq> fst ` set (ho_players (sv_own ?s'))" "set players \<subseteq> fst ` set (ho_bodies (sv_own ?s'))"
    using Cons.prems(2,3) players_keys [of ?f "ho_players (sv_own s)"] by (simp_all add: driven_fields [OF driven])
  have "snd (take_inputs config' next_tick (session # players) s) = snd (take_inputs config' next_tick players ?s')"
    by (simp only: take_inputs.simps player entity taken option.case prod.case Let_def) (simp only: case_prod_beta snd_conv)
  then show ?case using Cons.IH [OF inv' keys] by (simp only:)
qed simp

text \<open>A tick's preparation up to where it would start a match, and from there.\<close>

definition cleared :: "'w sim_ops \<Rightarrow> HostConfig \<Rightarrow> ('f, 'w) host \<Rightarrow> ('f, 'w) host" where
  "cleared ops config s =
     (let s = (if ho_simulating (sv_own s) \<and> \<not> m_in_match (ho_match (sv_own s)) then TakeOutEndedMatch ops config s else s)
      in on_own (\<lambda>o'. o'\<lparr>ho_match := Match_Tick (ho_match o')\<rparr>) (on_own (erase_gone ops config (ho_tick (sv_own s) + 1)) s))"

lemma TakeOutEndedMatch_tick: "ho_tick (sv_own (TakeOutEndedMatch ops config s)) = ho_tick (sv_own s)"
  by (rule TakeOutEndedMatch_own [of s ops config]) (simp add: driven_fields)

lemma PrepareTick_cleared:
  "PrepareTick env ops ids config health clock s =
     (let s' = StartMatchIfReady env ops ids config health clock (cleared ops config s)
      in if ho_threw (sv_own s') then ([], s')
         else take_inputs config (ho_tick (sv_own s) + 1) (Match_Playing (ho_match (sv_own s'))) s')"
  by (simp add: PrepareTick_def cleared_def Let_def TakeOutEndedMatch_tick)

lemma cleared_inv:
  assumes "hosted_inv ids config (sv_own s)"
  shows "hosted_inv ids config (sv_own (cleared ops config s))"
proof -
  let ?s1 = "if ho_simulating (sv_own s) \<and> \<not> m_in_match (ho_match (sv_own s)) then TakeOutEndedMatch ops config s else s"
  let ?s2 = "on_own (erase_gone ops config (ho_tick (sv_own ?s1) + 1)) ?s1"
  have inv1: "hosted_inv ids config (sv_own ?s1)" by (simp add: assms TakeOutEndedMatch_inv)
  have inv2: "hosted_inv ids config (sv_own ?s2)" using erase_gone_inv [OF inv1] by (simp only: own_fields)
  have ticked: "peer_list (Match_Tick m) = peer_list m" "m_in_match (Match_Tick m) = m_in_match m" for m
    by (simp_all add: Match_Tick_def peer_list_def)
  have "hosted_inv ids config (sv_own (on_own (\<lambda>o'. o'\<lparr>ho_match := Match_Tick (ho_match o')\<rparr>) ?s2))"
    by (rule hosted_inv_same [OF inv2]) (use match_inv_Tick [OF hosted_invD(1) [OF inv2]] in \<open>simp_all add: ticked\<close>)
  then show ?thesis by (simp only: cleared_def Let_def)
qed

lemma PrepareTick_inv:
  assumes "hosted_inv ids config (sv_own s)"
  shows "hosted_inv ids config (sv_own (snd (PrepareTick env ops ids config health clock s)))"
proof -
  let ?s = "StartMatchIfReady env ops ids config health clock (cleared ops config s)"
  have inv: "hosted_inv ids config (sv_own ?s)" by (rule StartMatchIfReady_inv [OF cleared_inv [OF assms]])
  have "set (Match_Playing (ho_match (sv_own ?s))) \<subseteq> fst ` set (ho_players (sv_own ?s))"
    "set (Match_Playing (ho_match (sv_own ?s))) \<subseteq> fst ` set (ho_bodies (sv_own ?s))"
    using peers_ok_keys [OF hosted_invD(2) [OF inv]] hosted_invD(3) [OF inv] by (simp_all add: Playing_sessions bodies_ok_def)
  then have "hosted_inv ids config (sv_own (snd (take_inputs config (ho_tick (sv_own s) + 1) (Match_Playing (ho_match (sv_own ?s))) ?s)))"
    by (rule take_inputs_inv [OF inv])
  then show ?thesis using hosted_invD(4) [OF inv] by (simp only: PrepareTick_cleared Let_def if_False)
qed

lemma RunTick_inv:
  assumes "hosted_inv ids config (sv_own s)"
  shows "hosted_inv ids config (sv_own (snd (RunTick ops config commands broken sending s)))"
proof -
  obtain result world where ticked: "si_tick ops commands (ho_world (sv_own s)) = (result, world)" by fastforce
  let ?s1 = "on_own (\<lambda>o'. CaptureDeaths config result (o'\<lparr>ho_world := world, ho_tick := st_tick result\<rparr>)) s"
  have inv1: "hosted_inv ids config (sv_own ?s1)"
    by (rule hosted_inv_same [OF assms]) (use hosted_invD(1) [OF assms] in \<open>simp_all add: driven_fields [OF driven_deaths]\<close>)
  have one: "hosted_inv ids config (sv_own (record_invariant failure s')) = hosted_inv ids config (sv_own s')"
    "hosted_inv ids config (sv_own (record_transport failure s')) = hosted_inv ids config (sv_own s')" for failure s'
    by (rule hosted_inv_quiet, simp)+
  show ?thesis using inv1
    by (auto simp: RunTick_def ticked Let_def hosted_inv_quiet [OF quiet_invariant] hosted_inv_quiet [OF quiet_transport]
        split: option.split)
qed

lemma hosted_inv_thread [simp]: "hosted_inv ids config (o'\<lparr>ho_thread := thread\<rparr>) = hosted_inv ids config o'"
  by (simp add: hosted_inv_def)

lemma host_step_inv:
  assumes "hosted_inv ids config (sv_own s)" and "strict_mono ids"
  shows "hosted_inv ids config (sv_own (host_step env ops vlength ids config s e))"
proof (cases e)
  case (PrepareIn health clock)
  then show ?thesis using assms(1) by (auto simp: case_prod_beta PrepareTick_inv split: sim_thread.split)
next
  case (RunIn broken sending)
  then show ?thesis using assms(1) by (auto simp: case_prod_beta RunTick_inv split: sim_thread.split)
next
  case ActIn
  then show ?thesis using assms(1) by (auto simp: EndMatch_inv split: sim_thread.split list.split)
next
  case (ReceiveFailed failure)
  then show ?thesis using assms(1) by (simp add: hosted_inv_quiet [OF quiet_transport])
qed (use pump_event_inv [OF assms] pump_message_inv [OF assms] overdue_inv [OF assms] EndMatch_inv [OF assms(1)] in
      \<open>simp_all only: host_step.simps\<close>)

text \<open>
  The laws of an \<open>invariant_machine\<close> over every run of the server. The IDs are part of each
  instance, so the machine keeps \<open>hosted_inv\<close> where they are increasing.
\<close>

definition host_inv :: "(nat \<Rightarrow> uuid) \<Rightarrow> HostConfig \<Rightarrow> ('f, 'w) host \<Rightarrow> bool" where
  "host_inv ids config s \<longleftrightarrow> (strict_mono ids \<longrightarrow> hosted_inv ids config (sv_own s))"

interpretation host: invariant_machine "Host_init config world served" "host_step env ops vlength ids config" "host_inv ids config"
  for config world served env ops vlength ids
  by unfold_locales (simp_all add: host_inv_def hosted_inv_init host_step_inv)

lemma host_run_inv:
  "strict_mono ids \<Longrightarrow> hosted_inv ids config (sv_own (run (host_step env ops vlength ids config) (Host_init config world served) es))"
  using host.inv_run [of ids config env ops vlength world served es] by (simp add: host_inv_def)

section \<open>A run\<close>

definition sample_ids :: "nat \<Rightarrow> uuid" where
  "sample_ids n = (if n < 100 then replicate 15 1 @ [word_of_nat n] else replicate 16 255 @ replicate n 0)"

definition sample_env :: "string link_env" where
  "sample_env = \<lparr>le_encode = (\<lambda>message. None), le_send = (\<lambda>n peer message. Inr True)\<rparr>"

text \<open>A world that kills its first body each tick, by its last.\<close>

definition sample_ops :: "(u64 \<times> EntityId list) sim_ops" where
  "sample_ops =
     \<lparr>si_start = (\<lambda>players spots w. (map (\<lambda>p. \<lparr>vx = 0, vy = 0, vz = 0\<rparr>) players, (fst w, snd w @ map mp_entity players))),
      si_remove = (\<lambda>entity w. (fst w, filter (\<lambda>e. e \<noteq> entity) (snd w))),
      si_end = (\<lambda>w. (fst w, [])),
      si_tick = (\<lambda>commands w. (\<lparr>st_tick = fst w + 1,
        st_deaths = (if snd w = [] then [] else [(List.hd (snd w), List.last (snd w))]), st_actions = []\<rparr>, (fst w + 1, snd w)))\<rparr>"

definition sample_server :: HostConfig where
  "sample_server = \<lparr>hc_match = example_config, hc_tick_rate_hz = 60, hc_spawn_points = [], hc_captures = True\<rparr>"

definition sample_said :: "PeerId \<Rightarrow> ClientMessage \<Rightarrow> string host_event" where
  "sample_said peer message = MessageIn \<lparr>pm_from = peer, pm_bytes = 8, pm_body = Said message\<rparr> 0"

definition sample_run :: "string host_event list" where
  "sample_run =
     [PeerIn \<lparr>ev_peer = 5, ev_type = kConnectRequested, ev_reason = kConnectionLost\<rparr> 0,
      sample_said 5 (JoinSaid example_request), sample_said 9 (JoinSaid example_request),
      sample_said 5 (ReadySaid 2), sample_said 9 (ReadySaid 2),
      PrepareIn kEnabled 7, sample_said 9 (CommandsSaid []), RunIn None None, ActIn,
      EndMatchIn, PrepareIn kEnabled 8]"

definition sample_host :: "(string, u64 \<times> EntityId list) host" where
  "sample_host = run (host_step sample_env sample_ops (\<lambda>v. 0) sample_ids sample_server) (Host_init sample_server (0, []) 0) sample_run"

lemma sample_ids_mono: "strict_mono sample_ids"
proof (rule strict_monoI)
  fix m n :: nat
  assume "m < n"
  have append: "ys < zs \<Longrightarrow> xs @ ys < xs @ zs" for xs ys zs :: "byte list" by (induction xs) simp_all
  have small: "(word_of_nat m :: byte) < word_of_nat n" if "n < 100"
    using that \<open>m < n\<close> by (simp add: word_less_nat_alt unsigned_of_nat take_bit_nat_eq_self)
  have long: "replicate m (0 :: byte) < replicate n 0"
    using \<open>m < n\<close>
  proof (induction m arbitrary: n)
    case (Suc m)
    then show ?case by (cases n) simp_all
  qed (auto simp: gr0_conv_Suc)
  have first: "replicate 15 1 @ [a] < replicate 16 255 @ xs" for a :: byte and xs
  proof -
    have "replicate 15 (1 :: byte) @ [a] = 1 # replicate 14 1 @ [a]" "replicate 16 (255 :: byte) @ xs = 255 # replicate 15 255 @ xs"
      using replicate_Suc [of 14 "1 :: byte"] replicate_Suc [of 15 "255 :: byte"] by simp_all
    then show ?thesis by (simp only: Cons_less_Cons) simp
  qed
  show "sample_ids m < sample_ids n"
    using \<open>m < n\<close> small by (auto simp: sample_ids_def append long first)
qed


text \<open>
  C4: in every interleaving of network work and ticks, the server never looks up what is not
  there: its command queues are exactly the joined peers', each kept with its own peer, and
  every player of the match in progress has a body in the world.
\<close>

theorem host_never_throws:
  assumes "strict_mono ids"
  shows "let o' = sv_own (run (host_step env ops vlength ids config) (Host_init config world served) es)
    in \<not> ho_threw o' \<and> distinct (map fst (ho_players o')) \<and>
       (\<forall>peer session. Match_SessionOf (ho_match o') peer = Some session \<longleftrightarrow>
          map_option hp_peer (map_of (ho_players o') session) = Some peer) \<and>
       (\<forall>session \<in> set (Match_Playing (ho_match o')). ho_simulating o' \<and> map_of (ho_bodies o') session \<noteq> None)"
proof -
  let ?o = "sv_own (run (host_step env ops vlength ids config) (Host_init config world served) es)"
  note inv = hosted_invD [OF host_run_inv [OF assms, of config env ops vlength world served es]]
  have "(peer, session) \<in> set (queue_peers (ho_players ?o)) \<longleftrightarrow>
      map_option hp_peer (map_of (ho_players ?o) session) = Some peer" for peer session
    using inv(2) by (force simp: peers_ok_def queue_peers_def)
  then have "Match_SessionOf (ho_match ?o) peer = Some session \<longleftrightarrow>
      map_option hp_peer (map_of (ho_players ?o) session) = Some peer" for peer session
    using SessionOf_peers [OF inv(1)] inv(2) by (simp add: peers_ok_def)
  moreover have "ho_simulating ?o \<and> map_of (ho_bodies ?o) session \<noteq> None" if "session \<in> set (Match_Playing (ho_match ?o))" for session
    using inv(3) that by (auto simp: Playing_sessions bodies_ok_def map_of_eq_None_iff split: if_splits)
  ultimately show ?thesis using inv(2,4) by (simp add: peers_ok_def Let_def)
qed

theorem host_never_throws_witness:
  "\<not> ho_threw (sv_own sample_host)"
  using host_never_throws [OF sample_ids_mono, where env = sample_env and ops = sample_ops and vlength = "\<lambda>v. 0"
      and config = sample_server and world = "(0, [])" and served = 0 and es = sample_run]
  by (simp add: sample_host_def Let_def)

end
