(* ===== verification/Capture_Writer_Correct.thy ===== *)
theory Capture_Writer_Correct
  imports Capture_Writer "HOL-Library.Sublist"
begin

text \<open>
  What holds of the capture writer however its two threads interleave: the invariant of
  the queue, the files and the history; that a file is always a prefix of what was
  admitted and, when nothing was lost, a whole one or one that retention has deleted
  since; that the queue is bounded and drains; and that the first loss is final.
\<close>

section \<open>What is still to be written\<close>

fun in_hand :: "writer_thread \<Rightarrow> Item list" where
  "in_hand (Holding item) = [item]"
| "in_hand Waiting = []"
| "in_hand (Handled item loss) = []"

definition todo :: "writer \<Rightarrow> Item list" where
  "todo s = in_hand (wr_thread s) @ wr_queue s"

text \<open>
  What handling these items without a loss makes of one Match's file: whether it is open,
  and its bytes.
\<close>

fun follow :: "uuid \<Rightarrow> Item list \<Rightarrow> bool \<times> byte list \<Rightarrow> bool \<times> byte list" where
  "follow m [] st = st"
| "follow m (OpenItem match path header # items) (is_open, bytes) =
     follow m items (if match = m then (True, header) else (False, bytes))"
| "follow m (RecordItem match encoded # items) (is_open, bytes) =
     follow m items (if is_open \<and> match = m then (True, bytes @ encoded) else (is_open, bytes))"
| "follow m (CloseItem match # items) (is_open, bytes) =
     follow m items (if match = m then (False, bytes) else (is_open, bytes))"

text \<open>The file open once these items are handled, and whether each opening finds none open.\<close>

fun file_after :: "uuid \<Rightarrow> Item list \<Rightarrow> uuid" where
  "file_after f [] = f"
| "file_after f (OpenItem match path header # items) = file_after match items"
| "file_after f (RecordItem match encoded # items) = file_after f items"
| "file_after f (CloseItem match # items) = file_after (if f = match then nil_uuid else f) items"

fun opens_closed :: "uuid \<Rightarrow> Item list \<Rightarrow> bool" where
  "opens_closed f [] = True"
| "opens_closed f (OpenItem match path header # items) \<longleftrightarrow> f = nil_uuid \<and> opens_closed match items"
| "opens_closed f (RecordItem match encoded # items) \<longleftrightarrow> opens_closed f items"
| "opens_closed f (CloseItem match # items) \<longleftrightarrow> opens_closed (if f = match then nil_uuid else f) items"

definition opens :: "uuid \<Rightarrow> Item list \<Rightarrow> Item list" where
  "opens m items = filter (\<lambda>item. case item of OpenItem match path header \<Rightarrow> match = m | _ \<Rightarrow> False) items"

definition records_of :: "uuid \<Rightarrow> Item list \<Rightarrow> Item list" where
  "records_of m items = filter (\<lambda>item. is_record item \<and> item_match item = m) items"

definition drop_records :: "uuid \<Rightarrow> Item list \<Rightarrow> Item list" where
  "drop_records m items = filter (\<lambda>queued. \<not> (is_record queued \<and> item_match queued = m)) items"

text \<open>A Match's opening comes before anything else of it.\<close>

fun opens_first :: "Item list \<Rightarrow> bool" where
  "opens_first [] = True"
| "opens_first (item # items) \<longleftrightarrow> opens (item_match item) items = [] \<and> opens_first items"

lemma follow_append: "follow m (xs @ ys) st = follow m ys (follow m xs st)"
  by (induction m xs st rule: follow.induct) auto

lemma file_after_append: "file_after f (xs @ ys) = file_after (file_after f xs) ys"
  by (induction f xs rule: file_after.induct) auto

lemma opens_closed_append: "opens_closed f (xs @ ys) \<longleftrightarrow> opens_closed f xs \<and> opens_closed (file_after f xs) ys"
  by (induction f xs rule: opens_closed.induct) auto

lemma item_lists_simps [simp]:
  "opens m [] = []" "opens m (xs @ ys) = opens m xs @ opens m ys"
  "opens m (OpenItem match path header # items) = (if match = m then OpenItem match path header # opens m items else opens m items)"
  "opens m (RecordItem match encoded # items) = opens m items" "opens m (CloseItem match # items) = opens m items"
  "records_of m [] = []" "records_of m (xs @ ys) = records_of m xs @ records_of m ys"
  "records_of m (OpenItem match path header # items) = records_of m items"
  "records_of m (RecordItem match encoded # items) = (if match = m then RecordItem match encoded # records_of m items else records_of m items)"
  "records_of m (CloseItem match # items) = records_of m items"
  by (simp_all add: opens_def records_of_def)

lemma drop_records_simps [simp]:
  "drop_records m [] = []"
  "drop_records m (OpenItem match path header # items) = OpenItem match path header # drop_records m items"
  "drop_records m (RecordItem match encoded # items) =
     (if match = m then drop_records m items else RecordItem match encoded # drop_records m items)"
  "drop_records m (CloseItem match # items) = CloseItem match # drop_records m items"
  by (simp_all add: drop_records_def)

lemma opens_first_snoc:
  "opens_first (items @ [item]) \<longleftrightarrow> opens_first items \<and> (\<forall>x \<in> set items. opens (item_match x) [item] = [])"
  by (induction items) auto

lemma opens_first_drop: "opens_first items \<Longrightarrow> opens_first (drop_records m items)"
proof (induction items)
  case (Cons item items)
  have "opens m' items = [] \<Longrightarrow> opens m' (drop_records m items) = []" for m'
    by (auto simp: opens_def drop_records_def filter_empty_conv)
  then show ?case using Cons by (simp add: drop_records_def)
qed simp

lemma drop_records_keeps:
  "records_of m (drop_records m items) = []" "opens m' (drop_records m items) = opens m' items"
  "m' \<noteq> m \<Longrightarrow> follow m' (drop_records m items) st = follow m' items st"
  "file_after f (drop_records m items) = file_after f items"
  "opens_closed f (drop_records m items) = opens_closed f items"
  "CloseItem m' \<in> set (drop_records m items) \<longleftrightarrow> CloseItem m' \<in> set items"
  "OpenItem m' path header \<in> set (drop_records m items) \<longleftrightarrow> OpenItem m' path header \<in> set items"
proof -
  show "records_of m (drop_records m items) = []"
    by (induction items rule: file_after.induct [of _ undefined]) auto
  show "m' \<noteq> m \<Longrightarrow> follow m' (drop_records m items) st = follow m' items st"
    by (induction m' items st rule: follow.induct) auto
  show "file_after f (drop_records m items) = file_after f items"
    by (induction f items rule: file_after.induct) auto
  show "opens_closed f (drop_records m items) = opens_closed f items"
    by (induction f items rule: opens_closed.induct) auto
qed (auto simp: opens_def drop_records_def intro!: filter_cong split: Item.splits)

lemma drop_records_none: "records_of m items = [] \<Longrightarrow> records_of m (drop_records m' items) = []"
  by (auto simp: records_of_def drop_records_def filter_empty_conv)

lemma follow_Open: "follow m [OpenItem m path header] st = (True, header)"
  by (cases st) simp

lemma follow_prefix:
  "opens m items = [] \<Longrightarrow> prefix (snd st) (snd (follow m items st))"
proof (induction m items st rule: follow.induct)
  case (3 m match encoded items is_open bytes)
  show ?case
  proof (cases "is_open \<and> match = m")
    case True
    then have "prefix (bytes @ encoded) (snd (follow m items (True, bytes @ encoded)))" using 3 by auto
    then show ?thesis using True by (auto intro: prefix_order.trans [of bytes "bytes @ encoded"])
  qed (use 3 in auto)
qed (auto split: if_splits)

lemma follow_closed:
  "opens m items = [] \<Longrightarrow> follow m items (False, bytes) = (False, bytes)"
  by (induction m items "(False, bytes)" rule: follow.induct) (auto split: if_splits)

lemma opens_closed_nil: "opens_closed f items \<Longrightarrow> opens_closed nil_uuid items"
proof (induction f items rule: opens_closed.induct)
  case (4 f match items)
  then show ?case by (auto split: if_splits)
qed auto

lemma file_after_nil: "file_after nil_uuid items \<in> {file_after f items, nil_uuid}"
  by (induction f items rule: file_after.induct) (auto split: if_splits)

section \<open>What retention takes\<close>

abbreviation completed_names :: "CaptureDirectory \<Rightarrow> string set" where
  "completed_names cd \<equiv> cc_path ` set (cd_completed cd)"

text \<open>What making room takes is of the completed captures, and reported as deleted.\<close>

definition takes_of :: "string set \<Rightarrow> disk \<Rightarrow> disk \<Rightarrow> bool" where
  "takes_of names d d' \<longleftrightarrow> removed d d' \<subseteq> names \<and> Deleted ` removed d d' \<subseteq> set (dk_reports d') \<and>
     set (dk_reports d) \<subseteq> set (dk_reports d')"

lemma takes_of_refl: "takes_of names d d"
  by (simp add: takes_of_def removed_def)

lemma disk_after_takes:
  assumes "disk_after d d' names"
  shows "takes_of (set names) d d'"
proof -
  obtain new where new: "dk_reports d' = dk_reports d @ new" "attempts new = outcomes d names"
      "dk_entries d' = filter (\<lambda>e. Deleted (de_name e) \<notin> set new) (dk_entries d)"
    using assms by (auto simp: disk_after_def)
  have "removed d d' \<subseteq> {name. Deleted name \<in> set new}" unfolding removed_def new(3) by auto
  moreover have "{name. Deleted name \<in> set new} \<subseteq> set names"
    using deleted_outcome new(2) by (auto simp: deleted_attempt [of _ new])
  ultimately show ?thesis using new(1) by (auto simp: takes_of_def)
qed

lemma MakeRoom_disk_after:
  "MakeRoom is_opening bytes cd d = Some (ok, cd', d') \<Longrightarrow>
   cd_completed cd' = cd_completed cd \<and> (\<exists>names. set names \<subseteq> completed_names cd \<and> disk_after d d' names)"
proof (induction is_opening bytes cd d arbitrary: ok cd' d' rule: MakeRoom.induct)
  case (1 is_opening bytes cd d)
  obtain plan where plan: "PlanRetention (Remaining cd) (cd_total cd) is_opening bytes (cd_retention cd) = Some plan"
    using "1.prems" by (subst (asm) MakeRoom.simps) (auto split: option.splits)
  show ?case
  proof (cases "rp_deletions plan = 0")
    case True
    then have "cd' = cd \<and> d' = d" using "1.prems" plan by (subst (asm) MakeRoom.simps) simp
    then show ?thesis using disk_after_refl by (intro conjI exI [of _ "[]"]) auto
  next
    case False
    obtain cd1 d1 where one: "DeleteOldest cd d = (cd1, d1)" by fastforce
    have "MakeRoom is_opening bytes cd1 d1 = Some (ok, cd', d')"
      using "1.prems" plan False one by (subst (asm) MakeRoom.simps) simp
    from "1.IH" [OF plan False one [symmetric] this] obtain names where
      ih: "cd_completed cd' = cd_completed cd1" "set names \<subseteq> completed_names cd1" "disk_after d1 d' names" by blast
    have "Remaining cd \<noteq> []" using plan_deletions_le [OF plan] False by auto
    then have "cd_completed cd ! cd_deleted cd \<in> set (cd_completed cd)" by (simp add: Remaining_def)
    moreover have "cd_completed cd1 = cd_completed cd" using DeleteOldest_deleted(2) [of cd d] one by simp
    moreover have "disk_after d d1 [cc_path (cd_completed cd ! cd_deleted cd)]" using disk_after_delete [of d cd] one by simp
    ultimately show ?thesis using ih disk_after_Cons by (auto intro!: exI [of _ "_ # names"])
  qed
qed

lemma MakeRoom_takes:
  assumes "MakeRoom is_opening bytes cd d = Some (ok, cd', d')"
  shows "cd_completed cd' = cd_completed cd" "takes_of (completed_names cd) d d'"
proof -
  obtain names where *: "cd_completed cd' = cd_completed cd" "set names \<subseteq> completed_names cd" "disk_after d d' names"
    using MakeRoom_disk_after [OF assms] by blast
  show "cd_completed cd' = cd_completed cd" by (rule *(1))
  show "takes_of (completed_names cd) d d'"
    using disk_after_takes [OF *(3)] *(2) unfolding takes_of_def by (blast intro: order_trans)
qed

lemma MakeRoom_unlimited:
  assumes "cr_max_files (cd_retention cd) = None" and "cr_max_bytes (cd_retention cd) = None"
  shows "MakeRoom is_opening bytes cd d = Some (True, cd, d)"
  by (subst MakeRoom.simps) (simp add: PlanRetention_def assms)

lemma takes_of_Report: "takes_of names d d' \<Longrightarrow> takes_of names d (Report cd d')"
  by (auto simp: takes_of_def Report_def removed_def)

lemma Open_takes:
  assumes "Open match_id cd d match file_name bytes = Some (fits, cd', d')"
  shows "file_name \<notin> completed_names cd'" "takes_of (completed_names cd') d d'"
proof -
  define cd1 where "cd1 = cd\<lparr>cd_match := match, cd_failure_logged := False, cd_open := False,
      cd_completed := Scan match_id d file_name, cd_deleted := 0,
      cd_total := foldl (\<lambda>held c. held + cc_size c) 0 (Scan match_id d file_name)\<rparr>"
  obtain ok cd2 d2 where room: "MakeRoom True bytes cd1 d = Some (ok, cd2, d2)"
    and rest: "completed_names cd' = completed_names cd2" "d' = Report cd' d2"
    using assms by (auto simp: Open_def Let_def cd1_def split: option.splits if_splits)
  have "completed_names cd2 = cc_path ` set (Scan match_id d file_name)"
    using MakeRoom_takes(1) [OF room] by (simp add: cd1_def)
  then show "file_name \<notin> completed_names cd'" using rest(1) by (auto dest: Scan_captures)
  show "takes_of (completed_names cd') d d'"
    using MakeRoom_takes [OF room] rest takes_of_Report by auto
qed

lemma Reserve_takes:
  assumes "Reserve cd d bytes = Some (fits, cd', d')"
  shows "cd_completed cd' = cd_completed cd" "takes_of (completed_names cd) d d'"
proof -
  obtain ok cd2 d2 where room: "MakeRoom False bytes cd d = Some (ok, cd2, d2)"
    and rest: "cd_completed cd' = cd_completed cd2" "d' = d2 \<or> d' = Report cd' d2"
    using assms by (auto simp: Reserve_def Let_def split: option.splits if_splits)
  show "cd_completed cd' = cd_completed cd" "takes_of (completed_names cd) d d'"
    using MakeRoom_takes [OF room] rest takes_of_Report by auto
qed

section \<open>The invariant\<close>

text \<open>
  A Match's file whose items all went well is on its way to hold everything admitted, or
  was closed and then taken by retention, which reported it; a broken one holds a prefix
  and nothing more will be written there. Items find the file they are for, the file being
  written is none of those retention may take, and the counts and the health agree with
  the queue and the loss.
\<close>

definition swept :: "writer \<Rightarrow> uuid \<Rightarrow> string \<Rightarrow> bool" where
  "swept s m path \<longleftrightarrow> wr_files s path = None \<and> Deleted (filename path) \<in> set (dk_reports (wr_disk s)) \<and>
     wr_file_match s \<noteq> m \<and> opens m (todo s) = []"

definition file_ok :: "writer \<Rightarrow> history \<Rightarrow> uuid \<Rightarrow> string \<Rightarrow> bool" where
  "file_ok s h m path \<longleftrightarrow>
     (if m \<notin> hs_broken h
      then follow m (todo s) (wr_file_match s = m, written_to s path) =
             (hs_phase h m = Opened, concat (hs_admitted h m)) \<and>
           (opens m (todo s) = [] \<longrightarrow> wr_files s path \<noteq> None) \<or>
           swept s m path
      else prefix (written_to s path) (concat (hs_admitted h m)) \<and> opens m (todo s) = [] \<and>
           ((\<exists>item loss. wr_thread s = Handled item (Some loss) \<and> item_match item = m) \<or>
            (m \<in> wr_stopped s \<or> hs_phase h m = Closed) \<and> records_of m (todo s) = []))"

definition items_ok :: "writer \<Rightarrow> history \<Rightarrow> bool" where
  "items_ok s h \<longleftrightarrow>
     opens_closed (wr_file_match s) (todo s) \<and>
     (file_after (wr_file_match s) (todo s) \<noteq> nil_uuid \<longrightarrow>
        hs_phase h (file_after (wr_file_match s) (todo s)) = Opened) \<and>
     (\<forall>m. CloseItem m \<in> set (todo s) \<longrightarrow> hs_phase h m = Closed) \<and>
     (\<forall>m path header. OpenItem m path header \<in> set (todo s) \<longrightarrow>
        m \<noteq> nil_uuid \<and> hs_path h m = Some path \<and> wr_files s path = None) \<and>
     opens_first (todo s) \<and>
     (\<forall>m encoded. RecordItem m encoded \<in> set (todo s) \<longrightarrow> m \<noteq> nil_uuid \<and> hs_admitted h m \<noteq> []) \<and>
     (\<forall>m \<in> hs_broken h. hs_phase h m \<noteq> Fresh \<or> hs_admitted h m \<noteq> [])"

lemma opens_Nil_iff: "opens m items = [] \<longleftrightarrow> (\<forall>path header. OpenItem m path header \<notin> set items)"
  by (fastforce simp: opens_def filter_empty_conv split: Item.splits)

lemma items_okD:
  assumes "items_ok s h"
  shows "opens_closed (wr_file_match s) (todo s)"
    and "file_after (wr_file_match s) (todo s) \<noteq> nil_uuid \<Longrightarrow> hs_phase h (file_after (wr_file_match s) (todo s)) = Opened"
    and "CloseItem m \<in> set (todo s) \<Longrightarrow> hs_phase h m = Closed"
    and "OpenItem m path header \<in> set (todo s) \<Longrightarrow> m \<noteq> nil_uuid \<and> hs_path h m = Some path \<and> wr_files s path = None"
    and "opens_first (todo s)"
    and "RecordItem m encoded \<in> set (todo s) \<Longrightarrow> m \<noteq> nil_uuid \<and> hs_admitted h m \<noteq> []"
    and "m \<in> hs_broken h \<Longrightarrow> hs_phase h m = Fresh \<Longrightarrow> hs_admitted h m \<noteq> []"
  using assms unfolding items_ok_def by blast+

definition paths_ok :: "writer \<Rightarrow> history \<Rightarrow> bool" where
  "paths_ok s h \<longleftrightarrow>
     (\<forall>m m' path. hs_path h m = Some path \<and> hs_path h m' = Some path \<longrightarrow> m = m') \<and>
     (\<forall>path. wr_files s path \<noteq> None \<longrightarrow> (\<exists>m. hs_path h m = Some path)) \<and>
     (\<forall>m. hs_phase h m = Fresh \<longrightarrow> hs_path h m = None) \<and>
     (wr_file_match s \<noteq> nil_uuid \<longrightarrow> hs_path h (wr_file_match s) = Some (wr_path s) \<and> wr_files s (wr_path s) \<noteq> None \<and>
        filename (wr_path s) \<notin> completed_names (wr_directory s)) \<and>
     hs_path h nil_uuid = None"

lemma paths_okD:
  assumes "paths_ok s h"
  shows "hs_path h m = Some path \<Longrightarrow> hs_path h m' = Some path \<Longrightarrow> m = m'"
    and "wr_files s path = Some bytes \<Longrightarrow> \<exists>m. hs_path h m = Some path"
    and "hs_phase h m = Fresh \<Longrightarrow> hs_path h m = None"
    and "wr_file_match s \<noteq> nil_uuid \<Longrightarrow> hs_path h (wr_file_match s) = Some (wr_path s)"
    and "hs_path h nil_uuid = None"
    and "wr_file_match s \<noteq> nil_uuid \<Longrightarrow> wr_files s (wr_path s) \<noteq> None"
    and "wr_file_match s \<noteq> nil_uuid \<Longrightarrow> filename (wr_path s) \<notin> completed_names (wr_directory s)"
  using assms unfolding paths_ok_def by blast+

definition counts_ok :: "writer \<Rightarrow> history \<Rightarrow> bool" where
  "counts_ok s h \<longleftrightarrow>
     wr_records_queued s = length (filter is_record (wr_queue s)) \<and> wr_records_queued s \<le> wr_capacity s \<and>
     (wr_loss s = None \<longrightarrow> wr_health s \<noteq> kDegraded) \<and>
     (\<forall>item loss. wr_thread s = Handled item (Some loss) \<longrightarrow> item_match item \<in> hs_broken h)"

definition writer_inv :: "writer \<Rightarrow> history \<Rightarrow> bool" where
  "writer_inv s h \<longleftrightarrow> items_ok s h \<and> paths_ok s h \<and> counts_ok s h \<and>
     (\<forall>m path. hs_path h m = Some path \<longrightarrow> file_ok s h m path)"

lemmas inv_defs = writer_inv_def items_ok_def paths_ok_def counts_ok_def file_ok_def swept_def

lemma writer_inv_cong:
  assumes "writer_inv s h"
    and "wr_queue s' = wr_queue s" "wr_thread s' = wr_thread s" "wr_files s' = wr_files s"
      "wr_file_match s' = wr_file_match s" "wr_path s' = wr_path s" "wr_records_queued s' = wr_records_queued s"
      "wr_capacity s' = wr_capacity s" "wr_stopped s \<subseteq> wr_stopped s'"
      "wr_disk s' = wr_disk s" "wr_directory s' = wr_directory s"
      "wr_loss s' = None \<longrightarrow> wr_health s' \<noteq> kDegraded"
  shows "writer_inv s' h"
proof -
  have same: "todo s' = todo s" "written_to s' path = written_to s path" "swept s' = swept s" for path
    using assms by (simp_all add: todo_def written_to_def swept_def fun_eq_iff)
  have "file_ok s' h m path" if "hs_path h m = Some path" for m path
  proof -
    have "file_ok s h m path" using assms(1) that by (simp add: writer_inv_def)
    then show ?thesis using assms(3-5,9) unfolding file_ok_def same by (auto split: if_splits)
  qed
  then show ?thesis using assms unfolding writer_inv_def items_ok_def paths_ok_def counts_ok_def same by auto
qed

lemma StopLocked_fields [simp]:
  "wr_queue (StopLocked to_string m step detail s) = wr_queue s"
  "wr_thread (StopLocked to_string m step detail s) = wr_thread s"
  "wr_files (StopLocked to_string m step detail s) = wr_files s"
  "wr_file_match (StopLocked to_string m step detail s) = wr_file_match s"
  "wr_path (StopLocked to_string m step detail s) = wr_path s"
  "wr_records_queued (StopLocked to_string m step detail s) = wr_records_queued s"
  "wr_capacity (StopLocked to_string m step detail s) = wr_capacity s"
  "wr_disk (StopLocked to_string m step detail s) = wr_disk s"
  "wr_directory (StopLocked to_string m step detail s) = wr_directory s"
  "wr_stopped (StopLocked to_string m step detail s) = insert m (wr_stopped s)"
  by (auto simp: StopLocked_def LoseLocked_def)

lemma StopLocked_health:
  "(wr_loss s = None \<longrightarrow> wr_health s \<noteq> kDegraded) \<Longrightarrow>
   wr_loss (StopLocked to_string m step detail s) = None \<longrightarrow> wr_health (StopLocked to_string m step detail s) \<noteq> kDegraded"
  by (auto simp: StopLocked_def LoseLocked_def)

lemma StopLocked_stops:
  "wr_queue (StopLocked to_string m step detail s) = wr_queue s"
  "writer_inv s h \<Longrightarrow> writer_inv (StopLocked to_string m step detail s) h"
proof -
  assume "writer_inv s h"
  show "writer_inv (StopLocked to_string m step detail s) h"
    by (rule writer_inv_cong [of s h])
      (use \<open>writer_inv s h\<close> in \<open>auto simp: StopLocked_def LoseLocked_def writer_inv_def counts_ok_def\<close>)
qed (simp add: StopLocked_def LoseLocked_def)

lemma writer_inv_Begin: "writer_inv s h \<Longrightarrow> writer_inv (Writer_Begin m s) h"
  by (rule writer_inv_cong [of s h]) (simp_all add: Writer_Begin_def writer_inv_def counts_ok_def)

lemma writer_inv_Finish: "writer_inv s h \<Longrightarrow> writer_inv (Writer_Finish s) h"
  by (rule writer_inv_cong [of s h]) (simp_all add: Writer_Finish_def StopCapturesLocked_def writer_inv_def counts_ok_def)

lemma todo_append: "todo (s\<lparr>wr_queue := wr_queue s @ items\<rparr>) = todo s @ items"
  by (simp add: todo_def)

lemma writer_inv_Open:
  assumes inv: "writer_inv s h" and m: "m \<noteq> nil_uuid" "hs_phase h m = Fresh" "\<forall>m'. hs_path h m' \<noteq> Some path"
    and none: "hs_admitted h m = []"
    and closed: "\<forall>m'. hs_phase h m' \<noteq> Opened"
  shows "writer_inv (Writer_Open m path header s)
     (h\<lparr>hs_phase := (hs_phase h)(m := Opened), hs_admitted := (hs_admitted h)(m := [header]),
        hs_path := (hs_path h)(m := Some path)\<rparr>)"
proof -
  let ?s = "Writer_Open m path header s"
  let ?h = "h\<lparr>hs_phase := (hs_phase h)(m := Opened), hs_admitted := (hs_admitted h)(m := [header]),
        hs_path := (hs_path h)(m := Some path)\<rparr>"
  have todo: "todo ?s = todo s @ [OpenItem m path header]" by (simp add: Writer_Open_def todo_append)
  have same: "wr_file_match ?s = wr_file_match s" "written_to ?s p = written_to s p" "wr_thread ?s = wr_thread s"
    "wr_stopped ?s = wr_stopped s" "wr_files ?s = wr_files s" "wr_path ?s = wr_path s"
    "wr_disk ?s = wr_disk s" "wr_directory ?s = wr_directory s" for p
    by (simp_all add: Writer_Open_def written_to_def)
  have path: "hs_path h m = None" using inv m(2) by (simp add: writer_inv_def paths_ok_def)
  have items: "items_ok s h" and paths: "paths_ok s h" using inv by (simp_all add: writer_inv_def)
  have no_file: "wr_files s path = None" using paths m(3) unfolding paths_ok_def by blast
  have nil: "file_after (wr_file_match s) (todo s) = nil_uuid"
    using items closed by (auto simp: items_ok_def)
  have no_open: "opens m (todo s) = []"
    using items_okD(4) [OF items, of m] path unfolding opens_Nil_iff by auto
  have no_close: "CloseItem m \<notin> set (todo s)" using items m(2) by (auto simp: items_ok_def)
  have "items_ok ?s ?h"
    unfolding items_ok_def todo same
  proof (intro conjI allI impI ballI, goal_cases)
    case 1 show ?case using items nil by (simp add: items_ok_def opens_closed_append)
  next
    case 2 then show ?case by (simp add: file_after_append)
  next
    case (3 m') then show ?case using items_okD(3) [OF items] no_close by auto
  next
    case (4 m' p hd) then show ?case using items_okD(4) [OF items] m(1) by auto
  next
    case (5 m' p hd) then show ?case using items_okD(4) [OF items, of m' p hd] path by auto
  next
    case (6 m' p hd) then show ?case using items_okD(4) [OF items] no_file by auto
  next
    case 7
    have "opens (item_match x) [OpenItem m path header] = []" if "x \<in> set (todo s)" for x
    proof -
      have "item_match x \<noteq> m"
      proof
        assume "item_match x = m"
        then have "(\<exists>p hd. x = OpenItem m p hd) \<or> (\<exists>e. x = RecordItem m e) \<or> x = CloseItem m" by (cases x) auto
        then show False using that no_close no_open items_okD(6) [OF items] none unfolding opens_Nil_iff by blast
      qed
      then show ?thesis by auto
    qed
    then show ?case using items_okD(5) [OF items] by (simp add: opens_first_snoc)
  next
    case (8 m' e) then show ?case using items_okD(6) [OF items, of m' e] by auto
  next
    case (9 m' e) then show ?case using items_okD(6) [OF items, of m' e] by auto
  next
    case (10 m') then show ?case using items_okD(7) [OF items, of m'] by auto
  qed
  moreover have "paths_ok ?s ?h"
    unfolding paths_ok_def same
  proof (intro conjI allI impI, goal_cases)
    case (1 m1 m2 p) then show ?case using paths_okD(1) [OF paths] m(3) by (auto split: if_splits)
  next
    case (2 p)
    then obtain m' where "hs_path h m' = Some p" using paths_okD(2) [OF paths] by blast
    then show ?case using path by (intro exI [of _ m']) auto
  next
    case (3 m') then show ?case using paths_okD(3) [OF paths, of m'] by (auto split: if_splits)
  next
    case 4 then show ?case using paths_okD(4) [OF paths] path by auto
  next
    case 5 then show ?case using paths_okD(6) [OF paths] by auto
  next
    case 6 then show ?case using paths_okD(7) [OF paths] by simp
  next
    case 7 then show ?case using paths_okD(5) [OF paths] m(1) by auto
  qed
  moreover have "counts_ok ?s ?h" using inv by (auto simp: writer_inv_def counts_ok_def Writer_Open_def)
  moreover have "file_ok ?s ?h m' p" if "hs_path ?h m' = Some p" for m' p
  proof (cases "m' = m")
    case True
    have "m \<notin> hs_broken h" using items m(2) none by (auto simp: items_ok_def)
    then show ?thesis using True that unfolding file_ok_def swept_def todo same by (auto simp: follow_append follow_Open)
  next
    case False
    then have "file_ok s h m' p" using inv that by (auto simp: writer_inv_def)
    then show ?thesis using False closed unfolding file_ok_def swept_def todo same
      by (auto simp: follow_append)
  qed
  ultimately show ?thesis by (simp add: writer_inv_def)
qed

lemma writer_invD:
  assumes "writer_inv s h"
  shows "items_ok s h" "paths_ok s h" "counts_ok s h" "hs_path h m = Some path \<Longrightarrow> file_ok s h m path"
  using assms by (auto simp: writer_inv_def)

lemma writer_inv_Push:
  assumes inv: "writer_inv s h" and m: "hs_phase h m \<noteq> Closed" "m \<noteq> nil_uuid"
    and s'_def: "s' = Writer_Push to_string m encoded s"
  shows "writer_inv s' (if wr_queue s' = wr_queue s then h
     else h\<lparr>hs_admitted := (hs_admitted h)(m := hs_admitted h m @ [encoded])\<rparr>)"
proof (cases "m \<in> wr_stopped s \<or> wr_health s = CaptureHealth.kStopped \<or> wr_records_queued s \<ge> wr_capacity s")
  case True
  then show ?thesis using inv StopLocked_stops by (auto simp: s'_def Writer_Push_def)
next
  case False
  let ?h = "h\<lparr>hs_admitted := (hs_admitted h)(m := hs_admitted h m @ [encoded])\<rparr>"
  have s': "s' = s\<lparr>wr_records_queued := wr_records_queued s + 1, wr_queue := wr_queue s @ [RecordItem m encoded]\<rparr>"
    using False by (simp add: s'_def Writer_Push_def)
  have todo: "todo s' = todo s @ [RecordItem m encoded]" by (simp add: s' todo_def)
  have same: "wr_file_match s' = wr_file_match s" "written_to s' p = written_to s p" "wr_thread s' = wr_thread s"
    "wr_stopped s' = wr_stopped s" "wr_files s' = wr_files s" "wr_path s' = wr_path s"
    "wr_disk s' = wr_disk s" "wr_directory s' = wr_directory s" for p
    by (simp_all add: s' written_to_def)
  note items = writer_invD(1) [OF inv]
  have "items_ok s' ?h"
    unfolding items_ok_def todo same
    using items m by (auto simp: items_ok_def opens_closed_append file_after_append opens_first_snoc)
  moreover have "paths_ok s' ?h" using writer_invD(2) [OF inv] unfolding paths_ok_def same by simp
  moreover have "counts_ok s' ?h" using writer_invD(3) [OF inv] False by (auto simp: counts_ok_def s')
  moreover have "file_ok s' ?h m' p" if "hs_path ?h m' = Some p" for m' p
  proof -
    have ok: "file_ok s h m' p" using writer_invD(4) [OF inv] that by simp
    have "hs_phase h m' \<noteq> Fresh" using writer_invD(2) [OF inv] that by (auto simp: paths_ok_def)
    then have "m' = m \<Longrightarrow> hs_phase h m' = Opened" using m by (cases "hs_phase h m'") auto
    moreover have "prefix b (c @ d)" if "prefix b c" for b c d :: "byte list" using that by (rule prefix_prefix)
    moreover have "m' = m \<Longrightarrow> \<not> (m' \<in> wr_stopped s \<or> hs_phase h m' = Closed)" using False m by auto
    ultimately show ?thesis using ok unfolding file_ok_def swept_def todo same by (auto simp: follow_append)
  qed
  ultimately have "writer_inv s' ?h" by (simp add: writer_inv_def)
  then show ?thesis by (simp add: s')
qed

lemma writer_inv_Close:
  assumes inv: "writer_inv s h"
  shows "writer_inv (Writer_Close m s) (h\<lparr>hs_phase := (hs_phase h)(m := Closed)\<rparr>)"
proof -
  let ?s = "Writer_Close m s" and ?h = "h\<lparr>hs_phase := (hs_phase h)(m := Closed)\<rparr>"
  have todo: "todo ?s = todo s @ [CloseItem m]" by (simp add: Writer_Close_def todo_def)
  have same: "wr_file_match ?s = wr_file_match s" "written_to ?s p = written_to s p" "wr_thread ?s = wr_thread s"
    "wr_stopped ?s = wr_stopped s" "wr_files ?s = wr_files s" "wr_path ?s = wr_path s"
    "wr_disk ?s = wr_disk s" "wr_directory ?s = wr_directory s" for p
    by (simp_all add: Writer_Close_def written_to_def)
  note items = writer_invD(1) [OF inv]
  have "items_ok ?s ?h"
    unfolding items_ok_def todo same
  proof (intro conjI allI impI ballI, goal_cases)
    case 1 show ?case using items_okD(1) [OF items] by (simp add: opens_closed_append)
  next
    case 2 then show ?case using items_okD(2) [OF items] by (auto simp: file_after_append split: if_splits)
  next
    case (3 m') then show ?case using items_okD(3) [OF items] by auto
  next
    case (4 m' p hd) then show ?case using items_okD(4) [OF items] by auto
  next
    case (5 m' p hd) then show ?case using items_okD(4) [OF items] by auto
  next
    case (6 m' p hd) then show ?case using items_okD(4) [OF items] by auto
  next
    case 7 show ?case using items_okD(5) [OF items] by (simp add: opens_first_snoc)
  next
    case (8 m' e) then show ?case using items_okD(6) [OF items, of m' e] by auto
  next
    case (9 m' e) then show ?case using items_okD(6) [OF items, of m' e] by auto
  next
    case (10 m') then show ?case using items_okD(7) [OF items, of m'] by auto
  qed
  moreover have "paths_ok ?s ?h" using writer_invD(2) [OF inv] unfolding paths_ok_def same by auto
  moreover have "counts_ok ?s ?h" using writer_invD(3) [OF inv] by (auto simp: counts_ok_def Writer_Close_def)
  moreover have "file_ok ?s ?h m' p" if "hs_path ?h m' = Some p" for m' p
  proof -
    have "file_ok s h m' p" using writer_invD(4) [OF inv] that by simp
    then show ?thesis unfolding file_ok_def swept_def todo same by (auto simp: follow_append)
  qed
  ultimately show ?thesis by (simp add: writer_inv_def)
qed

lemma writer_inv_take:
  assumes inv: "writer_inv s h" and "wr_thread s = Waiting" "wr_queue s = item # rest"
  shows "writer_inv (Run_take item rest s) h"
proof -
  let ?s = "Run_take item rest s"
  have todo: "todo ?s = todo s" using assms by (simp add: Run_take_def todo_def)
  have same: "wr_file_match ?s = wr_file_match s" "written_to ?s p = written_to s p"
    "wr_stopped ?s = wr_stopped s" "wr_files ?s = wr_files s" "wr_path ?s = wr_path s"
    "wr_disk ?s = wr_disk s" "wr_directory ?s = wr_directory s" for p
    by (simp_all add: Run_take_def written_to_def)
  have "items_ok ?s h" using writer_invD(1) [OF inv] unfolding items_ok_def todo same .
  moreover have "paths_ok ?s h" using writer_invD(2) [OF inv] unfolding paths_ok_def same .
  moreover have "counts_ok ?s h" using writer_invD(3) [OF inv] assms(3) by (cases "is_record item") (auto simp: counts_ok_def Run_take_def)
  moreover have "file_ok ?s h m p" if "hs_path h m = Some p" for m p
    using writer_invD(4) [OF inv that] assms(2) unfolding file_ok_def swept_def todo same by (auto split: if_splits)
  ultimately show ?thesis by (simp add: writer_inv_def)
qed

lemma todo_finish:
  assumes "wr_thread s = Handled item loss"
  shows "todo (Run_finish to_string item loss s) =
    (if loss = None then todo s else drop_records (item_match item) (todo s))"
  using assms by (auto simp: Run_finish_def todo_def StopLocked_def LoseLocked_def Let_def drop_records_def)

lemma finish_fields:
  "wr_file_match (Run_finish to_string item loss s) = wr_file_match s"
  "wr_files (Run_finish to_string item loss s) = wr_files s"
  "wr_path (Run_finish to_string item loss s) = wr_path s"
  "wr_thread (Run_finish to_string item loss s) = Waiting"
  "wr_stopped (Run_finish to_string item loss s) = (if loss = None then wr_stopped s else insert (item_match item) (wr_stopped s))"
  "written_to (Run_finish to_string item loss s) p = written_to s p"
  "wr_disk (Run_finish to_string item loss s) = wr_disk s"
  "wr_directory (Run_finish to_string item loss s) = wr_directory s"
  by (auto simp: Run_finish_def StopLocked_def LoseLocked_def Let_def written_to_def split: option.splits)

lemma writer_inv_finish_item:
  assumes inv: "writer_inv s h" and thread: "wr_thread s = Handled item loss"
  shows "writer_inv (Run_finish to_string item loss s) h"
proof (cases loss)
  case None
  have todo: "todo (s\<lparr>wr_thread := Waiting\<rparr>) = todo s" using thread by (simp add: todo_def)
  have "items_ok (s\<lparr>wr_thread := Waiting\<rparr>) h" "paths_ok (s\<lparr>wr_thread := Waiting\<rparr>) h" "counts_ok (s\<lparr>wr_thread := Waiting\<rparr>) h"
    using writer_invD(1-3) [OF inv] by (auto simp: items_ok_def paths_ok_def counts_ok_def todo)
  moreover have "file_ok (s\<lparr>wr_thread := Waiting\<rparr>) h m p" if "hs_path h m = Some p" for m p
    using writer_invD(4) [OF inv that] thread None unfolding file_ok_def swept_def todo by (auto simp: written_to_def split: if_splits)
  ultimately show ?thesis by (simp add: writer_inv_def Run_finish_def None Let_def)
next
  case (Some failed)
  let ?s = "Run_finish to_string item loss s" and ?m = "item_match item"
  have todo: "todo ?s = drop_records ?m (todo s)" using todo_finish [OF thread] Some by simp
  have stopped: "wr_stopped ?s = insert ?m (wr_stopped s)" by (simp add: finish_fields Some)
  note same = finish_fields(1-4,6-8) [of to_string item loss s]
  note items = writer_invD(1) [OF inv]
  have "items_ok ?s h"
    unfolding items_ok_def todo same drop_records_keeps
    using items opens_first_drop [of "todo s" ?m] by (auto simp: items_ok_def drop_records_def)
  moreover have "paths_ok ?s h" using writer_invD(2) [OF inv] unfolding paths_ok_def same .
  moreover have "counts_ok ?s h"
  proof -
    have "length (filter is_record (drop_records ?m q)) \<le> length (filter is_record q)" for q
      by (induction q) (auto simp: drop_records_def)
    note fewer = this [of "wr_queue s"]
    obtain step detail where failed: "failed = (step, detail)" by (cases failed)
    let ?t = "s\<lparr>wr_thread := Waiting, wr_queue := drop_records ?m (wr_queue s),
        wr_records_queued := length (filter is_record (drop_records ?m (wr_queue s)))\<rparr>"
    have s': "?s = StopLocked to_string ?m step detail ?t"
      by (simp add: Run_finish_def Some failed Let_def drop_records_def)
    show ?thesis
      unfolding counts_ok_def s' using writer_invD(3) [OF inv] fewer StopLocked_health [of ?t to_string ?m step detail]
      by (simp add: counts_ok_def)
  qed
  moreover have "file_ok ?s h m p" if "hs_path h m = Some p" for m p
  proof -
    have "?m \<in> hs_broken h" using writer_invD(3) [OF inv] thread Some by (cases failed) (auto simp: counts_ok_def)
    then have "m = ?m \<Longrightarrow> m \<in> hs_broken h" by simp
    then show ?thesis using writer_invD(4) [OF inv that] thread Some
      unfolding file_ok_def swept_def todo same stopped by (cases "m = ?m") (auto simp: drop_records_keeps drop_records_none)
  qed
  ultimately show ?thesis by (simp add: writer_inv_def)
qed

text \<open>
  Handling an item: what it changes of the files, told apart by whether it went well;
  \<open>names\<close> are those retention took meanwhile.
\<close>

definition handled_ok :: "string set \<Rightarrow> Item \<Rightarrow> writer \<Rightarrow> writer \<Rightarrow> bool" where
  "handled_ok names item s s' \<longleftrightarrow>
     (case item of
        OpenItem match path header \<Rightarrow>
          wr_file_match s' = match \<and> wr_path s' = path \<and> 
          wr_files s' = (without names (wr_files s))(path := Some header)
      | RecordItem match encoded \<Rightarrow>
          wr_file_match s' = wr_file_match s \<and> wr_path s' = wr_path s \<and>
          wr_files s' = (if wr_file_match s = match
            then (without names (wr_files s))(wr_path s := Some (written_to s (wr_path s) @ encoded)) else wr_files s)
      | CloseItem match \<Rightarrow>
          wr_file_match s' = (if wr_file_match s = match then nil_uuid else wr_file_match s) \<and>
          wr_path s' = wr_path s \<and> wr_files s' = wr_files s)"

definition handled_lost :: "string set \<Rightarrow> Item \<Rightarrow> writer \<Rightarrow> writer \<Rightarrow> bool" where
  "handled_lost names item s s' \<longleftrightarrow>
     (case item of
        OpenItem match path header \<Rightarrow>
          (wr_file_match s' = wr_file_match s \<and> wr_path s' = wr_path s \<and> wr_files s' = without names (wr_files s)) \<or>
          (wr_file_match s' = match \<and> wr_path s' = path \<and>
            (\<exists>n. wr_files s' = (without names (wr_files s))(path := Some (take n header))))
      | RecordItem match encoded \<Rightarrow>
          wr_file_match s' = wr_file_match s \<and> wr_path s' = wr_path s \<and>
          (if wr_file_match s = match
           then wr_files s' = without names (wr_files s) \<or>
             (\<exists>n. wr_files s' = (without names (wr_files s))(wr_path s := Some (written_to s (wr_path s) @ take n encoded)))
           else wr_files s' = wr_files s)
      | CloseItem match \<Rightarrow>
          wr_file_match s' = (if wr_file_match s = match then nil_uuid else wr_file_match s) \<and>
          wr_path s' = wr_path s \<and> wr_files s' = wr_files s)"

lemma Writer_Write_fields:
  assumes "Writer_Write went encoded s = (loss, s')"
  shows "wr_file_match s' = wr_file_match s \<and> wr_path s' = wr_path s \<and> wr_queue s' = wr_queue s \<and>
    wr_records_queued s' = wr_records_queued s \<and> wr_capacity s' = wr_capacity s \<and> wr_stopped s' = wr_stopped s \<and>
    wr_loss s' = wr_loss s \<and> wr_health s' = wr_health s \<and> wr_mode s' = wr_mode s \<and>
    wr_disk s' = wr_disk s \<and> wr_directory s' = wr_directory s \<and>
    (if loss = None then wr_files s' = (wr_files s)(wr_path s := Some (written_to s (wr_path s) @ encoded))
     else \<exists>n. wr_files s' = (wr_files s)(wr_path s := Some (written_to s (wr_path s) @ take n encoded)))"
  using assms by (cases went) (auto simp: Writer_Write_def append_file_def Let_def)

text \<open>
  What retention took: it was reported, none of it is the file the item is for, and the
  file open afterwards is none of those it may yet take.
\<close>

definition retention_took :: "string set \<Rightarrow> Item \<Rightarrow> writer \<Rightarrow> writer \<Rightarrow> bool" where
  "retention_took names item s s' \<longleftrightarrow>
     Deleted ` names \<subseteq> set (dk_reports (wr_disk s')) \<and> set (dk_reports (wr_disk s)) \<subseteq> set (dk_reports (wr_disk s')) \<and>
     (case item of
        OpenItem match path header \<Rightarrow>
          filename path \<notin> names \<and>
          (filename path \<notin> completed_names (wr_directory s') \<or> wr_file_match s' = wr_file_match s)
      | RecordItem match encoded \<Rightarrow>
          names \<subseteq> completed_names (wr_directory s) \<and> cd_completed (wr_directory s') = cd_completed (wr_directory s)
      | CloseItem match \<Rightarrow> cd_completed (wr_directory s') = cd_completed (wr_directory s))"

text \<open>What handling leaves alone; a file's close forgets its stop.\<close>

definition handled_frame :: "uuid set \<Rightarrow> writer \<Rightarrow> writer \<Rightarrow> bool" where
  "handled_frame stopped s s' \<longleftrightarrow>
     wr_queue s' = wr_queue s \<and> wr_records_queued s' = wr_records_queued s \<and> wr_capacity s' = wr_capacity s \<and>
     wr_mode s' = wr_mode s \<and> wr_stopped s' = stopped \<and> wr_loss s' = wr_loss s \<and> wr_health s' = wr_health s"

definition handled_as :: "string set \<Rightarrow> Item \<Rightarrow> Failed option \<Rightarrow> writer \<Rightarrow> writer \<Rightarrow> bool" where
  "handled_as names item loss s s' \<longleftrightarrow>
     handled_frame (case item of CloseItem match \<Rightarrow> wr_stopped s - {match} | _ \<Rightarrow> wr_stopped s) s s' \<and>
     retention_took names item s s' \<and> (if loss = None then handled_ok names item s s' else handled_lost names item s s')"

lemma written_to_without: "filename path \<notin> names \<Longrightarrow> without names files path = files path"
  by (simp add: without_def)

lemma without_none [simp]: "without {} files = files"
  by (simp add: without_def)

lemma OpenFile_fields:
  assumes "OpenFile match_id went match path header s = Some (loss, s')"
  shows "\<exists>names. handled_as names (OpenItem match path header) loss s s'"
proof -
  define listing where "listing = (io_listing went)\<lparr>dk_reports := dk_reports (wr_disk s)\<rparr>"
  obtain fits cd d where opened: "Open match_id (wr_directory s) listing match (filename path) (word_of_nat (length header)) =
      Some (fits, cd, d)"
    using assms by (auto simp: OpenFile_def Let_def listing_def split: option.splits)
  define names where "names = removed listing d"
  note room = Open_takes [OF opened]
  have names: "Deleted ` names \<subseteq> set (dk_reports d)" "set (dk_reports (wr_disk s)) \<subseteq> set (dk_reports d)"
    "filename path \<notin> names" "filename path \<notin> completed_names cd"
    using room by (auto simp: takes_of_def names_def listing_def)
  let ?s = "s\<lparr>wr_directory := cd, wr_disk := d, wr_files := (without names (wr_files s))(path := Some []), wr_file_match := match,
      wr_path := path, wr_records := 0\<rparr>"
  have "handled_as names (OpenItem match path header) loss s s'"
  proof (cases "fits \<and> io_created went")
    case True
    then have "Writer_Write (io_write went) header ?s = (loss, s')"
      using assms opened by (simp add: OpenFile_def Let_def listing_def [symmetric] names_def)
    from Writer_Write_fields [OF this] names show ?thesis
      by (auto simp: handled_as_def retention_took_def handled_frame_def handled_ok_def handled_lost_def written_to_def)
  next
    case False
    then have "loss \<noteq> None" "s' = s\<lparr>wr_directory := cd, wr_disk := d, wr_files := without names (wr_files s)\<rparr>"
      using assms opened by (auto simp: OpenFile_def Let_def listing_def [symmetric] names_def split: if_splits)
    then show ?thesis using names
      by (cases loss) (simp_all add: handled_as_def retention_took_def handled_frame_def handled_lost_def)
  qed
  then show ?thesis by blast
qed

lemma Persist_fields:
  assumes "Persist went encoded s = Some (loss, s')" and "wr_file_match s = match"
    and "filename (wr_path s) \<notin> completed_names (wr_directory s)"
  shows "\<exists>names. handled_as names (RecordItem match encoded) loss s s'"
proof -
  obtain fits cd d where reserved: "Reserve (wr_directory s) (wr_disk s) (word_of_nat (length encoded)) = Some (fits, cd, d)"
    using assms by (auto simp: Persist_def split: option.splits)
  define names where "names = removed (wr_disk s) d"
  note room = Reserve_takes [OF reserved]
  have names: "Deleted ` names \<subseteq> set (dk_reports d)" "set (dk_reports (wr_disk s)) \<subseteq> set (dk_reports d)"
    "names \<subseteq> completed_names (wr_directory s)" "cd_completed cd = cd_completed (wr_directory s)"
    using room by (auto simp: takes_of_def names_def)
  define s1 where "s1 = s\<lparr>wr_directory := cd, wr_disk := d, wr_files := without names (wr_files s)\<rparr>"
  have "filename (wr_path s) \<notin> names" using names(3) assms(3) by blast
  then have same: "written_to s1 (wr_path s) = written_to s (wr_path s)" by (simp add: written_to_def s1_def without_def)
  have "handled_as names (RecordItem match encoded) loss s s'"
  proof (cases fits)
    case True
    then have "Writer_Write (io_write went) encoded s1 = (loss, s')"
      using assms reserved by (simp add: Persist_def Let_def s1_def names_def)
    from Writer_Write_fields [OF this] same names show ?thesis
      by (auto simp: handled_as_def retention_took_def handled_frame_def handled_ok_def handled_lost_def assms(2) s1_def)
  next
    case False
    then have "loss \<noteq> None" "s' = s1"
      using assms reserved by (auto simp: Persist_def Let_def s1_def names_def split: if_splits)
    then show ?thesis using names
      by (cases loss) (simp_all add: handled_as_def retention_took_def handled_frame_def handled_lost_def s1_def assms(2))
  qed
  then show ?thesis by blast
qed

lemma HandleGuarded_fields:
  assumes "HandleGuarded match_id went item s = Some (loss, s')"
    and room: "\<And>match encoded. item = RecordItem match encoded \<Longrightarrow> wr_file_match s = match \<Longrightarrow>
      filename (wr_path s) \<notin> completed_names (wr_directory s)"
  shows "\<exists>names. handled_as names item loss s s'"
proof (cases item)
  case (OpenItem match path header)
  show ?thesis
  proof (cases "io_throws went")
    case None
    then have "OpenFile match_id went match path header s = Some (loss, s')"
      using assms OpenItem by (simp add: HandleGuarded_def)
    from OpenFile_fields [OF this] show ?thesis by (simp add: OpenItem)
  next
    case (Some what)
    then have "loss = Some (kWrite, what)" "s' = s" using assms OpenItem by (auto simp: HandleGuarded_def)
    then show ?thesis
      by (intro exI [of _ "{}"]) (simp add: OpenItem handled_as_def handled_frame_def handled_lost_def retention_took_def)
  qed
next
  case (RecordItem match encoded)
  show ?thesis
  proof (cases "io_throws went = None \<and> wr_file_match s = match")
    case True
    then have "Persist went encoded s = Some (loss, s')" using assms RecordItem by (simp add: HandleGuarded_def)
    from Persist_fields [OF this] True room [OF RecordItem] show ?thesis by (simp add: RecordItem)
  next
    case False
    then have "s' = s" "loss = None \<longrightarrow> wr_file_match s \<noteq> match"
      using assms RecordItem by (auto simp: HandleGuarded_def split: option.splits)
    then show ?thesis
      by (intro exI [of _ "{}"])
        (auto simp: RecordItem handled_as_def handled_frame_def handled_lost_def handled_ok_def retention_took_def)
  qed
next
  case (CloseItem match)
  then show ?thesis using assms
    by (cases "io_throws went"; intro exI [of _ "{}"])
      (auto simp: HandleGuarded_def handled_as_def handled_frame_def handled_lost_def handled_ok_def retention_took_def CloseFile_def Let_def)
qed

lemma handled_frame_write:
  assumes "Writer_Write how bytes s0 = (loss, s')" and "handled_frame stopped s s0"
  shows "handled_frame stopped s s'"
  using Writer_Write_fields [OF assms(1)] assms(2) unfolding handled_frame_def by simp

lemma OpenFile_frame:
  assumes "OpenFile match_id went match path header s = Some (loss, s')"
  shows "handled_frame (wr_stopped s) s s'"
  using OpenFile_fields [OF assms] by (auto simp: handled_as_def)

lemma Persist_frame:
  assumes "Persist went encoded s = Some (loss, s')"
  shows "handled_frame (wr_stopped s) s s'"
proof -
  obtain fits cd d where reserved: "Reserve (wr_directory s) (wr_disk s) (word_of_nat (length encoded)) = Some (fits, cd, d)"
    using assms by (auto simp: Persist_def split: option.splits)
  let ?s = "s\<lparr>wr_directory := cd, wr_disk := d, wr_files := without (removed (wr_disk s) d) (wr_files s)\<rparr>"
  have here: "handled_frame (wr_stopped s) s ?s" by (simp add: handled_frame_def)
  show ?thesis
  proof (cases fits)
    case True
    then have "Writer_Write (io_write went) encoded ?s = (loss, s')" using assms reserved by (simp add: Persist_def Let_def)
    then show ?thesis using here by (rule handled_frame_write)
  next
    case False
    then have "s' = ?s" using assms reserved by (simp add: Persist_def Let_def)
    then show ?thesis using here by simp
  qed
qed

lemma HandleGuarded_frame:
  assumes "HandleGuarded match_id went item s = Some (loss, s')"
  shows "handled_frame (case item of CloseItem match \<Rightarrow> wr_stopped s - {match} | _ \<Rightarrow> wr_stopped s) s s'"
proof (cases item)
  case (OpenItem match path header)
  have "s' = s \<or> OpenFile match_id went match path header s = Some (loss, s')"
    using assms OpenItem by (cases "io_throws went") (simp_all add: HandleGuarded_def)
  then show ?thesis using OpenFile_frame by (auto simp: OpenItem handled_frame_def)
next
  case (RecordItem match encoded)
  have "s' = s \<or> Persist went encoded s = Some (loss, s')"
    using assms RecordItem by (cases "io_throws went"; cases "wr_file_match s = match") (simp_all add: HandleGuarded_def)
  then show ?thesis using Persist_frame by (auto simp: RecordItem handled_frame_def)
next
  case (CloseItem match)
  have "s' = CloseFile match s"
    using assms CloseItem by (cases "io_throws went") (simp_all add: HandleGuarded_def)
  then show ?thesis by (simp add: CloseItem handled_frame_def CloseFile_def Let_def)
qed

text \<open>What handling an item does to the file of one Match, at a path of its own.\<close>

lemma handled_other:
  assumes handled: "handled_ok names item s s' \<or> handled_lost names item s s'" and other: "item_match item \<noteq> m" "m \<noteq> nil_uuid"
    and opn: "\<And>path header. item = OpenItem (item_match item) path header \<Longrightarrow> path \<noteq> p \<and> wr_file_match s \<noteq> m"
    and rec: "\<And>encoded. item = RecordItem (item_match item) encoded \<Longrightarrow> wr_file_match s = item_match item \<Longrightarrow> wr_path s \<noteq> p"
  shows "wr_file_match s' = m \<longleftrightarrow> wr_file_match s = m"
    and "wr_files s' p = wr_files s p \<or> wr_files s p \<noteq> None \<and> wr_files s' p = None \<and> filename p \<in> names \<and> wr_file_match s \<noteq> m"
proof -
  have gone: "files p = wr_files s p \<or> wr_files s p \<noteq> None \<and> files p = None \<and> filename p \<in> names"
    if "files = without names (wr_files s)" for files
    using that by (cases "wr_files s p") (simp_all add: without_def)
  have "(wr_file_match s' = m \<longleftrightarrow> wr_file_match s = m) \<and>
    (wr_files s' p = wr_files s p \<or> wr_file_match s \<noteq> m \<and> wr_files s' p = without names (wr_files s) p)"
  proof (cases item)
    case (OpenItem match path header)
    then have "path \<noteq> p" "wr_file_match s \<noteq> m" "match \<noteq> m" using opn other by auto
    then show ?thesis using handled unfolding handled_ok_def handled_lost_def OpenItem by auto
  next
    case (RecordItem match encoded)
    then have "wr_file_match s = match \<Longrightarrow> wr_path s \<noteq> p" "match \<noteq> m" using rec other by auto
    then show ?thesis using handled unfolding handled_ok_def handled_lost_def RecordItem by (auto split: if_splits)
  next
    case (CloseItem match)
    then show ?thesis using handled other unfolding handled_ok_def handled_lost_def CloseItem by auto
  qed
  then show "wr_file_match s' = m \<longleftrightarrow> wr_file_match s = m"
    and "wr_files s' p = wr_files s p \<or> wr_files s p \<noteq> None \<and> wr_files s' p = None \<and> filename p \<in> names \<and> wr_file_match s \<noteq> m"
    using gone by auto
qed

lemma handled_own:
  assumes "handled_ok names item s s'" and "item_match item = m" and "m \<noteq> nil_uuid"
    and "\<And>path header. item = OpenItem m path header \<Longrightarrow> path = p"
    and "wr_file_match s = m \<Longrightarrow> wr_path s = p"
  shows "follow m (item # items) (wr_file_match s = m, written_to s p) =
      follow m items (wr_file_match s' = m, written_to s' p)"
    and "wr_files s p \<noteq> None \<or> (\<exists>path header. item = OpenItem m path header) \<Longrightarrow> wr_files s' p \<noteq> None"
  using assms by (cases item; auto simp: handled_ok_def written_to_def)+

lemma handled_lost_prefix:
  assumes "handled_lost names item s s'" and "item_match item = m"
    and "\<And>path header. item = OpenItem m path header \<Longrightarrow> path = p \<and> written_to s p = []"
    and "wr_file_match s = m \<Longrightarrow> wr_path s = p" and "opens m items = []"
  shows "prefix (written_to s' p) (snd (follow m (item # items) (wr_file_match s = m, written_to s p)))"
proof (cases item)
  case (OpenItem match path header)
  have "prefix header (snd (follow m items (True, header)))" using follow_prefix [OF assms(5), of "(True, header)"] by simp
  moreover have "prefix (written_to s' p) header"
    using assms OpenItem by (auto simp: handled_lost_def written_to_def without_def take_is_prefix)
  ultimately show ?thesis using OpenItem assms(2) by (auto intro: prefix_order.trans)
next
  case (RecordItem match encoded)
  show ?thesis
  proof (cases "wr_file_match s = m")
    case True
    have "prefix (written_to s p @ encoded) (snd (follow m items (True, written_to s p @ encoded)))"
      using follow_prefix [OF assms(5), of "(True, written_to s p @ encoded)"] by simp
    moreover have "prefix (written_to s' p) (written_to s p @ encoded)"
      using assms RecordItem True by (auto simp: handled_lost_def written_to_def without_def take_is_prefix)
    ultimately show ?thesis using RecordItem assms(2) True by (auto intro: prefix_order.trans)
  next
    case False
    then show ?thesis using assms RecordItem follow_prefix [OF assms(5), of "(False, written_to s p)"]
      by (auto simp: handled_lost_def written_to_def)
  qed
next
  case (CloseItem match)
  then show ?thesis using assms follow_prefix [OF assms(5), of "(False, written_to s p)"]
    by (auto simp: handled_lost_def written_to_def)
qed

lemma handled_items:
  assumes "handled_ok names item s s' \<or> handled_lost names item s s'" and "opens_closed (wr_file_match s) (item # items)"
  shows "opens_closed (wr_file_match s') items"
    and "file_after (wr_file_match s') items \<in> {file_after (wr_file_match s) (item # items), nil_uuid}"
proof -
  have opened_file: "wr_file_match s' = file_after (wr_file_match s) [item] \<or> wr_file_match s' = nil_uuid \<and> wr_file_match s = nil_uuid"
    using assms by (cases item) (auto simp: handled_ok_def handled_lost_def)
  have closed: "opens_closed (file_after (wr_file_match s) [item]) items"
    using assms(2) opens_closed_append [of "wr_file_match s" "[item]" items] by simp
  show "opens_closed (wr_file_match s') items"
    using opened_file closed opens_closed_nil [OF closed] by auto
  have "file_after (wr_file_match s) (item # items) = file_after (file_after (wr_file_match s) [item]) items"
    using file_after_append [of "wr_file_match s" "[item]" items] by simp
  then show "file_after (wr_file_match s') items \<in> {file_after (wr_file_match s) (item # items), nil_uuid}"
    using opened_file file_after_nil [of items "file_after (wr_file_match s) [item]"] by auto
qed

lemma writer_inv_handle:
  assumes inv: "writer_inv s h" and thread: "wr_thread s = Holding item"
    and handled: "HandleGuarded match_id went item s = Some (loss, s')"
  shows "writer_inv (s'\<lparr>wr_thread := Handled item loss\<rparr>)
     (if loss = None then h else h\<lparr>hs_broken := insert (item_match item) (hs_broken h)\<rparr>)"
proof -
  define s2 where "s2 = s'\<lparr>wr_thread := Handled item loss\<rparr>"
  define h2 where "h2 = (if loss = None then h else h\<lparr>hs_broken := insert (item_match item) (hs_broken h)\<rparr>)"
  let ?m = "item_match item" and ?q = "wr_queue s"
  note items = writer_invD(1) [OF inv] and paths = writer_invD(2) [OF inv]
  have rec: "match \<noteq> nil_uuid" if "item = RecordItem match e" for match e
    using items_okD(6) [OF items, of match e] that thread by (simp add: todo_def)
  obtain names where as: "handled_as names item loss s s'"
    using HandleGuarded_fields [OF handled] rec paths_okD(7) [OF paths] by blast
  have fields: "handled_frame (case item of CloseItem match \<Rightarrow> wr_stopped s - {match} | _ \<Rightarrow> wr_stopped s) s s'"
      "retention_took names item s s'" "if loss = None then handled_ok names item s s' else handled_lost names item s s'"
    using as by (simp_all add: handled_as_def)
  note frame = fields(1) [unfolded handled_frame_def]
  have all: "handled_ok names item s s' \<or> handled_lost names item s s'" using fields(3) by (auto split: if_splits)
  have todo: "todo s = item # ?q" "todo s2 = ?q" using thread frame by (simp_all add: todo_def s2_def)
  have same: "wr_file_match s2 = wr_file_match s'" "written_to s2 p = written_to s' p" "wr_files s2 = wr_files s'"
      "wr_path s2 = wr_path s'" "wr_stopped s2 = wr_stopped s'" "wr_thread s2 = Handled item loss"
      "wr_disk s2 = wr_disk s'" "wr_directory s2 = wr_directory s'" for p
    by (simp_all add: s2_def written_to_def)
  have same_h: "hs_phase h2 = hs_phase h" "hs_admitted h2 = hs_admitted h" "hs_path h2 = hs_path h"
      "hs_broken h2 = (if loss = None then hs_broken h else insert ?m (hs_broken h))"
    by (simp_all add: h2_def)
  have later: "opens ?m ?q = []" using items_okD(5) [OF items] unfolding todo by simp
  have opn: "?m \<noteq> nil_uuid \<and> hs_path h ?m = Some path \<and> wr_files s path = None \<and> wr_file_match s = nil_uuid"
    if "item = OpenItem ?m path header" for path header
  proof -
    have "OpenItem ?m path header \<in> set (todo s)" using that todo by (metis list.set_intros(1))
    moreover have "wr_file_match s = nil_uuid"
      using items_okD(1) [OF items] unfolding todo by (subst (asm) that) simp
    ultimately show ?thesis using items_okD(4) [OF items] by blast
  qed
  have file_path: "wr_path s = p" if "wr_file_match s = m" "hs_path h m = Some p" for m p
    using paths_okD(4,5) [OF paths] that by (metis option.inject option.distinct(1))
  have changed: "wr_files s path = None \<and> hs_path h ?m = Some path \<and> (\<exists>header. item = OpenItem ?m path header) \<or>
      wr_files s path \<noteq> None" if "wr_files s' path \<noteq> wr_files s path" for path
  proof (cases item)
    case (OpenItem match file_path header)
    then show ?thesis using that all opn [of file_path header]
      by (cases "wr_files s path") (auto simp: handled_ok_def handled_lost_def without_def split: if_splits)
  next
    case (RecordItem match encoded)
    then have "wr_file_match s = match \<Longrightarrow> wr_files s (wr_path s) \<noteq> None" using rec paths_okD(6) [OF paths] by blast
    then show ?thesis using that all RecordItem
      by (cases "wr_files s path") (auto simp: handled_ok_def handled_lost_def without_def split: if_splits)
  next
    case (CloseItem match)
    then show ?thesis using that all by (auto simp: handled_ok_def handled_lost_def)
  qed
  have file_open: "hs_path h (wr_file_match s') = Some (wr_path s') \<and> wr_files s' (wr_path s') \<noteq> None \<and>
      filename (wr_path s') \<notin> completed_names (wr_directory s')" if "wr_file_match s' \<noteq> nil_uuid"
  proof (cases item)
    case (OpenItem match path header)
    then have "hs_path h match = Some path" "wr_file_match s = nil_uuid" using opn [of path header] by auto
    then show ?thesis using that all fields(2) OpenItem by (auto simp: handled_ok_def handled_lost_def retention_took_def)
  next
    case (RecordItem match encoded)
    then have before: "wr_file_match s' = wr_file_match s" "wr_path s' = wr_path s"
      "completed_names (wr_directory s') = completed_names (wr_directory s)" "names \<subseteq> completed_names (wr_directory s)"
      using all fields(2) by (auto simp: handled_ok_def handled_lost_def retention_took_def)
    then have "filename (wr_path s) \<notin> names" using that paths_okD(7) [OF paths] by auto
    then have "wr_files s' (wr_path s) \<noteq> None"
      using that all RecordItem paths_okD(6) [OF paths] before(1)
      by (auto simp: handled_ok_def handled_lost_def without_def split: if_splits)
    then show ?thesis using that paths_okD(4,7) [OF paths] before by simp
  next
    case (CloseItem match)
    then have "wr_file_match s' = wr_file_match s" "wr_path s' = wr_path s" "wr_files s' = wr_files s"
      "completed_names (wr_directory s') = completed_names (wr_directory s)"
      using that all fields(2) by (auto simp: handled_ok_def handled_lost_def retention_took_def split: if_splits)
    then show ?thesis using that paths_okD(4,6,7) [OF paths] by simp
  qed
  have reported: "Deleted ` names \<subseteq> set (dk_reports (wr_disk s'))"
      "set (dk_reports (wr_disk s)) \<subseteq> set (dk_reports (wr_disk s'))"
    using fields(2) by (simp_all add: retention_took_def)
  have "items_ok s2 h2"
    unfolding items_ok_def todo same same_h
  proof (intro conjI allI impI ballI, goal_cases)
    case 1 show ?case using handled_items(1) [OF all] items_okD(1) [OF items] todo by simp
  next
    case 2 then show ?case
      using handled_items(2) [OF all, of ?q] items_okD(1) [OF items] items_okD(2) [OF items] todo by auto
  next
    case (3 m) then show ?case using items_okD(3) [OF items] todo by auto
  next
    case (4 m p hd) then show ?case using items_okD(4) [OF items] todo by auto
  next
    case (5 m p hd) then show ?case using items_okD(4) [OF items] todo by auto
  next
    case (6 m p hd)
    then have old: "wr_files s p = None" "hs_path h m = Some p" using items_okD(4) [OF items] todo by auto
    then have "wr_files s' p \<noteq> wr_files s p \<Longrightarrow> m = ?m" using changed [of p] paths_okD(1) [OF paths] by blast
    then show ?case using 6 later old(1) unfolding opens_Nil_iff by metis
  next
    case 7 show ?case using items_okD(5) [OF items] unfolding todo by simp
  next
    case (8 m e) then show ?case using items_okD(6) [OF items] todo by auto
  next
    case (9 m e) then show ?case using items_okD(6) [OF items] todo by auto
  next
    case (10 m)
    show ?case
    proof (cases "m \<in> hs_broken h")
      case True then show ?thesis using items_okD(7) [OF items] 10 by blast
    next
      case False
      then have "m = ?m" using 10 by (auto split: if_splits)
      moreover have "hs_phase h ?m \<noteq> Fresh \<or> hs_admitted h ?m \<noteq> []"
        using items_okD(3,6) [OF items, of ?m] opn paths_okD(3) [OF paths, of ?m] unfolding todo
        by (cases item) auto
      ultimately show ?thesis by blast
    qed
  qed
  moreover have "paths_ok s2 h2"
    unfolding paths_ok_def same same_h
  proof (intro conjI allI impI, goal_cases)
    case (1 m1 m2 p) then show ?case using paths_okD(1) [OF paths] by blast
  next
    case (2 p) then show ?case using changed [of p] paths_okD(2) [OF paths, of p] by (cases "wr_files s p") auto
  next
    case (3 m) then show ?case using paths_okD(3) [OF paths] by simp
  next
    case 4 then show ?case using file_open by blast
  next
    case 5 then show ?case using file_open by blast
  next
    case 6 then show ?case using file_open by blast
  next
    case 7 show ?case using paths_okD(5) [OF paths] .
  qed
  moreover have "counts_ok s2 h2"
    using writer_invD(3) [OF inv] frame by (auto simp: counts_ok_def s2_def h2_def)
  moreover have "file_ok s2 h2 m p" if path: "hs_path h2 m = Some p" for m p
  proof -
    have p: "hs_path h m = Some p" using path same_h by simp
    have nn: "m \<noteq> nil_uuid" using p paths_okD(5) [OF paths] by auto
    have ok: "file_ok s h m p" using writer_invD(4) [OF inv p] .
    have not_handled: "wr_thread s \<noteq> Handled item' loss'" for item' loss' using thread by simp
    show ?thesis
    proof (cases "m = ?m")
      case False
      have own: "wr_path s \<noteq> p" if "item = RecordItem ?m e" "wr_file_match s = ?m" for e
      proof -
        have "hs_path h ?m = Some (wr_path s)" using that rec paths_okD(4) [OF paths] by auto
        then show ?thesis using False p paths_okD(1) [OF paths] by blast
      qed
      have fm: "(wr_file_match s' = m) = (wr_file_match s = m)"
        and bytes: "wr_files s' p = wr_files s p \<or>
          wr_files s p \<noteq> None \<and> wr_files s' p = None \<and> filename p \<in> names \<and> wr_file_match s \<noteq> m"
        using handled_other [OF all False [symmetric] nn, of p] own opn p paths_okD(1) [OF paths] False nn by metis+
      have skip: "follow m (item # ?q) (wr_file_match s = m, written_to s p) = follow m ?q (wr_file_match s = m, written_to s p)"
        using False opn nn by (cases item) auto
      have lists: "opens m ?q = opens m (todo s)" "records_of m ?q = records_of m (todo s)" "m \<in> wr_stopped s' \<longleftrightarrow> m \<in> wr_stopped s"
        using False frame unfolding todo by (cases item; auto)+
      show ?thesis
      proof (cases "wr_files s' p = wr_files s p")
        case True
        then have "written_to s' p = written_to s p" by (simp add: written_to_def)
        moreover have "swept s m p \<Longrightarrow> swept s2 m p" using True reported(2) fm lists(1) by (auto simp: swept_def same todo)
        ultimately show ?thesis using ok False skip not_handled lists True
          unfolding file_ok_def todo same same_h fm by (auto split: if_splits)
      next
        case swept: False
        then have "opens m ?q = []"
          using bytes items_okD(4) [OF items, of m] p unfolding lists(1) opens_Nil_iff by fastforce
        then have "swept s2 m p" using swept bytes reported(1) fm by (auto simp: swept_def same todo)
        moreover have "written_to s' p = []" using swept bytes by (simp add: written_to_def)
        ultimately show ?thesis using ok False not_handled lists
          unfolding file_ok_def todo same same_h fm by (auto split: if_splits)
      qed
    next
      case True
      have path_s: "wr_path s = p" if "wr_file_match s = m" using file_path that p by blast
      have open_p: "path = p \<and> written_to s p = []" if "item = OpenItem m path header" for path header
      proof -
        have "hs_path h m = Some path \<and> wr_files s path = None" using opn [of path header] that unfolding True by blast
        then show ?thesis using p by (simp add: written_to_def)
      qed
      show ?thesis
      proof (cases "m \<in> hs_broken h")
        case broken: True
        then have none: "opens m (item # ?q) = []" "records_of m (item # ?q) = []"
          and old: "prefix (written_to s p) (concat (hs_admitted h m))"
          using ok not_handled unfolding file_ok_def todo by auto
        then have item: "item = CloseItem m" using True by (cases item) auto
        then have "hs_phase h m = Closed" using items_okD(3) [OF items, of m] todo by simp
        moreover have "written_to s' p = written_to s p"
          using all item by (auto simp: handled_ok_def handled_lost_def written_to_def)
        ultimately show ?thesis using broken none old item
          unfolding file_ok_def todo same same_h by auto
      next
        case unbroken: False
        show ?thesis
        proof (cases "swept s m p")
          case swept: True
          then have "wr_files s p = None" "wr_file_match s \<noteq> m" and none: "opens m (item # ?q) = []"
            and gone: "Deleted (filename p) \<in> set (dk_reports (wr_disk s))"
            by (simp_all add: swept_def todo)
          moreover from none have "wr_files s' = wr_files s \<and> wr_file_match s' = wr_file_match s"
            using all True \<open>wr_file_match s \<noteq> m\<close> by (cases item) (auto simp: handled_ok_def handled_lost_def)
          ultimately have "swept s2 m p" "written_to s' p = []"
            using reported(2) later True by (auto simp: swept_def same todo written_to_def)
          then show ?thesis using unbroken True later unfolding file_ok_def todo same same_h
            by (cases loss) auto
        next
          case False
          then have follow: "follow m (item # ?q) (wr_file_match s = m, written_to s p) =
              (hs_phase h m = Opened, concat (hs_admitted h m))"
            and there: "opens m (item # ?q) = [] \<Longrightarrow> wr_files s p \<noteq> None"
            using ok unbroken unfolding file_ok_def todo by auto
          show ?thesis
          proof (cases loss)
            case None
            then have "handled_ok names item s s'" using fields(3) by simp
            note own = handled_own [OF this True [symmetric] nn, of p]
            have "follow m ?q (wr_file_match s' = m, written_to s' p) = (hs_phase h m = Opened, concat (hs_admitted h m))"
              using own(1) [of ?q] open_p path_s follow by auto
            moreover have "wr_files s' p \<noteq> None"
            proof (rule own(2))
              show "wr_files s p \<noteq> None \<or> (\<exists>path header. item = OpenItem m path header)"
                using there later True by (cases item) auto
            qed (use open_p path_s in auto)
            ultimately show ?thesis using unbroken None unfolding file_ok_def todo same same_h by auto
          next
            case (Some failed)
            then have "handled_lost names item s s'" using fields(3) by simp
            then have "prefix (written_to s' p) (snd (follow m (item # ?q) (wr_file_match s = m, written_to s p)))"
              by (rule handled_lost_prefix [OF _ True [symmetric] open_p path_s]) (use later True in simp_all)
            then have "prefix (written_to s' p) (concat (hs_admitted h m))" by (simp only: follow snd_conv)
            then show ?thesis using Some True later unfolding file_ok_def todo same same_h by auto
          qed
        qed
      qed
    qed
  qed
  ultimately show ?thesis by (simp add: writer_inv_def s2_def h2_def)
qed

lemma offer_fields [simp]:
  "hs_phase (offer m encoded s h) = hs_phase h" "hs_admitted (offer m encoded s h) = hs_admitted h"
  "hs_path (offer m encoded s h) = hs_path h" "hs_broken (offer m encoded s h) = hs_broken h"
  by (simp_all add: offer_def)

lemma writer_inv_offered:
  "writer_inv s h \<Longrightarrow> writer_inv s (h\<lparr>hs_offered := offered\<rparr>)"
  "writer_inv s h \<Longrightarrow> writer_inv s (offer m encoded s' h)"
proof -
  have "file_ok s (h\<lparr>hs_offered := offered\<rparr>) m path = file_ok s h m path"
    "items_ok s (h\<lparr>hs_offered := offered\<rparr>) = items_ok s h" "paths_ok s (h\<lparr>hs_offered := offered\<rparr>) = paths_ok s h"
    "counts_ok s (h\<lparr>hs_offered := offered\<rparr>) = counts_ok s h" for m path offered
    by (simp_all add: inv_defs)
  then have same: "writer_inv s (h\<lparr>hs_offered := offered\<rparr>) = writer_inv s h" for offered
    by (simp only: writer_inv_def) simp
  show "writer_inv s h \<Longrightarrow> writer_inv s (h\<lparr>hs_offered := offered\<rparr>)" by (simp only: same)
  show "writer_inv s h \<Longrightarrow> writer_inv s (offer m encoded s' h)" by (simp only: offer_def same split: if_split) simp
qed

lemma writer_inv_init: "writer_inv (Writer_init mode capacity retention d) history_init"
  by (simp add: inv_defs Writer_init_def history_init_def todo_def)

lemma writer_inv_step:
  assumes "writer_step match_id to_string (s, h) (s', h')" and "writer_inv s h"
  shows "writer_inv s' h'"
  using assms(1)
proof (cases rule: writer_step.cases)
  case open_match
  then show ?thesis using writer_inv_offered(1) [OF writer_inv_Open [OF assms(2)]] by simp
next
  case (push m encoded)
  from writer_inv_Push [OF writer_inv_offered(2) [OF assms(2), of m encoded s], of m, OF _ push(2) push(4)] push(1,3)
  show ?thesis by (simp only: offer_fields simp_thms)
next
  case handle_item
  then show ?thesis using writer_inv_handle [OF assms(2)] by simp
next
  case finish_item
  then show ?thesis using writer_inv_finish_item [OF assms(2)] by simp
qed (use assms(2) in \<open>auto simp: Writer_Stop_def writer_inv_Begin writer_inv_Finish writer_inv_Close writer_inv_take StopLocked_stops\<close>)

lemma writer_reachable_inv:
  assumes "writer_reachable match_id to_string (Writer_init mode capacity retention d) (s, h)"
  shows "writer_inv s h"
  using assms
proof (induction "(s, h)" arbitrary: s h)
  case init
  then show ?case using writer_inv_init by simp
next
  case (step sh)
  then show ?case using writer_inv_step by (cases sh) blast
qed

text \<open>
  What is admitted of a Match is what was offered of it up to somewhere, and all of it
  unless its capture stopped.
\<close>

definition offers_ok :: "writer \<Rightarrow> history \<Rightarrow> bool" where
  "offers_ok s h \<longleftrightarrow>
     (\<forall>m. prefix (hs_admitted h m) (hs_offered h m) \<and>
        (hs_admitted h m = hs_offered h m \<or> hs_phase h m = Closed \<or> m \<in> wr_stopped s \<or>
         wr_health s = CaptureHealth.kStopped))"

lemma StopLocked_stays_stopped:
  "wr_health s = CaptureHealth.kStopped \<Longrightarrow> wr_health (StopLocked to_string m step detail s) = CaptureHealth.kStopped"
  by (simp add: StopLocked_def LoseLocked_def)

lemma offers_ok_mono:
  assumes "offers_ok s h" and "hs_admitted h' = hs_admitted h" and "hs_offered h' = hs_offered h"
    and "\<And>m. m \<in> wr_stopped s \<Longrightarrow> m \<notin> wr_stopped s' \<Longrightarrow> hs_phase h' m = Closed"
    and "\<And>m. hs_phase h m = Closed \<Longrightarrow> hs_phase h' m = Closed"
    and "wr_health s = CaptureHealth.kStopped \<Longrightarrow> wr_health s' = CaptureHealth.kStopped"
  shows "offers_ok s' h'"
  using assms unfolding offers_ok_def by metis

lemma offers_ok_Push:
  assumes "offers_ok s h" and "hs_phase h m \<noteq> Closed" and s': "s' = Writer_Push to_string m encoded s"
  shows "offers_ok s' (if wr_queue s' = wr_queue s then offer m encoded s h
     else (offer m encoded s h)\<lparr>hs_admitted := (hs_admitted h)(m := hs_admitted h m @ [encoded])\<rparr>)"
proof (cases "m \<in> wr_stopped s \<or> wr_health s = CaptureHealth.kStopped \<or> wr_records_queued s \<ge> wr_capacity s")
  case True
  then show ?thesis using assms(1) StopLocked_stays_stopped [of s]
    by (auto simp: s' Writer_Push_def offers_ok_def offer_def)
next
  case False
  then have "hs_admitted h m = hs_offered h m" using assms(1,2) by (auto simp: offers_ok_def)
  then show ?thesis using assms(1) False by (simp add: s' Writer_Push_def offers_ok_def offer_def)
qed

lemma HandleGuarded_stopped:
  assumes "HandleGuarded match_id went item s = Some (loss, s')" and "m \<in> wr_stopped s" and "m \<notin> wr_stopped s'"
  shows "item = CloseItem m"
  using assms HandleGuarded_frame [OF assms(1)] by (cases item) (auto simp: handled_frame_def)

lemma offers_ok_step:
  assumes "writer_step match_id to_string (s, h) (s', h')" and "writer_inv s h" and "offers_ok s h"
  shows "offers_ok s' h'"
  using assms(1)
proof (cases rule: writer_step.cases)
  case (open_match m path header)
  then show ?thesis using assms(3) by (auto simp: offers_ok_def Writer_Open_def)
next
  case (push m encoded)
  then show ?thesis using offers_ok_Push [OF assms(3)] by simp
next
  case (handle_item item went loss s1)
  have "hs_phase h m = Closed" if "m \<in> wr_stopped s" "m \<notin> wr_stopped s1" for m
    using HandleGuarded_stopped [OF handle_item(4) that] handle_item(3) items_okD(3) [OF writer_invD(1) [OF assms(2)]]
    by (simp add: todo_def)
  moreover have "wr_health s1 = wr_health s" using HandleGuarded_frame [OF handle_item(4)] by (simp add: handled_frame_def)
  ultimately show ?thesis using handle_item by (intro offers_ok_mono [OF assms(3)]) auto
next
  case (finish_item item loss)
  have "offers_ok (Run_finish to_string item loss s) h"
    by (rule offers_ok_mono [OF assms(3)])
      (auto simp: Run_finish_def Let_def intro!: StopLocked_stays_stopped split: option.splits)
  then show ?thesis using finish_item by simp
qed (auto simp: Writer_Stop_def Writer_Begin_def Writer_Close_def Writer_Finish_def StopCapturesLocked_def Run_take_def
  intro!: offers_ok_mono [OF assms(3)] StopLocked_stays_stopped)

lemma writer_reachable_offers:
  assumes "writer_reachable match_id to_string (Writer_init mode capacity retention d) (s, h)"
  shows "offers_ok s h"
  using assms
proof (induction "(s, h)" arbitrary: s h)
  case init
  then show ?case by (simp add: offers_ok_def Writer_init_def history_init_def)
next
  case (step sh)
  then show ?case using offers_ok_step writer_reachable_inv by (cases sh) blast
qed

section \<open>What the files hold\<close>

lemma written_prefix:
  assumes inv: "writer_inv s h" and path: "hs_path h m = Some path"
  shows "prefix (written_to s path) (concat (hs_admitted h m))"
proof (cases "m \<in> hs_broken h")
  case True
  then show ?thesis using writer_invD(4) [OF inv path] by (simp add: file_ok_def)
next
  case False
  then consider "swept s m path" | "snd (follow m (todo s) (wr_file_match s = m, written_to s path)) = concat (hs_admitted h m)"
    using writer_invD(4) [OF inv path] by (auto simp: file_ok_def)
  then show ?thesis
  proof cases
    case 1
    then show ?thesis by (simp add: swept_def written_to_def)
  next
    case follow: 2
    show ?thesis
    proof (cases "opens m (todo s) = []")
    case True
    then show ?thesis using follow_prefix [OF True, of "(wr_file_match s = m, written_to s path)"] follow by simp
  next
    case False
    then have "wr_files s path = None"
      using items_okD(4) [OF writer_invD(1) [OF inv], of m] path unfolding opens_Nil_iff by auto
    then show ?thesis by (simp add: written_to_def)
    qed
  qed
qed

lemma written_whole:
  assumes "writer_inv s h" and "hs_path h m = Some path" and "all_written s" and "m \<notin> hs_broken h"
  shows "wr_files s path = Some (concat (hs_admitted h m)) \<or>
    wr_files s path = None \<and> Deleted (filename path) \<in> set (dk_reports (wr_disk s))"
  using writer_invD(4) [OF assms(1,2)] assms(3,4)
  by (auto simp: file_ok_def swept_def all_written_def todo_def written_to_def split: option.splits)

lemma written_in_progress:
  assumes inv: "writer_inv s h" and path: "hs_path h m = Some path" and "wr_file_match s = m"
  shows "wr_path s = path \<and> wr_files s path \<noteq> None"
  using paths_okD(4-6) [OF writer_invD(2) [OF inv]] path assms(3) by (metis option.distinct(1) option.inject)

section \<open>Draining\<close>

text \<open>What no step changes: the mode, the capacity and the limits.\<close>

definition configured :: "writer \<Rightarrow> writer \<Rightarrow> bool" where
  "configured s s' \<longleftrightarrow> wr_mode s' = wr_mode s \<and> wr_capacity s' = wr_capacity s \<and>
     cd_retention (wr_directory s') = cd_retention (wr_directory s)"

lemma Open_total:
  assumes "cr_max_files (cd_retention cd) \<noteq> Some 0"
  shows "\<exists>fits cd' d'. Open match_id cd d match file_name bytes = Some (fits, cd', d') \<and> cd_retention cd' = cd_retention cd"
proof -
  let ?cd = "cd\<lparr>cd_match := match, cd_failure_logged := False, cd_open := False,
      cd_completed := Scan match_id d file_name, cd_deleted := 0,
      cd_total := foldl (\<lambda>held c. held + cc_size c) 0 (Scan match_id d file_name)\<rparr>"
  obtain ok cd' d' where "MakeRoom True bytes ?cd d = Some (ok, cd', d')" "cd_retention cd' = cd_retention ?cd"
    using MakeRoom_total [of ?cd True bytes d] assms by auto
  then show ?thesis by (cases ok) (auto simp: Open_def Let_def)
qed

lemma Reserve_total:
  assumes "cr_max_files (cd_retention cd) \<noteq> Some 0"
  shows "\<exists>fits cd' d'. Reserve cd d bytes = Some (fits, cd', d') \<and> cd_retention cd' = cd_retention cd"
proof -
  obtain ok cd' d' where "MakeRoom False bytes cd d = Some (ok, cd', d')" "cd_retention cd' = cd_retention cd"
    using MakeRoom_total [OF assms, of False bytes d] by blast
  then show ?thesis by (cases ok) (auto simp: Reserve_def Let_def)
qed

lemma Writer_Write_configured: "Writer_Write went encoded s = (loss, s') \<Longrightarrow> configured s s' \<and> wr_thread s' = wr_thread s"
  by (auto simp: Writer_Write_def append_file_def configured_def Let_def split: write_end.splits)

lemma HandleGuarded_total:
  assumes "cr_max_files (cd_retention (wr_directory s)) \<noteq> Some 0"
  shows "\<exists>loss s'. HandleGuarded match_id went item s = Some (loss, s') \<and> configured s s'"
proof (cases item)
  case (OpenItem match path header)
  let ?listing = "(io_listing went)\<lparr>dk_reports := dk_reports (wr_disk s)\<rparr>"
  obtain fits cd d where opened: "Open match_id (wr_directory s) ?listing match (filename path) (word_of_nat (length header)) =
      Some (fits, cd, d)" "cd_retention cd = cd_retention (wr_directory s)"
    using Open_total [OF assms] by blast
  let ?s = "s\<lparr>wr_directory := cd, wr_disk := d, wr_files := (without (removed ?listing d) (wr_files s))(path := Some []),
      wr_file_match := match, wr_path := path, wr_records := 0\<rparr>"
  obtain loss s' where wrote: "Writer_Write (io_write went) header ?s = (loss, s')" by fastforce
  have "configured s s'" using Writer_Write_configured [OF wrote] opened(2) by (simp add: configured_def)
  then show ?thesis using OpenItem opened wrote
    by (cases "io_throws went"; cases fits; cases "io_created went")
      (auto simp: HandleGuarded_def OpenFile_def Let_def configured_def)
next
  case (RecordItem match encoded)
  obtain fits cd d where room: "Reserve (wr_directory s) (wr_disk s) (word_of_nat (length encoded)) = Some (fits, cd, d)"
      "cd_retention cd = cd_retention (wr_directory s)"
    using Reserve_total [OF assms] by blast
  obtain loss s' where wrote: "Writer_Write (io_write went) encoded
      (s\<lparr>wr_directory := cd, wr_disk := d, wr_files := without (removed (wr_disk s) d) (wr_files s)\<rparr>) = (loss, s')"
    by fastforce
  have "configured s s'" using Writer_Write_configured [OF wrote] room(2) by (simp add: configured_def)
  then show ?thesis using RecordItem room wrote
    by (cases "io_throws went"; cases fits; cases "wr_file_match s = match")
      (auto simp: HandleGuarded_def Persist_def Let_def configured_def)
qed (auto simp: HandleGuarded_def configured_def CloseFile_def Let_def split: option.splits)

lemma StopLocked_configured: "configured s (StopLocked to_string match step detail s)"
  by (simp add: StopLocked_def LoseLocked_def configured_def)

lemma writer_step_configured:
  assumes "writer_step match_id to_string (s, h) (s', h')" and "cr_max_files (cd_retention (wr_directory s)) \<noteq> Some 0"
  shows "configured s s'"
  using assms(1)
proof (cases rule: writer_step.cases)
  case (handle_item item went loss s1)
  then show ?thesis using HandleGuarded_total [OF assms(2), of match_id went item] by (auto simp: configured_def)
next
  case (finish_item item loss)
  then show ?thesis
    using StopLocked_configured unfolding Run_finish_def Let_def configured_def by (auto split: option.splits)
qed (use StopLocked_configured in \<open>auto simp: configured_def Writer_Begin_def Writer_Open_def Writer_Push_def Writer_Stop_def
  Writer_Close_def Writer_Finish_def StopCapturesLocked_def Run_take_def\<close>)

lemma writer_reachable_configured:
  assumes "writer_reachable match_id to_string start (s, h)" and "cr_max_files (cd_retention (wr_directory start)) \<noteq> Some 0"
  shows "configured start s"
  using assms(1)
proof (induction "(s, h)" arbitrary: s h)
  case init
  then show ?case by (simp add: configured_def)
next
  case (step sh)
  obtain s0 h0 where sh: "sh = (s0, h0)" by fastforce
  have before: "configured start s0" using step(2) sh .
  then have "configured s0 s" using writer_step_configured [of match_id to_string s0 h0 s h] step(3) assms(2)
    by (simp add: sh configured_def)
  then show ?case using before by (simp add: configured_def)
qed

text \<open>Without limits, nothing is ever reported as deleted.\<close>

definition unlimited :: "CaptureRetention \<Rightarrow> bool" where
  "unlimited retention \<longleftrightarrow> cr_max_files retention = None \<and> cr_max_bytes retention = None"

definition deletes_none :: "disk \<Rightarrow> disk \<Rightarrow> bool" where
  "deletes_none d d' \<longleftrightarrow> (\<forall>name. Deleted name \<in> set (dk_reports d') \<longrightarrow> Deleted name \<in> set (dk_reports d))"

lemma Open_unlimited:
  assumes "unlimited (cd_retention cd)" and "Open match_id cd d match file_name bytes = Some (fits, cd', d')"
  shows "deletes_none d d'"
  using assms by (auto simp: unlimited_def Open_def Let_def MakeRoom_unlimited Report_def deletes_none_def)

lemma Reserve_unlimited:
  assumes "unlimited (cd_retention cd)" and "Reserve cd d bytes = Some (fits, cd', d')"
  shows "deletes_none d d'"
  using assms by (auto simp: unlimited_def Reserve_def Let_def MakeRoom_unlimited Report_def deletes_none_def)

lemma HandleGuarded_unlimited:
  assumes "HandleGuarded match_id went item s = Some (loss, s')" and limits: "unlimited (cd_retention (wr_directory s))"
  shows "deletes_none (wr_disk s) (wr_disk s')"
proof -
  have same: "deletes_none d d" for d by (simp add: deletes_none_def)
  have wrote: "wr_disk s1 = wr_disk s0" if "Writer_Write how bytes s0 = (lost, s1)" for how bytes s0 lost s1
    using Writer_Write_fields [OF that] by simp
  show ?thesis
  proof (cases "io_throws went")
    case (Some what)
    then show ?thesis using assms same by (cases item) (auto simp: HandleGuarded_def CloseFile_def Let_def)
  next
    case None
    show ?thesis
    proof (cases item)
      case (OpenItem match path header)
      define listing where "listing = (io_listing went)\<lparr>dk_reports := dk_reports (wr_disk s)\<rparr>"
      obtain fits cd d where opened: "Open match_id (wr_directory s) listing match (filename path) (word_of_nat (length header)) =
          Some (fits, cd, d)"
        using assms(1) None OpenItem by (auto simp: HandleGuarded_def OpenFile_def Let_def listing_def split: option.splits)
      have "wr_disk s' = d"
        using assms(1) None OpenItem opened
        by (auto simp: HandleGuarded_def OpenFile_def Let_def listing_def [symmetric] dest!: wrote split: if_splits)
      moreover have "deletes_none listing d" by (rule Open_unlimited [OF limits opened])
      ultimately show ?thesis by (simp add: deletes_none_def listing_def)
    next
      case (RecordItem match encoded)
      show ?thesis
      proof (cases "wr_file_match s = match")
        case True
        obtain fits cd d where room: "Reserve (wr_directory s) (wr_disk s) (word_of_nat (length encoded)) = Some (fits, cd, d)"
          using assms(1) None RecordItem True by (auto simp: HandleGuarded_def Persist_def split: option.splits)
        have "wr_disk s' = d"
          using assms(1) None RecordItem True room
          by (auto simp: HandleGuarded_def Persist_def Let_def dest!: wrote split: if_splits)
        then show ?thesis using Reserve_unlimited [OF limits room] by simp
      qed (use assms(1) None RecordItem same in \<open>auto simp: HandleGuarded_def\<close>)
    next
      case (CloseItem match)
      then show ?thesis using assms(1) None same by (auto simp: HandleGuarded_def CloseFile_def Let_def)
    qed
  qed
qed

lemma deletes_none_trans: "deletes_none d d' \<Longrightarrow> deletes_none d' d'' \<Longrightarrow> deletes_none d d''"
  by (simp add: deletes_none_def)

lemma writer_reachable_unlimited:
  assumes "writer_reachable match_id to_string start (s, h)" and limits: "unlimited (cd_retention (wr_directory start))"
  shows "deletes_none (wr_disk start) (wr_disk s)"
  using assms(1)
proof (induction "(s, h)" arbitrary: s h)
  case init
  then show ?case by (simp add: deletes_none_def)
next
  case (step sh)
  obtain s0 h0 where sh: "sh = (s0, h0)" by fastforce
  have before: "deletes_none (wr_disk start) (wr_disk s0)" using step(2) sh .
  have "cr_max_files (cd_retention (wr_directory start)) \<noteq> Some 0" using limits by (simp add: unlimited_def)
  then have now: "unlimited (cd_retention (wr_directory s0))"
    using writer_reachable_configured [of match_id to_string start s0 h0] step(1) limits by (simp add: sh configured_def)
  have "deletes_none (wr_disk s0) (wr_disk s)"
    using step(3) unfolding sh
  proof (cases rule: writer_step.cases)
    case handle_item
    then show ?thesis using HandleGuarded_unlimited [OF _ now] by fastforce
  qed (auto simp: deletes_none_def Writer_Begin_def Writer_Open_def Writer_Push_def Writer_Stop_def finish_fields
    Writer_Close_def Writer_Finish_def StopCapturesLocked_def Run_take_def split: if_splits)
  then show ?case using before deletes_none_trans by blast
qed

text \<open>
  C33: a capture's file never has a hole in it. However the Simulation thread's calls and the
  writer's steps interleave, whatever the directory lists at each opening, and wherever a
  disk error, a full queue, a spent budget or an exception falls, the file of a Match holds
  at every moment a prefix of what was admitted of it: its header, then its records, in
  order, the last perhaps cut short. The file of the Match in progress is there. Once
  everything queued is written, a Match no item of which was lost has all of it in its
  file, unless retention has since deleted that file and reported it so, which without
  limits it never does.
\<close>

theorem capture_file_is_prefix:
  assumes "writer_reachable match_id to_string (Writer_init mode capacity retention d) (s, h)"
    and "hs_path h m = Some path"
  shows "prefix (written_to s path) (concat (hs_admitted h m)) \<and>
    (wr_file_match s = m \<longrightarrow> wr_path s = path \<and> wr_files s path \<noteq> None) \<and>
    (all_written s \<and> m \<notin> hs_broken h \<longrightarrow>
       wr_files s path = Some (concat (hs_admitted h m)) \<or>
       wr_files s path = None \<and> Deleted (filename path) \<in> set (dk_reports (wr_disk s)) \<and>
       \<not> (unlimited retention \<and> dk_reports d = []))"
proof -
  note inv = writer_reachable_inv [OF assms(1)]
  have none: "Deleted name \<notin> set (dk_reports (wr_disk s))" if "unlimited retention" "dk_reports d = []" for name
    using writer_reachable_unlimited [OF assms(1)] that
    by (simp add: Writer_init_def CaptureDirectory_init_def deletes_none_def)
  show ?thesis
    using written_in_progress [OF inv assms(2)] written_whole [OF inv assms(2)] none [of "filename path"]
    by (intro conjI impI written_prefix [OF inv assms(2)]) auto
qed

definition writer_work :: "writer \<Rightarrow> nat" where
  "writer_work s = 3 * length (wr_queue s) +
     (case wr_thread s of Waiting \<Rightarrow> 0 | Handled item loss \<Rightarrow> 1 | Holding item \<Rightarrow> 2)"

text \<open>The writer thread's own steps.\<close>

inductive thread_step :: "(string \<Rightarrow> bool) \<Rightarrow> (uuid \<Rightarrow> string) \<Rightarrow> writer \<Rightarrow> writer \<Rightarrow> bool" for match_id to_string where
  takes: "wr_thread s = Waiting \<Longrightarrow> wr_queue s = item # rest \<Longrightarrow> thread_step match_id to_string s (Run_take item rest s)"
| handles: "wr_thread s = Holding item \<Longrightarrow> HandleGuarded match_id went item s = Some (loss, s') \<Longrightarrow>
    thread_step match_id to_string s (s'\<lparr>wr_thread := Handled item loss\<rparr>)"
| finishes: "wr_thread s = Handled item loss \<Longrightarrow> thread_step match_id to_string s (Run_finish to_string item loss s)"

lemma thread_step_is_step: "thread_step match_id to_string s s' \<Longrightarrow> \<exists>h'. writer_step match_id to_string (s, h) (s', h')"
  by (induction rule: thread_step.induct) (blast intro: writer_step.intros)+

lemma thread_step_work: "thread_step match_id to_string s s' \<Longrightarrow> writer_work s' < writer_work s"
proof (induction rule: thread_step.induct)
  case (handles s item went loss s')
  then show ?case using HandleGuarded_frame [OF handles(2)] by (simp add: writer_work_def handled_frame_def)
next
  case (finishes s item loss)
  have "wr_thread (Run_finish to_string item loss s) = Waiting \<and>
      length (wr_queue (Run_finish to_string item loss s)) \<le> length (wr_queue s)"
    by (auto simp: Run_finish_def Let_def split: option.splits)
  then show ?case using finishes by (simp add: writer_work_def)
qed (simp add: Run_take_def writer_work_def)

text \<open>
  C34: a capture queue stays within its capacity and drains. At every moment no more records
  are queued than the capacity, exactly as counted; with limits that keep at least one file
  the writer's handling of an item always returns, whatever the disk answers; and unless
  everything is written the writer has a step to take, each of which leaves it less to do.
\<close>

theorem writer_drains:
  assumes "writer_reachable match_id to_string (Writer_init mode capacity retention d) (s, h)"
    and "cr_max_files retention \<noteq> Some 0"
  shows "length (filter is_record (wr_queue s)) = wr_records_queued s \<and> wr_records_queued s \<le> capacity \<and>
    (\<forall>item went. HandleGuarded match_id went item s \<noteq> None) \<and>
    (all_written s \<or> (\<exists>s'. thread_step match_id to_string s s')) \<and>
    (\<forall>s'. thread_step match_id to_string s s' \<longrightarrow> writer_work s' < writer_work s)"
proof -
  have configured: "configured (Writer_init mode capacity retention d) s"
    using writer_reachable_configured [OF assms(1)] assms(2) by (simp add: Writer_init_def CaptureDirectory_init_def)
  then have limits: "cr_max_files (cd_retention (wr_directory s)) \<noteq> Some 0" "wr_capacity s = capacity"
    using assms(2) by (simp_all add: configured_def Writer_init_def CaptureDirectory_init_def)
  have counts: "counts_ok s h" using writer_reachable_inv [OF assms(1)] by (rule writer_invD(3))
  have handled: "\<exists>loss s'. HandleGuarded match_id went item s = Some (loss, s')" for went item
    using HandleGuarded_total [OF limits(1), of match_id went item] by blast
  have "all_written s \<or> (\<exists>s'. thread_step match_id to_string s s')"
  proof (cases "wr_thread s")
    case Waiting
    then show ?thesis by (cases "wr_queue s") (auto simp: all_written_def intro: thread_step.takes)
  next
    case (Holding item)
    then show ?thesis using thread_step.handles handled by blast
  qed (use thread_step.finishes in blast)
  then show ?thesis using counts limits(2) handled thread_step_work by (force simp: counts_ok_def)
qed

section \<open>Losses are final\<close>

definition loss_ok :: "writer \<Rightarrow> bool" where
  "loss_ok s \<longleftrightarrow>
     (case wr_loss s of
        None \<Rightarrow> wr_health s \<noteq> kDegraded
      | Some loss \<Rightarrow>
          if wr_mode s = kStrict then fl_code loss = kStrictCaptureFailed \<and> wr_health s = CaptureHealth.kStopped
          else DispositionOf (fl_code loss) = kSubsystem \<and> wr_health s \<noteq> kEnabled)"

text \<open>A step that keeps the mode either leaves loss and health alone or is one of these.\<close>

definition loss_kept :: "writer \<Rightarrow> writer \<Rightarrow> bool" where
  "loss_kept s s' \<longleftrightarrow> wr_mode s' = wr_mode s \<and> (loss_ok s \<longrightarrow> loss_ok s') \<and>
     (\<forall>loss. loss_ok s \<and> wr_loss s = Some loss \<longrightarrow> wr_loss s' = Some loss)"

lemma OptionalLossCode_subsystem: "DispositionOf (OptionalLossCode step) = kSubsystem"
  by (cases step) simp_all

lemma loss_kept_same:
  "wr_mode s' = wr_mode s \<Longrightarrow> wr_loss s' = wr_loss s \<Longrightarrow> wr_health s' = wr_health s \<Longrightarrow> loss_kept s s'"
  by (auto simp: loss_kept_def loss_ok_def split: option.splits)

lemma loss_kept_StopLocked: "loss_kept s (StopLocked to_string match step detail s)"
proof (cases "match \<in> wr_stopped s \<or> wr_health s \<noteq> kEnabled")
  case True
  then show ?thesis by (intro loss_kept_same) (auto simp: StopLocked_def LoseLocked_def)
next
  case False
  then show ?thesis using OptionalLossCode_subsystem [of step]
    by (cases "wr_mode s")
      (auto simp: StopLocked_def LoseLocked_def loss_kept_def loss_ok_def LostCapture_def split: option.splits)
qed

lemma loss_kept_StopCaptures: "loss_kept s (StopCapturesLocked s)"
  by (auto simp: loss_kept_def loss_ok_def StopCapturesLocked_def split: option.splits)

lemma loss_kept_trans: "loss_kept s1 s2 \<Longrightarrow> loss_kept s2 s3 \<Longrightarrow> loss_kept s1 s3"
  unfolding loss_kept_def by metis

lemma loss_kept_finish: "loss_kept s (Run_finish to_string item loss s)"
proof (cases loss)
  case None
  then show ?thesis by (intro loss_kept_same) (simp_all add: Run_finish_def)
next
  case (Some failed)
  obtain step detail where failed: "failed = (step, detail)" by fastforce
  let ?s = "s\<lparr>wr_thread := Waiting,
     wr_queue := filter (\<lambda>queued. \<not> (is_record queued \<and> item_match queued = item_match item)) (wr_queue s),
     wr_records_queued := length (filter is_record
       (filter (\<lambda>queued. \<not> (is_record queued \<and> item_match queued = item_match item)) (wr_queue s)))\<rparr>"
  have kept: "loss_kept s ?s" by (intro loss_kept_same) simp_all
  have "Run_finish to_string item loss s = StopLocked to_string (item_match item) step detail ?s"
    by (simp add: Run_finish_def Some failed)
  then show ?thesis by (simp only: loss_kept_trans [OF kept loss_kept_StopLocked])
qed

lemma writer_step_loss: "writer_step match_id to_string sh sh' \<Longrightarrow> loss_kept (fst sh) (fst sh')"
proof (induction rule: writer_step.induct)
  case (push m h s' encoded s)
  then show ?case
    by (auto simp: Writer_Push_def intro!: loss_kept_same loss_kept_StopLocked)
next
  case (stop s h m step)
  then show ?case by (simp add: Writer_Stop_def loss_kept_StopLocked)
next
  case (finish s h)
  then show ?case by (simp add: Writer_Finish_def loss_kept_StopCaptures)
next
  case (handle_item s item went loss s' h)
  then show ?case using HandleGuarded_frame [of match_id went item s loss s']
    by (auto simp: handled_frame_def intro!: loss_kept_same)
next
  case (finish_item s item loss h)
  then show ?case by (simp add: loss_kept_finish)
qed (auto simp: Writer_Begin_def Writer_Open_def Writer_Close_def Run_take_def intro!: loss_kept_same)

lemma writer_reachable_loss:
  "writer_reachable match_id to_string (Writer_init mode capacity retention d) sh \<Longrightarrow>
   loss_ok (fst sh) \<and> wr_mode (fst sh) = mode"
proof (induction rule: writer_reachable.induct)
  case init
  then show ?case by (simp add: loss_ok_def Writer_init_def)
next
  case (step s s')
  then show ?case using writer_step_loss by (simp add: loss_kept_def)
qed

text \<open>
  C35: the first loss is final, and what it means is the mode's. Once a capture has lost
  anything, whatever comes after leaves that loss and never enables captures again. In
  strict mode it is the runtime's failure and no record of any Match is queued any more;
  in optional mode it costs only the captures.
\<close>

theorem first_loss_is_final:
  assumes "writer_reachable match_id to_string (Writer_init mode capacity retention d) (s, h)"
    and "wr_loss s = Some loss"
    and "(writer_step match_id to_string)\<^sup>*\<^sup>* (s, h) (s', h')"
  shows "wr_loss s' = Some loss \<and> wr_health s' \<noteq> kEnabled \<and>
    (if mode = kStrict
     then DispositionOf (fl_code loss) = kRuntime \<and> (\<forall>m encoded. Writer_Push to_string m encoded s' = s')
     else DispositionOf (fl_code loss) = kSubsystem)"
proof -
  have "loss_ok (fst (s', h')) \<and> wr_mode (fst (s', h')) = mode \<and> wr_loss (fst (s', h')) = Some loss"
    using assms(3)
  proof (induction rule: rtranclp_induct)
    case base
    then show ?case using writer_reachable_loss [OF assms(1)] assms(2) by simp
  next
    case (step y z)
    then show ?case using writer_step_loss [of match_id to_string y z] by (simp add: loss_kept_def)
  qed
  then show ?thesis by (cases mode) (auto simp: loss_ok_def Writer_Push_def)
qed

section \<open>A sample run\<close>

definition sample_empty :: disk where
  "sample_empty = \<lparr>dk_entries = [], dk_refuses = (\<lambda>_. None), dk_faults = [], dk_reports = []\<rparr>"

definition sample_start :: writer where
  "sample_start = Writer_init kStrict 4 \<lparr>cr_max_files = None, cr_max_bytes = None\<rparr> sample_empty"

lemma sample_run:
  "\<exists>s h. writer_reachable (\<lambda>_. False) (\<lambda>_. ''id'') sample_start (s, h) \<and> hs_path h [1] = Some ''a.acap'' \<and>
     written_to s ''a.acap'' = [1, 2] \<and> hs_admitted h [1] = [[1, 2, 3], [9]] \<and> all_written s \<and> wr_loss s \<noteq> None"
proof -
  let ?reach = "writer_reachable (\<lambda>_. False) (\<lambda>_. ''id'') sample_start"
  let ?went = "\<lparr>io_listing = sample_empty, io_created = True, io_write = WriteFails 2 ''full'', io_throws = None\<rparr>"
  have nn: "[1] \<noteq> nil_uuid" by (auto simp: nil_uuid_def dest: arg_cong [where f = length])
  note do = writer_reachable.step
  obtain s1 h1 where 1: "?reach (s1, h1)" "s1 = Writer_Open [1] ''a.acap'' [1, 2, 3] sample_start"
      "h1 = history_init\<lparr>hs_phase := (\<lambda>_. Fresh)([1] := Opened), hs_admitted := (\<lambda>_. [])([1] := [[1, 2, 3]]),
         hs_path := [[1] \<mapsto> ''a.acap''], hs_offered := (\<lambda>_. [])([1] := [[1, 2, 3]])\<rparr>"
    using do [OF writer_reachable.init writer_step.open_match [of "[1]" history_init "''a.acap''"],
      of "(\<lambda>_. False)" "(\<lambda>_. ''id'')" sample_start "[1, 2, 3]"]
    by (simp add: history_init_def nn)
  obtain s2 h2 where 2: "?reach (s2, h2)" "s2 = Writer_Push (\<lambda>_. ''id'') [1] [9] s1"
      "hs_path h2 [1] = Some ''a.acap''" "hs_admitted h2 [1] = [[1, 2, 3], [9]]"
    using do [OF 1(1) writer_step.push [of "[1]" h1 _ _ "[9]" s1, OF _ _ refl]]
    by (simp add: 1 nn Writer_Open_def Writer_Push_def sample_start_def Writer_init_def)
  have s2: "wr_thread s2 = Waiting" "wr_queue s2 = [OpenItem [1] ''a.acap'' [1, 2, 3], RecordItem [1] [9]]"
    by (simp_all add: 2(2) 1(2) Writer_Open_def Writer_Push_def sample_start_def Writer_init_def)
  obtain s3 where 3: "?reach (s3, h2)" "s3 = Run_take (OpenItem [1] ''a.acap'' [1, 2, 3]) [RecordItem [1] [9]] s2"
    using do [OF 2(1) writer_step.take_item [OF s2]] by blast
  have s3: "wr_thread s3 = Holding (OpenItem [1] ''a.acap'' [1, 2, 3])" by (simp add: 3(2) Run_take_def)
  obtain loss s' where 4: "HandleGuarded (\<lambda>_. False) ?went (OpenItem [1] ''a.acap'' [1, 2, 3]) s3 = Some (loss, s')"
      "loss \<noteq> None" "wr_loss s' = None" "wr_files s' = [''a.acap'' \<mapsto> [1, 2]]" "wr_queue s' = [RecordItem [1] [9]]"
      "wr_stopped s' = {}" "wr_health s' = kEnabled"
    by (simp add: 3(2) Run_take_def 2(2) 1(2) Writer_Open_def Writer_Push_def sample_start_def Writer_init_def
      HandleGuarded_def OpenFile_def Open_def Let_def Scan_def sample_empty_def map_filter_def MakeRoom.simps PlanRetention_def
      CaptureDirectory_init_def Remaining_def Report_def Writer_Write_def append_file_def written_to_def removed_def)
  from do [OF 3(1) writer_step.handle_item [OF s3 4(1)]]
  have 5: "?reach (s'\<lparr>wr_thread := Handled (OpenItem [1] ''a.acap'' [1, 2, 3]) loss\<rparr>, h2\<lparr>hs_broken := insert [1] (hs_broken h2)\<rparr>)"
    using 4(2) by simp
  from do [OF 5 writer_step.finish_item]
  have 6: "?reach (Run_finish (\<lambda>_. ''id'') (OpenItem [1] ''a.acap'' [1, 2, 3]) loss
      (s'\<lparr>wr_thread := Handled (OpenItem [1] ''a.acap'' [1, 2, 3]) loss\<rparr>), h2\<lparr>hs_broken := insert [1] (hs_broken h2)\<rparr>)"
      (is "?reach (?s, ?h)")
    by simp
  have "written_to ?s ''a.acap'' = [1, 2]" "all_written ?s" "wr_loss ?s \<noteq> None"
    using 4(2-) by (auto simp: Run_finish_def Let_def written_to_def all_written_def StopLocked_def LoseLocked_def)
  then show ?thesis using 6 2(3,4) by (intro exI [of _ ?s] exI [of _ ?h]) simp
qed

text \<open>
  Two Matches one after the other with room for one file: opening the second takes the
  first's, which the directory lists by then.
\<close>

definition sweep_start :: writer where
  "sweep_start = Writer_init kOptional 4 \<lparr>cr_max_files = Some 1, cr_max_bytes = None\<rparr> sample_empty"

definition sweep_listing :: disk where
  "sweep_listing = sample_empty\<lparr>dk_entries := [sample_entry ''20250101T000000000Z-0001.acap'']\<rparr>"

lemma whole_turn:
  assumes "writer_reachable match_id to_string start (s, h)" and "wr_thread s = Waiting" and "wr_queue s = [item]"
    and "HandleGuarded match_id went item (Run_take item [] s) = Some (None, s')"
  shows "writer_reachable match_id to_string start (s'\<lparr>wr_thread := Waiting\<rparr>, h)"
proof -
  note do = writer_reachable.step
  have holding: "wr_thread (Run_take item [] s) = Holding item" by (simp add: Run_take_def)
  from do [OF do [OF assms(1) writer_step.take_item [OF assms(2,3)]] writer_step.handle_item [OF holding assms(4)]]
  have "writer_reachable match_id to_string start (s'\<lparr>wr_thread := Handled item None\<rparr>, h)" by simp
  from do [OF this writer_step.finish_item] show ?thesis by (simp add: Run_finish_def)
qed

lemma open_first:
  assumes "cd_retention (wr_directory s) = \<lparr>cr_max_files = Some 1, cr_max_bytes = None\<rparr>"
  shows "\<exists>s'. HandleGuarded (\<lambda>_. False) \<lparr>io_listing = sample_empty, io_created = True, io_write = Written, io_throws = None\<rparr>
      (OpenItem m path header) s = Some (None, s') \<and> wr_files s' = (wr_files s)(path \<mapsto> header) \<and> wr_file_match s' = m \<and>
      wr_queue s' = wr_queue s \<and> cd_retention (wr_directory s') = \<lparr>cr_max_files = Some 1, cr_max_bytes = None\<rparr>"
  by (simp add: HandleGuarded_def OpenFile_def Open_def Let_def Scan_def sample_empty_def map_filter_def MakeRoom.simps
    PlanRetention_def Remaining_def Report_def Writer_Write_def append_file_def written_to_def removed_def assms)

lemma sweep_scan:
  "Scan (\<lambda>_. False) (sweep_listing\<lparr>dk_reports := rs\<rparr>) ''20250102T000000000Z-0002.acap'' =
     [\<lparr>cc_path = ''20250101T000000000Z-0001.acap'', cc_size = 60\<rparr>]"
  by (simp add: Scan_def sweep_listing_def sample_empty_def sample_entry_def map_filter_def scanned_def IsCaptureFileName_def
      IsDigit_def kStart_def kExtension_def kNumberDigits_def StartsWithMagic_def ReadMagic_def stream_read_def
      stream_of_def kCaptureMagic_def less_eq_char_def)

lemma open_second:
  assumes "cd_retention (wr_directory s) = \<lparr>cr_max_files = Some 1, cr_max_bytes = None\<rparr>"
  shows "\<exists>s'. HandleGuarded (\<lambda>_. False) \<lparr>io_listing = sweep_listing, io_created = True, io_write = Written, io_throws = None\<rparr>
      (OpenItem m ''d/20250102T000000000Z-0002.acap'' header) s = Some (None, s') \<and>
      wr_files s' = (without {''20250101T000000000Z-0001.acap''} (wr_files s))(''d/20250102T000000000Z-0002.acap'' \<mapsto> header) \<and>
      wr_queue s' = wr_queue s"
proof -
  have name: "filename ''d/20250102T000000000Z-0002.acap'' = ''20250102T000000000Z-0002.acap''" by (simp add: filename_def)
  have listing: "dk_entries sweep_listing = [sample_entry ''20250101T000000000Z-0001.acap'']"
    "dk_faults sweep_listing = []" "dk_refuses sweep_listing x = None" for x
    by (simp_all add: sweep_listing_def sample_empty_def)
  show ?thesis
    by (simp add: HandleGuarded_def OpenFile_def Open_def Let_def name sweep_scan MakeRoom.simps PlanRetention_def
      Remaining_def DeleteOldest_def listing sample_entry_def less_size_def Report_def Writer_Write_def append_file_def
      written_to_def removed_def assms)
qed

lemma sweep_run:
  "\<exists>s h. writer_reachable (\<lambda>_. False) (\<lambda>_. ''id'') sweep_start (s, h) \<and> all_written s \<and> hs_broken h = {} \<and>
     hs_path h [1] = Some ''d/20250101T000000000Z-0001.acap'' \<and> hs_path h [2] = Some ''d/20250102T000000000Z-0002.acap'' \<and>
     hs_admitted h [2] = [[3]] \<and>
     wr_files s ''d/20250101T000000000Z-0001.acap'' = None \<and> wr_files s ''d/20250102T000000000Z-0002.acap'' \<noteq> None"
proof -
  let ?reach = "writer_reachable (\<lambda>_. False) (\<lambda>_. ''id'') sweep_start"
  let ?limits = "\<lparr>cr_max_files = Some 1, cr_max_bytes = None\<rparr>"
  let ?one = "''d/20250101T000000000Z-0001.acap''" and ?two = "''d/20250102T000000000Z-0002.acap''"
  have nn: "[1] \<noteq> nil_uuid" "[2] \<noteq> nil_uuid" by (auto simp: nil_uuid_def dest: arg_cong [where f = length])
  note do = writer_reachable.step
  obtain h1 where 1: "?reach (Writer_Open [1] ?one [1, 2] sweep_start, h1)"
      "h1 = history_init\<lparr>hs_phase := (\<lambda>_. Fresh)([1] := Opened), hs_admitted := (\<lambda>_. [])([1] := [[1, 2]]),
         hs_path := [[1] \<mapsto> ?one], hs_offered := (\<lambda>_. [])([1] := [[1, 2]])\<rparr>"
    using do [OF writer_reachable.init writer_step.open_match [of "[1]" history_init ?one],
      of "(\<lambda>_. False)" "(\<lambda>_. ''id'')" sweep_start "[1, 2]"]
    by (simp add: history_init_def nn)
  define s1 where "s1 = Writer_Open [1] ?one [1, 2] sweep_start"
  have s1: "wr_thread s1 = Waiting" "wr_queue s1 = [OpenItem [1] ?one [1, 2]]" "cd_retention (wr_directory s1) = ?limits"
    by (simp_all add: s1_def Writer_Open_def sweep_start_def Writer_init_def CaptureDirectory_init_def)
  obtain t1 where t1: "HandleGuarded (\<lambda>_. False) \<lparr>io_listing = sample_empty, io_created = True, io_write = Written, io_throws = None\<rparr>
      (OpenItem [1] ?one [1, 2]) (Run_take (OpenItem [1] ?one [1, 2]) [] s1) = Some (None, t1)"
      "wr_file_match t1 = [1]" "wr_queue t1 = []" "cd_retention (wr_directory t1) = ?limits"
    using open_first [of "Run_take (OpenItem [1] ?one [1, 2]) [] s1" "[1]" ?one "[1, 2]"] s1(3)
    by (auto simp: Run_take_def)
  note 2 = whole_turn [OF 1(1) [folded s1_def] s1(1,2) t1(1)]
  define s2 where "s2 = Writer_Close [1] (t1\<lparr>wr_thread := Waiting\<rparr>)"
  define h2 where "h2 = h1\<lparr>hs_phase := (hs_phase h1)([1] := Closed)\<rparr>"
  have 3: "?reach (s2, h2)"
    using do [OF 2 writer_step.close [of h1 "[1]"]] by (simp add: s2_def h2_def 1(2))
  have s2: "wr_thread s2 = Waiting" "wr_queue s2 = [CloseItem [1]]" "cd_retention (wr_directory s2) = ?limits"
    by (simp_all add: s2_def Writer_Close_def t1)
  define t2 where "t2 = CloseFile [1] (Run_take (CloseItem [1]) [] s2)"
  have t2: "HandleGuarded (\<lambda>_. False) \<lparr>io_listing = sample_empty, io_created = True, io_write = Written, io_throws = None\<rparr>
      (CloseItem [1]) (Run_take (CloseItem [1]) [] s2) = Some (None, t2)"
    by (simp add: HandleGuarded_def t2_def)
  note 4 = whole_turn [OF 3 s2(1,2) t2]
  define s3 where "s3 = Writer_Open [2] ?two [3] (t2\<lparr>wr_thread := Waiting\<rparr>)"
  define h3 where "h3 = h2\<lparr>hs_phase := (hs_phase h2)([2] := Opened), hs_admitted := (hs_admitted h2)([2] := [[3]]),
     hs_path := (hs_path h2)([2] := Some ?two), hs_offered := (hs_offered h2)([2] := [[3]])\<rparr>"
  have 5: "?reach (s3, h3)"
    using do [OF 4 writer_step.open_match [of "[2]" h2 ?two]] unfolding s3_def h3_def
    by (simp add: h2_def 1(2) nn history_init_def)
  have s3: "wr_thread s3 = Waiting" "wr_queue s3 = [OpenItem [2] ?two [3]]" "cd_retention (wr_directory s3) = ?limits"
    using s2(3) by (simp_all add: s3_def t2_def Writer_Open_def CloseFile_def Let_def Run_take_def)
  let ?s4 = "Run_take (OpenItem [2] ?two [3]) [] s3"
  obtain t3 where t3: "HandleGuarded (\<lambda>_. False) \<lparr>io_listing = sweep_listing, io_created = True, io_write = Written, io_throws = None\<rparr>
      (OpenItem [2] ?two [3]) ?s4 = Some (None, t3)" "wr_queue t3 = []"
      "wr_files t3 = (without {''20250101T000000000Z-0001.acap''} (wr_files ?s4))(?two \<mapsto> [3])"
    using open_second [of ?s4 "[2]" "[3]"] s3(3) by (auto simp: Run_take_def)
  note 6 = whole_turn [OF 5 s3(1,2) t3(1)]
  have "filename ?one = ''20250101T000000000Z-0001.acap''" by (simp add: filename_def)
  then have "wr_files t3 ?one = None" "wr_files t3 ?two \<noteq> None" by (simp_all add: t3(3) without_def)
  then show ?thesis using 6 t3(2)
    by (intro exI [of _ "t3\<lparr>wr_thread := Waiting\<rparr>"] exI [of _ h3])
      (simp add: all_written_def h3_def h2_def 1(2) history_init_def)
qed

theorem capture_file_is_prefix_witness:
  "\<exists>s h. writer_reachable (\<lambda>_. False) (\<lambda>_. ''id'') sweep_start (s, h) \<and> all_written s \<and>
     wr_files s ''d/20250101T000000000Z-0001.acap'' = None \<and>
     Deleted (filename ''d/20250101T000000000Z-0001.acap'') \<in> set (dk_reports (wr_disk s)) \<and>
     wr_files s ''d/20250102T000000000Z-0002.acap'' = Some [3]"
proof -
  obtain s h where run: "writer_reachable (\<lambda>_. False) (\<lambda>_. ''id'') sweep_start (s, h)" "all_written s" "hs_broken h = {}"
      "hs_path h [1] = Some ''d/20250101T000000000Z-0001.acap''" "hs_path h [2] = Some ''d/20250102T000000000Z-0002.acap''"
      "hs_admitted h [2] = [[3]]"
      "wr_files s ''d/20250101T000000000Z-0001.acap'' = None" "wr_files s ''d/20250102T000000000Z-0002.acap'' \<noteq> None"
    using sweep_run by blast
  note holds = capture_file_is_prefix [OF run(1) [unfolded sweep_start_def]]
  show ?thesis using run holds [OF run(4)] holds [OF run(5)] by (intro exI [of _ s] exI [of _ h]) auto
qed

theorem writer_drains_witness:
  "\<exists>s h. writer_reachable (\<lambda>_. False) (\<lambda>_. ''id'') sample_start (s, h) \<and> wr_loss s \<noteq> None \<and>
     length (filter is_record (wr_queue s)) \<le> 4"
proof -
  obtain s h where run: "writer_reachable (\<lambda>_. False) (\<lambda>_. ''id'') sample_start (s, h)" "wr_loss s \<noteq> None"
    using sample_run by blast
  from writer_drains [OF run(1) [unfolded sample_start_def]] run show ?thesis by auto
qed

theorem first_loss_is_final_witness:
  "\<exists>s h loss. writer_reachable (\<lambda>_. False) (\<lambda>_. ''id'') sample_start (s, h) \<and> wr_loss s = Some loss \<and>
     DispositionOf (fl_code loss) = kRuntime \<and> Writer_Push (\<lambda>_. ''id'') [2] [5] s = s"
proof -
  obtain s h loss where run: "writer_reachable (\<lambda>_. False) (\<lambda>_. ''id'') sample_start (s, h)" "wr_loss s = Some loss"
    using sample_run by blast
  from first_loss_is_final [OF run(1) [unfolded sample_start_def] run(2) rtranclp.rtrancl_refl] run show ?thesis by auto
qed

end
