(* ===== verification/Capturer_Correct.thy ===== *)
theory Capturer_Correct
  imports Capturer Capture_Writer_Correct
begin

text \<open>
  The Capturer and its writer together. A list of calls is served while the writer's thread
  runs between any two of them; what the Capturer's calls are, whatever the codec and the
  health answer; and so what a Match's file reads back as, however the two interleave.
\<close>

section \<open>Serving a list of calls\<close>

fun perform :: "(uuid \<Rightarrow> string) \<Rightarrow> WriterCall \<Rightarrow> writer \<times> history \<Rightarrow> writer \<times> history" where
  "perform to_string (BeginCall m) (s, h) = (Writer_Begin m s, h)"
| "perform to_string (OpenCall m path header) (s, h) =
     (Writer_Open m path header s,
      h\<lparr>hs_phase := (hs_phase h)(m := Opened), hs_admitted := (hs_admitted h)(m := [header]),
        hs_path := (hs_path h)(m := Some path), hs_offered := (hs_offered h)(m := [header])\<rparr>)"
| "perform to_string (PushCall m encoded) (s, h) =
     (let s' = Writer_Push to_string m encoded s
      in (s', if wr_queue s' = wr_queue s then offer m encoded s h
              else (offer m encoded s h)\<lparr>hs_admitted := (hs_admitted h)(m := hs_admitted h m @ [encoded])\<rparr>))"
| "perform to_string (StopCall m step) (s, h) = (Writer_Stop to_string m step s, h)"
| "perform to_string (CloseCall m) (s, h) = (Writer_Close m s, h\<lparr>hs_phase := (hs_phase h)(m := Closed)\<rparr>)"

inductive thread_turn :: "(string \<Rightarrow> bool) \<Rightarrow> (uuid \<Rightarrow> string) \<Rightarrow> writer \<times> history \<Rightarrow> writer \<times> history \<Rightarrow> bool"
  for match_id to_string where
  takes: "wr_thread s = Waiting \<Longrightarrow> wr_queue s = item # rest \<Longrightarrow>
    thread_turn match_id to_string (s, h) (Run_take item rest s, h)"
| handles: "wr_thread s = Holding item \<Longrightarrow> HandleGuarded match_id went item s = Some (loss, s') \<Longrightarrow>
    thread_turn match_id to_string (s, h)
      (s'\<lparr>wr_thread := Handled item loss\<rparr>,
       if loss = None then h else h\<lparr>hs_broken := insert (item_match item) (hs_broken h)\<rparr>)"
| finishes: "wr_thread s = Handled item loss \<Longrightarrow>
    thread_turn match_id to_string (s, h) (Run_finish to_string item loss s, h)"

inductive serves ::
  "(string \<Rightarrow> bool) \<Rightarrow> (uuid \<Rightarrow> string) \<Rightarrow> writer \<Rightarrow> WriterCall list \<Rightarrow> writer \<times> history \<Rightarrow> bool"
  for match_id to_string start where
  started: "serves match_id to_string start [] (start, history_init)"
| calls: "serves match_id to_string start cs sh \<Longrightarrow> serves match_id to_string start (cs @ [c]) (perform to_string c sh)"
| turns: "serves match_id to_string start cs sh \<Longrightarrow> thread_turn match_id to_string sh sh' \<Longrightarrow>
    serves match_id to_string start cs sh'"

lemma thread_turn_step: "thread_turn match_id to_string sh sh' \<Longrightarrow> writer_step match_id to_string sh sh'"
  by (induction rule: thread_turn.induct) (rule writer_step.intros; assumption)+

text \<open>What the calls alone say of each Match.\<close>

fun phase_after :: "(uuid \<Rightarrow> phase) \<Rightarrow> WriterCall \<Rightarrow> uuid \<Rightarrow> phase" where
  "phase_after ph (OpenCall m path header) = ph(m := Opened)"
| "phase_after ph (CloseCall m) = ph(m := Closed)"
| "phase_after ph _ = ph"

fun path_after :: "(uuid \<Rightarrow> string option) \<Rightarrow> WriterCall \<Rightarrow> uuid \<Rightarrow> string option" where
  "path_after paths (OpenCall m path header) = paths(m := Some path)"
| "path_after paths _ = paths"

text \<open>Whether its capture was stopped, and its pieces until then.\<close>

fun pieces_after :: "(uuid \<Rightarrow> bool \<times> byte list list) \<Rightarrow> WriterCall \<Rightarrow> uuid \<Rightarrow> bool \<times> byte list list" where
  "pieces_after ps (OpenCall m path header) = ps(m := (fst (ps m), [header]))"
| "pieces_after ps (PushCall m encoded) = (if fst (ps m) then ps else ps(m := (False, snd (ps m) @ [encoded])))"
| "pieces_after ps (StopCall m step) = ps(m := (True, snd (ps m)))"
| "pieces_after ps _ = ps"

definition call_phase :: "WriterCall list \<Rightarrow> uuid \<Rightarrow> phase" where
  "call_phase cs = foldl phase_after (\<lambda>_. Fresh) cs"

definition call_path :: "WriterCall list \<Rightarrow> uuid \<Rightarrow> string option" where
  "call_path cs = foldl path_after (\<lambda>_. None) cs"

definition call_pieces :: "WriterCall list \<Rightarrow> uuid \<Rightarrow> bool \<times> byte list list" where
  "call_pieces cs = foldl pieces_after (\<lambda>_. (False, [])) cs"

lemma call_snoc [simp]:
  "call_phase [] = (\<lambda>_. Fresh)" "call_phase (cs @ [c]) = phase_after (call_phase cs) c"
  "call_path [] = (\<lambda>_. None)" "call_path (cs @ [c]) = path_after (call_path cs) c"
  "call_pieces [] = (\<lambda>_. (False, []))" "call_pieces (cs @ [c]) = pieces_after (call_pieces cs) c"
  by (simp_all add: call_phase_def call_path_def call_pieces_def)

fun call_ok :: "WriterCall list \<Rightarrow> WriterCall \<Rightarrow> bool" where
  "call_ok cs (BeginCall m) = True"
| "call_ok cs (OpenCall m path header) \<longleftrightarrow> m \<noteq> nil_uuid \<and> call_phase cs m = Fresh \<and> call_pieces cs m = (False, []) \<and>
     (\<forall>m'. call_path cs m' \<noteq> Some path) \<and> (\<forall>m'. call_phase cs m' \<noteq> Opened)"
| "call_ok cs (PushCall m encoded) \<longleftrightarrow> m \<noteq> nil_uuid \<and> call_phase cs m \<noteq> Closed"
| "call_ok cs (StopCall m step) = True"
| "call_ok cs (CloseCall m) \<longleftrightarrow> call_phase cs m \<noteq> Closed"

inductive calls_ok :: "WriterCall list \<Rightarrow> bool" where
  none: "calls_ok []"
| snoc: "calls_ok cs \<Longrightarrow> call_ok cs c \<Longrightarrow> calls_ok (cs @ [c])"

inductive_cases calls_ok_snocE: "calls_ok (cs @ [c])"

lemma calls_ok_snoc [simp]: "calls_ok (cs @ [c]) \<longleftrightarrow> calls_ok cs \<and> call_ok cs c"
  by (auto intro: snoc elim: calls_ok_snocE)

lemma calls_two [simp]:
  "call_phase (cs @ [c, d]) = phase_after (phase_after (call_phase cs) c) d"
  "call_path (cs @ [c, d]) = path_after (path_after (call_path cs) c) d"
  "call_pieces (cs @ [c, d]) = pieces_after (pieces_after (call_pieces cs) c) d"
  "calls_ok (cs @ [c, d]) \<longleftrightarrow> calls_ok cs \<and> call_ok cs c \<and> call_ok (cs @ [c]) d"
proof -
  have "cs @ [c, d] = (cs @ [c]) @ [d]" by simp
  then show "call_phase (cs @ [c, d]) = phase_after (phase_after (call_phase cs) c) d"
    "call_path (cs @ [c, d]) = path_after (path_after (call_path cs) c) d"
    "call_pieces (cs @ [c, d]) = pieces_after (pieces_after (call_pieces cs) c) d"
    "calls_ok (cs @ [c, d]) \<longleftrightarrow> calls_ok cs \<and> call_ok cs c \<and> call_ok (cs @ [c]) d"
    by (simp_all only: call_snoc calls_ok_snoc conj_assoc)
qed

text \<open>What holds between the calls and the writer's side.\<close>

definition served :: "WriterCall list \<Rightarrow> writer \<Rightarrow> history \<Rightarrow> bool" where
  "served cs s h \<longleftrightarrow> hs_phase h = call_phase cs \<and> hs_path h = call_path cs \<and>
     (\<forall>m. prefix (hs_offered h m) (snd (call_pieces cs m)) \<and>
        (hs_offered h m = snd (call_pieces cs m) \<or> m \<in> wr_stopped s \<or> hs_phase h m = Closed) \<and>
        (fst (call_pieces cs m) \<longrightarrow> m \<in> wr_stopped s \<or> hs_phase h m = Closed))"

text \<open>While nothing is lost.\<close>

definition unharmed :: "WriterCall list \<Rightarrow> writer \<Rightarrow> history \<Rightarrow> bool" where
  "unharmed cs s h \<longleftrightarrow> wr_health s = kEnabled \<and> wr_stopped s = {} \<and> hs_admitted h = hs_offered h \<and>
     (\<forall>m. hs_offered h m = snd (call_pieces cs m) \<and> \<not> fst (call_pieces cs m)) \<and>
     (\<forall>m \<in> hs_broken h. \<exists>item loss. wr_thread s = Handled item (Some loss) \<and> item_match item = m)"

lemma servedD:
  assumes "served cs s h"
  shows "hs_phase h = call_phase cs" and "hs_path h = call_path cs"
    and "prefix (hs_offered h m) (snd (call_pieces cs m))"
    and "hs_offered h m = snd (call_pieces cs m) \<or> m \<in> wr_stopped s \<or> hs_phase h m = Closed"
    and "fst (call_pieces cs m) \<longrightarrow> m \<in> wr_stopped s \<or> hs_phase h m = Closed"
  using assms unfolding served_def by blast+

lemma offers_okD:
  assumes "offers_ok s h"
  shows "prefix (hs_admitted h m) (hs_offered h m)"
  using assms by (simp add: offers_ok_def)

lemma perform_step:
  assumes ok: "call_ok cs c" and served: "served cs s h" and offers: "offers_ok s h"
  shows "writer_step match_id to_string (s, h) (perform to_string c (s, h))"
proof (cases c)
  case (OpenCall m path header)
  have "hs_offered h m = []" using servedD(3) [OF served, of m] ok OpenCall by simp
  then have "hs_admitted h m = []" using offers_okD [OF offers, of m] by simp
  then show ?thesis unfolding OpenCall perform.simps
    by (intro writer_step.open_match \<open>hs_offered h m = []\<close>; use ok OpenCall servedD(1,2) [OF served] in simp)
next
  case (PushCall m encoded)
  then show ?thesis unfolding PushCall perform.simps Let_def
    by (intro writer_step.push refl; use ok PushCall servedD(1) [OF served] in simp)
next
  case (CloseCall m)
  then show ?thesis unfolding CloseCall perform.simps
    by (intro writer_step.close; use ok CloseCall servedD(1) [OF served] in simp)
qed (auto intro: writer_step.begin_match writer_step.stop)

lemma Writer_calls_stopped [simp]:
  "wr_stopped (Writer_Begin m s) = wr_stopped s" "wr_stopped (Writer_Open m path header s) = wr_stopped s"
  "wr_stopped (Writer_Close m s) = wr_stopped s" "wr_stopped (Writer_Stop to_string m step s) = insert m (wr_stopped s)"
  "wr_stopped s \<subseteq> wr_stopped (Writer_Push to_string m encoded s)"
  by (auto simp: Writer_Begin_def Writer_Open_def Writer_Close_def Writer_Stop_def Writer_Push_def)

lemma offered_perform_Push:
  "hs_offered (snd (perform to_string (PushCall m encoded) (s, h))) =
     (if m \<in> wr_stopped s then hs_offered h else (hs_offered h)(m := hs_offered h m @ [encoded]))"
  "hs_phase (snd (perform to_string (PushCall m encoded) (s, h))) = hs_phase h"
  "hs_path (snd (perform to_string (PushCall m encoded) (s, h))) = hs_path h"
  "hs_broken (snd (perform to_string (PushCall m encoded) (s, h))) = hs_broken h"
  by (simp_all add: Let_def offer_def)

lemma served_perform:
  assumes ok: "call_ok cs c" and served: "served cs s h"
  shows "served (cs @ [c]) (fst (perform to_string c (s, h))) (snd (perform to_string c (s, h)))"
proof (cases c)
  case (PushCall m encoded)
  let ?s = "fst (perform to_string c (s, h))" and ?h = "snd (perform to_string c (s, h))"
  have stopped: "wr_stopped s \<subseteq> wr_stopped ?s" by (simp add: PushCall Let_def)
  note fields = offered_perform_Push [of to_string m encoded s h, folded PushCall]
  have open_m: "hs_phase h m \<noteq> Closed" using ok served PushCall by (simp add: served_def)
  have "prefix (hs_offered ?h m') (snd (call_pieces (cs @ [c]) m')) \<and>
      (hs_offered ?h m' = snd (call_pieces (cs @ [c]) m') \<or> m' \<in> wr_stopped ?s \<or> hs_phase ?h m' = Closed) \<and>
      (fst (call_pieces (cs @ [c]) m') \<longrightarrow> m' \<in> wr_stopped ?s \<or> hs_phase ?h m' = Closed)" for m'
  proof -
    have old: "prefix (hs_offered h m') (snd (call_pieces cs m'))"
      "hs_offered h m' = snd (call_pieces cs m') \<or> m' \<in> wr_stopped s \<or> hs_phase h m' = Closed"
      "fst (call_pieces cs m') \<longrightarrow> m' \<in> wr_stopped s \<or> hs_phase h m' = Closed"
      using servedD [OF served] by blast+
    show ?thesis
    proof (cases "m' = m")
      case False
      then show ?thesis using old stopped unfolding fields by (auto simp: PushCall)
    next
      case True
      then show ?thesis using old stopped open_m unfolding fields by (auto simp: PushCall prefix_prefix)
    qed
  qed
  then show ?thesis using served fields by (simp add: served_def PushCall)
next
  case (OpenCall m path header)
  then show ?thesis using ok served by (auto simp: served_def)
qed (use ok served in \<open>auto simp: served_def\<close>)

lemma turn_keeps:
  assumes "thread_turn match_id to_string (s, h) (s', h')" and "writer_inv s h"
  shows "hs_phase h' = hs_phase h \<and> hs_path h' = hs_path h \<and> hs_offered h' = hs_offered h \<and>
    hs_admitted h' = hs_admitted h \<and> (\<forall>m \<in> wr_stopped s. m \<in> wr_stopped s' \<or> hs_phase h m = Closed)"
  using assms(1)
proof (cases rule: thread_turn.cases)
  case (handles item went loss s1)
  have "hs_phase h m = Closed" if "m \<in> wr_stopped s" "m \<notin> wr_stopped s1" for m
    using HandleGuarded_stopped [OF handles(4) that] handles(3) items_okD(3) [OF writer_invD(1) [OF assms(2)]]
    by (simp add: todo_def)
  then show ?thesis using handles by auto
next
  case (finishes item loss)
  then show ?thesis by (auto simp: Run_finish_def Let_def split: option.splits)
qed (simp add: Run_take_def)

lemma served_turn:
  assumes "thread_turn match_id to_string (s, h) (s', h')" and "writer_inv s h" and "served cs s h"
  shows "served cs s' h'"
  using turn_keeps [OF assms(1,2)] assms(3) unfolding served_def by metis

lemma StopLocked_loss:
  "wr_loss (StopLocked to_string m step detail s) = None \<Longrightarrow> wr_stopped s = {} \<Longrightarrow> wr_health s \<noteq> kEnabled"
  by (auto simp: StopLocked_def LoseLocked_def split: if_splits)

lemma Run_finish_loss:
  "wr_loss (Run_finish to_string item (Some failed) s) = None \<Longrightarrow> wr_stopped s = {} \<Longrightarrow> wr_health s \<noteq> kEnabled"
  by (cases failed) (auto simp: Run_finish_def Let_def StopLocked_def LoseLocked_def split: if_splits)

lemma unharmed_perform:
  assumes unharmed: "unharmed cs s h" and none: "wr_loss (fst (perform to_string c (s, h))) = None"
    and ok: "call_ok cs c"
  shows "unharmed (cs @ [c]) (fst (perform to_string c (s, h))) (snd (perform to_string c (s, h)))"
proof (cases c)
  case (PushCall m encoded)
  have "\<not> wr_records_queued s \<ge> wr_capacity s"
    using unharmed none StopLocked_loss [of to_string m CaptureStep.kQueueFull "[]" s]
    by (auto simp: PushCall Let_def Writer_Push_def unharmed_def split: if_splits)
  then show ?thesis using unharmed
    by (auto simp: PushCall Let_def Writer_Push_def unharmed_def offer_def)
next
  case (StopCall m step)
  then show ?thesis using unharmed none StopLocked_loss [of to_string m step "[]" s]
    by (simp add: Writer_Stop_def unharmed_def)
next
  case (OpenCall m path header)
  then show ?thesis using unharmed ok by (auto simp: unharmed_def Writer_Open_def)
qed (use unharmed in \<open>auto simp: unharmed_def Writer_Begin_def Writer_Close_def\<close>)

lemma unharmed_turn:
  assumes "thread_turn match_id to_string (s, h) (s', h')" and unharmed: "unharmed cs s h" and none: "wr_loss s' = None"
  shows "unharmed cs s' h'"
  using assms(1)
proof (cases rule: thread_turn.cases)
  case (takes item rest)
  then show ?thesis using unharmed by (auto simp: unharmed_def Run_take_def)
next
  case (handles item went loss s1)
  note fields = HandleGuarded_frame [OF handles(4), unfolded handled_frame_def]
  have "wr_stopped s1 = {}" "wr_health s1 = kEnabled"
    using fields unharmed by (auto simp: unharmed_def split: Item.splits)
  then show ?thesis using handles unharmed by (auto simp: unharmed_def)
next
  case (finishes item loss)
  have whole: "loss = None"
  proof (rule ccontr)
    assume "loss \<noteq> None"
    then obtain failed where "loss = Some failed" by auto
    then show False using finishes none unharmed Run_finish_loss [of to_string item failed s]
      by (simp add: unharmed_def)
  qed
  then show ?thesis using finishes unharmed by (auto simp: unharmed_def Run_finish_def)
qed

lemma loss_kept_None: "loss_kept s s' \<Longrightarrow> loss_ok s \<Longrightarrow> wr_loss s' = None \<Longrightarrow> wr_loss s = None"
  by (cases "wr_loss s") (auto simp: loss_kept_def)

lemma serves_inv:
  assumes "serves match_id to_string (Writer_init mode capacity retention d) cs sh" and "calls_ok cs"
  shows "writer_reachable match_id to_string (Writer_init mode capacity retention d) sh \<and>
    served cs (fst sh) (snd sh) \<and> (wr_loss (fst sh) = None \<longrightarrow> unharmed cs (fst sh) (snd sh))"
  using assms
proof (induction rule: serves.induct)
  case started
  show ?case using writer_reachable.init
    by (simp add: served_def unharmed_def history_init_def Writer_init_def)
next
  case (calls cs sh c)
  obtain s h where sh: "sh = (s, h)" by fastforce
  have ok: "calls_ok cs" "call_ok cs c" using calls.prems by simp_all
  have reach: "writer_reachable match_id to_string (Writer_init mode capacity retention d) (s, h)" and served: "served cs s h"
    and unharmed: "wr_loss s = None \<longrightarrow> unharmed cs s h"
    using calls.IH [OF ok(1)] sh by simp_all
  have step: "writer_step match_id to_string (s, h) (perform to_string c (s, h))"
    using perform_step [OF ok(2) served writer_reachable_offers [OF reach]] .
  have "wr_loss (fst (perform to_string c (s, h))) = None \<Longrightarrow> wr_loss s = None"
    using loss_kept_None [OF writer_step_loss [OF step, unfolded fst_conv]] writer_reachable_loss [OF reach] by simp
  then show ?case using writer_reachable.step [OF reach step] served_perform [OF ok(2) served, of to_string]
      unharmed_perform [OF _ _ ok(2), of s h to_string] unharmed by (simp add: sh)
next
  case (turns cs sh sh')
  obtain s h where sh: "sh = (s, h)" by fastforce
  obtain s' h' where sh': "sh' = (s', h')" by fastforce
  have reach: "writer_reachable match_id to_string (Writer_init mode capacity retention d) (s, h)" and served: "served cs s h"
    and unharmed: "wr_loss s = None \<longrightarrow> unharmed cs s h"
    using turns.IH [OF turns.prems] sh by simp_all
  have turn: "thread_turn match_id to_string (s, h) (s', h')" using turns.hyps(2) sh sh' by simp
  note step = thread_turn_step [OF turn]
  have "wr_loss s' = None \<Longrightarrow> wr_loss s = None"
    using loss_kept_None [OF writer_step_loss [OF step, unfolded fst_conv]] writer_reachable_loss [OF reach] by simp
  then show ?case using writer_reachable.step [OF reach step] served_turn [OF turn writer_reachable_inv [OF reach] served]
      unharmed_turn [OF turn] unharmed by (simp add: sh')
qed

section \<open>What the Capturer was told\<close>

text \<open>The 1-based place of a key in a list, 0 for none.\<close>

fun position :: "'k \<Rightarrow> 'k list \<Rightarrow> nat" where
  "position key [] = 0"
| "position key (k # ks) =
     (if k = key then 1 else if position key ks = 0 then 0 else position key ks + 1)"

definition numbered :: "'k list \<Rightarrow> ('k \<times> Player) list" where
  "numbered ks = zip ks (map (\<lambda>i. word_of_nat (i + 1)) [0..<length ks])"

lemma numbered_snoc: "numbered (ks @ [k]) = numbered ks @ [(k, word_of_nat (length ks + 1))]"
  by (simp add: numbered_def)

lemma length_numbered [simp]: "length (numbered ks) = length ks"
  by (simp add: numbered_def)

lemma position_le: "position key ks \<le> length ks"
  by (induction ks) auto

lemma position_0: "position key ks = 0 \<longleftrightarrow> key \<notin> set ks"
  by (induction ks) auto

lemma map_of_numbered:
  "map_of (numbered ks) key = (if position key ks = 0 then None else Some (word_of_nat (position key ks)))"
proof -
  have "map_of (zip ks (map (\<lambda>i. word_of_nat (i + 1)) [n..<n + length ks])) key =
      (if position key ks = 0 then None else Some (word_of_nat (n + position key ks)))" for n
  proof (induction ks arbitrary: n)
    case (Cons k ks)
    show ?case using Cons.IH [of "Suc n"]
      by (simp add: upt_conv_Cons del: upt_Suc of_nat_Suc of_nat_add)
  qed simp
  from this [of 0] show ?thesis by (simp only: numbered_def add_0)
qed

definition told_join :: "capture_codec \<Rightarrow> CaptureEntrant \<Rightarrow> Join" where
  "told_join codec entrant =
     \<lparr>jo_session = ce_session entrant, jo_character = ce_character entrant, jo_spawn = cc_snap codec (ce_spawn entrant)\<rparr>"

definition told_offset :: "u64 \<Rightarrow> u64 \<Rightarrow> u32" where
  "told_offset first_tick tick = word_of_int (clamp (Offset first_tick tick) 0 (2 ^ 32 - 1))"

definition told_seen :: "u64 \<Rightarrow> Command \<Rightarrow> int" where
  "told_seen first_tick command = clamp (Offset first_tick (cm_seen_tick command)) (- (2 ^ 31)) (2 ^ 31 - 1)"

text \<open>
  What an event means, whatever the Capturer keeps: who in it is an entrant, by place in
  the Match's start; nothing for a body that is not.
\<close>

fun told_event :: "CaptureEntrant list \<Rightarrow> CaptureInput \<Rightarrow> Event option" where
  "told_event entrants (StartIn health match players first_tick started) = None"
| "told_event entrants (CommandIn tick entity command) = None"
| "told_event entrants (LeaveIn tick entity) =
     (if position entity (map ce_entity entrants) = 0 then None
      else Some (Leave (word_of_nat (position entity (map ce_entity entrants)))))"
| "told_event entrants (DeathIn tick victim killer) =
     (if position victim (map ce_entity entrants) = 0 then None
      else Some (Death (word_of_nat (position victim (map ce_entity entrants)))
                       (word_of_nat (position killer (map ce_entity entrants)))))"
| "told_event entrants (EndIn tick winner) =
     Some (MatchEnd (case winner of
        None \<Rightarrow> None
      | Some session \<Rightarrow>
          if position session (map ce_session entrants) = 0 then None
          else Some (word_of_nat (position session (map ce_session entrants)))))"

fun told_what :: "CaptureEntrant list \<Rightarrow> u64 \<Rightarrow> CaptureInput \<Rightarrow> Event option" where
  "told_what entrants first_tick (CommandIn tick entity command) =
     (if position entity (map ce_entity entrants) = 0 then None
      else Some (CapturedCommand (word_of_nat (position entity (map ce_entity entrants)))
                   (told_seen first_tick command) (command\<lparr>cm_seen_tick := 0\<rparr>)))"
| "told_what entrants first_tick item = told_event entrants item"

fun input_tick :: "CaptureInput \<Rightarrow> u64" where
  "input_tick (StartIn health match players first_tick started) = first_tick"
| "input_tick (CommandIn tick entity command) = tick"
| "input_tick (LeaveIn tick entity) = tick"
| "input_tick (DeathIn tick victim killer) = tick"
| "input_tick (EndIn tick winner) = tick"

record capture_log =
  cl_told :: "uuid \<Rightarrow> Capture option"
  cl_started :: "uuid set"
  cl_current :: "uuid option"
  cl_entrants :: "CaptureEntrant list"
  cl_first :: u64
  cl_tick :: u64

definition log_init :: capture_log where
  "log_init = \<lparr>cl_told = (\<lambda>_. None), cl_started = {}, cl_current = None, cl_entrants = [], cl_first = 0, cl_tick = 0\<rparr>"

definition told_header :: "Header \<Rightarrow> uuid \<Rightarrow> nat \<Rightarrow> Header" where
  "told_header header match started = header\<lparr>hd_match := match, hd_started := int started\<rparr>"

definition log_event :: "CaptureInput \<Rightarrow> capture_log \<Rightarrow> capture_log" where
  "log_event item l =
     (case cl_current l of
        None \<Rightarrow> l
      | Some m \<Rightarrow>
          (case (cl_told l m, told_what (cl_entrants l) (cl_first l) item) of
             (Some c, Some event) \<Rightarrow>
               l\<lparr>cl_told := (cl_told l)(m \<mapsto> c\<lparr>ca_events := ca_events c @
                   [\<lparr>at_offset = told_offset (cl_first l) (input_tick item), at_event = event\<rparr>]\<rparr>)\<rparr>
           | _ \<Rightarrow> l))"

fun log_input :: "capture_codec \<Rightarrow> Header \<Rightarrow> CaptureInput \<Rightarrow> capture_log \<Rightarrow> capture_log" where
  "log_input codec header (StartIn health match players first_tick started) l =
     (if health = CaptureHealth.kStopped then l\<lparr>cl_current := None\<rparr>
      else case EncodeHeader (cc_encode codec) (told_header header match started) of
             Inl _ \<Rightarrow> l\<lparr>cl_started := insert match (cl_started l), cl_current := None\<rparr>
           | Inr _ \<Rightarrow>
               l\<lparr>cl_told := (cl_told l)(match \<mapsto> \<lparr>ca_header = told_header header match started,
                   ca_joins = map (told_join codec) players, ca_events = [], ca_torn = False\<rparr>),
                 cl_started := insert match (cl_started l), cl_current := Some match, cl_entrants := players,
                 cl_first := first_tick\<rparr>)"
| "log_input codec header (EndIn tick winner) l =
     (log_event (EndIn tick winner) l)\<lparr>cl_current := None, cl_tick := tick\<rparr>"
| "log_input codec header item l = (log_event item l)\<lparr>cl_tick := input_tick item\<rparr>"

text \<open>
  What Host keeps to: each Match is started once, under an ID of its own, with at most 255
  players all different; the ticks it tells do not go back; and in a Match being captured,
  a kill's killer is in the Match its victim is in.
\<close>

fun input_ok :: "capture_log \<Rightarrow> CaptureInput \<Rightarrow> bool" where
  "input_ok l (StartIn health match players first_tick started) \<longleftrightarrow>
     length match = 16 \<and> match \<noteq> nil_uuid \<and> match \<notin> cl_started l \<and> distinct (map ce_entity players) \<and>
     distinct (map ce_session players) \<and> length players \<le> 255"
| "input_ok l (DeathIn tick victim killer) \<longleftrightarrow> cl_tick l \<le>s tick \<and>
     (cl_current l \<noteq> None \<and> victim \<in> ce_entity ` set (cl_entrants l) \<longrightarrow> killer \<in> ce_entity ` set (cl_entrants l))"
| "input_ok l item \<longleftrightarrow> cl_tick l \<le>s input_tick item"

fun inputs_ok :: "capture_codec \<Rightarrow> Header \<Rightarrow> CaptureInput list \<Rightarrow> capture_log \<Rightarrow> bool" where
  "inputs_ok codec header [] l = True"
| "inputs_ok codec header (item # items) l \<longleftrightarrow>
     input_ok l item \<and> inputs_ok codec header items (log_input codec header item l)"

definition log_inputs :: "capture_codec \<Rightarrow> Header \<Rightarrow> CaptureInput list \<Rightarrow> capture_log \<Rightarrow> capture_log" where
  "log_inputs codec header items l = fold (log_input codec header) items l"

section \<open>The pieces of a capture\<close>

definition fits :: "(CaptureRecord \<Rightarrow> byte list option) \<Rightarrow> CaptureRecord \<Rightarrow> bool" where
  "fits encode item = (case Framed (encode item) of Inr bytes \<Rightarrow> True | Inl error \<Rightarrow> False)"

definition piece :: "(CaptureRecord \<Rightarrow> byte list option) \<Rightarrow> CaptureRecord \<Rightarrow> byte list" where
  "piece encode item = (case Framed (encode item) of Inr bytes \<Rightarrow> bytes | Inl error \<Rightarrow> [])"

text \<open>Whether a record of it was too long, and its header with the records before that one.\<close>

definition pieces_of :: "(CaptureRecord \<Rightarrow> byte list option) \<Rightarrow> byte list \<Rightarrow> CaptureRecord list \<Rightarrow> bool \<times> byte list list" where
  "pieces_of encode header items =
     (\<not> list_all (fits encode) items, header # map (piece encode) (takeWhile (fits encode) items))"

lemma takeWhile_snoc:
  "takeWhile P (xs @ [x]) = (if list_all P xs then xs @ (if P x then [x] else []) else takeWhile P xs)"
  by (induction xs) auto

lemma takeWhile_all: "list_all P xs \<Longrightarrow> takeWhile P xs = xs"
  by (induction xs) auto

lemma pieces_of_fits:
  "Framed (encode item) = Inr bytes \<Longrightarrow>
   pieces_of encode header (items @ [item]) =
     (if fst (pieces_of encode header items) then pieces_of encode header items
      else (False, snd (pieces_of encode header items) @ [bytes]))"
  by (simp add: pieces_of_def takeWhile_snoc takeWhile_all fits_def piece_def)

lemma pieces_of_long:
  "Framed (encode item) = Inl error \<Longrightarrow>
   pieces_of encode header (items @ [item]) = (True, snd (pieces_of encode header items))"
  by (simp add: pieces_of_def takeWhile_snoc takeWhile_all fits_def)

text \<open>
  What queueing one item of the Match open makes of the calls: its piece or a stop, and
  nothing else of this Match or of another.
\<close>

definition queued :: "(CaptureRecord \<Rightarrow> byte list option) \<Rightarrow> WriterCall list \<Rightarrow> WriterCall list \<Rightarrow>
    capturer \<Rightarrow> capturer \<Rightarrow> CaptureRecord list \<Rightarrow> bool" where
  "queued encode cs ds cp cp' items \<longleftrightarrow>
     calls_ok (cs @ ds) \<and> call_phase (cs @ ds) = call_phase cs \<and> call_path (cs @ ds) = call_path cs \<and>
     (\<forall>m. m \<noteq> cp_match cp \<longrightarrow> call_pieces (cs @ ds) m = call_pieces cs m) \<and>
     (cp_failed cp \<longrightarrow> cp_failed cp') \<and>
     (\<forall>header before. \<not> cp_failed cp' \<longrightarrow> call_pieces cs (cp_match cp) = pieces_of encode header before \<longrightarrow>
        call_pieces (cs @ ds) (cp_match cp) = pieces_of encode header (before @ items))"

lemma queue_one:
  assumes queue: "Capturer_Queue (Framed (encode item)) cp = (ds, cp')"
    and ok: "calls_ok cs" "cp_match cp \<noteq> nil_uuid" "call_phase cs (cp_match cp) \<noteq> Closed"
  shows "queued encode cs ds cp cp' [item]" and "cp' = cp\<lparr>cp_failed := cp_failed cp'\<rparr>"
proof -
  consider (fits) bytes where "Framed (encode item) = Inr bytes" "ds = [PushCall (cp_match cp) bytes]" "cp' = cp"
    | (long) "Framed (encode item) = Inl RecordTooLong" "ds = [StopCall (cp_match cp) CaptureStep.kRecordTooLong]" "cp' = cp"
    | (broken) "ds = []" "cp' = cp\<lparr>cp_failed := True\<rparr>"
  proof -
    have result: "ds = fst (Capturer_Queue (Framed (encode item)) cp)" "cp' = snd (Capturer_Queue (Framed (encode item)) cp)"
      using queue by simp_all
    show thesis
  proof (cases "Framed (encode item)")
    case (Inl error)
    show thesis
    proof (cases error)
      case CodecFailure
      show thesis by (rule that(3)) (simp_all add: result Inl CodecFailure Capturer_Queue_def Capturer_Admit_def)
    next
      case RecordTooLong
      show thesis by (rule that(2)) (simp_all add: result Inl RecordTooLong Capturer_Queue_def Capturer_Admit_def)
    qed
  next
    case (Inr bytes)
    then show thesis by (intro that(1) [of bytes]) (simp_all add: result Capturer_Queue_def Capturer_Admit_def)
  qed
  qed
  then have "queued encode cs ds cp cp' [item] \<and> cp' = cp\<lparr>cp_failed := cp_failed cp'\<rparr>"
  proof cases
    case fits
    have "call_pieces (cs @ ds) (cp_match cp) = pieces_of encode header (before @ [item])"
      if "call_pieces cs (cp_match cp) = pieces_of encode header before" for header before
      unfolding pieces_of_fits [of encode item, OF fits(1)] fits(2) using that by simp
    then show ?thesis using ok fits(2,3) by (simp add: queued_def)
  next
    case long
    have "call_pieces (cs @ ds) (cp_match cp) = pieces_of encode header (before @ [item])"
      if "call_pieces cs (cp_match cp) = pieces_of encode header before" for header before
      unfolding pieces_of_long [of encode item, OF long(1)] long(2) using that by simp
    then show ?thesis using ok long(2,3) by (simp add: queued_def)
  next
    case broken
    then show ?thesis using ok by (simp add: queued_def)
  qed
  then show "queued encode cs ds cp cp' [item]" "cp' = cp\<lparr>cp_failed := cp_failed cp'\<rparr>" by blast+
qed

lemma queued_none: "calls_ok cs \<Longrightarrow> queued encode cs [] cp cp []"
  by (simp add: queued_def)

lemma queued_trans:
  assumes "queued encode cs ds cp cp1 xs" and "queued encode (cs @ ds) es cp1 cp2 ys"
    and "cp_match cp1 = cp_match cp"
  shows "queued encode cs (ds @ es) cp cp2 (xs @ ys)"
proof -
  have "call_pieces (cs @ ds @ es) (cp_match cp) = pieces_of encode header (before @ xs @ ys)"
    if "\<not> cp_failed cp2" "call_pieces cs (cp_match cp) = pieces_of encode header before" for header before
  proof -
    have "\<not> cp_failed cp1" using assms(2) that(1) by (auto simp: queued_def)
    then have "call_pieces (cs @ ds) (cp_match cp) = pieces_of encode header (before @ xs)"
      using assms(1) that(2) by (simp add: queued_def)
    then show ?thesis using assms(2,3) that(1) by (simp add: queued_def)
  qed
  then show ?thesis using assms by (auto simp: queued_def)
qed

lemma queued_cong:
  "queued encode cs ds cp1 cp2 items \<Longrightarrow> cp_match cp1 = cp_match cp1' \<Longrightarrow> cp_failed cp1 = cp_failed cp1' \<Longrightarrow>
   cp_failed cp2 = cp_failed cp2' \<Longrightarrow> queued encode cs ds cp1' cp2' items"
  by (simp add: queued_def)

definition queued_fields :: "capturer \<Rightarrow> capturer \<Rightarrow> bool" where
  "queued_fields cp cp' \<longleftrightarrow> cp_directory cp' = cp_directory cp \<and> cp_header cp' = cp_header cp \<and>
     cp_match cp' = cp_match cp \<and> cp_open cp' = cp_open cp \<and> cp_first_tick cp' = cp_first_tick cp"

lemma join_records_snoc:
  "join_records 0 (js @ [j]) = join_records 0 js @ [JoinRecord (word_of_nat (length js + 1)) 0 j]"
  by (simp add: join_records_def)

lemma numbered_key: "map_of (numbered ks) key = None \<longleftrightarrow> key \<notin> set ks"
  by (simp add: map_of_numbered position_0)

lemma queue_joins_calls:
  assumes "queue_joins codec es cp = (ds, cp')" and "calls_ok cs" and "cp_match cp \<noteq> nil_uuid"
    and "call_phase cs (cp_match cp) \<noteq> Closed"
    and "cp_players cp = numbered (map ce_entity before)" and "cp_sessions cp = numbered (map ce_session before)"
    and "distinct (map ce_entity (before @ es))" and "distinct (map ce_session (before @ es))"
  shows "queued (cc_encode codec) cs ds cp cp' (drop (length before) (join_records 0 (map (told_join codec) (before @ es)))) \<and>
    queued_fields cp cp' \<and> cp_players cp' = numbered (map ce_entity (before @ es)) \<and>
    cp_sessions cp' = numbered (map ce_session (before @ es))"
  using assms
proof (induction es arbitrary: cp ds cs before)
  case Nil
  then show ?case by (simp add: queued_none queued_fields_def join_records_def)
next
  case (Cons e es)
  let ?cp = "cp\<lparr>cp_players := emplace (ce_entity e) (word_of_nat (length (cp_players cp) + 1)) (cp_players cp),
      cp_sessions := emplace (ce_session e) (word_of_nat (length (cp_players cp) + 1)) (cp_sessions cp)\<rparr>"
  let ?item = "JoinRecord (word_of_nat (length before + 1)) 0 (told_join codec e)"
  have players: "cp_players ?cp = numbered (map ce_entity (before @ [e]))"
    "cp_sessions ?cp = numbered (map ce_session (before @ [e]))"
    using Cons.prems(5-8) by (auto simp: emplace_def numbered_key numbered_snoc)
  obtain ds1 cp1 where one: "Capturer_Queue (Framed (cc_encode codec ?item)) ?cp = (ds1, cp1)" by fastforce
  obtain ds2 where rest: "queue_joins codec es cp1 = (ds2, cp')" and ds: "ds = ds1 @ ds2"
    using Cons.prems(1,5) one by (auto simp: EncodeJoin_def told_join_def Let_def split: prod.splits)
  have ok: "cp_match ?cp \<noteq> nil_uuid" "call_phase cs (cp_match ?cp) \<noteq> Closed" using Cons.prems(3,4) by simp_all
  note first = queue_one [where encode = "cc_encode codec" and item = ?item, OF one Cons.prems(2) ok]
  have cp1: "cp_match cp1 = cp_match cp" "cp_players cp1 = cp_players ?cp" "cp_sessions cp1 = cp_sessions ?cp"
    and fields1: "queued_fields cp cp1"
    by (subst first(2), simp add: queued_fields_def)+
  have "calls_ok (cs @ ds1)" "call_phase (cs @ ds1) = call_phase cs" using first(1) by (simp_all add: queued_def)
  then have ih: "queued (cc_encode codec) (cs @ ds1) ds2 cp1 cp'
        (drop (length (before @ [e])) (join_records 0 (map (told_join codec) ((before @ [e]) @ es)))) \<and>
      queued_fields cp1 cp' \<and> cp_players cp' = numbered (map ce_entity ((before @ [e]) @ es)) \<and>
      cp_sessions cp' = numbered (map ce_session ((before @ [e]) @ es))"
    using Cons.prems cp1 players by (intro Cons.IH [OF rest]) simp_all
  have "queued (cc_encode codec) cs ds1 cp cp1 [?item]" using first(1) by (rule queued_cong) simp_all
  from queued_trans [OF this conjunct1 [OF ih] cp1(1)]
  have "queued (cc_encode codec) cs ds cp cp'
      ([?item] @ drop (length (before @ [e])) (join_records 0 (map (told_join codec) ((before @ [e]) @ es))))"
    by (simp add: ds)
  moreover have "[?item] @ drop (length (before @ [e])) (join_records 0 (map (told_join codec) ((before @ [e]) @ es))) =
      drop (length before) (join_records 0 (map (told_join codec) (before @ e # es)))"
  proof -
    let ?rs = "join_records 0 (map (told_join codec) (before @ e # es))"
    have "length before < length ?rs" "?rs ! length before = ?item"
      by (simp_all add: join_records_def nth_append)
    then show ?thesis using Cons_nth_drop_Suc [of "length before" ?rs] by simp
  qed
  ultimately show ?case using ih fields1 by (simp add: queued_fields_def)
qed

end
