(* ===== verification/Host_Capture.thy ===== *)
theory Host_Capture
  imports Host_Run Capturer_Correct
begin

text \<open>
  What the server tells the Capturer, over every run of its two threads: each match started
  once under an ID of its own and with players all different, ticks that never go back, and
  kills whose killer is in the match. That is what the Capturer's own theorems ask of
  Host. The SimulationWorld is a parameter, under the contract of
  \<open>src/modules/simulation/include/augusta/simulation.h\<close>.
\<close>

section \<open>The SimulationWorld's contract\<close>

text \<open>
  Its bodies are those of the match it was started with, less those removed; a tick adds one
  to its tick, moves no body in, and kills bodies that are in it, by bodies that are in it.
\<close>

definition simulation_contract :: "'w sim_ops \<Rightarrow> ('w \<Rightarrow> u64) \<Rightarrow> ('w \<Rightarrow> EntityId set) \<Rightarrow> bool" where
  "simulation_contract ops tick_of bodies \<longleftrightarrow>
     (\<forall>players spots w. tick_of (snd (si_start ops players spots w)) = tick_of w \<and>
        bodies (snd (si_start ops players spots w)) \<subseteq> bodies w \<union> mp_entity ` set players \<and>
        length (fst (si_start ops players spots w)) = length players) \<and>
     (\<forall>entity w. tick_of (si_remove ops entity w) = tick_of w \<and> bodies (si_remove ops entity w) \<subseteq> bodies w) \<and>
     (\<forall>w. tick_of (si_end ops w) = tick_of w \<and> bodies (si_end ops w) = {}) \<and>
     (\<forall>commands w. st_tick (fst (si_tick ops commands w)) = tick_of w + 1 \<and>
        tick_of (snd (si_tick ops commands w)) = tick_of w + 1 \<and>
        bodies (snd (si_tick ops commands w)) \<subseteq> bodies w \<and>
        snd ` set (st_deaths (fst (si_tick ops commands w))) \<subseteq> bodies w)"

lemma contract_start:
  assumes "simulation_contract ops tick_of bodies" and "si_start ops players spots w = (spawns, w')"
  shows "tick_of w' = tick_of w" and "bodies w' \<subseteq> bodies w \<union> mp_entity ` set players" and "length spawns = length players"
  using assms unfolding simulation_contract_def by (metis fst_conv snd_conv)+

lemma contract_remove:
  "simulation_contract ops tick_of bodies \<Longrightarrow> tick_of (si_remove ops entity w) = tick_of w"
  "simulation_contract ops tick_of bodies \<Longrightarrow> bodies (si_remove ops entity w) \<subseteq> bodies w"
  by (simp_all add: simulation_contract_def)

lemma contract_end:
  "simulation_contract ops tick_of bodies \<Longrightarrow> tick_of (si_end ops w) = tick_of w"
  "simulation_contract ops tick_of bodies \<Longrightarrow> bodies (si_end ops w) = {}"
  by (simp_all add: simulation_contract_def)

lemma contract_tick:
  assumes "simulation_contract ops tick_of bodies" and "si_tick ops commands w = (result, w')"
  shows "st_tick result = tick_of w + 1" and "tick_of w' = tick_of w + 1" and "bodies w' \<subseteq> bodies w"
    and "snd ` set (st_deaths result) \<subseteq> bodies w"
  using assms unfolding simulation_contract_def by (metis fst_conv snd_conv)+

section \<open>What is told at one tick\<close>

lemma log_event_keeps [simp]:
  "cl_started (log_event item l) = cl_started l" "cl_current (log_event item l) = cl_current l"
  "cl_entrants (log_event item l) = cl_entrants l" "cl_tick (log_event item l) = cl_tick l"
  by (auto simp: log_event_def split: option.split)

lemma inputs_ok_append:
  "inputs_ok codec header (xs @ ys) l \<longleftrightarrow> inputs_ok codec header xs l \<and> inputs_ok codec header ys (log_inputs codec header xs l)"
  by (induction xs arbitrary: l) (simp_all add: log_inputs_def)

lemma log_inputs_append: "log_inputs codec header (xs @ ys) l = log_inputs codec header ys (log_inputs codec header xs l)"
  by (simp add: log_inputs_def)

lemma sint_small: "unat x < 2 ^ 63 \<Longrightarrow> sint (x :: u64) = int (unat x)"
proof -
  assume "unat x < 2 ^ 63"
  then have "int (unat x) < int (2 ^ 63)" by (simp only: of_nat_less_iff)
  also have "int (2 ^ 63) = 2 ^ 63" by simp
  finally have "signed_take_bit 63 (int (unat x)) = int (unat x)"
    by (intro signed_take_bit_int_eq_self) (rule order_trans [of _ 0], simp_all only: neg_le_0_iff_le zero_le_power zero_le_numeral of_nat_0_le_iff)
  moreover have "LENGTH(64) - Suc 0 = (63 :: nat)" by simp
  ultimately show ?thesis unfolding sint_uint uint_nat by (simp only:)
qed

lemma sless_eq_unat:
  assumes "unat a \<le> unat b" and "unat b < 2 ^ 63"
  shows "a \<le>s (b :: u64)"
proof -
  have "unat a < 2 ^ 63" using assms by (rule le_less_trans)
  then show ?thesis by (simp only: word_sle_eq sint_small assms(2) of_nat_le_iff assms(1))
qed

lemma log_inputs_one: "log_inputs codec header [item] l = log_input codec header item l"
  by (simp add: log_inputs_def)

text \<open>Anything but the start of a match, told at \<open>tick\<close>, with its killer an entrant if it is a kill.\<close>

fun tick_fine :: "u64 \<Rightarrow> EntityId set \<Rightarrow> CaptureInput \<Rightarrow> bool" where
  "tick_fine tick killers (StartIn health match players first_tick started) = False"
| "tick_fine tick killers (DeathIn at' victim killer) \<longleftrightarrow> at' = tick \<and> killer \<in> killers"
| "tick_fine tick killers item \<longleftrightarrow> input_tick item = tick"

lemma tick_fine_log:
  assumes "tick_fine tick killers item" and "cl_tick l \<le>s tick" and "cl_current l \<noteq> None \<Longrightarrow> killers \<subseteq> ce_entity ` set (cl_entrants l)"
  shows "input_ok l item" and "cl_tick (log_input codec header item l) = tick"
    and "cl_started (log_input codec header item l) = cl_started l" and "cl_entrants (log_input codec header item l) = cl_entrants l"
    and "cl_current (log_input codec header item l) \<in> {cl_current l, None}"
  using assms by (cases item; auto)+

lemma tick_fine_all:
  assumes "list_all (tick_fine tick killers) items" and "cl_tick l \<le>s tick"
    and "cl_current l \<noteq> None \<Longrightarrow> killers \<subseteq> ce_entity ` set (cl_entrants l)"
  shows "inputs_ok codec header items l \<and> cl_tick (log_inputs codec header items l) \<in> {cl_tick l, tick} \<and>
    cl_started (log_inputs codec header items l) = cl_started l \<and> cl_entrants (log_inputs codec header items l) = cl_entrants l \<and>
    cl_current (log_inputs codec header items l) \<in> {cl_current l, None}"
  using assms
proof (induction items arbitrary: l)
  case (Cons item items)
  let ?l = "log_input codec header item l"
  have "tick_fine tick killers item" using Cons.prems(1) by simp
  note one = tick_fine_log [OF this Cons.prems(2,3)]
  have "cl_tick ?l \<le>s tick" by (simp add: one(2))
  moreover have "killers \<subseteq> ce_entity ` set (cl_entrants ?l)" if "cl_current ?l \<noteq> None"
    using one(4,5) [of codec header] Cons.prems(3) that by auto
  ultimately have "inputs_ok codec header items ?l \<and> cl_tick (log_inputs codec header items ?l) \<in> {cl_tick ?l, tick} \<and>
      cl_started (log_inputs codec header items ?l) = cl_started ?l \<and> cl_entrants (log_inputs codec header items ?l) = cl_entrants ?l \<and>
      cl_current (log_inputs codec header items ?l) \<in> {cl_current ?l, None}"
    using Cons.IH [of ?l] Cons.prems(1) by simp
  then show ?case using one(1) one(2-5) [of codec header] by (auto simp: log_inputs_def)
qed (simp add: log_inputs_def)

section \<open>The invariant\<close>

definition told_log :: "capture_codec \<Rightarrow> Header \<Rightarrow> ('f, 'w) hosted \<Rightarrow> capture_log" where
  "told_log codec header o' = log_inputs codec header (ho_told o') log_init"

definition telling ::
  "capture_codec \<Rightarrow> Header \<Rightarrow> (nat \<Rightarrow> uuid) \<Rightarrow> ('w \<Rightarrow> u64) \<Rightarrow> ('w \<Rightarrow> EntityId set) \<Rightarrow> nat \<Rightarrow> nat \<Rightarrow> ('f, 'w) hosted \<Rightarrow> bool" where
  "telling codec header ids tick_of bodies slack n o' \<longleftrightarrow>
     inputs_ok codec header (ho_told o') log_init \<and>
     cl_started (told_log codec header o') \<subseteq> ids ` {..<m_taken (ho_match o')} \<and>
     unat (cl_tick (told_log codec header o')) \<le> unat (ho_tick o') + slack \<and>
     (cl_current (told_log codec header o') \<noteq> None \<longrightarrow>
        bodies (ho_world o') \<subseteq> ce_entity ` set (cl_entrants (told_log codec header o'))) \<and>
     m_taken (ho_match o') \<le> n \<and> tick_of (ho_world o') = ho_tick o' \<and> unat (ho_tick o') \<le> n \<and>
     (\<not> ho_simulating o' \<longrightarrow> bodies (ho_world o') = {})"

text \<open>More told at one tick, by a world whose bodies are no more than they were.\<close>

lemma telling_more:
  assumes old: "telling codec header ids tick_of bodies slack n o'" and "n \<le> n'" and "n' < 2 ^ 62"
    and told: "ho_told o'' = ho_told o' @ items" and items: "list_all (tick_fine tick (bodies (ho_world o'))) items"
    and tick: "unat (ho_tick o') + slack \<le> unat tick" "unat tick \<le> unat (ho_tick o'') + slack'" and "slack' \<le> 1"
    and now: "tick_of (ho_world o'') = ho_tick o''" "unat (ho_tick o'') \<le> n'"
    and same: "ho_match o'' = ho_match o'"
    and fewer: "bodies (ho_world o'') \<subseteq> bodies (ho_world o')" "\<not> ho_simulating o'' \<Longrightarrow> bodies (ho_world o'') = {}"
  shows "telling codec header ids tick_of bodies slack' n' o''"
proof -
  let ?l = "told_log codec header o'"
  note old = old [unfolded telling_def]
  have "unat (cl_tick ?l) \<le> unat tick" using old tick(1) by linarith
  moreover have "unat tick < 2 ^ 63" using tick(2) now(2) assms(3,8) by simp
  ultimately have "cl_tick ?l \<le>s tick" by (rule sless_eq_unat)
  then have all: "inputs_ok codec header items ?l \<and> cl_tick (log_inputs codec header items ?l) \<in> {cl_tick ?l, tick} \<and>
    cl_started (log_inputs codec header items ?l) = cl_started ?l \<and> cl_entrants (log_inputs codec header items ?l) = cl_entrants ?l \<and>
    cl_current (log_inputs codec header items ?l) \<in> {cl_current ?l, None}"
    using old by (intro tick_fine_all [OF items]) simp_all
  have log: "told_log codec header o'' = log_inputs codec header items ?l"
    by (simp add: told_log_def told log_inputs_append)
  have ok: "inputs_ok codec header (ho_told o'') log_init"
    using old all by (simp add: told inputs_ok_append told_log_def)
  have "unat (cl_tick (told_log codec header o'')) \<le> unat (ho_tick o'') + slack'"
    using all old tick by (auto simp: log)
  moreover have "cl_current (told_log codec header o'') \<noteq> None \<longrightarrow>
      bodies (ho_world o'') \<subseteq> ce_entity ` set (cl_entrants (told_log codec header o''))"
    using all old fewer(1) by (auto simp: log)
  moreover have "cl_started (told_log codec header o'') \<subseteq> ids ` {..<m_taken (ho_match o')}" using all old by (simp add: log)
  moreover have "m_taken (ho_match o') \<le> n'" using old assms(2) by linarith
  ultimately show ?thesis using ok now same fewer(2) by (simp add: telling_def)
qed

section \<open>The Network I/O thread tells it nothing\<close>

definition silent :: "('f, 'w) host \<Rightarrow> ('f, 'w) host \<Rightarrow> bool" where
  "silent s s' \<longleftrightarrow> ho_world (sv_own s') = ho_world (sv_own s) \<and> ho_told (sv_own s') = ho_told (sv_own s) \<and>
     ho_tick (sv_own s') = ho_tick (sv_own s) \<and> ho_simulating (sv_own s') = ho_simulating (sv_own s) \<and>
     ho_thread (sv_own s') = ho_thread (sv_own s) \<and> m_taken (ho_match (sv_own s')) = m_taken (ho_match (sv_own s))"

lemma silent_refl [simp]: "silent s s"
  by (simp add: silent_def)

lemma silent_trans: "silent a b \<Longrightarrow> silent b c \<Longrightarrow> silent a c"
  by (simp add: silent_def)

lemma silent_own [simp]: "sv_own s' = sv_own s \<Longrightarrow> silent s s'"
  by (simp add: silent_def)

lemma silent_quiet: "quiet s s' \<Longrightarrow> silent s s'"
  by (simp add: silent_def quiet_fields)

lemma silent_throw [simp]: "silent s (throw s)"
  by (simp add: silent_def throw_def)

lemma silent_SendTo: "silent s (SendTo env players message s)"
proof -
  have "silent s (deliver_all env message players s)"
  proof (induction players arbitrary: s)
    case (Cons session rest)
    show ?case using silent_trans [OF silent_quiet [OF quiet_Deliver] Cons.IH] by (auto split: option.split)
  qed simp
  then show ?thesis by (simp add: SendTo_def silent_quiet split: option.split)
qed

lemma silent_SendRoster: "silent s (SendRoster env s)"
  by (simp add: SendRoster_def Let_def silent_SendTo)

text \<open>Rewriting a state by what is known to be silent.\<close>

lemma taken_Leave: "m_taken (snd (Match_Leave m peer)) = m_taken m"
  by (simp add: Match_Leave_def Match_End_def Let_def)

lemma taken_Ready: "m_taken (snd (Match_Ready m peer version)) = m_taken m"
  by (simp add: Match_Ready_def)

lemma taken_Join: "m_taken m \<le> m_taken (snd (Match_Join ids m peer request)) \<and> m_taken (snd (Match_Join ids m peer request)) \<le> m_taken m + 1"
  by (cases rule: Join_cases [of ids m peer request]) simp_all

lemma silent_HandleDisconnect: "silent s (HandleDisconnect env peer how s)"
proof -
  let ?s = "on_own (\<lambda>o'. o'\<lparr>ho_debug := DebugSubscriptions_Forget (ho_debug o') peer\<rparr>) (on_gate (\<lambda>g. PeerGate_Left g peer) s)"
  obtain departure m where left: "Match_Leave (ho_match (sv_own s)) peer = (departure, m)" by fastforce
  show ?thesis
  proof (cases "Match_SessionOf (ho_match (sv_own s)) peer")
    case None
    then show ?thesis by (simp add: HandleDisconnect_def Let_def silent_def)
  next
    case (Some session)
    let ?s' = "on_own (\<lambda>o'. o'\<lparr>ho_match := m, ho_players := erase_key session (ho_players o')\<rparr>) ?s"
    have out: "silent s ?s'" using taken_Leave [of "ho_match (sv_own s)" peer] left by (simp add: silent_def)
    have result: "HandleDisconnect env peer how s = (case departure of kFromLobby \<Rightarrow> SendRoster env ?s'
        | kEndedMatch \<Rightarrow> on_own (\<lambda>o'. o'\<lparr>ho_match_winner := None\<rparr>) ?s' | _ \<Rightarrow> ?s')"
      using Some left by (simp add: HandleDisconnect_def Let_def split: Departure.splits)
    have winner: "silent s (on_own (\<lambda>o'. o'\<lparr>ho_match_winner := None\<rparr>) ?s')"
      by (rule silent_trans [OF out]) (simp add: silent_def)
    have roster: "silent s (SendRoster env ?s')" by (rule silent_trans [OF out silent_SendRoster])
    show ?thesis unfolding result by (cases departure) (simp_all only: Departure.case out winner roster)
  qed
qed

lemma silent_Expel: "silent s (Expel env peer s)"
proof -
  have "silent s (on_own (\<lambda>o'. o'\<lparr>ho_closed := ho_closed o' @ [peer]\<rparr>) (on_gate (\<lambda>g. PeerGate_Expelled g peer) s))"
    by (simp add: silent_def)
  then show ?thesis unfolding Expel_def by (rule silent_trans [OF _ silent_HandleDisconnect])
qed

lemma silent_Judge: "silent s (snd (Judge env peer rejection now s))"
proof -
  obtain verdict g where judged: "PeerGate_Judge (sv_gate s) peer rejection now = (verdict, g)" by fastforce
  have "silent s (Expel env peer (s\<lparr>sv_gate := g\<rparr>))"
    by (rule silent_trans [OF silent_own silent_Expel]) simp
  then show ?thesis by (simp add: Judge_def judged Let_def)
qed

lemma silent_Reply: "silent s (Reply env peer message s)"
  by (rule silent_quiet [OF quiet_Reply])

lemma silent_HandleReady: "silent s (HandleReady env peer version now s)"
proof -
  obtain ready m where step: "Match_Ready (ho_match (sv_own s)) peer version = (ready, m)" by fastforce
  let ?s = "on_own (\<lambda>o'. o'\<lparr>ho_match := m\<rparr>) s"
  have out: "silent s ?s"
    using taken_Ready [of "ho_match (sv_own s)" peer version] step by (simp add: silent_def)
  then have "silent s (snd (Judge env peer PeerRejection.kStaleReady now ?s))" by (rule silent_trans [OF _ silent_Judge])
  then show ?thesis using out by (simp only: HandleReady_def step Let_def prod.case split: if_split) simp
qed

lemma silent_players: "silent s (on_own (\<lambda>o'. o'\<lparr>ho_players := f (ho_players o')\<rparr>) s)"
  by (simp add: silent_def)

lemma silent_take_in: "silent s (take_in env vlength peer session commands now s)"
proof (induction commands arbitrary: s)
  case (Cons command commands)
  show ?case
  proof (cases "map_of (ho_players (sv_own s)) session")
    case (Some player)
    obtain enqueued queue where step: "TryEnqueue vlength (hp_commands player) command = (enqueued, queue)" by fastforce
    let ?s = "on_own (\<lambda>o'. o'\<lparr>ho_players := map (\<lambda>(key, p).
        (key, if key = session then p\<lparr>hp_commands := queue\<rparr> else p)) (ho_players o')\<rparr>) s"
    have one: "silent s ?s" by (rule silent_players)
    show ?thesis
    proof (cases enqueued)
      case (Inr r)
      have "take_in env vlength peer session (command # commands) now s = take_in env vlength peer session commands now ?s"
        by (simp only: take_in.simps Some step Inr option.case prod.case sum.case Let_def)
      then show ?thesis using silent_trans [OF one Cons.IH] by (simp only:)
    next
      case (Inl rejection)
      obtain verdict s' where judged: "Judge env peer (ToPeerRejection rejection) now ?s = (verdict, s')" by fastforce
      have two: "silent s s'"
        using silent_trans [OF one silent_Judge, of env peer "ToPeerRejection rejection" now] unfolding judged snd_conv .
      have "take_in env vlength peer session (command # commands) now s =
          (if verdict = kDisconnect then s' else take_in env vlength peer session commands now s')"
        by (simp only: take_in.simps Some step Inl option.case prod.case sum.case Let_def judged)
      then show ?thesis using two silent_trans [OF two Cons.IH] by simp
    qed
  qed simp
qed simp

lemma silent_HandleCommands: "silent s (HandleCommands env vlength peer commands now s)"
  by (simp add: HandleCommands_def silent_Judge silent_take_in split: option.split)

text \<open>A join alone takes an ID.\<close>

definition nearly_silent :: "('f, 'w) host \<Rightarrow> ('f, 'w) host \<Rightarrow> bool" where
  "nearly_silent s s' \<longleftrightarrow> (\<exists>taken \<ge> m_taken (ho_match (sv_own s)). taken \<le> m_taken (ho_match (sv_own s)) + 1 \<and>
     silent (on_own (\<lambda>o'. o'\<lparr>ho_match := (ho_match o')\<lparr>m_taken := taken\<rparr>\<rparr>) s) s')"

lemma nearly_silent: "silent s s' \<Longrightarrow> nearly_silent s s'"
  unfolding nearly_silent_def by (rule exI [of _ "m_taken (ho_match (sv_own s))"]) (simp add: silent_def)

lemma nearly_HandleJoinRequest: "nearly_silent s (HandleJoinRequest env ids config peer request now s)"
proof -
  obtain result m where step: "Match_Join ids (ho_match (sv_own s)) peer request = (result, m)" by fastforce
  let ?s = "on_own (\<lambda>o'. o'\<lparr>ho_match := m\<rparr>) s"
  have taken: "m_taken (ho_match (sv_own s)) \<le> m_taken m \<and> m_taken m \<le> m_taken (ho_match (sv_own s)) + 1"
    using taken_Join [of "ho_match (sv_own s)" ids peer request] step by simp
  have "silent ?s (HandleJoinRequest env ids config peer request now s)"
  proof (cases result)
    case (Inl refusal)
    show ?thesis unfolding HandleJoinRequest_def step Inl
      by (simp add: silent_trans [OF silent_Reply silent_Judge])
  next
    case (Inr admission)
    let ?s' = "Reply env peer (AdmittedMessage admission) (on_gate (\<lambda>g. PeerGate_Admitted g peer) ?s)"
    have replied: "silent ?s ?s'" by (rule silent_trans [OF _ silent_Reply]) simp
    have "silent ?s (SendRoster env (on_own (\<lambda>o'. o'\<lparr>ho_players := ho_players o' @
                   [(ad_session admission, \<lparr>hp_peer = peer, hp_commands = CommandQueue_init (hc_tick_rate_hz config)\<rparr>)]\<rparr>) ?s'))"
      by (rule silent_trans [OF silent_trans [OF replied silent_players] silent_SendRoster])
    then show ?thesis using replied by (simp only: HandleJoinRequest_def step Inr prod.case sum.case Let_def split: option.split) simp
  qed
  then have "silent (on_own (\<lambda>o'. o'\<lparr>ho_match := (ho_match o')\<lparr>m_taken := m_taken m\<rparr>\<rparr>) s) (HandleJoinRequest env ids config peer request now s)"
    by (simp add: silent_def)
  then show ?thesis using taken unfolding nearly_silent_def by blast
qed

lemma nearly_HandleMessage: "nearly_silent s (HandleMessage env vlength ids config now message s)"
proof (cases "pm_body message")
  case (Said said)
  have "silent s (RefuseAsNoReplayServer env (pm_from message) now s)"
    unfolding RefuseAsNoReplayServer_def by (rule silent_trans [OF silent_Reply silent_Judge])
  moreover have "silent s (HandleDebugSubscribe (pm_from message) flags s)" for flags
    by (simp add: HandleDebugSubscribe_def silent_def)
  ultimately show ?thesis
    using Said nearly_HandleJoinRequest nearly_silent [OF silent_HandleCommands] nearly_silent [OF silent_HandleReady]
    by (cases said) (simp_all only: HandleMessage_def Let_def Said.case ClientMessage.case nearly_silent)
qed (simp_all add: HandleMessage_def nearly_silent silent_Judge)


section \<open>The Simulation thread tells it what the contract allows\<close>

lemma telling_silent:
  "silent s s' \<Longrightarrow> telling codec header ids tick_of bodies slack n (sv_own s) \<Longrightarrow> telling codec header ids tick_of bodies slack n (sv_own s')"
  by (simp add: silent_def telling_def told_log_def)

lemma telling_later: "telling codec header ids tick_of bodies slack n o' \<Longrightarrow> n \<le> n' \<Longrightarrow> slack \<le> slack' \<Longrightarrow> telling codec header ids tick_of bodies slack' n' o'"
  unfolding telling_def by auto

lemma telling_taken:
  assumes "telling codec header ids tick_of bodies slack n o'" and "m_taken (ho_match o') \<le> taken" and "taken \<le> m_taken (ho_match o') + 1"
  shows "telling codec header ids tick_of bodies slack (n + 1) (o'\<lparr>ho_match := (ho_match o')\<lparr>m_taken := taken\<rparr>\<rparr>)"
proof -
  have "ids ` {..<m_taken (ho_match o')} \<subseteq> ids ` {..<taken}" using assms(2) by (intro image_mono) auto
  then show ?thesis using assms by (auto simp: telling_def told_log_def)
qed

lemma telling_nearly:
  assumes "nearly_silent s s'" and "telling codec header ids tick_of bodies slack n (sv_own s)"
  shows "telling codec header ids tick_of bodies slack (n + 1) (sv_own s')"
proof -
  obtain taken where taken: "m_taken (ho_match (sv_own s)) \<le> taken" "taken \<le> m_taken (ho_match (sv_own s)) + 1"
    and rest: "silent (on_own (\<lambda>o'. o'\<lparr>ho_match := (ho_match o')\<lparr>m_taken := taken\<rparr>\<rparr>) s) s'"
    using assms(1) unfolding nearly_silent_def by blast
  show ?thesis by (rule telling_silent [OF rest]) (simp add: telling_taken [OF assms(2) taken, simplified])
qed

lemma silent_EndMatch: "silent s (EndMatch env winner s)"
proof -
  obtain ended m where step: "Match_End (ho_match (sv_own s)) winner = (ended, m)" by fastforce
  show ?thesis
  proof (cases ended)
    case None
    then show ?thesis by (simp add: EndMatch_def step)
  next
    case (Some end')
    let ?s = "on_own (\<lambda>o'. o'\<lparr>ho_match := m\<rparr>) s"
    have "m_taken m = m_taken (ho_match (sv_own s))" using step by (auto simp: Match_End_def split: if_splits)
    then have one: "silent s ?s" by (simp add: silent_def)
    let ?s' = "SendTo env (me_players end') (MatchEndMessage (me_winner end')) ?s"
    have two: "silent s ?s'" by (rule silent_trans [OF one silent_SendTo])
    let ?s'' = "on_own (\<lambda>o'. o'\<lparr>ho_match_winner := me_winner end'\<rparr>) ?s'"
    have "silent ?s' ?s''" by (simp add: silent_def)
    then have "silent s (SendRoster env ?s'')" by (rule silent_trans [OF silent_trans [OF two] silent_SendRoster])
    then show ?thesis by (simp only: EndMatch_def step Some Let_def prod.case option.case)
  qed
qed

lemma fold_leave:
  "fold (\<lambda>(session, entity). tell (LeaveIn tick entity)) xs o' = o'\<lparr>ho_told := ho_told o' @ map (\<lambda>x. LeaveIn tick (snd x)) xs\<rparr>"
  by (induction xs arbitrary: o') (auto simp: tell_def)

lemma telling_TakeOut:
  assumes "telling codec header ids tick_of bodies 0 n (sv_own s)" and "n < 2 ^ 62" and "simulation_contract ops tick_of bodies"
  shows "telling codec header ids tick_of bodies 0 n (sv_own (TakeOutEndedMatch ops config s))"
proof -
  let ?o = "sv_own s"
  define gone where "gone = filter (\<lambda>(session, entity). map_of (ho_players ?o) session = None) (ho_bodies ?o)"
  define items where "items = (if hc_captures config then map (\<lambda>x. LeaveIn (ho_tick ?o) (snd x)) gone @ [EndIn (ho_tick ?o) (ho_match_winner ?o)] else [])"
  have own: "sv_own (TakeOutEndedMatch ops config s) = ?o\<lparr>ho_world := si_end ops (ho_world ?o),
      ho_told := ho_told ?o @ items, ho_bodies := [], ho_simulating := False\<rparr>"
    by (simp add: TakeOutEndedMatch_def Let_def items_def gone_def fold_leave tell_def)
  have "list_all (tick_fine (ho_tick ?o) killers) items" for killers by (auto simp: items_def list_all_iff)
  then show ?thesis
    using assms(1,2) contract_end [OF assms(3)]
    by (intro telling_more [OF assms(1), of n _ items "ho_tick ?o"]) (simp_all add: own telling_def)
qed

lemma take_out_telling:
  assumes "simulation_contract ops tick_of bodies"
  shows "\<exists>world items. fold (take_out ops config tick) gone o' = o'\<lparr>ho_world := world, ho_told := ho_told o' @ items\<rparr> \<and>
     tick_of world = tick_of (ho_world o') \<and> bodies world \<subseteq> bodies (ho_world o') \<and>
     (\<forall>killers. list_all (tick_fine tick killers) items)"
proof (induction gone arbitrary: o')
  case Nil
  show ?case by (intro exI [of _ "ho_world o'"] exI [of _ "[]"]) simp
next
  case (Cons body gone)
  let ?o = "take_out ops config tick body o'"
  obtain world items where rest: "fold (take_out ops config tick) gone ?o = ?o\<lparr>ho_world := world, ho_told := ho_told ?o @ items\<rparr>"
     "tick_of world = tick_of (ho_world ?o)" "bodies world \<subseteq> bodies (ho_world ?o)" "\<forall>killers. list_all (tick_fine tick killers) items"
    using Cons.IH [of ?o] by blast
  define told where "told = (if hc_captures config then [LeaveIn tick (snd body)] else [])"
  have one: "?o = o'\<lparr>ho_world := si_remove ops (snd body) (ho_world o'), ho_told := ho_told o' @ told\<rparr>"
    by (simp add: take_out_def Let_def tell_def told_def)
  have "tick_of world = tick_of (ho_world o')" "bodies world \<subseteq> bodies (ho_world o')"
    using rest(2,3) contract_remove [OF assms, of "snd body" "ho_world o'"] by (auto simp: one)
  moreover have "\<forall>killers. list_all (tick_fine tick killers) (told @ items)" using rest(4) by (simp add: told_def)
  ultimately show ?case using rest(1)
    by (intro exI [of _ world] exI [of _ "told @ items"]) (simp add: one)
qed

lemma next_tick: "unat (tick :: u64) \<le> n \<Longrightarrow> n < 2 ^ 62 \<Longrightarrow> unat (tick + 1) = unat tick + 1"
  by (simp add: unat_word_ariths)

lemma telling_erase_gone:
  assumes "telling codec header ids tick_of bodies 0 n o'" and "n < 2 ^ 62" and "simulation_contract ops tick_of bodies"
  shows "telling codec header ids tick_of bodies 1 n (erase_gone ops config (ho_tick o' + 1) o')"
proof -
  let ?playing = "\<lambda>body. Match_IsPlaying (ho_match o') (fst body)"
  obtain world items where out: "fold (take_out ops config (ho_tick o' + 1)) (filter (\<lambda>body. \<not> ?playing body) (ho_bodies o')) o' =
       o'\<lparr>ho_world := world, ho_told := ho_told o' @ items\<rparr>"
     "tick_of world = tick_of (ho_world o')" "bodies world \<subseteq> bodies (ho_world o')"
     "\<forall>killers. list_all (tick_fine (ho_tick o' + 1) killers) items"
    using take_out_telling [OF assms(3)] by blast
  have own: "erase_gone ops config (ho_tick o' + 1) o' =
      o'\<lparr>ho_world := world, ho_told := ho_told o' @ items, ho_bodies := filter ?playing (ho_bodies o')\<rparr>"
    by (simp add: erase_gone_def Let_def out(1))
  have "unat (ho_tick o' + 1) = unat (ho_tick o') + 1"
    using assms(1,2) by (intro next_tick) (auto simp: telling_def)
  then show ?thesis
    using assms(1,2) out(2-4)
    by (intro telling_more [OF assms(1), of n _ items "ho_tick o' + 1"]) (auto simp: own telling_def)
qed


lemma started_once:
  assumes "Match_TryStart ids m = (Some start, m')" and "match_inv ids config m" and "strict_mono ids"
    and "mc_player_count config \<le> 255"
  shows "distinct (map mp_session (ms_players start))" and "distinct (map mp_entity (ms_players start))"
    and "length (ms_players start) \<le> 255" and "ms_match start = ids (m_taken m)" and "m_taken m' = m_taken m + 1"
    and "\<not> m_in_match m"
proof -
  let ?ms = "MembersBySession m"
  have players: "ms_players start = map2 (\<lambda>member k. \<lparr>mp_session = mb_session member, mp_entity = m_next_entity m + word_of_nat k,
         mp_character = mb_character member, mp_spawn = mb_spawn member\<rparr>) ?ms [0..<length ?ms]"
    and rest: "ms_match start = ids (m_taken m)" "m_taken m' = m_taken m + 1" "\<not> m_in_match m"
    using assms(1) by (auto simp: Match_TryStart_def fold_start_player split: if_splits)
  show "ms_match start = ids (m_taken m)" "m_taken m' = m_taken m + 1" "\<not> m_in_match m" by (rule rest)+
  have count: "length ?ms \<le> 255" using assms(2,4) by (simp add: MembersBySession_def match_inv_def config_kept_def)
  then show "length (ms_players start) \<le> 255" by (simp add: players)
  have "map mp_session (ms_players start) = map mb_session ?ms" unfolding players by (rule nth_equalityI) simp_all
  also have "\<dots> = sort (sessions m)"
    by (simp add: MembersBySession_def sort_map_sessions sessions_def split_def comp_def)
  finally show "distinct (map mp_session (ms_players start))"
    using assms(2,3) by (simp add: match_inv_def sessions_ok_def strict_sorted_iff)
  have "k = k'" if "k < length ?ms" "k' < length ?ms" "m_next_entity m + word_of_nat k = m_next_entity m + (word_of_nat k' :: u32)" for k k'
  proof -
    have "(word_of_nat k :: u32) = word_of_nat k'" using that(3) by simp
    then show ?thesis using that(1,2) count by (simp add: word_of_nat_eq_iff take_bit_nat_eq_self)
  qed
  then show "distinct (map mp_entity (ms_players start))" by (auto simp: players distinct_conv_nth)
qed

lemma silent_enter_players: "silent s (enter_players config players s)"
proof (induction players arbitrary: s)
  case (Cons player players)
  let ?s = "on_own (\<lambda>o'. o'\<lparr>ho_bodies := emplace (mp_session player) (mp_entity player) (ho_bodies o'),
      ho_players := map (\<lambda>(key, p). (key, if key = mp_session player
        then p\<lparr>hp_commands := CommandQueue_init (hc_tick_rate_hz config)\<rparr> else p)) (ho_players o')\<rparr>) s"
  have "silent s ?s" by (simp add: silent_def)
  then have "silent s (enter_players config players ?s)" by (rule silent_trans [OF _ Cons.IH])
  then show ?case by (simp only: enter_players.simps silent_throw split: if_split) simp
qed simp

lemma entrants_entities: "length spawns = length players \<Longrightarrow> map ce_entity (entrants_of players spawns) = map mp_entity players"
  "length spawns = length players \<Longrightarrow> map ce_session (entrants_of players spawns) = map mp_session players"
  by (rule nth_equalityI; simp add: entrants_of_def)+

text \<open>A match begun: its ID never told before, and the bodies in the world its entrants' only.\<close>

lemma telling_start:
  assumes old: "telling codec header ids tick_of bodies 1 n o'" and "bodies (ho_world o') = {}"
    and fresh: "strict_mono ids" "length (ids (m_taken (ho_match o'))) = 16" "ids (m_taken (ho_match o')) \<noteq> nil_uuid"
    and players: "distinct (map mp_session players)" "distinct (map mp_entity players)" "length players \<le> 255"
    and world: "tick_of world = tick_of (ho_world o')" "bodies world \<subseteq> bodies (ho_world o') \<union> mp_entity ` set players"
      "length spawns = length players"
    and told: "ho_told o'' = ho_told o' @
        [StartIn health (ids (m_taken (ho_match o'))) (entrants_of players spawns) tick clock]"
    and now: "ho_world o'' = world" "ho_simulating o''" "ho_tick o'' = ho_tick o'" "m_taken (ho_match o'') = m_taken (ho_match o') + 1"
  shows "telling codec header ids tick_of bodies 1 (n + 1) o''"
proof -
  let ?taken = "m_taken (ho_match o')" and ?l = "told_log codec header o'"
  let ?item = "StartIn health (ids ?taken) (entrants_of players spawns) tick clock"
  note old = old [unfolded telling_def]
  have "ids ?taken \<notin> ids ` {..<?taken}" using fresh(1) by (auto simp: strict_mono_eq)
  then have new: "ids ?taken \<notin> cl_started ?l" using old by auto
  have entities: "ce_entity ` set (entrants_of players spawns) = mp_entity ` set players"
    using arg_cong [OF entrants_entities(1) [OF world(3)], of set] by simp
  have "length (entrants_of players spawns) = length players" using world(3) by (simp add: entrants_of_def)
  then have ok: "input_ok ?l ?item" using fresh(2,3) new players world(3) by (simp add: entrants_entities)
  have kept: "ids ` {..<?taken} \<subseteq> ids ` {..<Suc ?taken}" by (intro image_mono) auto
  let ?l' = "log_input codec header ?item ?l"
  have log: "told_log codec header o'' = ?l'" by (simp only: told_log_def told log_inputs_append log_inputs_one)
  have "inputs_ok codec header (ho_told o'') log_init"
    using told old ok by (simp add: inputs_ok_append told_log_def)
  moreover have "cl_started ?l' \<subseteq> insert (ids ?taken) (cl_started ?l)" "cl_tick ?l' = cl_tick ?l"
    "cl_current ?l' \<noteq> None \<Longrightarrow> cl_entrants ?l' = entrants_of players spawns"
    by (auto split: sum.splits if_splits)
  moreover have "bodies world \<subseteq> ce_entity ` set (entrants_of players spawns)" using world(2) assms(2) entities by simp
  ultimately show ?thesis using old now world(1) kept unfolding telling_def log by (auto simp: lessThan_Suc)
qed

lemma telling_StartMatchIfReady:
  assumes old: "telling codec header ids tick_of bodies 1 n (sv_own s)" and contract: "simulation_contract ops tick_of bodies"
    and match: "match_inv ids (hc_match config) (ho_match (sv_own s))" and "mc_player_count (hc_match config) \<le> 255"
    and ids: "strict_mono ids" "\<And>k. k \<le> n \<Longrightarrow> length (ids k) = 16 \<and> ids k \<noteq> nil_uuid"
    and idle: "ho_simulating (sv_own s) \<Longrightarrow> m_in_match (ho_match (sv_own s))" and captures: "hc_captures config"
  shows "telling codec header ids tick_of bodies 1 (n + 1) (sv_own (StartMatchIfReady env ops ids config health clock s))"
proof -
  obtain started m where step: "Match_TryStart ids (ho_match (sv_own s)) = (started, m)" by fastforce
  let ?s = "on_own (\<lambda>o'. o'\<lparr>ho_match := m\<rparr>) s"
  show ?thesis
  proof (cases started)
    case None
    then have "m = ho_match (sv_own s)" using step by (auto simp: Match_TryStart_def split: if_splits prod.splits)
    moreover have "StartMatchIfReady env ops ids config health clock s = on_own (\<lambda>o'. o'\<lparr>ho_match := m\<rparr>) s"
      by (simp only: StartMatchIfReady_def step None prod.case option.case)
    ultimately have same: "silent s (StartMatchIfReady env ops ids config health clock s)" by (simp add: silent_def)
    show ?thesis by (rule telling_silent [OF same telling_later [OF old]]) simp_all
  next
    case (Some start)
    note start = started_once [OF step [unfolded Some] match ids(1) assms(4)]
    let ?in = "enter_players config (ms_players start) ?s"
    have entered: "silent ?s ?in" by (rule silent_enter_players)
    have taken: "ho_world (sv_own ?in) = ho_world (sv_own s)" "ho_told (sv_own ?in) = ho_told (sv_own s)"
      "ho_tick (sv_own ?in) = ho_tick (sv_own s)" "ho_simulating (sv_own ?in) = ho_simulating (sv_own s)"
      "ho_thread (sv_own ?in) = ho_thread (sv_own s)" "m_taken (ho_match (sv_own ?in)) = m_taken m"
      using entered by (simp_all add: silent_def)
    obtain spawns world where world: "si_start ops (ms_players start) (hc_spawn_points config) (ho_world (sv_own ?in)) = (spawns, world)"
      by fastforce
    show ?thesis
    proof (cases "ho_threw (sv_own ?in)")
      case True
      have "StartMatchIfReady env ops ids config health clock s = ?in"
        by (simp only: StartMatchIfReady_def step Some prod.case option.case Let_def True if_True)
      moreover have "nearly_silent s ?in" unfolding nearly_silent_def
        by (rule exI [of _ "m_taken m"]) (use taken start(5) in \<open>simp add: silent_def\<close>)
      ultimately show ?thesis using telling_nearly [OF _ old] by (simp only:)
    next
      case False
      let ?tick = "ho_tick (sv_own ?in) + 1"
      let ?s1 = "on_own (\<lambda>o'. o'\<lparr>ho_world := world, ho_simulating := True, ho_match_start_tick := ?tick, ho_match_id := ms_match start\<rparr>) ?in"
      let ?s2 = "on_own (tell (StartIn health (ms_match start) (entrants_of (ms_players start) spawns) ?tick clock)) ?s1"
      have result: "StartMatchIfReady env ops ids config health clock s =
          SendTo env (map mp_session (ms_players start)) (MatchStartMessage start spawns ?tick (ms_match start)) ?s2"
        by (simp only: StartMatchIfReady_def step Some prod.case option.case Let_def world False captures if_False if_True)
      have empty: "bodies (ho_world (sv_own s)) = {}" using idle start(6) old by (auto simp: telling_def)
      have "m_taken (ho_match (sv_own s)) \<le> n" using old by (simp add: telling_def)
      note id = ids(2) [OF this]
      note contract = contract_start [OF contract world]
      have "telling codec header ids tick_of bodies 1 (n + 1) (sv_own ?s2)"
        using id contract taken start(4,5)
        by (intro telling_start [OF old empty ids(1) _ _ start(1-3), where spawns = spawns and world = world
              and health = health and tick = ?tick and clock = clock]) (simp_all add: tell_def)
      then show ?thesis unfolding result by (rule telling_silent [OF silent_SendTo])
    qed
  qed
qed

lemma telling_take_inputs:
  assumes "telling codec header ids tick_of bodies 1 n (sv_own s)" and "n < 2 ^ 62"
  shows "telling codec header ids tick_of bodies 1 n (sv_own (snd (take_inputs config (ho_tick (sv_own s) + 1) players s)))"
  using assms(1)
proof (induction players arbitrary: s)
  case (Cons session players)
  let ?tick = "ho_tick (sv_own s) + 1"
  show ?case
  proof (cases "map_of (ho_players (sv_own s)) session = None \<or> map_of (ho_bodies (sv_own s)) session = None")
    case True
    then have "sv_own (snd (take_inputs config ?tick (session # players) s)) = sv_own (throw s)" by (auto split: option.split)
    then show ?thesis using telling_silent [OF silent_throw Cons.prems] by simp
  next
    case False
    then obtain player entity where here: "map_of (ho_players (sv_own s)) session = Some player" "map_of (ho_bodies (sv_own s)) session = Some entity"
      by auto
    obtain taken queue where taken: "Next (hp_commands player) = (taken, queue)" by fastforce
    let ?s = "on_own (\<lambda>o'. o'\<lparr>ho_players := map (\<lambda>(key, p).
        (key, if key = session then p\<lparr>hp_commands := queue\<rparr> else p)) (ho_players o')\<rparr>) s"
    let ?s' = "if hc_captures config \<and> tc_sent taken then on_own (tell (CommandIn ?tick entity (tc_command taken))) ?s else ?s"
    let ?items = "if hc_captures config \<and> tc_sent taken then [CommandIn ?tick entity (tc_command taken)] else []"
    have now: "tick_of (ho_world (sv_own s)) = ho_tick (sv_own s)" "unat (ho_tick (sv_own s)) \<le> n"
      "\<not> ho_simulating (sv_own s) \<Longrightarrow> bodies (ho_world (sv_own s)) = {}"
      using Cons.prems by (simp_all add: telling_def)
    have own: "ho_told (sv_own ?s') = ho_told (sv_own s) @ ?items" "ho_world (sv_own ?s') = ho_world (sv_own s)"
      "ho_tick (sv_own ?s') = ho_tick (sv_own s)" "ho_match (sv_own ?s') = ho_match (sv_own s)"
      "ho_simulating (sv_own ?s') = ho_simulating (sv_own s)"
      by (simp_all add: tell_def)
    have "telling codec header ids tick_of bodies 1 n (sv_own ?s')"
      by (rule telling_more [OF Cons.prems, of n _ ?items ?tick])
        (use now next_tick [OF now(2) assms(2)] assms(2) in \<open>simp_all add: own\<close>)
    then have "telling codec header ids tick_of bodies 1 n (sv_own (snd (take_inputs config (ho_tick (sv_own ?s') + 1) players ?s')))"
      by (rule Cons.IH)
    moreover note own(3)
    moreover have "snd (take_inputs config ?tick (session # players) s) = snd (take_inputs config ?tick players ?s')"
      by (simp only: take_inputs.simps here taken option.case prod.case Let_def) (simp only: case_prod_beta snd_conv)
    ultimately show ?thesis by (simp only:)
  qed
qed simp


section \<open>Every run\<close>

lemma StartMatchIfReady_tick:
  "ho_tick (sv_own (StartMatchIfReady env ops ids config health clock s)) = ho_tick (sv_own s)"
proof -
  obtain started m where step: "Match_TryStart ids (ho_match (sv_own s)) = (started, m)" by fastforce
  have entered: "ho_tick (sv_own (enter_players config players s')) = ho_tick (sv_own s')" for players s'
    using silent_enter_players [of s' config players] by (simp add: silent_def)
  have sent: "ho_tick (sv_own (SendTo env players message s')) = ho_tick (sv_own s')" for players message s'
    using silent_SendTo [of s' env players message] by (simp add: silent_def)
  show ?thesis
    by (simp add: StartMatchIfReady_def step entered sent Let_def tell_def split: option.split prod.split)
qed

lemma telling_cleared:
  assumes old: "telling codec header ids tick_of bodies 0 n (sv_own s)" and "n < 2 ^ 62" and contract: "simulation_contract ops tick_of bodies"
  shows "telling codec header ids tick_of bodies 1 n (sv_own (cleared ops config s))"
    and "ho_simulating (sv_own (cleared ops config s)) \<Longrightarrow> m_in_match (ho_match (sv_own (cleared ops config s)))"
    and "ho_tick (sv_own (cleared ops config s)) = ho_tick (sv_own s)"
proof -
  let ?s1 = "if ho_simulating (sv_own s) \<and> \<not> m_in_match (ho_match (sv_own s)) then TakeOutEndedMatch ops config s else s"
  let ?s2 = "on_own (erase_gone ops config (ho_tick (sv_own ?s1) + 1)) ?s1"
  let ?s3 = "on_own (\<lambda>o'. o'\<lparr>ho_match := Match_Tick (ho_match o')\<rparr>) ?s2"
  have one: "telling codec header ids tick_of bodies 0 n (sv_own ?s1)" using telling_TakeOut [OF assms] old by simp
  have two: "telling codec header ids tick_of bodies 1 n (sv_own ?s2)"
    using telling_erase_gone [OF one assms(2) contract] by (simp only: own_fields)
  have three: "silent ?s2 ?s3" by (simp add: silent_def Match_Tick_def)
  have shape: "cleared ops config s = ?s3" by (simp only: cleared_def Let_def)
  show "telling codec header ids tick_of bodies 1 n (sv_own (cleared ops config s))"
    unfolding shape by (rule telling_silent [OF three two])
  have out: "\<not> ho_simulating (sv_own (TakeOutEndedMatch ops config s))"
    by (rule TakeOutEndedMatch_own [of s ops config]) simp
  obtain o'' where gone: "driven (sv_own ?s1) o''" "erase_gone ops config (ho_tick (sv_own ?s1) + 1) (sv_own ?s1) =
      o''\<lparr>ho_bodies := filter (\<lambda>body. Match_IsPlaying (ho_match (sv_own ?s1)) (fst body)) (ho_bodies (sv_own ?s1))\<rparr>"
    by (rule erase_gone_own)
  have own: "ho_simulating (sv_own ?s3) = ho_simulating (sv_own ?s1)" "m_in_match (ho_match (sv_own ?s3)) = m_in_match (ho_match (sv_own ?s1))"
    "ho_tick (sv_own ?s3) = ho_tick (sv_own ?s1)"
    by (simp_all only: own_fields gone(2)) (simp_all add: driven_fields [OF gone(1)] Match_Tick_def)
  show "m_in_match (ho_match (sv_own (cleared ops config s)))" if "ho_simulating (sv_own (cleared ops config s))"
    using that out unfolding shape own by (simp split: if_splits)
  show "ho_tick (sv_own (cleared ops config s)) = ho_tick (sv_own s)"
    unfolding shape own by (simp add: TakeOutEndedMatch_tick)
qed

lemma telling_PrepareTick:
  assumes old: "telling codec header ids tick_of bodies 0 n (sv_own s)" and contract: "simulation_contract ops tick_of bodies"
    and inv: "hosted_inv ids config (sv_own s)" and "mc_player_count (hc_match config) \<le> 255" and "hc_captures config"
    and ids: "strict_mono ids" "\<And>k. k \<le> n \<Longrightarrow> length (ids k) = 16 \<and> ids k \<noteq> nil_uuid" and "n + 1 < 2 ^ 62"
  shows "telling codec header ids tick_of bodies 1 (n + 1) (sv_own (snd (PrepareTick env ops ids config health clock s)))"
proof -
  let ?s = "StartMatchIfReady env ops ids config health clock (cleared ops config s)"
  have "n < 2 ^ 62" using assms(8) by simp
  note clear = telling_cleared [OF old this contract]
  have started: "telling codec header ids tick_of bodies 1 (n + 1) (sv_own ?s)"
    by (rule telling_StartMatchIfReady [OF clear(1) contract hosted_invD(1) [OF cleared_inv [OF inv]] assms(4) ids clear(2) assms(5)])
  have "telling codec header ids tick_of bodies 1 (n + 1) (sv_own (snd (take_inputs config (ho_tick (sv_own ?s) + 1)
      (Match_Playing (ho_match (sv_own ?s))) ?s)))"
    by (rule telling_take_inputs [OF started assms(8)])
  moreover have "ho_tick (sv_own ?s) = ho_tick (sv_own s)" by (simp only: StartMatchIfReady_tick clear(3))
  ultimately show ?thesis using started by (simp only: PrepareTick_cleared Let_def split: if_split) simp
qed

lemma fold_deaths:
  "fold (\<lambda>(victim, killer). tell (DeathIn tick victim killer)) deaths o' =
     o'\<lparr>ho_told := ho_told o' @ map (\<lambda>x. DeathIn tick (fst x) (snd x)) deaths\<rparr>"
  by (induction deaths arbitrary: o') (auto simp: tell_def)

lemma telling_RunTick:
  assumes old: "telling codec header ids tick_of bodies 1 n (sv_own s)" and contract: "simulation_contract ops tick_of bodies"
    and "n + 1 < 2 ^ 62"
  shows "telling codec header ids tick_of bodies 0 (n + 1) (sv_own (snd (RunTick ops config commands broken sending s)))"
proof -
  obtain result world where ticked: "si_tick ops commands (ho_world (sv_own s)) = (result, world)" by fastforce
  note world = contract_tick [OF contract ticked]
  define s' where "s' = on_own (\<lambda>o'. CaptureDeaths config result (o'\<lparr>ho_world := world, ho_tick := st_tick result\<rparr>)) s"
  let ?items = "if hc_captures config then map (\<lambda>x. DeathIn (st_tick result) (fst x) (snd x)) (st_deaths result) else []"
  have own: "ho_told (sv_own s') = ho_told (sv_own s) @ ?items" "ho_world (sv_own s') = world" "ho_tick (sv_own s') = st_tick result"
    "ho_match (sv_own s') = ho_match (sv_own s)" "ho_simulating (sv_own s') = ho_simulating (sv_own s)"
    by (simp_all add: s'_def CaptureDeaths_def fold_deaths)
  have now: "tick_of (ho_world (sv_own s)) = ho_tick (sv_own s)" "unat (ho_tick (sv_own s)) \<le> n"
    "\<not> ho_simulating (sv_own s) \<Longrightarrow> bodies (ho_world (sv_own s)) = {}"
    using old by (simp_all add: telling_def)
  have up: "unat (st_tick result) = unat (ho_tick (sv_own s)) + 1"
    unfolding world(1) now(1) using now(2) by (rule next_tick) (use assms(3) in linarith)
  have items: "list_all (tick_fine (st_tick result) (bodies (ho_world (sv_own s)))) ?items"
    using world(4) by (auto simp: list_all_iff)
  have "telling codec header ids tick_of bodies 0 (n + 1) (sv_own s')"
    by (rule telling_more [OF old, of "n + 1" _ ?items "st_tick result"])
      (use items up assms(3) now world in \<open>simp_all add: own\<close>)
  moreover have "silent s' (snd (RunTick ops config commands broken sending s))"
    by (auto simp: RunTick_def ticked Let_def s'_def [symmetric] split: option.split
        intro: silent_quiet silent_trans [OF silent_quiet [OF quiet_invariant] silent_quiet [OF quiet_invariant]]
          silent_trans [OF silent_quiet [OF quiet_invariant] silent_quiet [OF quiet_transport]])
  ultimately show ?thesis by (rule telling_silent [rotated])
qed

fun slack_of :: "sim_thread \<Rightarrow> nat" where
  "slack_of (Prepared commands) = 1"
| "slack_of thread = 0"

lemma telling_thread [simp]:
  "telling codec header ids tick_of bodies slack n (o'\<lparr>ho_thread := thread\<rparr>) = telling codec header ids tick_of bodies slack n o'"
  by (simp add: telling_def told_log_def)

lemma silent_slack:
  assumes "nearly_silent s s'" and "telling codec header ids tick_of bodies (slack_of (ho_thread (sv_own s))) n (sv_own s)"
  shows "telling codec header ids tick_of bodies (slack_of (ho_thread (sv_own s'))) (n + 1) (sv_own s')"
proof -
  have "ho_thread (sv_own s') = ho_thread (sv_own s)" using assms(1) by (auto simp: nearly_silent_def silent_def)
  then show ?thesis using telling_nearly [OF assms] by simp
qed

lemma silent_fold_Expel: "silent s (fold (Expel env) peers s)"
  by (induction peers arbitrary: s) (auto intro: silent_trans [OF silent_Expel])

lemma nearly_network:
  "nearly_silent s (host_step env ops vlength ids config s (PeerIn event now))"
  "nearly_silent s (host_step env ops vlength ids config s (MessageIn message now))"
  "nearly_silent s (host_step env ops vlength ids config s (ReceiveFailed failure))"
  "nearly_silent s (host_step env ops vlength ids config s (OverdueIn now))"
  "nearly_silent s (host_step env ops vlength ids config s EndMatchIn)"
proof -
  show "nearly_silent s (host_step env ops vlength ids config s (PeerIn event now))"
    by (simp add: pump_event_def nearly_silent silent_HandleDisconnect split: PeerEventType.split)
  have "nearly_silent s (HandleMessage env vlength ids config now message (s\<lparr>sv_received_bytes := bytes\<rparr>))" for bytes
    using nearly_HandleMessage [of "s\<lparr>sv_received_bytes := bytes\<rparr>" env vlength ids config now message]
    by (simp add: nearly_silent_def silent_def)
  then show "nearly_silent s (host_step env ops vlength ids config s (MessageIn message now))"
    by (simp add: pump_message_def nearly_silent)
  show "nearly_silent s (host_step env ops vlength ids config s (ReceiveFailed failure))"
    by (simp add: nearly_silent silent_quiet)
  obtain overdue gate where taken: "PeerGate_TakeOverdue (sv_gate s) now = (overdue, gate)" by fastforce
  let ?s = "fold (Expel env) overdue (s\<lparr>sv_gate := gate\<rparr>)"
  have "silent s ?s" by (rule silent_trans [OF silent_own silent_fold_Expel]) simp
  then have "silent s (?s\<lparr>sv_gate := PeerGate_EndRound (sv_gate ?s)\<rparr>)" by (simp add: silent_def)
  then show "nearly_silent s (host_step env ops vlength ids config s (OverdueIn now))"
    by (simp add: overdue_step_def taken Let_def nearly_silent)
  show "nearly_silent s (host_step env ops vlength ids config s EndMatchIn)"
    by (simp add: nearly_silent silent_EndMatch)
qed

lemma telling_step:
  assumes old: "telling codec header ids tick_of bodies (slack_of (ho_thread (sv_own s))) n (sv_own s)"
    and contract: "simulation_contract ops tick_of bodies"
    and inv: "hosted_inv ids config (sv_own s)" and config: "mc_player_count (hc_match config) \<le> 255" "hc_captures config"
    and ids: "strict_mono ids" "\<And>k. k \<le> n \<Longrightarrow> length (ids k) = 16 \<and> ids k \<noteq> nil_uuid" and small: "n + 1 < 2 ^ 62"
  shows "telling codec header ids tick_of bodies (slack_of (ho_thread (sv_own (host_step env ops vlength ids config s e)))) (n + 1)
    (sv_own (host_step env ops vlength ids config s e))"
proof (cases e)
  case (PrepareIn health clock)
  show ?thesis
  proof (cases "ho_thread (sv_own s)")
    case Between
    then have "telling codec header ids tick_of bodies 0 n (sv_own s)" using old by simp
    then show ?thesis using telling_PrepareTick [OF _ contract inv config ids small] Between PrepareIn by (simp add: case_prod_beta)
  qed (use telling_later [OF old, of "n + 1"] PrepareIn in simp_all)
next
  case (RunIn broken sending)
  show ?thesis
  proof (cases "ho_thread (sv_own s)")
    case (Prepared commands)
    then have "telling codec header ids tick_of bodies 1 n (sv_own s)" using old by simp
    then show ?thesis using telling_RunTick [OF _ contract small] Prepared RunIn by (simp add: case_prod_beta)
  qed (use telling_later [OF old, of "n + 1"] RunIn in simp_all)
next
  case ActIn
  show ?thesis
  proof (cases "ho_thread (sv_own s)")
    case (Acting actions)
    then have later: "telling codec header ids tick_of bodies 0 (n + 1) (sv_own s)" using telling_later [OF old] by simp
    then show ?thesis using Acting ActIn telling_silent [OF silent_EndMatch later] by (cases actions) simp_all
  qed (use telling_later [OF old, of "n + 1"] ActIn in simp_all)
qed (use silent_slack [OF nearly_network(1) old] silent_slack [OF nearly_network(2) old] silent_slack [OF nearly_network(3) old]
      silent_slack [OF nearly_network(4) old] silent_slack [OF nearly_network(5) old] in \<open>simp_all only:\<close>)


lemma telling_init:
  assumes "tick_of world = 0" and "bodies world = {}"
  shows "telling codec header ids tick_of bodies 0 0 (sv_own (Host_init config world offered))"
  by (simp add: telling_def told_log_def log_inputs_def log_init_def Host_init_def Match_init_def assms)

lemma thread_init: "ho_thread (sv_own (Host_init config world offered)) = Between"
  by (simp add: Host_init_def)

lemma telling_run:
  assumes "strict_mono ids" and "\<And>k. k < length es \<Longrightarrow> length (ids k) = 16 \<and> ids k \<noteq> nil_uuid"
    and "length es < 2 ^ 62" and "simulation_contract ops tick_of bodies" and "tick_of world = 0" and "bodies world = {}"
    and "mc_player_count (hc_match config) \<le> 255" and "hc_captures config"
  shows "telling codec header ids tick_of bodies (slack_of (ho_thread (sv_own (run (host_step env ops vlength ids config) (Host_init config world offered) es)))) (length es)
    (sv_own (run (host_step env ops vlength ids config) (Host_init config world offered) es))"
  using assms(2,3)
proof (induction es rule: rev_induct)
  case Nil
  show ?case by (simp add: thread_init telling_init [where tick_of = tick_of and bodies = bodies, OF assms(5,6)])
next
  case (snoc e es)
  let ?s = "run (host_step env ops vlength ids config) (Host_init config world offered) es"
  have "telling codec header ids tick_of bodies (slack_of (ho_thread (sv_own ?s))) (length es) (sv_own ?s)"
    using snoc by simp
  from telling_step [OF this assms(4) host_run_inv [OF assms(1)] assms(7,8,1), of env vlength e] snoc.prems
  show ?case by simp
qed

text \<open>
  C5: what the server tells the Capturer, in every interleaving of its threads, is what the
  Capturer requires: each match is started once, under an ID of its own, with at most 255
  players, bodies and sessions all different; ticks never go back; and in the match being
  captured a kill is by a body that is in it. So every capture of a server run is one that
  \<open>captured_match_reads_back\<close> speaks of.
\<close>

theorem host_tells_what_the_capturer_requires:
  assumes "strict_mono ids" and "\<And>k. k < length es \<Longrightarrow> length (ids k) = 16 \<and> ids k \<noteq> nil_uuid"
    and "length es < 2 ^ 62" and "simulation_contract ops tick_of bodies" and "tick_of world = 0" and "bodies world = {}"
    and "mc_player_count (hc_match config) \<le> 255" and "hc_captures config"
  shows "inputs_ok codec header
    (ho_told (sv_own (run (host_step env ops vlength ids config) (Host_init config world offered) es))) log_init"
  using telling_run [OF assms] by (simp add: telling_def)

lemma sample_contract: "simulation_contract sample_ops fst (\<lambda>w. set (snd w))"
  by (auto simp: simulation_contract_def sample_ops_def split: if_splits)

theorem host_tells_what_the_capturer_requires_witness:
  "\<forall>codec header. inputs_ok codec header (ho_told (sv_own sample_host)) log_init"
proof -
  have ids: "length (sample_ids k) = 16 \<and> sample_ids k \<noteq> nil_uuid" if "k < length sample_run" for k
  proof -
    have "k < 100" using that by (simp add: sample_run_def)
    then have id: "sample_ids k = 1 # replicate 14 1 @ [word_of_nat k]"
      using replicate_Suc [of 14 "1 :: byte"] by (simp add: sample_ids_def)
    have nil: "nil_uuid = 0 # replicate 15 0" using replicate_Suc [of 15 "0 :: byte"] by (simp add: nil_uuid_def)
    show ?thesis unfolding id nil by simp
  qed
  have "length sample_run = 11" by (simp add: sample_run_def)
  then show ?thesis
    using host_tells_what_the_capturer_requires [OF sample_ids_mono ids _ sample_contract, where world = "(0, [])" and config = sample_server
        and env = sample_env and vlength = "\<lambda>v. 0" and offered = 0]
    by (simp add: sample_host_def sample_server_def example_config_def)
qed

end
