(* ===== verification/Capture_Read_Back.thy ===== *)
theory Capture_Read_Back
  imports Capturer_Correct
begin

text \<open>
  From what Host tells the Capturer to what its files read back as. The Capturer's calls
  are always ones its writer may be asked, and say of each Match exactly the capture it was
  told of, in the format's order, up to the first record too long; so a Match's file, at
  any moment and whatever was lost, reads back as the beginning of that capture.
\<close>

section \<open>The Capturer's invariant\<close>

definition unstarted :: "WriterCall list \<Rightarrow> capture_log \<Rightarrow> bool" where
  "unstarted cs l \<longleftrightarrow> (\<forall>m. m \<notin> cl_started l \<longrightarrow>
     call_phase cs m = Fresh \<and> call_path cs m = None \<and> call_pieces cs m = (False, []) \<and> cl_told l m = None)"

definition open_ok :: "WriterCall list \<Rightarrow> capturer \<Rightarrow> capture_log \<Rightarrow> bool" where
  "open_ok cs cp l \<longleftrightarrow>
     (\<forall>m. call_phase cs m = Opened \<longrightarrow> cp_open cp \<and> m = cp_match cp) \<and>
     (cp_open cp \<longrightarrow> cp_match cp \<in> cl_started l \<and> cp_match cp \<noteq> nil_uuid \<and> call_phase cs (cp_match cp) \<noteq> Closed)"

definition current_ok :: "capture_codec \<Rightarrow> capturer \<Rightarrow> capture_log \<Rightarrow> bool" where
  "current_ok codec cp l \<longleftrightarrow>
     (case cl_current l of
        None \<Rightarrow> cp_open cp \<longrightarrow> cp_players cp = [] \<and> cp_sessions cp = [] \<and> cl_told l (cp_match cp) = None
      | Some m \<Rightarrow>
          cp_open cp \<and> cp_match cp = m \<and> cp_first_tick cp = cl_first l \<and>
          cp_players cp = numbered (map ce_entity (cl_entrants l)) \<and>
          cp_sessions cp = numbered (map ce_session (cl_entrants l)) \<and> length (cl_entrants l) \<le> 255 \<and>
          (\<exists>c. cl_told l m = Some c \<and> ca_joins c = map (told_join codec) (cl_entrants l) \<and>
             list_all (\<lambda>e. \<not> is_match_end e \<and> at_offset e \<le> told_offset (cl_first l) (cl_tick l)) (ca_events c)))"

definition told_ok :: "capture_codec \<Rightarrow> string \<Rightarrow> WriterCall list \<Rightarrow> capturer \<Rightarrow> capture_log \<Rightarrow> bool" where
  "told_ok codec directory cs cp l \<longleftrightarrow> (\<forall>m.
     (\<forall>path. call_path cs m = Some path \<longrightarrow> cl_told l m \<noteq> None \<and> length m = 16 \<and>
        (\<exists>t. path = path_join directory (CaptureFileName (cc_to_string codec) t m))) \<and>
     (\<forall>c. cl_told l m = Some c \<longrightarrow>
        capture_valid (ca_joins c) (ca_events c) \<and> \<not> ca_torn c \<and>
        (\<exists>bytes. EncodeHeader (cc_encode codec) (ca_header c) = Inr bytes \<and>
           (\<not> cp_failed cp \<longrightarrow> call_pieces cs m = pieces_of (cc_encode codec) bytes (capture_records c)))))"

definition cap_inv :: "capture_codec \<Rightarrow> string \<Rightarrow> Header \<Rightarrow> WriterCall list \<Rightarrow> capturer \<Rightarrow> capture_log \<Rightarrow> bool" where
  "cap_inv codec directory header cs cp l \<longleftrightarrow>
     calls_ok cs \<and> cp_directory cp = directory \<and> cp_header cp = header \<and>
     unstarted cs l \<and> open_ok cs cp l \<and> current_ok codec cp l \<and> told_ok codec directory cs cp l"

lemma cap_inv_init: "cap_inv codec directory header [] (Capturer_init directory header) log_init"
  by (simp add: cap_inv_def unstarted_def open_ok_def current_ok_def told_ok_def Capturer_init_def log_init_def calls_ok.none)

lemma cap_invD:
  assumes "cap_inv codec directory header cs cp l"
  shows "calls_ok cs" "cp_directory cp = directory" "cp_header cp = header"
    and "unstarted cs l" "open_ok cs cp l" "current_ok codec cp l" "told_ok codec directory cs cp l"
  using assms by (simp_all add: cap_inv_def)

lemma told_okD:
  assumes "told_ok codec directory cs cp l"
  shows "call_path cs m = Some path \<Longrightarrow> cl_told l m \<noteq> None \<and> length m = 16"
    and "call_path cs m = Some path \<Longrightarrow> \<exists>t. path = path_join directory (CaptureFileName (cc_to_string codec) t m)"
    and "cl_told l m = Some c \<Longrightarrow> capture_valid (ca_joins c) (ca_events c) \<and> \<not> ca_torn c"
    and "cl_told l m = Some c \<Longrightarrow> \<exists>bytes. EncodeHeader (cc_encode codec) (ca_header c) = Inr bytes \<and>
      (\<not> cp_failed cp \<longrightarrow> call_pieces cs m = pieces_of (cc_encode codec) bytes (capture_records c))"
  using assms unfolding told_ok_def by blast+

text \<open>A tick asked for a moment later changes nothing but the tick.\<close>

lemma sint_clamp_mono: "a \<le> b \<Longrightarrow> low \<le> high \<Longrightarrow> clamp a low high \<le> clamp b low high"
  by (simp add: clamp_def)

lemma told_offset_mono: "t \<le>s t' \<Longrightarrow> told_offset first_tick t \<le> told_offset first_tick t'"
proof -
  assume "t \<le>s t'"
  then have "clamp (Offset first_tick t) 0 (2 ^ 32 - 1) \<le> clamp (Offset first_tick t') 0 (2 ^ 32 - 1)"
    by (intro sint_clamp_mono) (simp_all add: Offset_def word_sle_eq)
  moreover have "0 \<le> clamp x 0 (2 ^ 32 - 1) \<and> clamp x 0 (2 ^ 32 - 1) < 2 ^ 32" for x by (simp add: clamp_def)
  then have "uint (word_of_int (clamp x 0 (2 ^ 32 - 1)) :: u32) = clamp x 0 (2 ^ 32 - 1)" for x
    by (simp add: uint_word_of_int)
  ultimately show ?thesis by (simp add: told_offset_def word_le_def)
qed

lemma current_ok_tick:
  assumes "current_ok codec cp l" and "cl_tick l \<le>s t"
  shows "current_ok codec cp (l\<lparr>cl_tick := t\<rparr>)"
proof (cases "cl_current l")
  case (Some m)
  then obtain c where c: "cl_told l m = Some c"
    "list_all (\<lambda>e. \<not> is_match_end e \<and> at_offset e \<le> told_offset (cl_first l) (cl_tick l)) (ca_events c)"
    using assms(1) by (auto simp: current_ok_def)
  then have "list_all (\<lambda>e. \<not> is_match_end e \<and> at_offset e \<le> told_offset (cl_first l) t) (ca_events c)"
    using told_offset_mono [OF assms(2), of "cl_first l"] by (auto simp: list_all_iff intro: order_trans)
  then show ?thesis using assms(1) Some c by (simp add: current_ok_def)
qed (use assms in \<open>simp add: current_ok_def\<close>)

lemma cap_inv_tick:
  assumes "cap_inv codec directory header cs cp l" and "cl_tick l \<le>s t"
  shows "cap_inv codec directory header cs cp (l\<lparr>cl_tick := t\<rparr>)"
  using assms current_ok_tick [OF cap_invD(6) [OF assms(1)] assms(2)]
  by (simp add: cap_inv_def unstarted_def open_ok_def told_ok_def)

section \<open>Events\<close>

lemma capture_records_event:
  "capture_records (c\<lparr>ca_events := ca_events c @ [e]\<rparr>) = capture_records c @ [EventRecord e]"
  by (simp add: capture_records_def)

lemma capture_valid_event:
  assumes "capture_valid js es" and "list_all (\<lambda>e'. \<not> is_match_end e' \<and> at_offset e' \<le> at_offset e) es"
    and "names_known (length js) e"
  shows "capture_valid js (es @ [e])"
  using assms by (auto simp: capture_valid_def list_all_iff sorted_append)

text \<open>Queueing an event of the Match open keeps everything but the room for another.\<close>

lemma queue_event:
  assumes inv: "cap_inv codec directory header cs cp l" and current: "cl_current l = Some m" and c: "cl_told l m = Some c"
    and queue: "Capturer_Queue (EncodeEvent (cc_encode codec) e) cp = (ds, cp')"
    and offset: "at_offset e = told_offset (cl_first l) tick" "cl_tick l \<le>s tick"
    and known: "names_known (length (ca_joins c)) e"
    and l': "l' = l\<lparr>cl_told := (cl_told l)(m \<mapsto> c\<lparr>ca_events := ca_events c @ [e]\<rparr>), cl_tick := tick\<rparr>"
  shows "calls_ok (cs @ ds) \<and> cp' = cp\<lparr>cp_failed := cp_failed cp'\<rparr> \<and> unstarted (cs @ ds) l' \<and> open_ok (cs @ ds) cp' l' \<and>
    told_ok codec directory (cs @ ds) cp' l' \<and> (\<not> is_match_end e \<longrightarrow> current_ok codec cp' l')"
proof -
  note inv' = cap_invD [OF inv]
  have opn: "cp_open cp" "cp_match cp = m" "length (cl_entrants l) \<le> 255"
    and joins: "ca_joins c = map (told_join codec) (cl_entrants l)"
    and before: "list_all (\<lambda>e. \<not> is_match_end e \<and> at_offset e \<le> told_offset (cl_first l) (cl_tick l)) (ca_events c)"
    using inv'(6) current c by (auto simp: current_ok_def)
  have m: "m \<in> cl_started l" "m \<noteq> nil_uuid" "call_phase cs m \<noteq> Closed"
    using inv'(5) opn by (auto simp: open_ok_def)
  have one: "Capturer_Queue (Framed (cc_encode codec (EventRecord e))) cp = (ds, cp')"
    using queue by (simp add: EncodeEvent_def)
  note first = queue_one [where encode = "cc_encode codec" and item = "EventRecord e", OF one inv'(1)]
  have queued: "queued (cc_encode codec) cs ds cp cp' [EventRecord e]" and cp': "cp' = cp\<lparr>cp_failed := cp_failed cp'\<rparr>"
    using first m opn by auto
  have same: "cp_match cp' = cp_match cp" "cp_open cp' = cp_open cp" "cp_players cp' = cp_players cp"
    "cp_sessions cp' = cp_sessions cp" "cp_first_tick cp' = cp_first_tick cp"
    by (subst cp', simp)+
  have calls: "calls_ok (cs @ ds)" "call_phase (cs @ ds) = call_phase cs" "call_path (cs @ ds) = call_path cs"
    "cp_failed cp \<Longrightarrow> cp_failed cp'"
    "m' \<noteq> m \<Longrightarrow> call_pieces (cs @ ds) m' = call_pieces cs m'"
    "\<not> cp_failed cp' \<Longrightarrow> call_pieces cs m = pieces_of (cc_encode codec) bytes items \<Longrightarrow>
     call_pieces (cs @ ds) m = pieces_of (cc_encode codec) bytes (items @ [EventRecord e])" for m' bytes items
    using queued opn(2) by (auto simp: queued_def)
  have later: "list_all (\<lambda>e'. \<not> is_match_end e' \<and> at_offset e' \<le> at_offset e) (ca_events c)"
    using before told_offset_mono [OF offset(2), of "cl_first l"] unfolding offset(1)
    by (auto simp: list_all_iff intro: order_trans)
  have "unstarted (cs @ ds) l'"
    using inv'(4) m(1) calls by (auto simp: unstarted_def l')
  moreover have "open_ok (cs @ ds) cp' l'"
    using inv'(5) by (simp add: open_ok_def calls same l')
  moreover have "told_ok codec directory (cs @ ds) cp' l'"
    unfolding told_ok_def calls
  proof (intro allI conjI impI)
    fix m' path assume path: "call_path cs m' = Some path"
    show "cl_told l' m' \<noteq> None" "length m' = 16" using told_okD(1) [OF inv'(7) path] by (simp_all add: l')
    show "\<exists>t. path = path_join directory (CaptureFileName (cc_to_string codec) t m')"
      using told_okD(2) [OF inv'(7) path] .
  next
    fix m' c' assume told: "cl_told l' m' = Some c'"
    show "capture_valid (ca_joins c') (ca_events c')" "\<not> ca_torn c'"
      using told told_okD(3) [OF inv'(7), of m' c'] told_okD(3) [OF inv'(7) c] capture_valid_event [OF _ later known]
      by (auto simp: l' split: if_splits)
    show "\<exists>bytes. EncodeHeader (cc_encode codec) (ca_header c') = Inr bytes \<and>
        (\<not> cp_failed cp' \<longrightarrow> call_pieces (cs @ ds) m' = pieces_of (cc_encode codec) bytes (capture_records c'))"
    proof (cases "m' = m")
      case True
      then have c': "c' = c\<lparr>ca_events := ca_events c @ [e]\<rparr>" using told by (simp add: l')
      obtain bytes where "EncodeHeader (cc_encode codec) (ca_header c) = Inr bytes"
          "\<not> cp_failed cp \<longrightarrow> call_pieces cs m = pieces_of (cc_encode codec) bytes (capture_records c)"
        using told_okD(4) [OF inv'(7) c] by blast
      then show ?thesis using calls(4,6) by (intro exI [of _ bytes]) (auto simp: c' capture_records_event True)
    next
      case False
      then have "cl_told l m' = Some c'" using told by (simp add: l')
      then show ?thesis using told_okD(4) [OF inv'(7), of m' c'] calls(4,5) False by auto
    qed
  qed
  moreover have "current_ok codec cp' l'" if "\<not> is_match_end e"
  proof -
    have "list_all (\<lambda>e'. \<not> is_match_end e' \<and> at_offset e' \<le> told_offset (cl_first l) tick) (ca_events c @ [e])"
      using later that offset(1) by (simp add: list_all_iff)
    then show ?thesis using inv'(6) current c by (simp add: current_ok_def same l')
  qed
  ultimately show ?thesis using calls(1) cp' by blast
qed

section \<open>Every input\<close>

lemma cap_inv_close:
  assumes "calls_ok cs" and "unstarted cs l" and opn: "open_ok cs cp l" and "told_ok codec directory cs cp l"
    and "cp_open cp" and "\<not> cp_open cp'" and "cp_directory cp' = directory" and "cp_header cp' = header"
    and "cp_failed cp' = cp_failed cp"
    and "cl_told l' = cl_told l" and "cl_started l' = cl_started l" and "cl_current l' = None"
  shows "cap_inv codec directory header (cs @ [CloseCall (cp_match cp)]) cp' l'"
proof -
  have m: "cp_match cp \<in> cl_started l" "call_phase cs (cp_match cp) \<noteq> Closed"
    using opn assms(5) by (simp_all add: open_ok_def)
  have "open_ok (cs @ [CloseCall (cp_match cp)]) cp' l'"
    using opn assms(6) by (auto simp: open_ok_def)
  moreover have "unstarted (cs @ [CloseCall (cp_match cp)]) l'"
    using assms(2,10,11) m(1) by (auto simp: unstarted_def)
  moreover have "told_ok codec directory (cs @ [CloseCall (cp_match cp)]) cp' l'"
    using assms(4,9,10) by (simp add: told_ok_def)
  ultimately show ?thesis using assms m by (simp add: cap_inv_def current_ok_def)
qed

lemma PlayerOf_numbered:
  assumes "cp_players cp = numbered ks" and "length ks \<le> 255"
  shows "PlayerOf cp e = word_of_nat (position e ks)" and "PlayerOf cp e = 0 \<longleftrightarrow> position e ks = 0"
    and "unat (word_of_nat (position e ks) :: Player) = position e ks"
proof -
  have le: "position e ks \<le> 255" using position_le [of e ks] assms(2) by simp
  then show unat: "unat (word_of_nat (position e ks) :: Player) = position e ks" by (simp add: unat_of_nat)
  show player: "PlayerOf cp e = word_of_nat (position e ks)" by (simp add: PlayerOf_def assms(1) map_of_numbered)
  show "PlayerOf cp e = 0 \<longleftrightarrow> position e ks = 0" unfolding player using unat by (metis unat_eq_zero)
qed

lemma known_player:
  assumes "length ks \<le> 255" and "position e ks \<noteq> 0"
  shows "1 \<le> unat (word_of_nat (position e ks) :: Player)" "unat (word_of_nat (position e ks) :: Player) \<le> length ks"
  using assms position_le [of e ks] by (simp_all add: unat_of_nat)

fun is_event :: "CaptureInput \<Rightarrow> bool" where
  "is_event (StartIn health match players first_tick started) = False"
| "is_event (EndIn tick winner) = False"
| "is_event _ = True"

lemma log_input_event:
  "is_event item \<Longrightarrow> log_input codec header item l = (log_event item l)\<lparr>cl_tick := input_tick item\<rparr>"
  by (cases item) auto

text \<open>What an event's operation does, from what it means.\<close>

lemma Capturer_event:
  assumes "cp_open cp" and "cp_players cp = numbered (map ce_entity entrants)" and "length entrants \<le> 255" and "is_event item"
  shows "Capturer_step codec item cp =
     (case told_what entrants (cp_first_tick cp) item of
        None \<Rightarrow> ([], cp)
      | Some event \<Rightarrow> Capturer_Queue (EncodeEvent (cc_encode codec)
          \<lparr>at_offset = told_offset (cp_first_tick cp) (input_tick item), at_event = event\<rparr>) cp)"
proof -
  note player = PlayerOf_numbered [OF assms(2)]
  have small: "length (map ce_entity entrants) \<le> 255" using assms(3) by simp
  show ?thesis
    using assms(1,4) player(1,2) [OF small]
    by (cases item) (auto simp: Capturer_Command_def Capturer_Leave_def Capturer_Death_def Let_def OffsetOf_def told_offset_def told_seen_def)
qed

lemma told_what_known:
  assumes "told_what entrants first_tick item = Some event" and "is_event item" and "length entrants \<le> 255" and "input_ok l item"
    and "cl_entrants l = entrants" and "cl_current l \<noteq> None"
  shows "names_known (length entrants) \<lparr>at_offset = offset, at_event = event\<rparr>"
    and "\<not> is_match_end \<lparr>at_offset = offset, at_event = event\<rparr>"
proof -
  note known = known_player [of "map ce_entity entrants"]
  have killer: "victim \<in> ce_entity ` set entrants \<Longrightarrow> killer \<in> ce_entity ` set entrants"
    if "item = DeathIn tick victim killer" for tick victim killer
    using assms(4-6) that by simp
  show "names_known (length entrants) \<lparr>at_offset = offset, at_event = event\<rparr>"
    using assms(1,2,3) killer known
    by (cases item) (auto simp: names_known_def position_0 split: if_splits)
  show "\<not> is_match_end \<lparr>at_offset = offset, at_event = event\<rparr>"
    using assms(1,2) by (cases item) (auto simp: is_match_end.simps split: if_splits)
qed

lemma cap_inv_event:
  assumes inv: "cap_inv codec directory header cs cp l" and event: "is_event item" and ok: "input_ok l item"
    and step: "Capturer_step codec item cp = (ds, cp')"
  shows "cap_inv codec directory header (cs @ ds) cp' (log_input codec header item l)"
proof -
  note inv' = cap_invD [OF inv]
  have tick: "cl_tick l \<le>s input_tick item" using event ok by (cases item) auto
  show ?thesis
  proof (cases "cl_current l")
    case None
    then have "PlayerOf cp e = 0" if "cp_open cp" for e
      using inv'(6) that by (simp add: current_ok_def PlayerOf_def)
    then have "ds = [] \<and> cp' = cp"
      using step event by (cases item) (auto simp: Capturer_Command_def Capturer_Leave_def Capturer_Death_def Let_def split: if_splits)
    moreover have "log_event item l = l" by (simp add: log_event_def None)
    ultimately show ?thesis using cap_inv_tick [OF inv tick] by (simp add: log_input_event [OF event])
  next
    case (Some m)
    then obtain c where c: "cl_told l m = Some c" "ca_joins c = map (told_join codec) (cl_entrants l)"
      and opn: "cp_open cp" "cp_first_tick cp = cl_first l" "length (cl_entrants l) \<le> 255"
        "cp_players cp = numbered (map ce_entity (cl_entrants l))"
      using inv'(6) by (auto simp: current_ok_def)
    note step' = Capturer_event [OF opn(1,4,3) event, of codec, unfolded step opn(2)]
    show ?thesis
    proof (cases "told_what (cl_entrants l) (cl_first l) item")
      case None
      then have "ds = [] \<and> cp' = cp" using step' by simp
      moreover have "log_event item l = l" by (simp add: log_event_def Some c None)
      ultimately show ?thesis using cap_inv_tick [OF inv tick] by (simp add: log_input_event [OF event])
    next
      case what: (Some event')
      let ?e = "\<lparr>at_offset = told_offset (cl_first l) (input_tick item), at_event = event'\<rparr>"
      have queue: "Capturer_Queue (EncodeEvent (cc_encode codec) ?e) cp = (ds, cp')" using step' what by simp
      have log: "log_input codec header item l =
          l\<lparr>cl_told := (cl_told l)(m \<mapsto> c\<lparr>ca_events := ca_events c @ [?e]\<rparr>), cl_tick := input_tick item\<rparr>"
        by (simp add: log_input_event [OF event] log_event_def Some c what)
      have known: "names_known (length (ca_joins c)) ?e" and no_end: "\<not> is_match_end ?e"
        using told_what_known [OF what event opn(3) ok refl] Some c(2) by simp_all
      from queue_event [OF inv Some c(1) queue _ tick known log] no_end
      have all: "calls_ok (cs @ ds)" "cp' = cp\<lparr>cp_failed := cp_failed cp'\<rparr>" "unstarted (cs @ ds) (log_input codec header item l)"
        "open_ok (cs @ ds) cp' (log_input codec header item l)" "told_ok codec directory (cs @ ds) cp' (log_input codec header item l)"
        "current_ok codec cp' (log_input codec header item l)"
        by simp_all
      moreover have "cp_directory cp' = directory" "cp_header cp' = header"
        using inv'(2,3) by (subst all(2), simp)+
      ultimately show ?thesis by (simp add: cap_inv_def)
    qed
  qed
qed

lemma cap_inv_end:
  assumes inv: "cap_inv codec directory header cs cp l" and ok: "input_ok l (EndIn tick winner)"
    and step: "Capturer_step codec (EndIn tick winner) cp = (ds, cp')"
  shows "cap_inv codec directory header (cs @ ds) cp' (log_input codec header (EndIn tick winner) l)"
proof -
  note inv' = cap_invD [OF inv]
  let ?l = "log_input codec header (EndIn tick winner) l"
  let ?winning = "case winner of None \<Rightarrow> None | Some session \<Rightarrow> map_of (cp_sessions cp) session"
  let ?e = "\<lparr>at_offset = OffsetOf cp tick, at_event = MatchEnd ?winning\<rparr>"
  show ?thesis
  proof (cases "cp_open cp")
    case False
    then have "ds = []" "cp' = cp" using step by (simp_all add: Capturer_EndMatch_def)
    moreover have none: "cl_current l = None" using inv'(6) False by (cases "cl_current l") (auto simp: current_ok_def)
    moreover have log: "?l = l\<lparr>cl_tick := tick\<rparr>" using none by (cases l) (simp add: log_event_def)
    ultimately show ?thesis using cap_inv_tick [OF inv, of tick] ok unfolding log by simp
  next
    case opn: True
    obtain ds1 cp1 where queue: "Capturer_Queue (EncodeEvent (cc_encode codec) ?e) cp = (ds1, cp1)" by fastforce
    have step': "ds = ds1 @ [CloseCall (cp_match cp1)]" "cp' = cp1\<lparr>cp_open := False, cp_players := [], cp_sessions := []\<rparr>"
      using step opn queue by (simp_all add: Capturer_EndMatch_def Let_def)
    have m: "cp_match cp \<in> cl_started l" "cp_match cp \<noteq> nil_uuid" "call_phase cs (cp_match cp) \<noteq> Closed"
      using inv'(5) opn by (simp_all add: open_ok_def)
    have one: "Capturer_Queue (Framed (cc_encode codec (EventRecord ?e))) cp = (ds1, cp1)"
      using queue by (simp add: EncodeEvent_def)
    note first = queue_one [where encode = "cc_encode codec" and item = "EventRecord ?e", OF one inv'(1) m(2,3)]
    have cp1: "cp_match cp1 = cp_match cp" "cp_open cp1" "cp_directory cp1 = directory" "cp_header cp1 = header"
      using opn inv'(2,3) by (subst first(2), simp)+
    have "calls_ok (cs @ ds1) \<and> unstarted (cs @ ds1) ?l \<and> open_ok (cs @ ds1) cp1 ?l \<and> told_ok codec directory (cs @ ds1) cp1 ?l"
    proof (cases "cl_current l")
      case None
      have log: "?l = l\<lparr>cl_current := None, cl_tick := tick\<rparr>" by (simp add: log_event_def None)
      have queued: "calls_ok (cs @ ds1)" "call_phase (cs @ ds1) = call_phase cs" "call_path (cs @ ds1) = call_path cs"
        "cp_failed cp \<Longrightarrow> cp_failed cp1" "m' \<noteq> cp_match cp \<Longrightarrow> call_pieces (cs @ ds1) m' = call_pieces cs m'" for m'
        using first(1) by (auto simp: queued_def)
      have untold: "cl_told l (cp_match cp) = None" using inv'(6) None opn by (simp add: current_ok_def)
      have "unstarted (cs @ ds1) ?l" using inv'(4) m(1) queued unfolding log
        by (auto simp: unstarted_def) (metis queued(5))
      moreover have "open_ok (cs @ ds1) cp1 ?l" using inv'(5) opn unfolding log by (simp add: open_ok_def queued cp1)
      moreover have "told_ok codec directory (cs @ ds1) cp1 ?l"
        using inv'(7) untold queued(4) unfolding log
        by (auto simp: told_ok_def queued(3)) (metis option.distinct(1) queued(5))+
      ultimately show ?thesis using queued(1) by blast
    next
      case (Some m)
      then obtain c where c: "cl_told l m = Some c" "ca_joins c = map (told_join codec) (cl_entrants l)"
        and cur: "cp_first_tick cp = cl_first l" "length (cl_entrants l) \<le> 255"
          "cp_sessions cp = numbered (map ce_session (cl_entrants l))"
        using inv'(6) by (auto simp: current_ok_def)
      let ?number = "\<lambda>session. position session (map ce_session (cl_entrants l))"
      have winning: "?winning = (case winner of None \<Rightarrow> None | Some session \<Rightarrow>
          if ?number session = 0 then None else Some (word_of_nat (?number session)))"
        by (cases winner) (simp_all add: cur(3) map_of_numbered)
      have known: "names_known (length (ca_joins c)) ?e"
        using known_player [of "map ce_session (cl_entrants l)"] cur(2) c(2)
        unfolding winning by (auto simp: names_known_def split: option.splits)
      have offset: "at_offset ?e = told_offset (cl_first l) tick" "cl_tick l \<le>s tick"
        using ok cur(1) by (simp_all add: OffsetOf_def told_offset_def)
      let ?l' = "l\<lparr>cl_told := (cl_told l)(m \<mapsto> c\<lparr>ca_events := ca_events c @ [?e]\<rparr>), cl_tick := tick\<rparr>"
      have log: "?l = ?l'\<lparr>cl_current := None\<rparr>"
        using offset(1) unfolding winning by (simp add: log_event_def Some c)
      from queue_event [OF inv Some c(1) queue offset known refl]
      show ?thesis unfolding log by (simp add: unstarted_def open_ok_def told_ok_def)
    qed
    then show ?thesis unfolding step' append_assoc [symmetric] using cp1
      by (intro cap_inv_close [where l = ?l]) (simp_all add: log_event_def)
  qed
qed

text \<open>Boost's text of a UUID: 36 characters, another for each.\<close>

definition uuid_text :: "(uuid \<Rightarrow> string) \<Rightarrow> bool" where
  "uuid_text to_string \<longleftrightarrow>
     (\<forall>m. length m = 16 \<longrightarrow> length (to_string m) = 36) \<and> inj_on to_string {m. length m = 16}"

lemma CaptureFileName_end: "\<exists>start. CaptureFileName to_string t m = start @ to_string m @ kExtension"
proof -
  obtain y mo d where "civil (t div 1000 div 86400) = (y, mo, d)" by (metis prod_cases3)
  then show ?thesis by (auto simp: CaptureFileName_def Let_def simp flip: append_assoc)
qed

lemma path_join_eq: "path_join directory a = path_join directory b \<longleftrightarrow> a = b"
  by (simp add: path_join_def)

lemma capture_path_unique:
  assumes "uuid_text to_string" and "length m = 16" and "length m' = 16"
    and "path_join directory (CaptureFileName to_string t m) = path_join directory (CaptureFileName to_string t' m')"
  shows "m = m'"
proof -
  obtain start start' where "CaptureFileName to_string t m = start @ to_string m @ kExtension"
    "CaptureFileName to_string t' m' = start' @ to_string m' @ kExtension"
    using CaptureFileName_end by metis
  then have "start @ to_string m = start' @ to_string m'" using assms(4) by (simp add: path_join_eq)
  moreover have "length (to_string m) = length (to_string m')" using assms by (simp add: uuid_text_def)
  ultimately have "to_string m = to_string m'" by simp
  then show ?thesis using assms(1-3) by (auto simp: uuid_text_def dest: inj_onD)
qed

lemma Capturer_Admit_cases:
  obtains (fits) bytes where "encoded = Inr bytes" "Capturer_Admit encoded cp = (Some bytes, [], cp)"
    | (long) "encoded = Inl RecordTooLong" "Capturer_Admit encoded cp = (None, [StopCall (cp_match cp) CaptureStep.kRecordTooLong], cp)"
    | (broken) "encoded = Inl CodecFailure" "Capturer_Admit encoded cp = (None, [], cp\<lparr>cp_failed := True\<rparr>)"
  by (cases encoded; (rename_tac error, case_tac error)?) (simp_all add: Capturer_Admit_def)

lemma cap_inv_closing:
  assumes inv: "cap_inv codec directory header cs cp l"
    and closing: "(if cp_open cp then ([CloseCall (cp_match cp)], cp\<lparr>cp_open := False\<rparr>) else ([], cp)) = (ds, cp')"
  shows "cap_inv codec directory header (cs @ ds) cp' (l\<lparr>cl_current := None\<rparr>) \<and> \<not> cp_open cp' \<and> cp_failed cp' = cp_failed cp"
proof (cases "cp_open cp")
  case True
  note inv' = cap_invD [OF inv]
  have "cap_inv codec directory header (cs @ [CloseCall (cp_match cp)]) (cp\<lparr>cp_open := False\<rparr>) (l\<lparr>cl_current := None\<rparr>)"
    by (rule cap_inv_close [OF inv'(1,4,5,7) True]) (simp_all add: inv'(2,3))
  then show ?thesis using closing True by auto
next
  case False
  then have "cl_current l = None" using cap_invD(6) [OF inv] by (cases "cl_current l") (auto simp: current_ok_def)
  then have "l\<lparr>cl_current := None\<rparr> = l" by (cases l) simp
  then show ?thesis using closing False inv by simp
qed

text \<open>A Match whose header was refused: nothing told of it, and no file.\<close>

lemma cap_inv_refused:
  assumes inv: "cap_inv codec directory header cs cp l" and closed: "\<not> cp_open cp" and new: "m \<notin> cl_started l" "m \<noteq> nil_uuid"
    and ds: "ds = [BeginCall m] \<or> ds = [BeginCall m, StopCall m step]"
    and cp': "cp_open cp'" "cp_match cp' = m" "cp_players cp' = []" "cp_sessions cp' = []" "cp_directory cp' = directory"
      "cp_header cp' = header" "cp_failed cp \<longrightarrow> cp_failed cp'"
    and l': "cl_told l' = cl_told l" "cl_started l' = insert m (cl_started l)" "cl_current l' = None"
  shows "cap_inv codec directory header (cs @ ds) cp' l'"
proof -
  note inv' = cap_invD [OF inv]
  have fresh: "call_phase cs m = Fresh" "cl_told l m = None" using inv'(4) new by (simp_all add: unstarted_def)
  have calls: "calls_ok (cs @ ds)" "call_phase (cs @ ds) = call_phase cs" "call_path (cs @ ds) = call_path cs"
    "m' \<noteq> m \<Longrightarrow> call_pieces (cs @ ds) m' = call_pieces cs m'" for m'
    using ds inv'(1) by auto
  have "unstarted (cs @ ds) l'" using inv'(4) by (auto simp: unstarted_def calls l')
  moreover have "open_ok (cs @ ds) cp' l'"
    using inv'(5) closed fresh new cp' by (auto simp: open_ok_def calls l')
  moreover have "current_ok codec cp' l'" using cp' fresh l' by (simp add: current_ok_def)
  moreover have "told_ok codec directory (cs @ ds) cp' l'"
    using inv'(7) fresh cp'(7) by (auto simp: told_ok_def calls(3) l') (metis calls(4) option.distinct(1))+
  ultimately show ?thesis using calls(1) cp'(5,6) by (simp add: cap_inv_def)
qed

text \<open>A Match whose file is opened, with its Joins.\<close>

lemma cap_inv_opened:
  assumes inv: "cap_inv codec directory header cs cp l" and closed: "\<not> cp_open cp" and new: "m \<notin> cl_started l" "m \<noteq> nil_uuid"
    and uuids: "uuid_text (cc_to_string codec)" "length m = 16"
    and bytes: "EncodeHeader (cc_encode codec) (told_header header m started) = Inr bytes"
    and cp1: "cp1 = cp\<lparr>cp_match := m, cp_open := True, cp_first_tick := first_tick, cp_players := [], cp_sessions := []\<rparr>"
    and joins: "queue_joins codec players cp1 = (ds, cp')"
    and players: "distinct (map ce_entity players)" "distinct (map ce_session players)" "length players \<le> 255"
    and path: "path = path_join directory (CaptureFileName (cc_to_string codec) started m)"
    and l': "l' = l\<lparr>cl_told := (cl_told l)(m \<mapsto> \<lparr>ca_header = told_header header m started,
        ca_joins = map (told_join codec) players, ca_events = [], ca_torn = False\<rparr>),
      cl_started := insert m (cl_started l), cl_current := Some m, cl_entrants := players, cl_first := first_tick\<rparr>"
  shows "cap_inv codec directory header (cs @ [BeginCall m, OpenCall m path bytes] @ ds) cp' l'"
proof -
  note inv' = cap_invD [OF inv]
  let ?cs = "(cs @ [BeginCall m]) @ [OpenCall m path bytes]" and ?joins = "map (told_join codec) players"
  have fresh: "call_phase cs m = Fresh" "call_pieces cs m = (False, [])" "cl_told l m = None"
    using inv'(4) new by (simp_all add: unstarted_def)
  have "call_path cs m' \<noteq> Some path" for m'
  proof
    assume path': "call_path cs m' = Some path"
    then obtain t where "path = path_join directory (CaptureFileName (cc_to_string codec) t m')"
      using told_okD(2) [OF inv'(7)] by blast
    then have "m' = m" using capture_path_unique [OF uuids(1)] told_okD(1) [OF inv'(7) path'] uuids(2) path by blast
    then show False using path' inv'(4) new by (simp add: unstarted_def)
  qed
  then have calls: "calls_ok ?cs" "call_phase ?cs = (call_phase cs)(m := Opened)" "call_path ?cs = (call_path cs)(m \<mapsto> path)"
      "call_pieces ?cs = (call_pieces cs)(m := (False, [bytes]))"
    using inv'(1,5) closed new fresh by (auto simp: open_ok_def)
  have joined: "queued (cc_encode codec) ?cs ds cp1 cp' (join_records 0 ?joins)" "queued_fields cp1 cp'"
      "cp_players cp' = numbered (map ce_entity players)" "cp_sessions cp' = numbered (map ce_session players)"
    using queue_joins_calls [OF joins calls(1), of "[]"] new players(1,2)
    by (simp_all add: cp1 calls(2) numbered_def)
  have same: "cp_match cp' = m" "cp_open cp'" "cp_first_tick cp' = first_tick" "cp_directory cp' = directory" "cp_header cp' = header"
    using joined(2) inv'(2,3) by (simp_all add: queued_fields_def cp1)
  have after: "calls_ok (?cs @ ds)" "call_phase (?cs @ ds) = (call_phase cs)(m := Opened)"
      "call_path (?cs @ ds) = (call_path cs)(m \<mapsto> path)" "cp_failed cp \<Longrightarrow> cp_failed cp'"
      "m' \<noteq> m \<Longrightarrow> call_pieces (?cs @ ds) m' = call_pieces cs m'" for m'
    using joined(1) calls by (auto simp: queued_def cp1)
  have pieces: "call_pieces (?cs @ ds) m = pieces_of (cc_encode codec) bytes (join_records 0 ?joins)" if "\<not> cp_failed cp'"
  proof -
    have "call_pieces ?cs m = pieces_of (cc_encode codec) bytes []" by (simp only: calls(4) pieces_of_def) simp
    then show ?thesis using joined(1) that by (auto simp: queued_def cp1)
  qed
  have "unstarted (?cs @ ds) l'" using inv'(4) after(2,3,5) by (auto simp: unstarted_def l')
  moreover have "open_ok (?cs @ ds) cp' l'"
    using inv'(5) closed new same after(2) by (auto simp: open_ok_def l')
  moreover have "current_ok codec cp' l'" using joined(3,4) same players(3) by (simp add: current_ok_def l')
  moreover have "told_ok codec directory (?cs @ ds) cp' l'"
    unfolding told_ok_def
  proof (intro allI conjI impI)
    fix m' p assume p: "call_path (?cs @ ds) m' = Some p"
    show "cl_told l' m' \<noteq> None" "length m' = 16"
      "\<exists>t. p = path_join directory (CaptureFileName (cc_to_string codec) t m')"
      using p told_okD(1,2) [OF inv'(7), of m' p] uuids(2) path unfolding after(3) l' by (auto split: if_splits)
  next
    fix m' c assume told: "cl_told l' m' = Some c"
    show "capture_valid (ca_joins c) (ca_events c)" "\<not> ca_torn c"
      using told told_okD(3) [OF inv'(7), of m' c] players(3) by (auto simp: l' capture_valid_def split: if_splits)
    show "\<exists>hb. EncodeHeader (cc_encode codec) (ca_header c) = Inr hb \<and>
        (\<not> cp_failed cp' \<longrightarrow> call_pieces (?cs @ ds) m' = pieces_of (cc_encode codec) hb (capture_records c))"
    proof (cases "m' = m")
      case True
      then show ?thesis using told bytes pieces by (auto simp: l' capture_records_def)
    next
      case False
      then show ?thesis using told told_okD(4) [OF inv'(7), of m' c] after(4,5) by (auto simp: l')
    qed
  qed
  ultimately show ?thesis using after(1) same(4,5) by (simp add: cap_inv_def)
qed

lemma cap_inv_start:
  assumes inv: "cap_inv codec directory header cs cp l" and uuids: "uuid_text (cc_to_string codec)"
    and ok: "input_ok l (StartIn health m players first_tick started)"
    and step: "Capturer_step codec (StartIn health m players first_tick started) cp = (ds, cp')"
  shows "cap_inv codec directory header (cs @ ds) cp' (log_input codec header (StartIn health m players first_tick started) l)"
proof -
  obtain closing cp1 where closing: "(if cp_open cp then ([CloseCall (cp_match cp)], cp\<lparr>cp_open := False\<rparr>) else ([], cp)) = (closing, cp1)"
    by fastforce
  let ?l = "l\<lparr>cl_current := None\<rparr>"
  have inv1: "cap_inv codec directory header (cs @ closing) cp1 ?l" and closed: "\<not> cp_open cp1"
    using cap_inv_closing [OF inv closing] by blast+
  have new: "m \<notin> cl_started ?l" "m \<noteq> nil_uuid" "length m = 16" using ok by simp_all
  let ?cp = "cp1\<lparr>cp_match := m, cp_open := True, cp_first_tick := first_tick, cp_players := [], cp_sessions := []\<rparr>"
  let ?header = "EncodeHeader (cc_encode codec) (told_header header m started)"
  have same: "cp_directory cp1 = directory" "cp_header cp1 = header" using cap_invD(2,3) [OF inv1] .
  show ?thesis
  proof (cases "health = CaptureHealth.kStopped")
    case True
    then have "ds = closing" "cp' = cp1" using step closing by (simp_all add: Capturer_StartMatch_def)
    then show ?thesis using inv1 True by simp
  next
    case False
    have step': "(ds, cp') =
        (case Capturer_Admit ?header ?cp of
           (None, calls, cp) \<Rightarrow> (closing @ [BeginCall m] @ calls, cp)
         | (Some bytes, calls, cp) \<Rightarrow>
             (case queue_joins codec players cp of
                (rest, cp) \<Rightarrow> (closing @ [BeginCall m] @ calls @
                   [OpenCall m (path_join (cp_directory cp) (CaptureFileName (cc_to_string codec) started m)) bytes] @ rest, cp)))"
      using step closing False same by (simp add: Capturer_StartMatch_def told_header_def Let_def)
    show ?thesis
    proof (cases rule: Capturer_Admit_cases [of ?header ?cp])
      case (fits bytes)
      obtain rest cp2 where joins: "queue_joins codec players ?cp = (rest, cp2)" by fastforce
      let ?path = "path_join directory (CaptureFileName (cc_to_string codec) started m)"
      have "cp_directory cp2 = directory"
        using queue_joins_calls [OF joins, of "[]" "[]"] ok same new by (simp add: numbered_def calls_ok.none queued_fields_def)
      then have ds: "ds = closing @ [BeginCall m, OpenCall m ?path bytes] @ rest" "cp' = cp2"
        using step' fits joins by simp_all
      have "cap_inv codec directory header ((cs @ closing) @ [BeginCall m, OpenCall m ?path bytes] @ rest) cp2
          (?l\<lparr>cl_told := (cl_told ?l)(m \<mapsto> \<lparr>ca_header = told_header header m started,
             ca_joins = map (told_join codec) players, ca_events = [], ca_torn = False\<rparr>),
           cl_started := insert m (cl_started ?l), cl_current := Some m, cl_entrants := players, cl_first := first_tick\<rparr>)"
        using ok by (intro cap_inv_opened [OF inv1 closed new(1,2) uuids new(3) fits(1) refl joins _ _ _ refl refl]) simp_all
      then show ?thesis using fits(1) False by (simp add: ds)
    next
      case long
      then have "ds = closing @ [BeginCall m, StopCall m CaptureStep.kRecordTooLong]" "cp' = ?cp" using step' by simp_all
      then show ?thesis using cap_inv_refused [OF inv1 closed new(1,2), of "[BeginCall m, StopCall m CaptureStep.kRecordTooLong]"
          CaptureStep.kRecordTooLong ?cp] long(1) False same by simp
    next
      case broken
      then have "ds = closing @ [BeginCall m]" "cp' = ?cp\<lparr>cp_failed := True\<rparr>" using step' by simp_all
      then show ?thesis using cap_inv_refused [OF inv1 closed new(1,2), of "[BeginCall m]"
          CaptureStep.kRecordTooLong "?cp\<lparr>cp_failed := True\<rparr>"] broken(1) False same by simp
    qed
  qed
qed

lemma cap_inv_step:
  assumes "cap_inv codec directory header cs cp l" and "uuid_text (cc_to_string codec)" and "input_ok l item"
    and "Capturer_step codec item cp = (ds, cp')"
  shows "cap_inv codec directory header (cs @ ds) cp' (log_input codec header item l)"
proof (cases item)
  case (StartIn health m players first_tick started)
  then show ?thesis using cap_inv_start assms by blast
next
  case (EndIn tick winner)
  then show ?thesis using cap_inv_end assms by blast
qed (use cap_inv_event [OF assms(1) _ assms(3,4)] in simp_all)

lemma cap_inv_run:
  assumes "cap_inv codec directory header cs cp l" and "uuid_text (cc_to_string codec)" and "inputs_ok codec header items l"
    and "Capturer_run codec items cp = (ds, cp')"
  shows "cap_inv codec directory header (cs @ ds) cp' (log_inputs codec header items l)"
  using assms(1,3,4)
proof (induction items arbitrary: cs cp l ds)
  case Nil
  then show ?case by (simp add: log_inputs_def)
next
  case (Cons item items)
  obtain ds1 cp1 where one: "Capturer_step codec item cp = (ds1, cp1)" by fastforce
  obtain ds2 where rest: "Capturer_run codec items cp1 = (ds2, cp')" and ds: "ds = ds1 @ ds2"
    using Cons.prems(3) one by (auto split: prod.splits)
  have "cap_inv codec directory header (cs @ ds1) cp1 (log_input codec header item l)"
    using cap_inv_step [OF Cons.prems(1) assms(2) _ one] Cons.prems(2) by simp
  from Cons.IH [OF this _ rest] show ?case using Cons.prems(2) by (simp add: ds log_inputs_def)
qed

section \<open>Reading back\<close>

lemma calls_ok_prefix: "calls_ok (xs @ ys) \<Longrightarrow> calls_ok xs"
  by (induction ys rule: rev_induct) (auto simp flip: append_assoc)

lemma call_pieces_prefix:
  "calls_ok (xs @ ys) \<Longrightarrow> prefix (snd (call_pieces xs m)) (snd (call_pieces (xs @ ys) m))"
proof (induction ys rule: rev_induct)
  case (snoc y ys)
  have ok: "calls_ok (xs @ ys)" "call_ok (xs @ ys) y" using snoc.prems by (simp_all flip: append_assoc)
  have "prefix (snd (call_pieces (xs @ ys) m)) (snd (call_pieces ((xs @ ys) @ [y]) m))"
    using ok(2) by (cases y) (auto simp del: append_assoc)
  then show ?case using snoc.IH [OF ok(1)] by (auto intro: prefix_order.trans)
qed simp

lemma capture_valid_prefix:
  assumes "capture_valid js es"
  shows "capture_valid (take n js) (take (n - length js) es)"
proof (cases "n \<le> length js")
  case True
  then show ?thesis using assms by (simp add: capture_valid_def)
next
  case False
  let ?k = "n - length js"
  have v: "length js \<le> 255" "sorted (map at_offset es)" "list_all (names_known (length js)) es"
    "list_all (\<lambda>e. \<not> is_match_end e) (butlast es)"
    using assms by (simp_all add: capture_valid_def)
  have js: "take n js = js" using False by simp
  have "sorted (map at_offset (take ?k es))" using sorted_wrt_take [of "(\<le>)" "map at_offset es" ?k] v(2) by (simp only: take_map)
  moreover have "list_all (names_known (length js)) (take ?k es)"
    using v(3) by (metis append_take_drop_id list_all_append)
  moreover have "list_all (\<lambda>e. \<not> is_match_end e) (butlast (take ?k es))"
  proof (cases "?k < length es")
    case True
    have "butlast (take ?k es) = take (?k - 1) (butlast es)" using True by (simp add: butlast_conv_take min_def)
    then show ?thesis using v(4) by (metis append_take_drop_id list_all_append)
  qed (use v(4) in simp)
  ultimately show ?thesis unfolding capture_valid_def js using v(1) by blast
qed

lemma capture_records_prefix: "capture_records (capture_prefix n torn c) = take n (capture_records c)"
proof -
  have "length (join_records 0 (ca_joins c)) = length (ca_joins c)" by (simp add: join_records_def)
  then show ?thesis by (simp add: capture_records_def capture_prefix_def take_join_records take_map)
qed

lemma capture_prefix_twice: "capture_prefix k torn (capture_prefix n torn' c) = capture_prefix (min k n) torn c"
  by (auto simp: capture_prefix_def min_def)

lemma fits_piece:
  assumes "fits encode item"
  shows "encode item = Some (the (encode item))" "length (the (encode item)) \<le> 255"
    and "piece encode item = frame_bytes (the (encode item))"
proof -
  obtain bytes where bytes: "Framed (encode item) = Inr bytes"
    using assms by (cases "Framed (encode item)") (auto simp: fits_def)
  then obtain p where "encode item = Some p" "length p \<le> 255" "bytes = frame_bytes p" by (auto simp: Framed_Inr)
  then show "encode item = Some (the (encode item))" "length (the (encode item)) \<le> 255"
    "piece encode item = frame_bytes (the (encode item))"
    using bytes by (simp_all add: piece_def)
qed

text \<open>A prefix of a capture's pieces reads back as its beginning.\<close>

lemma pieces_read_back:
  assumes codec: "record_codec encode decode" and valid: "capture_valid (ca_joins c) (ca_events c)"
    and header: "EncodeHeader encode (ca_header c) = Inr bytes"
    and prefix: "prefix written (concat (snd (pieces_of encode bytes (capture_records c))))"
  shows "length written < header_size encode c \<or> (\<exists>n torn. ReadCapture decode (stream_of written) = Inr (capture_prefix n torn c))"
    and "list_all (fits encode) (capture_records c) \<Longrightarrow> written = concat (snd (pieces_of encode bytes (capture_records c))) \<Longrightarrow>
      ReadCapture decode (stream_of written) = Inr (c\<lparr>ca_torn := False\<rparr>)"
proof -
  let ?items = "takeWhile (fits encode) (capture_records c)"
  define n0 where "n0 = length ?items"
  define c0 where "c0 = capture_prefix n0 False c"
  let ?ps = "map (\<lambda>item. the (encode item)) ?items"
  obtain hp where hp: "encode (HeaderRecord (ca_header c)) = Some hp" "length hp \<le> 255"
      "bytes = kCaptureMagic @ [kCaptureFormatVersion] @ frame_bytes hp"
    using header by (auto simp: EncodeHeader_def Framed_Inr split: sum.splits)
  have items: "capture_records c0 = ?items" 
    unfolding c0_def capture_records_prefix n0_def by (rule takeWhile_eq_take [symmetric])
  have fit: "fits encode item" if "item \<in> set ?items" for item using that by (meson set_takeWhileD)
  have ps: "list_all2 (\<lambda>p item. encode item = Some p) ?ps (capture_records c0)" "\<forall>p \<in> set ?ps. length p \<le> 255"
    "map (piece encode) ?items = map frame_bytes ?ps"
  proof -
    have "list_all2 (\<lambda>p item. encode item = Some p) (map (\<lambda>item. the (encode item)) xs) xs" if "\<forall>item \<in> set xs. fits encode item" for xs
      using that by (induction xs) (use fits_piece(1) in fastforce)+
    then show "list_all2 (\<lambda>p item. encode item = Some p) ?ps (capture_records c0)" unfolding items using fit by blast
    show "\<forall>p \<in> set ?ps. length p \<le> 255" unfolding set_map using fits_piece(2) [OF fit] by blast
    show "map (piece encode) ?items = map frame_bytes ?ps"
      unfolding map_map by (rule map_cong [OF refl]) (simp only: comp_apply fits_piece(3) [OF fit])
  qed
  have valid0: "capture_valid (ca_joins c0) (ca_events c0)"
    using capture_valid_prefix [OF valid, of n0] by (simp add: c0_def capture_prefix_def)
  have header0: "ca_header c0 = ca_header c" by (simp add: c0_def capture_prefix_def)
  have read: "ReadCapture decode (stream_of (bytes @ take k (concat (map frame_bytes ?ps)))) =
      (case whole_frames k ?ps of (n, torn) \<Rightarrow> Inr (capture_prefix n torn c0))" for k
    using ReadCapture_prefix [OF codec valid0 _ hp(2) ps(1,2), of k] hp(1,3) header0 by simp
  have all: "concat (snd (pieces_of encode bytes (capture_records c))) = bytes @ concat (map frame_bytes ?ps)"
    by (simp only: pieces_of_def snd_conv ps(3) concat.simps)
  have size: "header_size encode c = length bytes"
    by (simp add: header_size_def hp frame_bytes_def kFrameLengthSize_def)
  show "length written < header_size encode c \<or> (\<exists>n torn. ReadCapture decode (stream_of written) = Inr (capture_prefix n torn c))"
  proof (cases "length written < length bytes")
    case False
    have "written = take (length written) (bytes @ concat (map frame_bytes ?ps))"
      using prefix unfolding all by (metis append_eq_conv_conj prefix_def)
    then have "written = bytes @ take (length written - length bytes) (concat (map frame_bytes ?ps))"
      using False by simp
    then show ?thesis using read [of "length written - length bytes"] capture_prefix_twice [of _ _ n0 False c]
      by (auto simp: c0_def split: prod.splits)
  qed (simp add: size)
  show "ReadCapture decode (stream_of written) = Inr (c\<lparr>ca_torn := False\<rparr>)"
    if "list_all (fits encode) (capture_records c)" "written = concat (snd (pieces_of encode bytes (capture_records c)))"
  proof -
    have "n0 = length (capture_records c)" using that(1) by (simp add: n0_def takeWhile_all)
    then have c0: "c0 = c\<lparr>ca_torn := False\<rparr>" by (simp add: c0_def capture_prefix_whole)
    have "ReadCapture decode (stream_of written) = Inr (capture_prefix (length ?ps) False c0)"
      using read [of "length (concat (map frame_bytes ?ps))"] that(2) whole_frames_all [of ?ps] unfolding all by simp
    then show ?thesis using items by (simp add: c0 capture_prefix_whole capture_records_def)
  qed
qed

text \<open>
  C2: what a Match's file reads back as. Host tells the Capturer of Matches with IDs of
  their own, events in tick order and kills by players of the Match; the codec takes back
  what it wrote and did not fail. Then however the Capturer's calls interleave with the
  writer's thread, and whatever record was too long, queue full, disk or budget failing,
  at every moment the file of a Match told as \<open>c\<close> either does not hold its header yet or
  reads back as the first \<open>n\<close> records of \<open>c\<close> in order, never refused as malformed; and the
  file of the Match being written is there. When nothing was lost and everything queued is
  written, it reads back as \<open>c\<close>, unless retention has since deleted it and reported so, as
  it does to earlier Matches' files and never does without limits.
\<close>

theorem captured_match_reads_back:
  assumes "record_codec (cc_encode codec) decode" and "uuid_text (cc_to_string codec)"
    and "inputs_ok codec header items log_init"
    and "Capturer_run codec items (Capturer_init directory header) = (calls @ later, cp)" and "\<not> cp_failed cp"
    and "serves match_id (cc_to_string codec) (Writer_init mode capacity retention d) calls (s, h)"
    and "cl_told (log_inputs codec header items log_init) m = Some c" and "hs_path h m = Some path"
  shows "(length (written_to s path) < header_size (cc_encode codec) c \<or>
      (\<exists>n torn. ReadCapture decode (stream_of (written_to s path)) = Inr (capture_prefix n torn c))) \<and>
    (wr_file_match s = m \<longrightarrow> wr_files s path \<noteq> None) \<and>
    (later = [] \<and> all_written s \<and> wr_loss s = None \<longrightarrow>
      (\<exists>bytes. wr_files s path = Some bytes \<and> ReadCapture decode (stream_of bytes) = Inr c) \<or>
      wr_files s path = None \<and> Deleted (filename path) \<in> set (dk_reports (wr_disk s)) \<and>
      \<not> (unlimited retention \<and> dk_reports d = []))"
proof -
  have inv: "cap_inv codec directory header (calls @ later) cp (log_inputs codec header items log_init)"
    using cap_inv_run [OF cap_inv_init assms(2,3,4)] by simp
  note inv' = cap_invD [OF inv]
  have ok: "calls_ok calls" using calls_ok_prefix [OF inv'(1)] .
  note serve = serves_inv [OF assms(6) ok, unfolded fst_conv snd_conv]
  have winv: "writer_inv s h" using writer_reachable_inv serve by blast
  obtain bytes where header: "EncodeHeader (cc_encode codec) (ca_header c) = Inr bytes"
    and pieces: "call_pieces (calls @ later) m = pieces_of (cc_encode codec) bytes (capture_records c)"
    using told_okD(4) [OF inv'(7) assms(7)] assms(5) by blast
  have valid: "capture_valid (ca_joins c) (ca_events c)" and torn: "\<not> ca_torn c"
    using told_okD(3) [OF inv'(7) assms(7)] by simp_all
  have "prefix (hs_admitted h m) (hs_offered h m)" using offers_okD writer_reachable_offers serve by blast
  moreover have "prefix (hs_offered h m) (snd (call_pieces calls m))" using servedD(3) serve by blast
  moreover have "prefix (snd (call_pieces calls m)) (snd (call_pieces (calls @ later) m))" using call_pieces_prefix [OF inv'(1)] .
  ultimately have "prefix (hs_admitted h m) (snd (pieces_of (cc_encode codec) bytes (capture_records c)))"
    unfolding pieces by (blast intro: prefix_order.trans)
  then have "prefix (written_to s path) (concat (snd (pieces_of (cc_encode codec) bytes (capture_records c))))"
    using written_prefix [OF winv assms(8)] by (auto simp: prefix_def) 
  note read = pieces_read_back [OF assms(1) valid header this]
  have whole: "\<exists>bytes. wr_files s path = Some bytes \<and> ReadCapture decode (stream_of bytes) = Inr c"
    if whole: "later = []" "all_written s" "wr_loss s = None" and kept: "wr_files s path \<noteq> None"
  proof -
    have unharmed: "unharmed calls s h" using serve whole(3) by blast
    then have "m \<notin> hs_broken h" using whole(2) by (auto simp: unharmed_def all_written_def)
    moreover have "hs_admitted h m = snd (call_pieces calls m)" "\<not> fst (call_pieces calls m)"
      using unharmed by (simp_all add: unharmed_def)
    ultimately have there: "wr_files s path = Some (concat (snd (pieces_of (cc_encode codec) bytes (capture_records c))))"
      and fit: "list_all (fits (cc_encode codec)) (capture_records c)"
      using written_whole [OF winv assms(8) whole(2)] kept pieces whole(1) by (auto simp: pieces_of_def)
    then have "written_to s path = concat (snd (pieces_of (cc_encode codec) bytes (capture_records c)))"
      by (simp add: written_to_def)
    from read(2) [OF fit this] torn there show ?thesis by (simp add: written_to_def)
  qed
  moreover have "Deleted (filename path) \<in> set (dk_reports (wr_disk s)) \<and> \<not> (unlimited retention \<and> dk_reports d = [])"
    if "all_written s" "wr_loss s = None" "wr_files s path = None"
  proof -
    have "unharmed calls s h" using serve that(2) by blast
    then have "m \<notin> hs_broken h" using that(1) by (auto simp: unharmed_def all_written_def)
    then have gone: "Deleted (filename path) \<in> set (dk_reports (wr_disk s))"
      using written_whole [OF winv assms(8) that(1)] that(3) by simp
    have "deletes_none d (wr_disk s)" if "unlimited retention"
      using writer_reachable_unlimited [of match_id "cc_to_string codec" "Writer_init mode capacity retention d" s h] serve that
      by (simp add: Writer_init_def CaptureDirectory_init_def)
    then show ?thesis using gone by (auto simp: deletes_none_def)
  qed
  ultimately show ?thesis using read(1) written_in_progress [OF winv assms(8)]
    by (cases "wr_files s path") (intro conjI impI; simp)+
qed

text \<open>A Match with nobody in it, told to a Capturer whose writer has written its header.\<close>

definition sample_match :: uuid where
  "sample_match = replicate 15 0 @ [1]"

definition sample_text :: "uuid \<Rightarrow> string" where
  "sample_text m = map (\<lambda>b. char_of (unat b)) m @ replicate 20 CHR ''-''"

definition sample_told :: Capture where
  "sample_told =
     \<lparr>ca_header = told_header (ca_header sample_capture) sample_match 7, ca_joins = [],
      ca_events = [\<lparr>at_offset = 5, at_event = MatchEnd None\<rparr>], ca_torn = False\<rparr>"

definition told_codec :: capture_codec where
  "told_codec =
     \<lparr>cc_encode = (\<lambda>item. if item = HeaderRecord (ca_header sample_told) then Some [10]
        else if item = EventRecord (List.hd (ca_events sample_told)) then Some [30] else None),
      cc_to_string = sample_text, cc_snap = (\<lambda>v. v)\<rparr>"

definition told_decode :: "byte list \<Rightarrow> CaptureRecord option" where
  "told_decode payload =
     (if payload = [10] then Some (HeaderRecord (ca_header sample_told))
      else if payload = [30] then Some (EventRecord (List.hd (ca_events sample_told))) else None)"

definition told_inputs :: "CaptureInput list" where
  "told_inputs = [StartIn kEnabled sample_match [] 100 7, EndIn 105 None]"

definition told_path :: string where
  "told_path = path_join ''captures'' (CaptureFileName sample_text 7 sample_match)"

lemma sample_text_ok: "uuid_text sample_text"
proof -
  have "inj (\<lambda>b :: byte. char_of (unat b) :: char)"
  proof (rule injI)
    fix a b :: byte
    assume "(char_of (unat a) :: char) = char_of (unat b)"
    then have "(of_char (char_of (unat a)) :: nat) = of_char (char_of (unat b))" by simp
    then show "a = b" using unsigned_less [of a, where ?'a = nat] unsigned_less [of b, where ?'a = nat] by (simp add: word_unat_eq_iff)
  qed
  then show ?thesis by (auto simp: uuid_text_def sample_text_def inj_on_def dest!: map_injective)
qed

lemma told_codec_ok: "record_codec (cc_encode told_codec) told_decode"
  by (simp add: record_codec_def told_codec_def told_decode_def)

lemma told_inputs_ok: "inputs_ok told_codec (ca_header sample_capture) told_inputs log_init"
  by (simp add: told_inputs_def log_init_def sample_match_def nil_uuid_def word_sle_eq EncodeHeader_def Framed_def
      told_codec_def sample_told_def kMaxFramePayload_def numeral_eq_Suc)

lemma told_header_bytes:
  "EncodeHeader (cc_encode told_codec) (told_header (ca_header sample_capture) sample_match 7) =
     Inr (kCaptureMagic @ [4, 1, 10])"
  by (simp add: EncodeHeader_def Framed_def told_codec_def sample_told_def kMaxFramePayload_def kCaptureFormatVersion_def)

lemma told_log: "cl_told (log_inputs told_codec (ca_header sample_capture) told_inputs log_init) sample_match = Some sample_told"
  by (simp add: log_inputs_def told_inputs_def log_init_def told_header_bytes log_event_def)
    (simp add: sample_told_def told_offset_def clamp_def Offset_def)

lemma told_calls:
  "\<exists>cp. Capturer_run told_codec told_inputs (Capturer_init ''captures'' (ca_header sample_capture)) =
     ([BeginCall sample_match, OpenCall sample_match told_path (kCaptureMagic @ [4, 1, 10])] @
      [PushCall sample_match [1, 30], CloseCall sample_match], cp) \<and> \<not> cp_failed cp"
proof -
  have event: "EncodeEvent (cc_encode told_codec) \<lparr>at_offset = 5, at_event = MatchEnd None\<rparr> = Inr [1, 30]"
    by (simp add: EncodeEvent_def Framed_def told_codec_def sample_told_def kMaxFramePayload_def)
  have five: "OffsetOf cp 105 = 5" if "cp_first_tick cp = 100" for cp
    using that by (simp add: OffsetOf_def Offset_def clamp_def)
  have str: "cc_to_string told_codec = sample_text" by (simp add: told_codec_def)
  show ?thesis
    by (simp add: told_inputs_def Capturer_init_def Capturer_StartMatch_def Capturer_EndMatch_def Capturer_Admit_def
      Capturer_Queue_def Let_def told_header_bytes [unfolded told_header_def of_nat_numeral] five event str told_path_def)
qed

theorem captured_match_reads_back_witness:
  "\<exists>(s :: writer) (h :: history) c n torn. hs_path h sample_match = Some told_path \<and> written_to s told_path = kCaptureMagic @ [4, 1, 10] \<and>
     cl_told (log_inputs told_codec (ca_header sample_capture) told_inputs log_init) sample_match = Some c \<and>
     ReadCapture told_decode (stream_of (written_to s told_path)) = Inr (capture_prefix n torn c)"
proof -
  let ?bytes = "kCaptureMagic @ [4, 1, 10]"
  let ?m = "sample_match"
  let ?serves = "serves (\<lambda>_. False) (cc_to_string told_codec) sample_start"
  let ?went = "\<lparr>io_listing = sample_empty, io_created = True, io_write = Written, io_throws = None\<rparr>"
  have nn: "?m \<noteq> nil_uuid" by (simp add: sample_match_def nil_uuid_def numeral_eq_Suc)
  obtain s1 h1 where 1: "?serves [BeginCall ?m, OpenCall ?m told_path ?bytes] (s1, h1)"
      "s1 = Writer_Open ?m told_path ?bytes (Writer_Begin ?m sample_start)" "hs_path h1 ?m = Some told_path"
    using serves.calls [OF serves.calls [OF serves.started], of "\<lambda>_. False" "cc_to_string told_codec" sample_start "BeginCall ?m"
      "OpenCall ?m told_path ?bytes"] by simp
  have s1: "wr_thread s1 = Waiting" "wr_queue s1 = [OpenItem ?m told_path ?bytes]"
    by (simp_all add: 1(2) nn Writer_Open_def Writer_Begin_def sample_start_def Writer_init_def)
  let ?s2 = "Run_take (OpenItem ?m told_path ?bytes) [] s1"
  note 2 = serves.turns [OF 1(1) thread_turn.takes [OF s1]]
  have s2: "wr_thread ?s2 = Holding (OpenItem ?m told_path ?bytes)" by (simp add: Run_take_def)
  obtain loss s' where 3: "HandleGuarded (\<lambda>_. False) ?went (OpenItem ?m told_path ?bytes) ?s2 = Some (loss, s')"
      "loss = None" "wr_files s' = [told_path \<mapsto> ?bytes]"
    by (simp add: 1(2) Run_take_def Writer_Open_def Writer_Begin_def sample_start_def Writer_init_def
      HandleGuarded_def OpenFile_def Open_def Let_def Scan_def sample_empty_def map_filter_def MakeRoom.simps PlanRetention_def
      CaptureDirectory_init_def Remaining_def Report_def Writer_Write_def append_file_def written_to_def
      removed_def)
  let ?s = "s'\<lparr>wr_thread := Handled (OpenItem ?m told_path ?bytes) loss\<rparr>"
  have run: "?serves [BeginCall ?m, OpenCall ?m told_path ?bytes] (?s, h1)"
    using serves.turns [OF 2 thread_turn.handles [OF s2 3(1)]] 3(2) by simp
  have written: "written_to ?s told_path = ?bytes" using 3(3) by (simp add: written_to_def)
  obtain cp where calls: "Capturer_run told_codec told_inputs (Capturer_init ''captures'' (ca_header sample_capture)) =
     ([BeginCall ?m, OpenCall ?m told_path ?bytes] @ [PushCall ?m [1, 30], CloseCall ?m], cp)" "\<not> cp_failed cp"
    using told_calls by blast
  have str: "uuid_text (cc_to_string told_codec)" using sample_text_ok by (simp add: told_codec_def)
  have size: "header_size (cc_encode told_codec) sample_told = length ?bytes"
    by (simp add: header_size_def told_codec_def kFrameLengthSize_def)
  from conjunct1 [OF captured_match_reads_back
      [OF told_codec_ok str told_inputs_ok calls run [unfolded sample_start_def] told_log 1(3)]]
  obtain n torn where "ReadCapture told_decode (stream_of (written_to ?s told_path)) = Inr (capture_prefix n torn sample_told)"
    unfolding written size by blast
  then show ?thesis using told_log 1(3) written
    by (intro exI conjI) assumption+
qed

end
