(* ===== verification/Replay.thy ===== *)
theory Replay
  imports Capture_Format Host_Match "HOL-Library.Product_Lexorder"
begin

text \<open>
  A Replay of a Match capture (\<open>src/modules/host/replay.cpp\<close>, \<open>replay.h\<close>): the capture's
  players added to a fresh World, its events handed to it tick by tick, and what the World
  resolves checked against the capture's markers. The SimulationWorld is the parameter
  \<open>ops\<close>, any deterministic one; the Scenario's characters by name are the parameter
  \<open>characters\<close>. An \<open>at\<close> out of range throws: \<open>None\<close>.
\<close>

section \<open>The markers a Replay is checked against\<close>

type_synonym death = "Player \<times> Player"

datatype Marker = kDeath | kMatchEnd

record Divergence =
  dv_marker :: Marker
  dv_offset :: u32
  dv_captured_deaths :: "death list"
  dv_resolved_deaths :: "death list"
  dv_captured_end :: "Player option option"
  dv_resolved_end :: "Player option option"

text \<open>By victim, then killer.\<close>

definition Ordered :: "death list \<Rightarrow> death list" where
  "Ordered deaths = sort deaths"

definition DescribeDeaths :: "death list \<Rightarrow> string" where
  "DescribeDeaths deaths =
     foldl (\<lambda>described (victim, killer).
       described @ (if length described > 1 then '' '' else []) @
       decimal (unat victim) @ ''<-'' @ decimal (unat killer)) ''['' deaths @ '']''"

definition DescribeEnd :: "Player option option \<Rightarrow> string" where
  "DescribeEnd ended =
     (case ended of None \<Rightarrow> ''none''
      | Some (Some winner) \<Rightarrow> ''winner:'' @ decimal (unat winner)
      | Some None \<Rightarrow> ''draw'')"

definition DescribeDivergence :: "Divergence \<Rightarrow> string" where
  "DescribeDivergence divergence =
     (if dv_marker divergence = kDeath
      then ''marker=death offset='' @ decimal (unat (dv_offset divergence)) @
        '' captured='' @ DescribeDeaths (dv_captured_deaths divergence) @
        '' resolved='' @ DescribeDeaths (dv_resolved_deaths divergence)
      else ''marker=match_end offset='' @ decimal (unat (dv_offset divergence)) @
        '' captured='' @ DescribeEnd (dv_captured_end divergence) @
        '' resolved='' @ DescribeEnd (dv_resolved_end divergence))"

record ReplayCheck =
  rk_deaths :: "u32 \<Rightarrow> death list option"
  rk_end_offset :: "u32 option"
  rk_end :: "Player option"
  rk_reported :: bool

definition check_event :: "ReplayCheck \<Rightarrow> AtOffset \<Rightarrow> ReplayCheck" where
  "check_event check event =
     (case at_event event of
        Death victim killer \<Rightarrow>
          check\<lparr>rk_deaths := (rk_deaths check)(at_offset event \<mapsto>
            (case rk_deaths check (at_offset event) of None \<Rightarrow> [] | Some ds \<Rightarrow> ds) @ [(victim, killer)])\<rparr>
      | MatchEnd winner \<Rightarrow> check\<lparr>rk_end_offset := Some (at_offset event), rk_end := winner\<rparr>
      | _ \<Rightarrow> check)"

definition ReplayCheck_init :: "Capture \<Rightarrow> ReplayCheck" where
  "ReplayCheck_init capture =
     foldl check_event \<lparr>rk_deaths = (\<lambda>_. None), rk_end_offset = None, rk_end = None, rk_reported = False\<rparr>
       (ca_events capture)"

definition Check ::
  "u32 \<Rightarrow> death list \<Rightarrow> Player option option \<Rightarrow> ReplayCheck \<Rightarrow> Divergence option \<times> ReplayCheck" where
  "Check offset deaths ended check =
     (if rk_reported check then (None, check)
      else
        let captured_deaths = Ordered (case rk_deaths check offset of None \<Rightarrow> [] | Some ds \<Rightarrow> ds);
            resolved_deaths = Ordered deaths
        in if captured_deaths \<noteq> resolved_deaths
           then (Some \<lparr>dv_marker = kDeath, dv_offset = offset, dv_captured_deaths = captured_deaths,
                   dv_resolved_deaths = resolved_deaths, dv_captured_end = None, dv_resolved_end = None\<rparr>,
                 check\<lparr>rk_reported := True\<rparr>)
           else (case rk_end_offset check of
              None \<Rightarrow> (None, check)
            | Some end_offset \<Rightarrow>
                let captured_end = (if end_offset = offset then Some (rk_end check) else None)
                in if captured_end = ended then (None, check)
                   else (Some \<lparr>dv_marker = kMatchEnd, dv_offset = offset, dv_captured_deaths = [],
                           dv_resolved_deaths = [], dv_captured_end = captured_end, dv_resolved_end = ended\<rparr>,
                         check\<lparr>rk_reported := True\<rparr>)))"

section \<open>The World\<close>

text \<open>
  What a tick resolved, as far as a Replay reads it: each Death's victim and killer, and
  the Match ends Game policy decided. A tick lasts one part in the tick rate of a second.
\<close>

record TickResult =
  tr_deaths :: "(EntityId \<times> EntityId) list"
  tr_actions :: "uuid option list"

record ('w, 'c) world_ops =
  wo_add :: "EntityId \<Rightarrow> vec3 \<Rightarrow> 'c \<Rightarrow> uuid \<Rightarrow> string \<Rightarrow> 'w \<Rightarrow> 'w"
  wo_remove :: "EntityId \<Rightarrow> 'w \<Rightarrow> 'w"
  wo_tick :: "(EntityId \<times> Command) list \<Rightarrow> u8 \<Rightarrow> 'w \<Rightarrow> TickResult \<times> 'w"

section \<open>State\<close>

record ReplayPlayer =
  pl_number :: Player
  pl_commands :: CommandQueue
  pl_sequence :: u64
  pl_left :: bool

record ReplayTick =
  rt_result :: TickResult
  rt_end :: "uuid option option"
  rt_divergence :: "Divergence option"

record 'w replay =
  rp_capture :: Capture
  rp_world :: 'w
  rp_check :: ReplayCheck
  rp_start :: "uuid MatchPlayer list"
  rp_spawns :: "vec3 list"
  rp_players :: "ReplayPlayer list"
  rp_next_event :: nat
  rp_offset :: u32
  rp_last_offset :: u32
  rp_ended :: bool

definition BodyOf :: "Player \<Rightarrow> EntityId" where
  "BodyOf player = ucast player"

definition LastOffset :: "Capture \<Rightarrow> u32" where
  "LastOffset capture = (if ca_events capture = [] then 0 else at_offset (List.last (ca_events capture)))"

definition FirstTick :: u64 where "FirstTick = 1"

text \<open>\<open>at\<close>, which throws out of range.\<close>

definition at :: "'a list \<Rightarrow> nat \<Rightarrow> 'a option" where
  "at xs i = (if i < length xs then Some (xs ! i) else None)"

text \<open>\<open>player - 1\<close> as a \<open>size_t\<close>: past every vector for 0.\<close>

definition index_of :: "Player \<Rightarrow> nat" where
  "index_of player = (if player = 0 then 2 ^ 64 - 1 else unat player - 1)"

section \<open>Starting\<close>

definition add_join ::
  "('w, 'c) world_ops \<Rightarrow> (string \<Rightarrow> 'c option) \<Rightarrow> u8 \<Rightarrow> nat \<times> Join \<Rightarrow> 'w replay \<Rightarrow> 'w replay option" where
  "add_join ops characters tick_rate_hz item r =
     (case item of (i, join) \<Rightarrow>
        let number = word_of_nat (i + 1) :: Player
        in case characters (jo_character join) of
             None \<Rightarrow> None
           | Some character \<Rightarrow>
               Some (r\<lparr>rp_start := rp_start r @ [\<lparr>mp_session = jo_session join, mp_entity = ucast number,
                          mp_character = jo_character join, mp_spawn = None\<rparr>],
                       rp_spawns := rp_spawns r @ [jo_spawn join],
                       rp_players := rp_players r @ [\<lparr>pl_number = number, pl_commands = CommandQueue_init tick_rate_hz,
                          pl_sequence = 0, pl_left = False\<rparr>],
                       rp_world := wo_add ops (BodyOf number) (jo_spawn join) character (jo_session join)
                          (jo_character join) (rp_world r)\<rparr>))"

fun add_joins ::
  "('w, 'c) world_ops \<Rightarrow> (string \<Rightarrow> 'c option) \<Rightarrow> u8 \<Rightarrow> (nat \<times> Join) list \<Rightarrow> 'w replay \<Rightarrow> 'w replay option" where
  "add_joins ops characters tick_rate_hz [] r = Some r"
| "add_joins ops characters tick_rate_hz (item # items) r =
     (case add_join ops characters tick_rate_hz item r of
        None \<Rightarrow> None
      | Some r \<Rightarrow> add_joins ops characters tick_rate_hz items r)"

definition Replay_init ::
  "('w, 'c) world_ops \<Rightarrow> (string \<Rightarrow> 'c option) \<Rightarrow> Capture \<Rightarrow> 'w \<Rightarrow> 'w replay option" where
  "Replay_init ops characters capture world =
     add_joins ops characters (hd_tick_rate_hz (ca_header capture)) (enumerate 0 (ca_joins capture))
       \<lparr>rp_capture = capture, rp_world = world, rp_check = ReplayCheck_init capture, rp_start = [], rp_spawns = [],
        rp_players = [], rp_next_event = 0, rp_offset = 0, rp_last_offset = LastOffset capture, rp_ended = False\<rparr>"

section \<open>A tick\<close>

text \<open>\<open>LeavesAfterItsTick\<close>, of the events from the Leave on.\<close>

fun leaves_at_end :: "u32 \<Rightarrow> AtOffset list \<Rightarrow> bool" where
  "leaves_at_end offset [] = False"
| "leaves_at_end offset (event # events) =
     (if at_offset event \<noteq> offset then False
      else case at_event event of MatchEnd _ \<Rightarrow> True | Leave _ \<Rightarrow> leaves_at_end offset events | _ \<Rightarrow> False)"

definition LeavesAfterItsTick :: "AtOffset list \<Rightarrow> bool \<Rightarrow> bool" where
  "LeavesAfterItsTick events tick_run =
     (if tick_run then True else leaves_at_end (at_offset (List.hd events)) events)"

definition moved_seen :: "int \<Rightarrow> u64" where
  "moved_seen seen_offset =
     (let seen = sint FirstTick + seen_offset in if seen > 0 then word_of_int seen else 0)"

text \<open>One player's Command, queued; what the queue answers is not looked at.\<close>

definition queue_captured :: "(vec3 \<Rightarrow> f32) \<Rightarrow> int \<Rightarrow> Command \<Rightarrow> ReplayPlayer \<Rightarrow> ReplayPlayer" where
  "queue_captured vlength seen_offset command player =
     player\<lparr>pl_sequence := pl_sequence player + 1,
       pl_commands := snd (TryEnqueue vlength (pl_commands player)
         \<lparr>sc_sequence = pl_sequence player + 1, sc_command = command\<lparr>cm_seen_tick := moved_seen seen_offset\<rparr>\<rparr>)\<rparr>"

fun HandEvents ::
  "(vec3 \<Rightarrow> f32) \<Rightarrow> ('w, 'c) world_ops \<Rightarrow> u32 \<Rightarrow> AtOffset list \<Rightarrow> bool \<Rightarrow> 'w replay \<Rightarrow> 'w replay option" where
  "HandEvents vlength ops offset [] tick_run r = Some r"
| "HandEvents vlength ops offset (event # events) tick_run r =
     (if at_offset event \<noteq> offset then Some r
      else case at_event event of
        CapturedCommand number seen_offset command \<Rightarrow>
          (case at (rp_players r) (index_of number) of
             None \<Rightarrow> None
           | Some player \<Rightarrow>
               HandEvents vlength ops offset events True
                 (r\<lparr>rp_players := (rp_players r)[index_of number := queue_captured vlength seen_offset command player],
                    rp_next_event := rp_next_event r + 1\<rparr>))
      | Leave number \<Rightarrow>
          if LeavesAfterItsTick (event # events) tick_run
          then HandEvents vlength ops offset events tick_run (r\<lparr>rp_next_event := rp_next_event r + 1\<rparr>)
          else (case at (rp_players r) (index_of number) of
             None \<Rightarrow> None
           | Some player \<Rightarrow>
               HandEvents vlength ops offset events tick_run
                 (r\<lparr>rp_players := (rp_players r)[index_of number := player\<lparr>pl_left := True\<rparr>],
                    rp_world := wo_remove ops (BodyOf number) (rp_world r),
                    rp_next_event := rp_next_event r + 1\<rparr>))
      | _ \<Rightarrow> HandEvents vlength ops offset events True (r\<lparr>rp_next_event := rp_next_event r + 1\<rparr>))"

definition HandBefore :: "(vec3 \<Rightarrow> f32) \<Rightarrow> ('w, 'c) world_ops \<Rightarrow> u32 \<Rightarrow> 'w replay \<Rightarrow> 'w replay option" where
  "HandBefore vlength ops offset r =
     HandEvents vlength ops offset (drop (rp_next_event r) (ca_events (rp_capture r))) False r"

fun take_commands :: "ReplayPlayer list \<Rightarrow> (EntityId \<times> Command) list \<times> ReplayPlayer list" where
  "take_commands [] = ([], [])"
| "take_commands (player # players) =
     (case take_commands players of
        (commands, players) \<Rightarrow>
          if pl_left player then (commands, player # players)
          else (case Next (pl_commands player) of
             (next, queue) \<Rightarrow>
               ((BodyOf (pl_number player), tc_command next) # commands, player\<lparr>pl_commands := queue\<rparr> # players)))"

definition TakeCommands :: "'w replay \<Rightarrow> (EntityId \<times> Command) list \<times> 'w replay" where
  "TakeCommands r =
     (case take_commands (rp_players r) of (commands, players) \<Rightarrow> (commands, r\<lparr>rp_players := players\<rparr>))"

definition EndOf :: "u32 \<Rightarrow> TickResult \<Rightarrow> 'w replay \<Rightarrow> uuid option option option" where
  "EndOf offset result r =
     (case tr_actions result of
        winner # _ \<Rightarrow> Some (Some winner)
      | [] \<Rightarrow>
          if offset < rp_last_offset r then Some None
          else if ca_events (rp_capture r) = [] then Some (Some None)
          else (case at_event (List.last (ca_events (rp_capture r))) of
             MatchEnd (Some winner) \<Rightarrow>
               (case at (rp_start r) (index_of winner) of
                  None \<Rightarrow> None
                | Some player \<Rightarrow> Some (Some (Some (mp_session player))))
           | _ \<Rightarrow> Some (Some None)))"

definition resolved_end :: "uuid MatchPlayer list \<Rightarrow> uuid option list \<Rightarrow> Player option option" where
  "resolved_end start actions =
     foldl (\<lambda>_ winner. Some (case winner of
        None \<Rightarrow> None
      | Some session \<Rightarrow> map_option (\<lambda>player. ucast (mp_entity player)) (find (\<lambda>player. mp_session player = session) start)))
       None actions"

definition Replay_Step :: "(vec3 \<Rightarrow> f32) \<Rightarrow> ('w, 'c) world_ops \<Rightarrow> 'w replay \<Rightarrow> (ReplayTick \<times> 'w replay) option" where
  "Replay_Step vlength ops r =
     (let offset = rp_offset r in
      case HandBefore vlength ops offset r of
        None \<Rightarrow> None
      | Some r \<Rightarrow>
          (case TakeCommands r of (commands, r) \<Rightarrow>
           case wo_tick ops commands (hd_tick_rate_hz (ca_header (rp_capture r))) (rp_world r) of (result, world) \<Rightarrow>
           case Check offset (map (\<lambda>(victim, killer). (ucast victim, ucast killer)) (tr_deaths result))
               (resolved_end (rp_start r) (tr_actions result)) (rp_check r) of (divergence, check) \<Rightarrow>
           let r = r\<lparr>rp_world := world, rp_check := check\<rparr> in
           case EndOf offset result r of
             None \<Rightarrow> None
           | Some ended \<Rightarrow>
               Some (\<lparr>rt_result = result, rt_end = ended, rt_divergence = divergence\<rparr>,
                     r\<lparr>rp_ended := ended \<noteq> None, rp_offset := offset + 1\<rparr>)))"

text \<open>Steps until it has ended, at most \<open>n\<close>.\<close>

fun Replay_run :: "nat \<Rightarrow> (vec3 \<Rightarrow> f32) \<Rightarrow> ('w, 'c) world_ops \<Rightarrow> 'w replay \<Rightarrow> (ReplayTick list \<times> 'w replay) option" where
  "Replay_run 0 vlength ops r = Some ([], r)"
| "Replay_run (Suc n) vlength ops r =
     (if rp_ended r then Some ([], r)
      else case Replay_Step vlength ops r of
        None \<Rightarrow> None
      | Some (tick, r) \<Rightarrow>
          (case Replay_run n vlength ops r of
             None \<Rightarrow> None
           | Some (ticks, r) \<Rightarrow> Some (tick # ticks, r)))"

end
