(* ===== verification/Replay_Correct.thy ===== *)
theory Replay_Correct
  imports Replay "HOL-Library.Multiset"
begin

text \<open>
  What a Replay promises: its check names the first tick that differs from the capture and
  nothing else; a capture the reader accepts is replayed without an exception, to its end
  and no further; and each tick hands the World, for each player, the Command the live
  server's queue handed it.
\<close>

section \<open>The first divergence\<close>

fun deaths_at :: "u32 \<Rightarrow> AtOffset list \<Rightarrow> death list" where
  "deaths_at k [] = []"
| "deaths_at k (e # es) =
     (case at_event e of Death victim killer \<Rightarrow> if at_offset e = k then [(victim, killer)] else [] | _ \<Rightarrow> []) @ deaths_at k es"

fun end_in :: "AtOffset list \<Rightarrow> (u32 \<times> Player option) option" where
  "end_in [] = None"
| "end_in (e # es) =
     (case end_in es of
        Some found \<Rightarrow> Some found
      | None \<Rightarrow> (case at_event e of MatchEnd winner \<Rightarrow> Some (at_offset e, winner) | _ \<Rightarrow> None))"

definition end_at :: "Capture \<Rightarrow> u32 \<Rightarrow> Player option option" where
  "end_at c k = (case end_in (ca_events c) of Some (offset, winner) \<Rightarrow> if offset = k then Some winner else None | None \<Rightarrow> None)"

text \<open>A tick resolved what the capture has on it; a capture with no Match end has none to compare.\<close>

definition same_deaths :: "Capture \<Rightarrow> u32 \<Rightarrow> death list \<Rightarrow> bool" where
  "same_deaths c k deaths \<longleftrightarrow> mset deaths = mset (deaths_at k (ca_events c))"

definition agrees :: "Capture \<Rightarrow> u32 \<Rightarrow> death list \<times> Player option option \<Rightarrow> bool" where
  "agrees c k resolved \<longleftrightarrow>
     same_deaths c k (fst resolved) \<and> (end_in (ca_events c) \<noteq> None \<longrightarrow> snd resolved = end_at c k)"

definition divergence_at :: "Capture \<Rightarrow> u32 \<Rightarrow> death list \<times> Player option option \<Rightarrow> Divergence" where
  "divergence_at c k resolved =
     (if same_deaths c k (fst resolved)
      then \<lparr>dv_marker = kMatchEnd, dv_offset = k, dv_captured_deaths = [], dv_resolved_deaths = [],
            dv_captured_end = end_at c k, dv_resolved_end = snd resolved\<rparr>
      else \<lparr>dv_marker = kDeath, dv_offset = k, dv_captured_deaths = sort (deaths_at k (ca_events c)),
            dv_resolved_deaths = sort (fst resolved), dv_captured_end = None, dv_resolved_end = None\<rparr>)"

fun check_run :: "u32 \<Rightarrow> (death list \<times> Player option option) list \<Rightarrow> ReplayCheck \<Rightarrow> Divergence option list" where
  "check_run k [] check = []"
| "check_run k ((deaths, ended) # resolved) check =
     (case Check k deaths ended check of (divergence, check) \<Rightarrow> divergence # check_run (k + 1) resolved check)"

definition checks :: "Capture \<Rightarrow> ReplayCheck \<Rightarrow> bool" where
  "checks c check \<longleftrightarrow>
     (\<forall>k. (case rk_deaths check k of None \<Rightarrow> [] | Some ds \<Rightarrow> ds) = deaths_at k (ca_events c)) \<and>
     rk_end_offset check = map_option fst (end_in (ca_events c)) \<and>
     (\<forall>offset winner. end_in (ca_events c) = Some (offset, winner) \<longrightarrow> rk_end check = winner)"

lemma check_events:
  assumes "foldl check_event check es = check'"
  shows "(case rk_deaths check' k of None \<Rightarrow> [] | Some ds \<Rightarrow> ds) =
      (case rk_deaths check k of None \<Rightarrow> [] | Some ds \<Rightarrow> ds) @ deaths_at k es"
    and "rk_end_offset check' = (case end_in es of Some (offset, winner) \<Rightarrow> Some offset | None \<Rightarrow> rk_end_offset check)"
    and "rk_end check' = (case end_in es of Some (offset, winner) \<Rightarrow> winner | None \<Rightarrow> rk_end check)"
    and "rk_reported check' = rk_reported check"
  using assms
  by (induction es arbitrary: check) (auto simp: check_event_def split: Event.splits option.splits)

lemma checks_init: "checks c (ReplayCheck_init c)" "\<not> rk_reported (ReplayCheck_init c)"
  using check_events [OF ReplayCheck_init_def [of c, symmetric]]
  by (auto simp: checks_def split: option.splits)

lemma sort_eq: "sort a = sort b \<longleftrightarrow> mset a = mset b"
proof
  assume "sort a = sort b"
  then have "mset (sort a) = mset (sort b)" by simp
  then show "mset a = mset b" by simp
qed (rule properties_for_sort; simp)

lemma Check_unreported:
  assumes "checks c check" and "\<not> rk_reported check"
  shows "fst (Check k deaths ended check) = (if agrees c k (deaths, ended) then None else Some (divergence_at c k (deaths, ended)))"
    and "checks c (snd (Check k deaths ended check))"
    and "rk_reported (snd (Check k deaths ended check)) \<longleftrightarrow> \<not> agrees c k (deaths, ended)"
proof -
  have deaths: "(case rk_deaths check k of None \<Rightarrow> [] | Some ds \<Rightarrow> ds) = deaths_at k (ca_events c)"
    using assms(1) by (simp add: checks_def)
  have ends: "rk_end_offset check = map_option fst (end_in (ca_events c))"
    "end_in (ca_events c) = Some (offset, winner) \<Longrightarrow> rk_end check = winner" for offset winner
    using assms(1) by (auto simp: checks_def)
  note defs = Check_def Let_def deaths Ordered_def sort_eq agrees_def same_deaths_def divergence_at_def end_at_def ends(1)
  show "fst (Check k deaths ended check) = (if agrees c k (deaths, ended) then None else Some (divergence_at c k (deaths, ended)))"
    using assms(2) ends(2) by (cases ended) (auto simp: defs split: option.splits)
  show "rk_reported (snd (Check k deaths ended check)) \<longleftrightarrow> \<not> agrees c k (deaths, ended)"
    using assms(2) ends(2) by (cases ended) (auto simp: defs split: option.splits)
  show "checks c (snd (Check k deaths ended check))"
    using assms(1) by (auto simp: checks_def Check_def Let_def split: option.splits)
qed

lemma check_run_reported: "rk_reported check \<Longrightarrow> check_run k resolved check = replicate (length resolved) None"
  by (induction k resolved check rule: check_run.induct) (auto simp: Check_def)

text \<open>Every tick before the \<open>i\<close>th agreed.\<close>

definition agreed :: "Capture \<Rightarrow> u32 \<Rightarrow> (death list \<times> Player option option) list \<Rightarrow> nat \<Rightarrow> bool" where
  "agreed c k resolved i \<longleftrightarrow> list_all (\<lambda>j. agrees c (k + word_of_nat j) (resolved ! j)) [0..<i]"

lemma upt_shift: "[0..<Suc n] = 0 # map Suc [0..<n]"
  by (metis map_Suc_upt upt_conv_Cons zero_less_Suc)

lemma next_offset: "k + word_of_nat (Suc j) = (k + 1) + (word_of_nat j :: u32)"
  by (simp only: of_nat_Suc add.assoc)

lemma agreed_0 [simp]: "agreed c k resolved 0"
  by (simp add: agreed_def)

lemma agreed_Cons: "agreed c k (r # resolved) (Suc i) \<longleftrightarrow> agrees c k r \<and> agreed c (k + 1) resolved i"
  unfolding agreed_def upt_shift list.pred_map list.pred_inject comp_def next_offset by simp

lemma check_run_first:
  assumes "checks c check" and "\<not> rk_reported check"
  shows "check_run k resolved check =
    map (\<lambda>i. if agreed c k resolved i \<and> \<not> agreed c k resolved (Suc i)
             then Some (divergence_at c (k + word_of_nat i) (resolved ! i)) else None) [0..<length resolved]"
  using assms
proof (induction k resolved check rule: check_run.induct)
  case (1 k check)
  then show ?case by simp
next
  case (2 k deaths ended resolved check)
  note step = Check_unreported [OF 2(2,3), of k deaths ended]
  show ?case
  proof (cases "agrees c k (deaths, ended)")
    case True
    obtain check' where check: "Check k deaths ended check = (None, check')" using step(1) True by (metis prod.collapse)
    have "check_run (k + 1) resolved check' = map (\<lambda>i. if agreed c (k + 1) resolved i \<and> \<not> agreed c (k + 1) resolved (Suc i)
         then Some (divergence_at c (k + 1 + word_of_nat i) (resolved ! i)) else None) [0..<length resolved]"
      using 2(1) [OF check [symmetric]] step(2,3) check True by simp
    then show ?thesis using True
      by (simp add: check upt_shift agreed_Cons comp_def next_offset del: upt_Suc of_nat_Suc)
  next
    case False
    then have "check_run k ((deaths, ended) # resolved) check =
        Some (divergence_at c k (deaths, ended)) # replicate (length resolved) None"
      using step(1,3) check_run_reported by (cases "Check k deaths ended check") simp
    then show ?thesis using False
      by (simp add: upt_shift agreed_Cons comp_def map_replicate_const del: upt_Suc of_nat_Suc)
  qed
qed

text \<open>
  C12: a Replay's check names the first tick that differs, once. Of the ticks resolved from
  offset 0 on, one call of \<open>Check\<close> each, the only one that answers a Divergence is the
  first whose Deaths are not the capture's (as bags) or, in a capture with a Match end,
  whose Match end is not; and it answers that tick's offset, both sides' Deaths in order
  or both sides' ends.
\<close>

theorem first_divergence:
  "check_run 0 resolved (ReplayCheck_init c) =
     map (\<lambda>i. if agreed c 0 resolved i \<and> \<not> agreed c 0 resolved (Suc i)
              then Some (divergence_at c (word_of_nat i) (resolved ! i)) else None) [0..<length resolved]"
  using check_run_first [OF checks_init] by simp

section \<open>A Replay runs to its end\<close>

definition fresh_player :: "u8 \<Rightarrow> nat \<Rightarrow> ReplayPlayer" where
  "fresh_player rate i =
     \<lparr>pl_number = word_of_nat (i + 1), pl_commands = CommandQueue_init rate, pl_sequence = 0, pl_left = False\<rparr>"

text \<open>What a tick never touches.\<close>

definition kept :: "'w replay \<Rightarrow> 'w replay \<Rightarrow> bool" where
  "kept r r' \<longleftrightarrow> rp_capture r' = rp_capture r \<and> rp_start r' = rp_start r \<and> rp_last_offset r' = rp_last_offset r \<and>
     map pl_number (rp_players r') = map pl_number (rp_players r)"

lemma kept_refl [simp]: "kept r r"
  by (simp add: kept_def)

lemma kept_trans: "kept a b \<Longrightarrow> kept b c \<Longrightarrow> kept a c"
  by (simp add: kept_def)

definition characters_known :: "(string \<Rightarrow> 'c option) \<Rightarrow> Join list \<Rightarrow> bool" where
  "characters_known characters joins \<longleftrightarrow> list_all (\<lambda>j. characters (jo_character j) \<noteq> None) joins"

lemma add_joins_known:
  assumes "characters_known characters joins"
  shows "\<exists>r'. add_joins ops characters rate (enumerate n joins) r = Some r' \<and>
     rp_players r' = rp_players r @ map (fresh_player rate) [n..<n + length joins] \<and>
     map mp_session (rp_start r') = map mp_session (rp_start r) @ map jo_session joins \<and>
     rp_capture r' = rp_capture r \<and> rp_check r' = rp_check r \<and> rp_next_event r' = rp_next_event r \<and>
     rp_offset r' = rp_offset r \<and> rp_last_offset r' = rp_last_offset r \<and> rp_ended r' = rp_ended r"
  using assms
proof (induction joins arbitrary: n r)
  case Nil
  then show ?case by simp
next
  case (Cons j joins)
  from Cons.prems obtain character where "characters (jo_character j) = Some character"
    by (auto simp: characters_known_def)
  moreover obtain r1 where "add_join ops characters rate (n, j) r = Some r1" "rp_players r1 = rp_players r @ [fresh_player rate n]"
      "map mp_session (rp_start r1) = map mp_session (rp_start r) @ [jo_session j]"
      "rp_capture r1 = rp_capture r" "rp_check r1 = rp_check r" "rp_next_event r1 = rp_next_event r"
      "rp_offset r1 = rp_offset r" "rp_last_offset r1 = rp_last_offset r" "rp_ended r1 = rp_ended r"
    using calculation by (simp add: add_join_def Let_def fresh_player_def)
  moreover have "characters_known characters joins" using Cons.prems by (simp add: characters_known_def)
  moreover have "[n..<n + length (j # joins)] = n # [Suc n..<Suc n + length joins]" by (simp add: upt_conv_Cons del: upt_Suc)
  ultimately show ?case using Cons.IH [of "Suc n" r1] by (auto simp: simp del: upt_Suc)
qed

lemma index_of_known: "1 \<le> unat p \<Longrightarrow> index_of p = unat p - 1"
  by (auto simp: index_of_def)

lemma at_known: "1 \<le> unat p \<Longrightarrow> unat p \<le> length xs \<Longrightarrow> at xs (index_of p) = Some (xs ! (unat p - 1))"
  by (simp add: index_of_known at_def)

lemma map_update_same: "i < length xs \<Longrightarrow> f y = f (xs ! i) \<Longrightarrow> map f (xs[i := y]) = map f xs"
  by (metis list_update_id map_update nth_map)

lemma numbers_update:
  assumes "1 \<le> unat p" and "unat p \<le> length players" and "pl_number y = pl_number (players ! (unat p - 1))"
  shows "map pl_number (players[index_of p := y]) = map pl_number players"
  using assms by (intro map_update_same) (simp_all add: index_of_known)

lemma HandEvents_known:
  assumes "list_all (names_known (length (rp_players r))) events"
  shows "\<exists>r'. HandEvents vlength ops k events tick_run r = Some r' \<and> kept r r' \<and>
     rp_check r' = rp_check r \<and> rp_offset r' = rp_offset r \<and> rp_ended r' = rp_ended r \<and>
     rp_next_event r' = rp_next_event r + length (takeWhile (\<lambda>e. at_offset e = k) events)"
  using assms
proof (induction events arbitrary: tick_run r)
  case Nil
  then show ?case by simp
next
  case (Cons e events)
  have rest: ?case
    if "HandEvents vlength ops k (e # events) tick_run r = HandEvents vlength ops k events tick_run' r1" "at_offset e = k"
      and "kept r r1" "rp_check r1 = rp_check r" "rp_offset r1 = rp_offset r" "rp_ended r1 = rp_ended r"
      and "rp_next_event r1 = rp_next_event r + 1" for tick_run' r1
  proof -
    have "length (rp_players r1) = length (rp_players r)" using that(3) by (metis kept_def length_map)
    then show ?thesis using Cons.IH [of r1 tick_run'] Cons.prems that kept_trans [OF that(3)] by auto
  qed
  show ?case
  proof (cases "at_offset e = k")
    case True
    show ?thesis
    proof (cases "at_event e")
      case (CapturedCommand number seen command)
      then have number: "1 \<le> unat number" "unat number \<le> length (rp_players r)"
        using Cons.prems by (simp_all add: names_known_def)
      show ?thesis
        by (rule rest, simp add: True CapturedCommand at_known [OF number])
          (simp_all add: True kept_def numbers_update [OF number] queue_captured_def)
    next
      case (Leave number)
      then have number: "1 \<le> unat number" "unat number \<le> length (rp_players r)"
        using Cons.prems by (simp_all add: names_known_def)
      show ?thesis
      proof (cases "LeavesAfterItsTick (e # events) tick_run")
        case after: True
        show ?thesis by (rule rest, simp add: True Leave after) (simp_all add: True kept_def)
      next
        case False
        show ?thesis
          by (rule rest, simp add: True Leave False at_known [OF number])
            (simp_all add: True kept_def numbers_update [OF number])
      qed
    next
      case (Death victim killer)
      show ?thesis by (rule rest, simp add: True Death) (simp_all add: True kept_def)
    next
      case (MatchEnd winner)
      show ?thesis by (rule rest, simp add: True MatchEnd) (simp_all add: True kept_def)
    qed
  qed simp
qed

text \<open>The events up to a tick, in offset order.\<close>

definition events_before :: "Capture \<Rightarrow> u32 \<Rightarrow> nat" where
  "events_before c k = length (takeWhile (\<lambda>e. at_offset e < k) (ca_events c))"

lemma takeWhile_next:
  assumes "sorted (map at_offset es)"
  shows "length (takeWhile (\<lambda>e. at_offset e < k) es) +
     length (takeWhile (\<lambda>e. at_offset e = k) (drop (length (takeWhile (\<lambda>e. at_offset e < k) es)) es)) =
     length (takeWhile (\<lambda>e. at_offset e \<le> k) es)"
  using assms
proof (induction es)
  case (Cons e es)
  have same: "takeWhile (\<lambda>e. at_offset e = k) es = takeWhile (\<lambda>e. at_offset e \<le> k) es" if "k \<le> at_offset e"
    using Cons.prems that by (intro takeWhile_cong refl) force
  show ?case
  proof (cases "at_offset e < k")
    case True
    then show ?thesis using Cons by (simp add: less_imp_le)
  next
    case False
    then show ?thesis using same by (auto simp: not_less)
  qed
qed simp

lemma events_before_next:
  assumes "sorted (map at_offset (ca_events c))" and "k < k + 1"
  shows "events_before c k + length (takeWhile (\<lambda>e. at_offset e = k) (drop (events_before c k) (ca_events c))) =
     events_before c (k + 1)"
proof -
  have "(x \<le> k) = (x < k + 1)" for x :: u32 using assms(2) by (meson inc_le leD le_less_trans not_le)
  then show ?thesis unfolding events_before_def using takeWhile_next [OF assms(1)] by simp
qed

lemma sorted_map_last: "sorted (map f xs) \<Longrightarrow> x \<in> set xs \<Longrightarrow> f x \<le> f (List.last xs)"
  by (induction xs) auto

lemma events_before_last:
  assumes "sorted (map at_offset (ca_events c))"
  shows "events_before c (LastOffset c) +
      length (takeWhile (\<lambda>e. at_offset e = LastOffset c) (drop (events_before c (LastOffset c)) (ca_events c))) =
     length (ca_events c)"
proof -
  have "at_offset e \<le> LastOffset c" if "e \<in> set (ca_events c)" for e
    using assms that sorted_map_last [of at_offset] by (auto simp: LastOffset_def)
  then have all: "takeWhile (\<lambda>e. at_offset e \<le> LastOffset c) (ca_events c) = ca_events c" by simp
  show ?thesis unfolding events_before_def takeWhile_next [OF assms] all ..
qed

definition replay_inv :: "Capture \<Rightarrow> 'w replay \<Rightarrow> bool" where
  "replay_inv c r \<longleftrightarrow> rp_capture r = c \<and> rp_last_offset r = LastOffset c \<and> length (rp_players r) = length (ca_joins c) \<and>
     map mp_session (rp_start r) = map jo_session (ca_joins c) \<and>
     (\<not> rp_ended r \<longrightarrow> rp_offset r \<le> LastOffset c \<and> rp_next_event r = events_before c (rp_offset r))"

text \<open>The session of the capture's winner, \<open>None\<close> for a draw or a capture that ends partway.\<close>

definition captured_winner :: "Capture \<Rightarrow> uuid option" where
  "captured_winner c =
     (case end_in (ca_events c) of
        Some (_, Some winner) \<Rightarrow> Some (jo_session (ca_joins c ! (unat winner - 1)))
      | _ \<Rightarrow> None)"

definition replay_winner :: "Capture \<Rightarrow> TickResult \<Rightarrow> uuid option" where
  "replay_winner c result = (case tr_actions result of winner # _ \<Rightarrow> winner | [] \<Rightarrow> captured_winner c)"

lemma end_in_last:
  assumes "list_all (\<lambda>e. \<not> is_match_end e) (butlast es)" and "es \<noteq> []"
  shows "end_in es = (case at_event (List.last es) of MatchEnd winner \<Rightarrow> Some (at_offset (List.last es), winner) | _ \<Rightarrow> None)"
  using assms
proof (induction es)
  case (Cons e es)
  then show ?case by (cases "es = []") (auto simp: is_match_end.simps split: Event.splits)
qed simp

lemma EndOf_known:
  assumes fields: "rp_capture r = c" "rp_last_offset r = LastOffset c"
    and sessions: "map mp_session (rp_start r) = map jo_session (ca_joins c)"
    and valid: "capture_valid (ca_joins c) (ca_events c)"
  shows "EndOf k result r =
     Some (if tr_actions result = [] \<and> k < LastOffset c then None else Some (replay_winner c result))"
proof (cases "tr_actions result")
  case Nil
  have "EndOf k result r = Some (Some (captured_winner c))" if last: "\<not> k < LastOffset c" and some: "ca_events c \<noteq> []"
  proof (cases "at_event (List.last (ca_events c))")
    case (MatchEnd winner)
    have len: "length (rp_start r) = length (ca_joins c)" using sessions by (metis length_map)
    have known: "names_known (length (ca_joins c)) (List.last (ca_events c))"
      using valid some by (simp add: capture_valid_def list_all_iff)
    have winner: "captured_winner c = (case winner of None \<Rightarrow> None | Some p \<Rightarrow> Some (jo_session (ca_joins c ! (unat p - 1))))"
      using valid end_in_last [OF _ some] by (simp add: captured_winner_def MatchEnd capture_valid_def split: option.split)
    show ?thesis
    proof (cases winner)
      case None
      then show ?thesis using Nil last some winner by (simp add: EndOf_def MatchEnd fields)
    next
      case (Some p)
      then have p: "1 \<le> unat p" "unat p \<le> length (rp_start r)" using known len by (simp_all add: names_known_def MatchEnd)
      then have "unat p - 1 < length (rp_start r)" by linarith
      then have "mp_session (rp_start r ! (unat p - 1)) = jo_session (ca_joins c ! (unat p - 1))"
        using sessions len by (metis nth_map)
      then show ?thesis using Nil last some winner Some by (simp add: EndOf_def MatchEnd fields at_known [OF p])
    qed
  qed (use Nil last some valid end_in_last [OF _ some] in
      \<open>simp_all add: EndOf_def fields captured_winner_def capture_valid_def\<close>)
  then show ?thesis using Nil
    by (cases "ca_events c = []") (auto simp: EndOf_def fields replay_winner_def captured_winner_def)
qed (simp add: EndOf_def replay_winner_def)

lemma take_commands_numbers: "map pl_number (snd (take_commands players)) = map pl_number players"
  by (induction players) (auto split: prod.splits if_splits)

lemma Step_known:
  assumes "replay_inv c r" and "capture_valid (ca_joins c) (ca_events c)" and "\<not> rp_ended r"
  shows "\<exists>tick r'. Replay_Step vlength ops r = Some (tick, r') \<and> replay_inv c r' \<and>
     rt_end tick = (if tr_actions (rt_result tick) = [] \<and> rp_offset r < LastOffset c then None
       else Some (replay_winner c (rt_result tick))) \<and>
     rp_ended r' = (rt_end tick \<noteq> None) \<and> rp_offset r' = rp_offset r + 1 \<and>
     (rp_offset r = LastOffset c \<longrightarrow> rp_next_event r' = length (ca_events c))"
proof -
  let ?k = "rp_offset r"
  have inv: "rp_capture r = c" "rp_last_offset r = LastOffset c" "length (rp_players r) = length (ca_joins c)"
      "map mp_session (rp_start r) = map jo_session (ca_joins c)" "?k \<le> LastOffset c" "rp_next_event r = events_before c ?k"
    using assms(1,3) by (simp_all add: replay_inv_def)
  have sorted: "sorted (map at_offset (ca_events c))" using assms(2) by (simp add: capture_valid_def)
  have "list_all (names_known (length (rp_players r))) (drop (events_before c ?k) (ca_events c))"
    using assms(2) inv(3) by (auto simp: capture_valid_def list_all_iff dest: in_set_dropD)
  then obtain r1 where r1: "HandBefore vlength ops ?k r = Some r1" "kept r r1"
      "rp_next_event r1 = events_before c ?k + length (takeWhile (\<lambda>e. at_offset e = ?k) (drop (events_before c ?k) (ca_events c)))"
    using HandEvents_known [of r "drop (events_before c ?k) (ca_events c)"] inv(1,6) unfolding HandBefore_def by metis
  obtain commands r2 where r2: "TakeCommands r1 = (commands, r2)" by (cases "TakeCommands r1")
  have "kept r1 r2" "rp_next_event r2 = rp_next_event r1"
    using r2 take_commands_numbers [of "rp_players r1"] by (auto simp: TakeCommands_def kept_def split: prod.splits)
  with r1 have r2': "kept r r2" "rp_next_event r2 = rp_next_event r1" using kept_trans by blast+
  obtain result world where world: "wo_tick ops commands (hd_tick_rate_hz (ca_header (rp_capture r2))) (rp_world r2) = (result, world)"
    by (cases "wo_tick ops commands (hd_tick_rate_hz (ca_header (rp_capture r2))) (rp_world r2)")
  obtain divergence check where check: "Check ?k (map (\<lambda>(victim, killer). (ucast victim, ucast killer)) (tr_deaths result))
       (resolved_end (rp_start r2) (tr_actions result)) (rp_check r2) = (divergence, check)" by (meson surj_pair)
  let ?r3 = "r2\<lparr>rp_world := world, rp_check := check\<rparr>"
  let ?ended = "if tr_actions result = [] \<and> ?k < LastOffset c then None else Some (replay_winner c result)"
  have len: "length (rp_players r2) = length (ca_joins c)" using r2'(1) inv(3) by (metis kept_def length_map)
  have ended: "EndOf ?k result ?r3 = Some ?ended"
    using r2'(1) inv by (intro EndOf_known assms(2)) (simp_all add: kept_def)
  let ?r' = "?r3\<lparr>rp_ended := ?ended \<noteq> None, rp_offset := ?k + 1\<rparr>"
  have step: "Replay_Step vlength ops r = Some (\<lparr>rt_result = result, rt_end = ?ended, rt_divergence = divergence\<rparr>, ?r')"
    by (simp only: Replay_Step_def Let_def r1(1) r2 world check ended option.case prod.case)
  have following: "?k + 1 \<le> LastOffset c \<and> rp_next_event r2 = events_before c (?k + 1)" if "?k < LastOffset c"
  proof -
    have "?k < ?k + 1"
    proof (rule ccontr)
      assume "\<not> ?k < ?k + 1"
      then have "?k = - 1" by (intro inc_less_eq_triv_imp) (simp add: not_less)
      with that show False by simp
    qed
    then show ?thesis using events_before_next [OF sorted, of ?k] r1(3) r2'(2) inc_le [OF that] by simp
  qed
  have inv': "replay_inv c ?r'" using r2'(1) inv len following by (auto simp: replay_inv_def kept_def not_less)
  have whole: "rp_next_event ?r' = length (ca_events c)" if "?k = LastOffset c"
    using events_before_last [OF sorted] r1(3) r2'(2) that by simp
  show ?thesis
    by (rule exI, rule exI, rule conjI, rule step, intro conjI) (use inv' whole in simp_all)
qed

lemma run_ends:
  assumes "replay_inv c r" and "capture_valid (ca_joins c) (ca_events c)" and "\<not> rp_ended r"
    and "unat (LastOffset c) - unat (rp_offset r) < n"
  shows "\<exists>ticks tick r'. Replay_run n vlength ops r = Some (ticks @ [tick], r') \<and> rp_ended r' \<and>
     list_all (\<lambda>t. rt_end t = None \<and> tr_actions (rt_result t) = []) ticks \<and>
     rt_end tick = Some (replay_winner c (rt_result tick)) \<and>
     unat (rp_offset r) + length ticks \<le> unat (LastOffset c) \<and>
     (tr_actions (rt_result tick) = [] \<longrightarrow> unat (rp_offset r) + length ticks = unat (LastOffset c)) \<and>
     (unat (rp_offset r) + length ticks = unat (LastOffset c) \<longrightarrow> rp_next_event r' = length (ca_events c))"
  using assms(1,3,4)
proof (induction n arbitrary: r)
  case 0
  then show ?case by simp
next
  case (Suc n)
  obtain tick r1 where step: "Replay_Step vlength ops r = Some (tick, r1)" "replay_inv c r1"
      "rt_end tick = (if tr_actions (rt_result tick) = [] \<and> rp_offset r < LastOffset c then None
        else Some (replay_winner c (rt_result tick)))"
      "rp_ended r1 = (rt_end tick \<noteq> None)" "rp_offset r1 = rp_offset r + 1"
      "rp_offset r = LastOffset c \<longrightarrow> rp_next_event r1 = length (ca_events c)"
    using Step_known [OF Suc.prems(1) assms(2) Suc.prems(2)] by metis
  have le: "rp_offset r \<le> LastOffset c" using Suc.prems(1,2) by (simp add: replay_inv_def)
  show ?case
  proof (cases "rp_ended r1")
    case True
    then have run: "Replay_run (Suc n) vlength ops r = Some ([] @ [tick], r1)"
      using Suc.prems(2) step(1) by (cases n) simp_all
    have "rt_end tick = Some (replay_winner c (rt_result tick))" using True step(3,4) by (auto split: if_splits)
    moreover have "rp_offset r = LastOffset c" if "tr_actions (rt_result tick) = []"
      using True step(3,4) that le by (auto split: if_splits)
    ultimately show ?thesis using run True step(6) le
      by (intro exI [of _ "[]"] exI [of _ tick] exI [of _ r1]) (auto simp: word_le_nat_alt word_unat_eq_iff)
  next
    case False
    then have more: "tr_actions (rt_result tick) = []" "rp_offset r < LastOffset c" "rt_end tick = None"
      using step(3,4) by (auto split: if_splits)
    have "unat (rp_offset r) < 2 ^ 32 - 1" using more(2) unsigned_less [of "LastOffset c", where ?'a = nat]
      by (simp add: word_less_nat_alt)
    then have off: "unat (rp_offset r1) = unat (rp_offset r) + 1" by (simp add: step(5) unat_word_ariths)
    have "unat (LastOffset c) - unat (rp_offset r1) < n" using Suc.prems(3) off more(2) by (simp add: word_less_nat_alt)
    from Suc.IH [OF step(2) False this] obtain ticks last r' where rest:
      "Replay_run n vlength ops r1 = Some (ticks @ [last], r')" "rp_ended r'"
      "list_all (\<lambda>t. rt_end t = None \<and> tr_actions (rt_result t) = []) ticks"
      "rt_end last = Some (replay_winner c (rt_result last))"
      "unat (rp_offset r1) + length ticks \<le> unat (LastOffset c)"
      "tr_actions (rt_result last) = [] \<longrightarrow> unat (rp_offset r1) + length ticks = unat (LastOffset c)"
      "unat (rp_offset r1) + length ticks = unat (LastOffset c) \<longrightarrow> rp_next_event r' = length (ca_events c)"
      by blast
    have "Replay_run (Suc n) vlength ops r = Some ((tick # ticks) @ [last], r')"
      using Suc.prems(2) step(1) rest(1) by simp
    then show ?thesis using rest(2-) more off
      by (intro exI [of _ "tick # ticks"] exI [of _ last] exI [of _ r']) simp
  qed
qed

lemma replay_inv_init:
  assumes "characters_known characters (ca_joins c)"
  shows "\<exists>r. Replay_init ops characters c world = Some r \<and> replay_inv c r \<and> \<not> rp_ended r \<and> rp_offset r = 0 \<and>
     rp_check r = ReplayCheck_init c \<and>
     rp_players r = map (fresh_player (hd_tick_rate_hz (ca_header c))) [0..<length (ca_joins c)]"
  using add_joins_known [OF assms, where n = 0 and ops = ops and rate = "hd_tick_rate_hz (ca_header c)" and
      r = "\<lparr>rp_capture = c, rp_world = world, rp_check = ReplayCheck_init c, rp_start = [], rp_spawns = [],
        rp_players = [], rp_next_event = 0, rp_offset = 0, rp_last_offset = LastOffset c, rp_ended = False\<rparr>"]
  by (auto simp: Replay_init_def replay_inv_def events_before_def takeWhile_eq_Nil_iff)

text \<open>
  C11: a capture the reader accepts replays to its end, whatever the World does. With every
  Join's character known, nothing throws; the Replay ends after at most one tick for each
  offset of the capture: on the first tick the World's Game policy ends the Match, with its
  winner, or else on the capture's last offset, every event handed by then, with the
  capture's winner; and no tick before that one ends it.
\<close>

theorem replay_ends:
  assumes "ReadCapture decode s = Inr c" and "characters_known characters (ca_joins c)"
  shows "\<exists>start ticks tick r. Replay_init ops characters c world = Some start \<and>
     Replay_run (unat (LastOffset c) + 1) vlength ops start = Some (ticks @ [tick], r) \<and> rp_ended r \<and>
     list_all (\<lambda>t. rt_end t = None \<and> tr_actions (rt_result t) = []) ticks \<and>
     rt_end tick = Some (replay_winner c (rt_result tick)) \<and> length ticks \<le> unat (LastOffset c) \<and>
     (tr_actions (rt_result tick) = [] \<longrightarrow> length ticks = unat (LastOffset c)) \<and>
     (length ticks = unat (LastOffset c) \<longrightarrow> rp_next_event r = length (ca_events c))"
proof -
  obtain start where start: "Replay_init ops characters c world = Some start" "replay_inv c start" "\<not> rp_ended start"
      "rp_offset start = 0"
    using replay_inv_init [OF assms(2)] by metis
  have "unat (LastOffset c) - unat (rp_offset start) < unat (LastOffset c) + 1" by simp
  from run_ends [OF start(2) ReadCapture_valid [OF assms(1)] start(3) this] start show ?thesis by simp
qed

definition still_world :: "(unit, unit) world_ops" where
  "still_world = \<lparr>wo_add = (\<lambda>_ _ _ _ _ w. w), wo_remove = (\<lambda>_ w. w), wo_tick = (\<lambda>_ _ w. (\<lparr>tr_deaths = [], tr_actions = []\<rparr>, w))\<rparr>"

theorem replay_ends_witness:
  "\<exists>start ticks tick r. Replay_init still_world (\<lambda>_. Some ()) sample_capture () = Some start \<and>
     Replay_run 8 vx still_world start = Some (ticks @ [tick], r) \<and> rp_ended r \<and> length ticks \<le> 7"
proof -
  have "unat (LastOffset sample_capture) = 7" by (simp add: LastOffset_def sample_capture_def)
  moreover have "characters_known (\<lambda>_. Some ()) (ca_joins sample_capture)"
    by (simp add: characters_known_def list_all_iff)
  ultimately show ?thesis
    using replay_ends [OF sample_reads, of "\<lambda>_. Some ()" still_world "()" vx] by auto
qed

text \<open>
  Where \<open>LeavesAfterItsTick\<close> cannot tell: the live server captures a player taken out before
  the Match's last tick as a Leave on that tick's offset, and if that tick had no sent
  Command and no Death, nothing but the Match end follows it. The Replay then takes the
  player for one who left after the tick, and runs the tick with its body still in.
\<close>

lemma quiet_last_tick_keeps_leaver:
  "HandEvents vlength ops k [\<lparr>at_offset = k, at_event = Leave p\<rparr>, \<lparr>at_offset = k, at_event = MatchEnd w\<rparr>] False r =
     Some (r\<lparr>rp_next_event := rp_next_event r + 2\<rparr>)"
  by (simp add: LeavesAfterItsTick_def)

end
