(* ===== verification/Replay_Commands.thy ===== *)
theory Replay_Commands
  imports Replay_Correct Capturer_Correct
begin

text \<open>
  A Replay hands the World what the live server did. For each player, the Commands that
  its queue handed the live World, tick by tick, the sent ones captured by the Capturer,
  are handed again by the Replay's own queue: sent, held or idle alike, each with its Seen
  tick moved onto the Replay's ticks.
\<close>

section \<open>What a queue hands out, from what it has sent\<close>

definition idle_command :: "nat \<Rightarrow> Command option \<times> nat \<Rightarrow> Command" where
  "idle_command max_held tracked =
     (case tracked of
        (None, held) \<Rightarrow> default_command
      | (Some prev, held) \<Rightarrow>
          if held < max_held then WithoutActions prev
          else (WithoutActions prev)\<lparr>cm_movement := (cm_movement (WithoutActions prev))\<lparr>mi_direction := zero_vec, mi_sprint := False\<rparr>\<rparr>)"

definition track :: "nat \<Rightarrow> Command option \<times> nat \<Rightarrow> TickCommand \<Rightarrow> Command option \<times> nat" where
  "track max_held tracked h =
     (if tc_sent h then (Some (tc_command h), 0)
      else case tracked of
        (None, held) \<Rightarrow> (None, held)
      | (Some prev, held) \<Rightarrow> (Some prev, if held < max_held then held + 1 else held))"

definition tracks :: "CommandQueue \<Rightarrow> Command option \<times> nat" where
  "tracks q = (cq_last q, cq_held_ticks q)"

lemma Next_tracks:
  "tracks (snd (Next q)) = track (cq_max_held_ticks q) (tracks q) (fst (Next q))"
  "\<not> tc_sent (fst (Next q)) \<Longrightarrow> tc_command (fst (Next q)) = idle_command (cq_max_held_ticks q) (tracks q)"
  "cq_max_held_ticks (snd (Next q)) = cq_max_held_ticks q"
  by (auto simp: Next_def tracks_def track_def idle_command_def Let_def split: list.splits option.splits)

lemma offer_tracks:
  "tracks (snd (TryEnqueue vlength q command)) = tracks q"
  "cq_max_held_ticks (snd (TryEnqueue vlength q command)) = cq_max_held_ticks q"
  by (auto simp: TryEnqueue_def tracks_def Let_def split: sum.splits)

text \<open>The hand-outs tell what each unsent one is.\<close>

lemma handed_idle:
  assumes "k < length (handed vlength q es)" and "\<not> tc_sent (handed vlength q es ! k)"
  shows "tc_command (handed vlength q es ! k) =
    idle_command (cq_max_held_ticks q) (foldl (track (cq_max_held_ticks q)) (tracks q) (take k (handed vlength q es)))"
  using assms
proof (induction vlength q es arbitrary: k rule: handed.induct)
  case (3 vlength q es)
  then show ?case by (cases k) (simp_all add: Next_tracks)
qed (simp_all add: offer_tracks)

section \<open>The same for the Replay's queue\<close>

definition replayed :: "u64 \<Rightarrow> Command \<Rightarrow> Command" where
  "replayed first_tick command = command\<lparr>cm_seen_tick := moved_seen (told_seen first_tick command)\<rparr>"

definition replayed_track :: "u64 \<Rightarrow> Command option \<times> nat \<Rightarrow> Command option \<times> nat" where
  "replayed_track first_tick tracked = (map_option (replayed first_tick) (fst tracked), snd tracked)"

lemma replayed_fields [simp]:
  "cm_movement (replayed first_tick c) = cm_movement c"
  "replayed first_tick (WithoutActions c) = WithoutActions (replayed first_tick c)"
  "replayed first_tick (c\<lparr>cm_movement := m\<rparr>) = (replayed first_tick c)\<lparr>cm_movement := m\<rparr>"
  by (simp_all add: replayed_def WithoutActions_def told_seen_def)

lemma WithoutActions_movement [simp]: "cm_movement (WithoutActions c) = cm_movement c"
  by (simp add: WithoutActions_def)

lemma replayed_default:
  assumes "0 <s first_tick"
  shows "replayed first_tick default_command = default_command"
proof -
  have "clamp (- sint first_tick) (- (2 ^ 31)) (2 ^ 31 - 1) < 0" using assms by (auto simp: clamp_def word_sless_alt)
  then have "moved_seen (told_seen first_tick default_command) = 0"
    by (auto simp: moved_seen_def told_seen_def Offset_def default_command_def FirstTick_def Let_def)
  then show ?thesis by (simp add: replayed_def default_command_def)
qed

lemma replayed_idle:
  "0 <s first_tick \<Longrightarrow> idle_command m (replayed_track first_tick tracked) = replayed first_tick (idle_command m tracked)"
  by (cases tracked; cases "fst tracked") (auto simp: idle_command_def replayed_track_def replayed_default)

lemma replayed_well_formed: "well_formed vlength (replayed first_tick c) = well_formed vlength c"
  by (simp add: well_formed_def replayed_def)

text \<open>What the Replay's player \<open>player\<close> is between ticks, having been handed \<open>hs\<close> so far.\<close>

definition follows :: "u64 \<Rightarrow> u8 \<Rightarrow> TickCommand list \<Rightarrow> ReplayPlayer \<Rightarrow> bool" where
  "follows first_tick rate hs player \<longleftrightarrow>
     cq_queued (pl_commands player) = [] \<and> cq_max_held_ticks (pl_commands player) = HeldTicks rate \<and>
     tracks (pl_commands player) = replayed_track first_tick (foldl (track (HeldTicks rate)) (None, 0) hs) \<and>
     cq_last_offered (pl_commands player) = pl_sequence player \<and>
     unat (pl_sequence player) = length (filter tc_sent hs)"

lemma follows_fresh: "follows first_tick rate [] (fresh_player rate i)"
  by (simp add: follows_def fresh_player_def CommandQueue_init_def tracks_def replayed_track_def)

text \<open>What a sent hand-out is captured as, and queued again.\<close>

definition captured_of :: "u64 \<Rightarrow> TickCommand \<Rightarrow> (int \<times> Command) list" where
  "captured_of first_tick h =
     (if tc_sent h then [(told_seen first_tick (tc_command h), (tc_command h)\<lparr>cm_seen_tick := 0\<rparr>)] else [])"

definition queue_all :: "(vec3 \<Rightarrow> f32) \<Rightarrow> (int \<times> Command) list \<Rightarrow> ReplayPlayer \<Rightarrow> ReplayPlayer" where
  "queue_all vlength commands player = foldl (\<lambda>player (seen, command). queue_captured vlength seen command player) player commands"

lemma queue_captured_same:
  "queue_captured vlength (told_seen first_tick c) (c\<lparr>cm_seen_tick := 0\<rparr>) player =
     player\<lparr>pl_sequence := pl_sequence player + 1,
       pl_commands := snd (TryEnqueue vlength (pl_commands player)
         \<lparr>sc_sequence = pl_sequence player + 1, sc_command = replayed first_tick c\<rparr>)\<rparr>"
  by (simp add: queue_captured_def replayed_def)

lemma follows_next:
  assumes "follows first_tick rate hs player" and "0 <s first_tick" and "length hs < 2 ^ 64 - 1"
    and sent: "tc_sent h \<Longrightarrow> well_formed vlength (tc_command h)"
    and idle: "\<not> tc_sent h \<Longrightarrow> tc_command h = idle_command (HeldTicks rate) (foldl (track (HeldTicks rate)) (None, 0) hs)"
    and player': "pl_commands player' = pl_commands (queue_all vlength (captured_of first_tick h) player)"
      "pl_sequence player' = pl_sequence (queue_all vlength (captured_of first_tick h) player)"
  shows "tc_command (fst (Next (pl_commands player'))) = replayed first_tick (tc_command h)"
    and "follows first_tick rate (hs @ [h]) (player'\<lparr>pl_commands := snd (Next (pl_commands player'))\<rparr>)"
proof -
  let ?q = "pl_commands player"
  have q: "cq_queued ?q = []" "cq_max_held_ticks ?q = HeldTicks rate" "cq_last_offered ?q = pl_sequence player"
      "tracks ?q = replayed_track first_tick (foldl (track (HeldTicks rate)) (None, 0) hs)"
      "unat (pl_sequence player) = length (filter tc_sent hs)"
    using assms(1) by (simp_all add: follows_def)
  have "tc_command (fst (Next (pl_commands player'))) = replayed first_tick (tc_command h) \<and>
    follows first_tick rate (hs @ [h]) (player'\<lparr>pl_commands := snd (Next (pl_commands player'))\<rparr>)"
  proof (cases "tc_sent h")
    case True
    let ?c = "\<lparr>sc_sequence = pl_sequence player + 1, sc_command = replayed first_tick (tc_command h)\<rparr>"
    have "unat (pl_sequence player) < 2 ^ 64 - 1" using q(5) assms(3) length_filter_le [of tc_sent hs] by linarith
    then have seq: "unat (pl_sequence player + 1) = unat (pl_sequence player) + 1" by (simp add: unat_word_ariths)
    then have "Validate vlength ?c (pl_sequence player) = Inr ()"
      using sent [OF True] by (simp add: Validate_Inr replayed_well_formed word_less_nat_alt)
    then have "pl_commands player' = ?q\<lparr>cq_last_offered := pl_sequence player + 1, cq_queued := [?c]\<rparr>"
      "pl_sequence player' = pl_sequence player + 1"
      using player' True q(1,3) by (simp_all add: queue_all_def captured_of_def queue_captured_same TryEnqueue_def Let_def kMaxQueuedCommands_def)
    then show ?thesis using q(2,5) True seq
      by (simp add: Next_def follows_def tracks_def track_def replayed_track_def)
  next
    case False
    then have same: "pl_commands player' = ?q" "pl_sequence player' = pl_sequence player"
      using player' by (simp_all add: queue_all_def captured_of_def)
    have unsent: "\<not> tc_sent (fst (Next ?q))" using q(1) by (auto simp: Next_def Let_def split: option.splits)
    have "tc_command (fst (Next ?q)) = replayed first_tick (tc_command h)"
      using Next_tracks(2) [OF unsent] q(2,4) replayed_idle [OF assms(2)] idle [OF False] by simp
    moreover have "cq_queued (snd (Next ?q)) = []" "cq_last_offered (snd (Next ?q)) = pl_sequence player"
      using q(1,3) by (auto simp: Next_def Let_def split: option.splits)
    moreover have "tracks (snd (Next ?q)) = replayed_track first_tick (foldl (track (HeldTicks rate)) (None, 0) (hs @ [h]))"
      using Next_tracks(1) [of ?q] unsent False q(2,4)
      by (auto simp: track_def replayed_track_def split: prod.splits option.splits)
    ultimately show ?thesis using same q(2,5) False by (simp add: follows_def Next_tracks(3))
  qed
  then show "tc_command (fst (Next (pl_commands player'))) = replayed first_tick (tc_command h)"
    "follows first_tick rate (hs @ [h]) (player'\<lparr>pl_commands := snd (Next (pl_commands player'))\<rparr>)" by blast+
qed

section \<open>One tick of the whole Replay\<close>

fun commands_of :: "Player \<Rightarrow> u32 \<Rightarrow> AtOffset list \<Rightarrow> (int \<times> Command) list" where
  "commands_of p k [] = []"
| "commands_of p k (e # es) =
     (case at_event e of
        CapturedCommand number seen command \<Rightarrow> if number = p \<and> at_offset e = k then [(seen, command)] else []
      | _ \<Rightarrow> []) @ commands_of p k es"

lemma commands_of_now:
  assumes "sorted (map at_offset es)"
  shows "commands_of p k (takeWhile (\<lambda>e. at_offset e = k) (drop (length (takeWhile (\<lambda>e. at_offset e < k) es)) es)) =
    commands_of p k es"
proof -
  have later: "commands_of p k es = []" if "\<forall>e \<in> set es. at_offset e \<noteq> k" for es
    using that by (induction es) (auto split: Event.splits)
  have now: "commands_of p k (takeWhile (\<lambda>e. at_offset e = k) es) = commands_of p k es"
    if "sorted (map at_offset es)" "\<forall>e \<in> set es. k \<le> at_offset e" for es
    using that
  proof (induction es)
    case (Cons e es)
    then show ?case using later [of "e # es"] by (cases "at_offset e = k") force+
  qed simp
  show ?thesis using assms
  proof (induction es)
    case (Cons e es)
    show ?case
    proof (cases "at_offset e < k")
      case True
      then show ?thesis using Cons by (auto split: Event.splits)
    next
      case False
      then have "\<forall>x \<in> set (e # es). k \<le> at_offset x" using Cons.prems by auto
      then show ?thesis using now [OF Cons.prems] False by simp
    qed
  qed simp
qed

lemma queue_all_Cons:
  "queue_all vlength ((seen, command) # commands) player = queue_all vlength commands (queue_captured vlength seen command player)"
  by (simp add: queue_all_def)

definition same_queue :: "ReplayPlayer \<Rightarrow> ReplayPlayer \<Rightarrow> bool" where
  "same_queue a b \<longleftrightarrow> pl_commands a = pl_commands b \<and> pl_sequence a = pl_sequence b"

lemma queue_all_same: "same_queue a b \<Longrightarrow> same_queue (queue_all vlength commands a) (queue_all vlength commands b)"
proof (induction commands arbitrary: a b)
  case Nil
  then show ?case by (simp add: queue_all_def)
next
  case (Cons item commands)
  obtain seen command where item: "item = (seen, command)" by (cases item)
  have "same_queue (queue_captured vlength seen command a) (queue_captured vlength seen command b)"
    using Cons.prems by (simp add: same_queue_def queue_captured_def)
  then show ?case unfolding item queue_all_Cons by (rule Cons.IH)
qed

lemma index_of_player:
  assumes "1 \<le> unat number" and "unat number \<le> n" and "i < n" and "n \<le> 255"
  shows "index_of number = i \<longleftrightarrow> number = word_of_nat (i + 1)"
proof -
  have "unat (word_of_nat (i + 1) :: Player) = i + 1"
    by (subst unsigned_of_nat) (use assms(3,4) in \<open>simp add: take_bit_eq_mod\<close>)
  then show ?thesis using assms(1) by (auto simp: index_of_known word_unat_eq_iff)
qed

lemma HandEvents_players:
  assumes "HandEvents vlength ops k events tick_run r = Some r'" and "list_all (names_known (length (rp_players r))) events"
    and "i < length (rp_players r)" and "length (rp_players r) \<le> 255"
  shows "same_queue (rp_players r' ! i)
      (queue_all vlength (commands_of (word_of_nat (i + 1)) k (takeWhile (\<lambda>e. at_offset e = k) events)) (rp_players r ! i)) \<and>
    (pl_left (rp_players r ! i) \<longrightarrow> pl_left (rp_players r' ! i))"
  using assms
proof (induction events arbitrary: tick_run r)
  case Nil
  then show ?case by (simp add: queue_all_def same_queue_def)
next
  case (Cons e events)
  show ?case
  proof (cases "at_offset e = k")
    case False
    then show ?thesis using Cons.prems by (simp add: queue_all_def same_queue_def)
  next
    case True
    show ?thesis
    proof (cases "at_event e")
      case (CapturedCommand number seen command)
      then have number: "1 \<le> unat number" "unat number \<le> length (rp_players r)"
        using Cons.prems(2) by (simp_all add: names_known_def)
      let ?r = "r\<lparr>rp_players := (rp_players r)[index_of number :=
          queue_captured vlength seen command (rp_players r ! (unat number - 1))], rp_next_event := rp_next_event r + 1\<rparr>"
      have "HandEvents vlength ops k events True ?r = Some r'"
        using Cons.prems(1) by (simp add: True CapturedCommand at_known [OF number])
      note ih = Cons.IH [OF this]
      have "rp_players ?r ! i = (if number = word_of_nat (i + 1) then queue_captured vlength seen command (rp_players r ! i)
          else rp_players r ! i)"
        using index_of_player [OF number Cons.prems(3,4)] number Cons.prems(3) by (auto simp: nth_list_update index_of_known)
      moreover have "pl_left (queue_captured vlength seen command p) = pl_left p" for p by (simp add: queue_captured_def)
      ultimately show ?thesis using ih Cons.prems(2-4) by (auto simp: True CapturedCommand queue_all_Cons split: if_splits)
    next
      case (Leave number)
      then have number: "1 \<le> unat number" "unat number \<le> length (rp_players r)"
        using Cons.prems(2) by (simp_all add: names_known_def)
      show ?thesis
      proof (cases "LeavesAfterItsTick (e # events) tick_run")
        case after: True
        then have "HandEvents vlength ops k events tick_run (r\<lparr>rp_next_event := rp_next_event r + 1\<rparr>) = Some r'"
          using Cons.prems(1) by (simp add: True Leave)
        from Cons.IH [OF this] Cons.prems(2-4) show ?thesis by (simp add: True Leave)
      next
        case False
        let ?r = "r\<lparr>rp_players := (rp_players r)[index_of number := (rp_players r ! (unat number - 1))\<lparr>pl_left := True\<rparr>],
            rp_world := wo_remove ops (BodyOf number) (rp_world r), rp_next_event := rp_next_event r + 1\<rparr>"
        have "HandEvents vlength ops k events tick_run ?r = Some r'"
          using Cons.prems(1) by (simp add: True Leave at_known [OF number] False)
        note ih = Cons.IH [OF this]
        have same: "same_queue (rp_players ?r ! i) (rp_players r ! i)" "pl_left (rp_players r ! i) \<longrightarrow> pl_left (rp_players ?r ! i)"
          using number by (auto simp: nth_list_update index_of_known same_queue_def)
        show ?thesis using ih Cons.prems(2-4) same queue_all_same [OF same(1)]
          by (auto simp: True Leave same_queue_def)
      qed
    next
      case (Death victim killer)
      then have "HandEvents vlength ops k events True (r\<lparr>rp_next_event := rp_next_event r + 1\<rparr>) = Some r'"
        using Cons.prems(1) by (simp add: True)
      from Cons.IH [OF this] Cons.prems(2-4) show ?thesis by (simp add: True Death)
    next
      case (MatchEnd winner)
      then have "HandEvents vlength ops k events True (r\<lparr>rp_next_event := rp_next_event r + 1\<rparr>) = Some r'"
        using Cons.prems(1) by (simp add: True)
      from Cons.IH [OF this] Cons.prems(2-4) show ?thesis by (simp add: True MatchEnd)
    qed
  qed
qed

lemma take_commands_eq:
  "take_commands players =
     (map (\<lambda>pl. (BodyOf (pl_number pl), tc_command (fst (Next (pl_commands pl))))) (filter (\<lambda>pl. \<not> pl_left pl) players),
      map (\<lambda>pl. if pl_left pl then pl else pl\<lparr>pl_commands := snd (Next (pl_commands pl))\<rparr>) players)"
  by (induction players) (auto split: prod.splits)

section \<open>The whole Replay\<close>

text \<open>
  The live server's hand-outs to each player of the Match (by place, from 0), and a capture
  that holds the sent ones, each on its tick with its Seen offset.
\<close>

definition captures_live :: "(vec3 \<Rightarrow> f32) \<Rightarrow> u64 \<Rightarrow> Capture \<Rightarrow> (nat \<Rightarrow> TickCommand list) \<Rightarrow> bool" where
  "captures_live vlength first_tick c hs \<longleftrightarrow>
     (\<forall>i < length (ca_joins c).
        (\<exists>es. hs i = handed vlength (CommandQueue_init (hd_tick_rate_hz (ca_header c))) es) \<and>
        (\<forall>k < length (hs i). k \<le> unat (LastOffset c) \<longrightarrow>
           commands_of (word_of_nat (i + 1)) (word_of_nat k) (ca_events c) = captured_of first_tick (hs i ! k)))"

lemma live_handed:
  assumes "captures_live vlength first_tick c hs" and "i < length (ca_joins c)" and "k < length (hs i)"
  shows "tc_sent (hs i ! k) \<Longrightarrow> well_formed vlength (tc_command (hs i ! k))"
    and "\<not> tc_sent (hs i ! k) \<Longrightarrow> tc_command (hs i ! k) =
      idle_command (HeldTicks (hd_tick_rate_hz (ca_header c)))
        (foldl (track (HeldTicks (hd_tick_rate_hz (ca_header c)))) (None, 0) (take k (hs i)))"
proof -
  let ?q = "CommandQueue_init (hd_tick_rate_hz (ca_header c))"
  obtain es where hs: "hs i = handed vlength ?q es" using assms(1,2) by (auto simp: captures_live_def)
  show "tc_sent (hs i ! k) \<Longrightarrow> well_formed vlength (tc_command (hs i ! k))"
    using handed_sent [OF queue_inv_init nth_mem [OF assms(3) [unfolded hs]]] unfolding hs by blast
  have "tracks ?q = (None, 0)" "cq_max_held_ticks ?q = HeldTicks (hd_tick_rate_hz (ca_header c))"
    by (simp_all add: tracks_def CommandQueue_init_def)
  then show "\<not> tc_sent (hs i ! k) \<Longrightarrow> tc_command (hs i ! k) =
      idle_command (HeldTicks (hd_tick_rate_hz (ca_header c)))
        (foldl (track (HeldTicks (hd_tick_rate_hz (ca_header c)))) (None, 0) (take k (hs i)))"
    using handed_idle [of k vlength ?q es] assms(3) unfolding hs by simp
qed

definition replay_at :: "u64 \<Rightarrow> Capture \<Rightarrow> (nat \<Rightarrow> TickCommand list) \<Rightarrow> nat \<Rightarrow> 'w replay \<Rightarrow> bool" where
  "replay_at first_tick c hs j r \<longleftrightarrow>
     replay_inv c r \<and> rp_offset r = word_of_nat j \<and> (\<not> rp_ended r \<longrightarrow> j \<le> unat (LastOffset c)) \<and>
     map pl_number (rp_players r) = map (\<lambda>i. word_of_nat (i + 1)) [0..<length (ca_joins c)] \<and>
     (\<forall>i < length (ca_joins c). \<not> pl_left (rp_players r ! i) \<longrightarrow> j \<le> length (hs i) \<longrightarrow>
        follows first_tick (hd_tick_rate_hz (ca_header c)) (take j (hs i)) (rp_players r ! i))"

lemma offset_fits: "j \<le> unat (LastOffset c) \<Longrightarrow> unat (word_of_nat j :: u32) = j \<and> j < 2 ^ 32"
proof -
  assume "j \<le> unat (LastOffset c)"
  moreover have "unat (LastOffset c) < 2 ^ 32" using unsigned_less [of "LastOffset c", where ?'a = nat] by simp
  ultimately show ?thesis by (subst unsigned_of_nat) (simp add: take_bit_eq_mod)
qed

text \<open>Before the tick: each player's queue holds what was captured of it on the tick.\<close>

lemma replay_before:
  assumes "replay_at first_tick c hs j r" and "\<not> rp_ended r" and "capture_valid (ca_joins c) (ca_events c)"
    and "captures_live vlength first_tick c hs" and "HandBefore vlength ops (rp_offset r) r = Some r'"
  shows "kept r r'" and "length (rp_players r') = length (ca_joins c)"
    and "i < length (ca_joins c) \<Longrightarrow> \<not> pl_left (rp_players r' ! i) \<Longrightarrow> j < length (hs i) \<Longrightarrow>
      \<not> pl_left (rp_players r ! i) \<and>
      same_queue (rp_players r' ! i) (queue_all vlength (captured_of first_tick (hs i ! j)) (rp_players r ! i))"
proof -
  let ?k = "rp_offset r" let ?es = "drop (events_before c (rp_offset r)) (ca_events c)"
  have inv: "rp_capture r = c" "length (rp_players r) = length (ca_joins c)" "rp_next_event r = events_before c ?k"
      "?k = word_of_nat j" "j \<le> unat (LastOffset c)"
    using assms(1,2) by (simp_all add: replay_at_def replay_inv_def)
  have valid: "sorted (map at_offset (ca_events c))" "length (ca_joins c) \<le> 255"
      "list_all (names_known (length (rp_players r))) ?es"
    using assms(3) inv(2) by (auto simp: capture_valid_def list_all_iff dest: in_set_dropD)
  have hand: "HandEvents vlength ops ?k ?es False r = Some r'" using assms(5) inv(1,3) by (simp add: HandBefore_def)
  show kept: "kept r r'" using HandEvents_known [OF valid(3)] hand by (metis option.inject)
  then show "length (rp_players r') = length (ca_joins c)" using inv(2) by (metis kept_def length_map)
  assume i: "i < length (ca_joins c)" "\<not> pl_left (rp_players r' ! i)" "j < length (hs i)"
  have "commands_of (word_of_nat (i + 1)) ?k (takeWhile (\<lambda>e. at_offset e = ?k) ?es) = captured_of first_tick (hs i ! j)"
    using assms(4) i(1,3) inv(4,5) commands_of_now [OF valid(1)] by (auto simp: captures_live_def events_before_def)
  then show "\<not> pl_left (rp_players r ! i) \<and>
      same_queue (rp_players r' ! i) (queue_all vlength (captured_of first_tick (hs i ! j)) (rp_players r ! i))"
    using HandEvents_players [OF hand valid(3), of i] i(1,2) inv(2) valid(2) by auto
qed

lemma replay_tick:
  assumes "replay_at first_tick c hs j r" and "\<not> rp_ended r" and "capture_valid (ca_joins c) (ca_events c)"
    and "captures_live vlength first_tick c hs" and "HandBefore vlength ops (rp_offset r) r = Some r'" and "0 <s first_tick"
    and "i < length (ca_joins c)" and "\<not> pl_left (rp_players r' ! i)" and "j < length (hs i)"
  shows "tc_command (fst (Next (pl_commands (rp_players r' ! i)))) = replayed first_tick (tc_command (hs i ! j))"
    and "follows first_tick (hd_tick_rate_hz (ca_header c)) (take (Suc j) (hs i))
      ((rp_players r' ! i)\<lparr>pl_commands := snd (Next (pl_commands (rp_players r' ! i)))\<rparr>)"
proof -
  note before = replay_before(3) [OF assms(1-5,7-9)]
  have "follows first_tick (hd_tick_rate_hz (ca_header c)) (take j (hs i)) (rp_players r ! i)"
    using assms(1,7,9) before by (simp add: replay_at_def)
  moreover have "length (take j (hs i)) < 2 ^ 64 - 1"
    using assms(1,2) offset_fits [of j c] by (simp add: replay_at_def min_less_iff_disj)
  ultimately have "tc_command (fst (Next (pl_commands (rp_players r' ! i)))) = replayed first_tick (tc_command (hs i ! j)) \<and>
    follows first_tick (hd_tick_rate_hz (ca_header c)) (take j (hs i) @ [hs i ! j])
      ((rp_players r' ! i)\<lparr>pl_commands := snd (Next (pl_commands (rp_players r' ! i)))\<rparr>)"
    using follows_next [of first_tick "hd_tick_rate_hz (ca_header c)" "take j (hs i)" "rp_players r ! i" "hs i ! j" vlength "rp_players r' ! i"]
      assms(6) live_handed [OF assms(4,7,9)] before by (simp add: same_queue_def)
  then show "tc_command (fst (Next (pl_commands (rp_players r' ! i)))) = replayed first_tick (tc_command (hs i ! j))"
    "follows first_tick (hd_tick_rate_hz (ca_header c)) (take (Suc j) (hs i))
      ((rp_players r' ! i)\<lparr>pl_commands := snd (Next (pl_commands (rp_players r' ! i)))\<rparr>)"
    using assms(9) by (simp_all add: take_Suc_conv_app_nth)
qed

lemma Step_players:
  assumes "Replay_Step vlength ops r = Some (tick, r')"
  shows "\<exists>r1. HandBefore vlength ops (rp_offset r) r = Some r1 \<and> rp_players r' = snd (take_commands (rp_players r1))"
  using assms
  by (auto simp: Replay_Step_def TakeCommands_def Let_def split: option.splits prod.splits)

lemma replay_at_step:
  assumes "replay_at first_tick c hs j r" and "\<not> rp_ended r" and "capture_valid (ca_joins c) (ca_events c)"
    and "captures_live vlength first_tick c hs" and "0 <s first_tick" and "Replay_Step vlength ops r = Some (tick, r')"
  shows "replay_at first_tick c hs (Suc j) r'"
proof -
  obtain r1 where r1: "HandBefore vlength ops (rp_offset r) r = Some r1" "rp_players r' = snd (take_commands (rp_players r1))"
    using Step_players [OF assms(6)] by blast
  note before = replay_before(1,2) [OF assms(1-4) r1(1)]
  have "replay_inv c r" using assms(1) by (simp add: replay_at_def)
  from Step_known [OF this assms(3,2), of vlength ops] obtain tick1 r2 where known: "Replay_Step vlength ops r = Some (tick1, r2)"
      "replay_inv c r2" "rp_offset r2 = rp_offset r + 1" "rp_ended r2 = (rt_end tick1 \<noteq> None)"
      "rt_end tick1 = (if tr_actions (rt_result tick1) = [] \<and> rp_offset r < LastOffset c then None
        else Some (replay_winner c (rt_result tick1)))" by blast
  have "r2 = r'" using known(1) assms(6) by simp
  note step = known(2,3) [unfolded this]
  have ended: "rp_ended r'" if "rp_offset r = LastOffset c" using known(4,5) that \<open>r2 = r'\<close> by simp
  have off: "rp_offset r = word_of_nat j" "j \<le> unat (LastOffset c)" using assms(1,2) by (simp_all add: replay_at_def)
  have numbers: "map pl_number (rp_players r') = map (\<lambda>i. word_of_nat (i + 1)) [0..<length (ca_joins c)]"
    using assms(1) before(1) unfolding r1(2) take_commands_numbers kept_def replay_at_def by simp
  have offset: "rp_offset r' = word_of_nat (Suc j)" using step(2) off(1) by simp
  have "Suc j \<le> unat (LastOffset c)" if "\<not> rp_ended r'"
  proof -
    have "rp_offset r \<noteq> LastOffset c" using ended that by blast
    then have "j < unat (LastOffset c)" using off offset_fits [OF off(2)] by (auto simp: word_unat_eq_iff)
    then show ?thesis by simp
  qed
  moreover have "follows first_tick (hd_tick_rate_hz (ca_header c)) (take (Suc j) (hs i)) (rp_players r' ! i)"
    if i: "i < length (ca_joins c)" "\<not> pl_left (rp_players r' ! i)" "Suc j \<le> length (hs i)" for i
  proof -
    have nth: "rp_players r' ! i = (if pl_left (rp_players r1 ! i) then rp_players r1 ! i
        else (rp_players r1 ! i)\<lparr>pl_commands := snd (Next (pl_commands (rp_players r1 ! i)))\<rparr>)"
      using i(1) before(2) r1(2) by (simp add: take_commands_eq)
    then have "\<not> pl_left (rp_players r1 ! i)" using i(2) by (auto split: if_splits)
    then show ?thesis using nth replay_tick(2) [OF assms(1-4) r1(1) assms(5) i(1)] i(3) by simp
  qed
  ultimately show ?thesis using step(1) offset numbers by (simp add: replay_at_def)
qed

lemma replay_at_run:
  assumes "capture_valid (ca_joins c) (ca_events c)" and "captures_live vlength first_tick c hs" and "0 <s first_tick"
    and "replay_at first_tick c hs j r" and "Replay_run k vlength ops r = Some (ticks, r')" and "\<not> rp_ended r'"
  shows "replay_at first_tick c hs (j + k) r'"
  using assms(4,5)
proof (induction k arbitrary: j r ticks)
  case 0
  then show ?case by simp
next
  case (Suc k)
  show ?case
  proof (cases "rp_ended r")
    case True
    then show ?thesis using Suc.prems(2) assms(6) by simp
  next
    case False
    then obtain tick r1 rest where step: "Replay_Step vlength ops r = Some (tick, r1)" "Replay_run k vlength ops r1 = Some (rest, r')"
      using Suc.prems(2) by (auto split: option.splits)
    from Suc.IH [OF replay_at_step [OF Suc.prems(1) False assms(1,2,3) step(1)] step(2)] show ?thesis by simp
  qed
qed

lemma replay_at_start:
  assumes "characters_known characters (ca_joins c)" and "Replay_init ops characters c world = Some start"
  shows "replay_at first_tick c hs 0 start"
proof -
  have "replay_inv c start" "\<not> rp_ended start" "rp_offset start = 0"
      "rp_players start = map (fresh_player (hd_tick_rate_hz (ca_header c))) [0..<length (ca_joins c)]"
    using replay_inv_init [OF assms(1), of ops world] assms(2) by auto
  then show ?thesis by (simp add: replay_at_def follows_fresh comp_def) (simp add: fresh_player_def)
qed

text \<open>
  C3: a Replay hands the World the Commands the live server handed it. Take a Match whose
  players' queues handed out \<open>hs\<close>, and a capture the reader accepts that holds each sent
  Command on its tick. On the Replay's tick \<open>k\<close>, whatever the World has done before, each
  player still in it is handed, in the capture's order, exactly the Command the live queue
  handed on the Match's tick \<open>k\<close>, whether sent, held past a gap or idle, its Seen tick
  moved onto the Replay's.
\<close>

theorem replay_hands_live_commands:
  assumes "ReadCapture decode s = Inr c" and "characters_known characters (ca_joins c)"
    and "captures_live vlength first_tick c hs" and "0 <s first_tick"
    and "Replay_init ops characters c world = Some start"
    and "Replay_run k vlength ops start = Some (ticks, r)" and "\<not> rp_ended r"
    and "HandBefore vlength ops (rp_offset r) r = Some r'"
    and "\<forall>i < length (ca_joins c). \<not> pl_left (rp_players r' ! i) \<longrightarrow> k < length (hs i)"
  shows "fst (TakeCommands r') =
     map (\<lambda>i. (BodyOf (word_of_nat (i + 1)), replayed first_tick (tc_command (hs i ! k))))
       (filter (\<lambda>i. \<not> pl_left (rp_players r' ! i)) [0..<length (ca_joins c)])"
proof -
  note valid = ReadCapture_valid [OF assms(1)]
  have here: "replay_at first_tick c hs k r"
    using replay_at_run [OF valid assms(3,4) replay_at_start [OF assms(2,5)] assms(6,7)] by simp
  note before = replay_before(1,2) [OF here assms(7) valid assms(3,8)]
  have players: "rp_players r' = map ((!) (rp_players r')) [0..<length (ca_joins c)]"
    by (rule nth_equalityI) (simp_all add: before(2))
  have number: "pl_number (rp_players r' ! i) = word_of_nat (i + 1)" if "i < length (ca_joins c)" for i
  proof -
    have "map pl_number (rp_players r') = map (\<lambda>i. word_of_nat (i + 1)) [0..<length (ca_joins c)]"
      using here before(1) by (simp add: replay_at_def kept_def)
    then have "map pl_number (rp_players r') ! i = word_of_nat (i + 1)" using that by simp
    then show ?thesis using that before(2) by simp
  qed
  have "fst (TakeCommands r') = map (\<lambda>pl. (BodyOf (pl_number pl), tc_command (fst (Next (pl_commands pl)))))
      (filter (\<lambda>pl. \<not> pl_left pl) (map ((!) (rp_players r')) [0..<length (ca_joins c)]))"
    using players by (simp add: TakeCommands_def take_commands_eq)
  also have "\<dots> = map (\<lambda>i. (BodyOf (word_of_nat (i + 1)), replayed first_tick (tc_command (hs i ! k))))
       (filter (\<lambda>i. \<not> pl_left (rp_players r' ! i)) [0..<length (ca_joins c)])"
    unfolding filter_map map_map comp_def
    by (rule map_cong [OF refl]) (use replay_tick(1) [OF here assms(7) valid assms(3,8,4)] number assms(9) in auto)
  finally show ?thesis .
qed

text \<open>One player, one sent Command, then a tick it is held past.\<close>

definition held_capture :: Capture where
  "held_capture = sample_capture\<lparr>ca_events :=
     [\<lparr>at_offset = 0, at_event = CapturedCommand 1 (-100) example_command\<rparr>, \<lparr>at_offset = 1, at_event = MatchEnd None\<rparr>]\<rparr>"

definition held_decode :: "byte list \<Rightarrow> CaptureRecord option" where
  "held_decode payload =
     (if payload = [10] then Some (HeaderRecord (ca_header held_capture))
      else if payload = [20] then Some (JoinRecord 1 0 (List.hd (ca_joins held_capture)))
      else if payload = [30] then Some (EventRecord (ca_events held_capture ! 0))
      else if payload = [40] then Some (EventRecord (ca_events held_capture ! 1))
      else None)"

definition held_events :: "queue_event list" where
  "held_events = [Offer \<lparr>sc_sequence = 9, sc_command = example_command\<rparr>, TakeNext, TakeNext]"

lemma held_reads:
  "ReadCapture held_decode (stream_of (kCaptureMagic @ [4, 1, 10, 1, 20, 1, 30, 1, 40])) = Inr held_capture"
    by (simp add: ReadCapture_def ReadCaptureFile_def ReadMagic_def ReadFormatVersion_def ReadHeader_def ReadFrame_def
        stream_read_def stream_of_def kCaptureMagic_def kCaptureFormatVersion_def held_decode_def
        ReadRecords.simps Admits_def AdmitsEvent_def Follows_def RecordOrder_init_def Known_def sort_record_def
        held_capture_def sample_capture_def)

lemma held_handed:
  "handed vx (CommandQueue_init 30) held_events =
     [\<lparr>tc_command = example_command, tc_acknowledged_sequence = 9, tc_sent = True\<rparr>,
      \<lparr>tc_command = WithoutActions example_command, tc_acknowledged_sequence = 9, tc_sent = False\<rparr>]"
  by (simp add: held_events_def CommandQueue_init_def TryEnqueue_def Validate_example Next_def HeldTicks_def
        kMaxHeldTime_def kMaxQueuedCommands_def Let_def word_le_nat_alt)

lemma held_live: "captures_live vx 100 held_capture (\<lambda>_. handed vx (CommandQueue_init 30) held_events)"
proof -
  have "told_seen 100 example_command = -100" "example_command\<lparr>cm_seen_tick := 0\<rparr> = example_command"
    by (simp_all add: told_seen_def clamp_def Offset_def example_command_def default_command_def)
  then show ?thesis
    unfolding captures_live_def
    by (intro allI impI conjI exI [of _ held_events])
      (auto simp: held_capture_def sample_capture_def held_handed captured_of_def less_Suc_eq nth_Cons')
qed

definition held_player :: ReplayPlayer where
  "held_player = \<lparr>pl_number = 1, pl_commands = CommandQueue_init 30, pl_sequence = 0, pl_left = False\<rparr>"

definition held_start :: "unit replay" where
  "held_start =
     \<lparr>rp_capture = held_capture, rp_world = (), rp_check = ReplayCheck_init held_capture,
      rp_start = [\<lparr>mp_session = [9], mp_entity = 1, mp_character = ''knight'', mp_spawn = None\<rparr>],
      rp_spawns = [\<lparr>vx = 0, vy = 0, vz = 0\<rparr>], rp_players = [held_player], rp_next_event = 0, rp_offset = 0,
      rp_last_offset = 1, rp_ended = False\<rparr>"

lemma held_init: "Replay_init still_world (\<lambda>_. Some ()) held_capture () = Some held_start"
  by (simp add: Replay_init_def held_capture_def sample_capture_def add_join_def still_world_def held_start_def held_player_def
      LastOffset_def)

lemma held_before:
  "HandBefore vx still_world 0 held_start = Some (held_start\<lparr>rp_players := [queue_captured vx (-100) example_command held_player],
     rp_next_event := 1\<rparr>)"
  by (simp add: HandBefore_def held_start_def held_capture_def at_def index_of_def)

lemma held_step:
  "\<exists>tick r. Replay_Step vx still_world held_start = Some (tick, r) \<and> \<not> rp_ended r \<and> rp_offset r = 1 \<and> rp_next_event r = 1 \<and>
     rp_capture r = held_capture \<and> length (rp_players r) = 1 \<and> \<not> pl_left (rp_players r ! 0)"
proof -
  obtain d check where check: "Check 0 [] None (ReplayCheck_init held_capture) = (d, check)" by (meson surj_pair)
  have start: "rp_offset held_start = 0" "rp_capture held_start = held_capture" "rp_check held_start = ReplayCheck_init held_capture"
    "rp_start held_start = [\<lparr>mp_session = [9], mp_entity = 1, mp_character = ''knight'', mp_spawn = None\<rparr>]" "rp_last_offset held_start = 1"
    by (simp_all add: held_start_def)
  have still: "wo_tick still_world commands rate w = (\<lparr>tr_deaths = [], tr_actions = []\<rparr>, w)" for commands rate w
    by (simp add: still_world_def)
  show ?thesis
    by (auto simp: Replay_Step_def held_before start TakeCommands_def take_commands_eq still resolved_end_def check EndOf_def
      Let_def queue_captured_def held_player_def)
qed

theorem replay_hands_live_commands_witness:
  "\<exists>start ticks r r'. Replay_init still_world (\<lambda>_. Some ()) held_capture () = Some start \<and>
     Replay_run 1 vx still_world start = Some (ticks, r) \<and> HandBefore vx still_world (rp_offset r) r = Some r' \<and>
     fst (TakeCommands r') = [(1, replayed 100 (WithoutActions example_command))]"
proof -
  have known: "characters_known (\<lambda>_. Some ()) (ca_joins held_capture)" by (simp add: characters_known_def list_all_iff)
  obtain tick r where step: "Replay_Step vx still_world held_start = Some (tick, r)" "\<not> rp_ended r" "rp_offset r = 1"
      "rp_next_event r = 1" "rp_capture r = held_capture" "length (rp_players r) = 1" "\<not> pl_left (rp_players r ! 0)"
    using held_step by blast
  have run: "Replay_run 1 vx still_world held_start = Some ([tick], r)" using step(1) by (simp add: held_start_def)
  let ?r = "r\<lparr>rp_next_event := 2\<rparr>"
  have before: "HandBefore vx still_world (rp_offset r) r = Some ?r"
    using step(3-5) by (simp add: HandBefore_def held_capture_def)
  have joins: "length (ca_joins held_capture) = 1" by (simp add: held_capture_def sample_capture_def)
  have "fst (TakeCommands ?r) = [(1, replayed 100 (WithoutActions example_command))]"
    using replay_hands_live_commands [OF held_reads known held_live _ held_init run step(2) before] step(7)
    by (simp add: joins held_handed BodyOf_def word_sless_alt)
  with held_init run before show ?thesis by blast
qed
end
