(* ===== verification/Supervision.thy ===== *)
theory Supervision
  imports Failures
begin

text \<open>
  The supervisor of a runtime's workers (\<open>src/modules/supervisor/supervisor.cpp\<close>), whose
  first cause stops the runtime, as a step relation: the owner's thread and the workers
  interleave between each look at the state, each stop request and each publication under
  the lock.
\<close>

section \<open>The supervisor\<close>

datatype State = kRunning | kStopping | kStopped

text \<open>
  A call of the owner's that saw no stop yet and is about to start its worker is
  \<open>admitting\<close>; a worker between its stop request and the lock is \<open>publishing\<close>; the log keeps each
  recorded failure and whether its line was the first cause's. \<open>on_first_cause_\<close> is told
  exactly where an ERR line is.
\<close>

record Supervisor =
  su_state :: State
  su_failure :: "Failure option"
  su_admitting :: "string option"
  su_running :: "string list"
  su_publishing :: "Failure list"
  su_log :: "(bool \<times> Failure) list"

definition Supervisor_init :: Supervisor where
  "Supervisor_init =
     \<lparr>su_state = kRunning, su_failure = None, su_admitting = None, su_running = [], su_publishing = [], su_log = []\<rparr>"

definition StopRequested :: "Supervisor \<Rightarrow> bool" where
  "StopRequested s \<longleftrightarrow> su_state s \<noteq> kRunning"

definition RequestStop :: "Supervisor \<Rightarrow> Supervisor" where
  "RequestStop s = (if su_state s = kRunning then s\<lparr>su_state := kStopping\<rparr> else s)"

text \<open>\<open>RecordFailure\<close> up to its lock, and what it does under it.\<close>

definition RecordFailure :: "string \<Rightarrow> Failure \<Rightarrow> Supervisor \<Rightarrow> Supervisor" where
  "RecordFailure thread failure s =
     (let failure = failure\<lparr>fl_context := fl_context failure @ [\<lparr>cx_key = ''thread'', cx_value = thread\<rparr>]\<rparr>;
          s = RequestStop s
      in s\<lparr>su_publishing := su_publishing s @ [failure]\<rparr>)"

definition Publish :: "Failure \<Rightarrow> Supervisor \<Rightarrow> Supervisor" where
  "Publish failure s =
     (let first = (su_failure s = None)
      in s\<lparr>su_failure := (if first then Some failure else su_failure s),
           su_publishing := remove1 failure (su_publishing s),
           su_log := su_log s @ [(first, failure)]\<rparr>)"

text \<open>
  \<open>Supervise\<close>'s end: the body ended as \<open>ended\<close> says (\<open>Returned None\<close> for no failure,
  \<open>Returned (Some f)\<close> for one it returned), or a tripped fault threw in its place.
\<close>

definition Supervise :: "string \<Rightarrow> Failure option outcome \<Rightarrow> Supervisor \<Rightarrow> Supervisor" where
  "Supervise thread ended s =
     (case Guard kWorkerFailed ended of
        Inl failure \<Rightarrow> RecordFailure thread failure s
      | Inr (Some failure) \<Rightarrow> RecordFailure thread failure s
      | Inr None \<Rightarrow> s)"

text \<open>
  \<open>Spawn\<close> and \<open>Run\<close> look for a stop first; then \<open>Spawn\<close> creates its thread, which may fail,
  and \<open>Run\<close> goes on as the worker itself.
\<close>

definition Admit :: "string \<Rightarrow> Supervisor \<Rightarrow> Supervisor" where
  "Admit thread s = (if StopRequested s then s else s\<lparr>su_admitting := Some thread\<rparr>)"

definition Spawn :: "string \<Rightarrow> unit outcome \<Rightarrow> Supervisor \<Rightarrow> Supervisor" where
  "Spawn thread creation s =
     (let s = s\<lparr>su_admitting := None\<rparr>
      in case Guard kWorkerCreationFailed creation of
           Inl failure \<Rightarrow> RecordFailure thread failure s
         | Inr _ \<Rightarrow> s\<lparr>su_running := su_running s @ [thread]\<rparr>)"

definition Run :: "string \<Rightarrow> Supervisor \<Rightarrow> Supervisor" where
  "Run thread s = s\<lparr>su_admitting := None, su_running := su_running s @ [thread]\<rparr>"

text \<open>
  The interleavings: the owner admits, spawns, runs and stops; any running worker may end; any
  failure being published may take the lock next; \<open>StopAndJoin\<close> returns once every worker
  has returned, which is once none runs or publishes.
\<close>

inductive supervisor_step :: "Supervisor \<Rightarrow> Supervisor \<Rightarrow> bool" where
  admit: "su_admitting s = None \<Longrightarrow> supervisor_step s (Admit thread s)"
| spawn: "su_admitting s = Some thread \<Longrightarrow> supervisor_step s (Spawn thread creation s)"
| run: "su_admitting s = Some thread \<Longrightarrow> supervisor_step s (Run thread s)"
| stop: "supervisor_step s (RequestStop s)"
| worker_end: "thread \<in> set (su_running s) \<Longrightarrow>
    supervisor_step s (Supervise thread ended (s\<lparr>su_running := remove1 thread (su_running s)\<rparr>))"
| publish: "failure \<in> set (su_publishing s) \<Longrightarrow> supervisor_step s (Publish failure s)"
| joined: "su_state s \<noteq> kRunning \<Longrightarrow> su_admitting s = None \<Longrightarrow> su_running s = [] \<Longrightarrow> su_publishing s = [] \<Longrightarrow>
    supervisor_step s (s\<lparr>su_state := kStopped\<rparr>)"

inductive supervisor_reachable :: "Supervisor \<Rightarrow> bool" where
  init: "supervisor_reachable Supervisor_init"
| step: "supervisor_reachable s \<Longrightarrow> supervisor_step s s' \<Longrightarrow> supervisor_reachable s'"

lemmas supervisor_ops =
  Spawn_def Run_def Admit_def RequestStop_def Supervise_def RecordFailure_def Publish_def StopRequested_def Let_def

text \<open>
  What holds at every moment: the first published failure is the one kept, its line alone
  is an ERR line, and a failure recorded or being published has stopped the runtime; once
  stopped, nothing runs.
\<close>

definition supervisor_inv :: "Supervisor \<Rightarrow> bool" where
  "supervisor_inv s \<longleftrightarrow>
     su_failure s = (case su_log s of [] \<Rightarrow> None | (_, failure) # _ \<Rightarrow> Some failure) \<and>
     map fst (su_log s) = (if su_log s = [] then [] else True # replicate (length (su_log s) - 1) False) \<and>
     (su_log s \<noteq> [] \<or> su_publishing s \<noteq> [] \<longrightarrow> su_state s \<noteq> kRunning) \<and>
     (su_state s = kStopped \<longrightarrow> su_admitting s = None \<and> su_running s = [] \<and> su_publishing s = [])"

lemma supervisor_inv_RequestStop: "supervisor_inv s \<Longrightarrow> supervisor_inv (RequestStop s)"
  by (auto simp: supervisor_inv_def RequestStop_def)

lemma supervisor_inv_RecordFailure:
  "supervisor_inv s \<Longrightarrow> su_state s \<noteq> kStopped \<Longrightarrow> supervisor_inv (RecordFailure thread failure s)"
  by (auto simp: supervisor_inv_def RecordFailure_def RequestStop_def Let_def)

lemma supervisor_inv_Publish:
  assumes "supervisor_inv s" and "failure \<in> set (su_publishing s)"
  shows "supervisor_inv (Publish failure s)"
proof (cases "su_log s")
  case Nil
  then show ?thesis using assms by (auto simp: supervisor_inv_def Publish_def Let_def)
next
  case (Cons l ls)
  then show ?thesis using assms
    by (cases l) (auto simp: supervisor_inv_def Publish_def Let_def replicate_append_same)
qed

lemma supervisor_inv_step:
  assumes "supervisor_step s s'" and "supervisor_inv s"
  shows "supervisor_inv s'"
  using assms
proof (cases rule: supervisor_step.cases)
  case (worker_end thread ended)
  let ?s = "s\<lparr>su_running := remove1 thread (su_running s)\<rparr>"
  have "supervisor_inv ?s" "su_state ?s \<noteq> kStopped" using assms(2) worker_end by (auto simp: supervisor_inv_def)
  then show ?thesis using worker_end supervisor_inv_RecordFailure [of ?s]
    by (auto simp: Supervise_def split: sum.splits option.splits)
next
  case (spawn thread creation)
  have "supervisor_inv (s\<lparr>su_admitting := None\<rparr>)" "su_state s \<noteq> kStopped"
    using assms(2) spawn by (auto simp: supervisor_inv_def)
  then show ?thesis using spawn supervisor_inv_RecordFailure [of "s\<lparr>su_admitting := None\<rparr>"]
    by (auto simp: Spawn_def Let_def split: sum.splits) (auto simp: supervisor_inv_def)
next
  case (admit thread)
  then show ?thesis using assms(2) by (auto simp: supervisor_inv_def Admit_def StopRequested_def)
next
  case (run thread)
  then show ?thesis using assms(2) by (auto simp: supervisor_inv_def Run_def)
qed (use assms(2) supervisor_inv_RequestStop supervisor_inv_Publish in \<open>auto simp: supervisor_inv_def\<close>)

lemma supervisor_reachable_inv: "supervisor_reachable s \<Longrightarrow> supervisor_inv s"
  by (induction rule: supervisor_reachable.induct) (auto simp: supervisor_inv_step, simp add: supervisor_inv_def Supervisor_init_def)

lemma supervisor_log_grows:
  assumes "supervisor_step s s'"
  shows "\<exists>more_log. su_log s' = su_log s @ more_log"
  using assms
  by (cases rule: supervisor_step.cases) (auto simp: supervisor_ops split: sum.splits option.splits)

lemma supervisor_steps_log:
  "rtranclp supervisor_step s s' \<Longrightarrow> \<exists>more_log. su_log s' = su_log s @ more_log"
  by (induction rule: rtranclp_induct) (auto dest: supervisor_log_grows)

lemma supervisor_reachable_steps:
  "rtranclp supervisor_step s s' \<Longrightarrow> supervisor_reachable s \<Longrightarrow> supervisor_reachable s'"
  by (induction rule: rtranclp_induct) (auto intro: supervisor_reachable.step)

lemma replicated_fst: "map fst xs = replicate (length xs) x \<Longrightarrow> xs = map (Pair x) (map snd xs)"
  by (induction xs) auto

text \<open>
  C39: the first cause is kept. However spawns, workers' ends, stops and publications
  interleave, once a failure is recorded it stays the supervisor's failure for good, the
  stop has been requested, it alone was logged as the first cause, and every failure
  published after it was logged as coming after.
\<close>

theorem first_cause_kept:
  assumes "supervisor_reachable s" and "su_failure s = Some failure" and "rtranclp supervisor_step s s'"
  shows "su_failure s' = Some failure \<and> StopRequested s' \<and>
    (\<exists>later. su_log s' = (True, failure) # map (Pair False) later)"
proof -
  have inv: "supervisor_inv s" "supervisor_inv s'"
    using assms supervisor_reachable_inv supervisor_reachable_steps by blast+
  obtain first ls where log: "su_log s = (first, failure) # ls"
    using inv(1) assms(2) by (auto simp: supervisor_inv_def split: list.splits)
  obtain more_log where log': "su_log s' = (first, failure) # ls @ more_log"
    using supervisor_steps_log [OF assms(3)] log by auto
  have "first" and flags: "map fst (ls @ more_log) = replicate (length (ls @ more_log)) False"
    using inv(2) log' by (auto simp: supervisor_inv_def)
  have "ls @ more_log = map (Pair False) (map snd (ls @ more_log))"
    by (rule replicated_fst [OF flags])
  then show ?thesis using inv(2) log' \<open>first\<close>
    unfolding supervisor_inv_def StopRequested_def by (intro conjI exI [of _ "map snd (ls @ more_log)"]) auto
qed

text \<open>The work left before a requested stop is complete.\<close>

definition stop_work :: "Supervisor \<Rightarrow> nat" where
  "stop_work s = (case su_admitting s of None \<Rightarrow> 0 | Some _ \<Rightarrow> 3) + 2 * length (su_running s) + length (su_publishing s)"

lemma stop_work_Supervise:
  "StopRequested s \<Longrightarrow> thread \<in> set (su_running s) \<Longrightarrow>
   stop_work (Supervise thread ended (s\<lparr>su_running := remove1 thread (su_running s)\<rparr>)) < stop_work s"
  using length_pos_if_in_set [of thread "su_running s"]
  by (cases "length (su_running s)")
    (auto simp: stop_work_def supervisor_ops length_remove1 split: sum.splits option.splits)

lemma stop_work_Publish: "failure \<in> set (su_publishing s) \<Longrightarrow> stop_work (Publish failure s) < stop_work s"
  using length_pos_if_in_set [of failure "su_publishing s"] by (auto simp: stop_work_def Publish_def Let_def length_remove1)

lemma stop_work_Spawn: "su_admitting s = Some thread \<Longrightarrow> stop_work (Spawn thread creation s) < stop_work s"
  by (auto simp: stop_work_def supervisor_ops split: sum.splits)

lemma stop_kept: "supervisor_step s s' \<Longrightarrow> StopRequested s \<Longrightarrow> StopRequested s'"
  by (cases rule: supervisor_step.cases, assumption) (auto simp: supervisor_ops split: sum.splits option.splits)

lemma stop_reaches:
  assumes "StopRequested s"
  shows "\<exists>s'. rtranclp supervisor_step s s' \<and> su_state s' = kStopped"
  using assms
proof (induction "stop_work s" arbitrary: s rule: less_induct)
  case less
  have "\<exists>s1. supervisor_step s s1 \<and> (su_state s1 = kStopped \<or> stop_work s1 < stop_work s)"
  proof (cases "su_admitting s")
    case (Some thread)
    then have "stop_work (Run thread s) < stop_work s" by (simp add: stop_work_def Run_def)
    then show ?thesis using supervisor_step.run [OF Some] by blast
  next
    case idle: None
    show ?thesis
    proof (cases "su_running s")
    case (Cons thread rest)
    then have "thread \<in> set (su_running s)" by simp
    then show ?thesis using worker_end [of thread s "Returned None"] stop_work_Supervise [OF less.prems] by blast
  next
    case Nil
    show ?thesis
    proof (cases "su_publishing s")
      case (Cons failure rest)
      then show ?thesis using publish [of failure s] stop_work_Publish [of failure s] by auto
    next
      case Nil
      then show ?thesis using joined [of s] idle \<open>su_running s = []\<close> less.prems
        by (auto simp: StopRequested_def intro!: exI [of _ "s\<lparr>su_state := kStopped\<rparr>"])
    qed
    qed
  qed
  then obtain s1 where "supervisor_step s s1" "su_state s1 = kStopped \<or> stop_work s1 < stop_work s" by blast
  then show ?case using less.hyps [of s1] stop_kept [OF _ less.prems] by (blast intro: converse_rtranclp_into_rtranclp)
qed

text \<open>
  C40: a requested stop completes. Once it is requested no call admits a worker any more (one
  that looked just before may still start its own), a stopped state can be reached, and every step that changes anything either reaches it or
  brings it nearer, so workers that return at their next check are always joined.
\<close>

theorem stop_completes:
  assumes "supervisor_reachable s" and "StopRequested s"
  shows "(\<forall>thread. Admit thread s = s) \<and>
    (\<exists>s'. rtranclp supervisor_step s s' \<and> su_state s' = kStopped) \<and>
    (\<forall>s'. supervisor_step s s' \<and> s' \<noteq> s \<longrightarrow>
       StopRequested s' \<and> (su_state s' = kStopped \<and> su_admitting s' = None \<and> su_running s' = [] \<and> su_publishing s' = [] \<or>
        stop_work s' < stop_work s))"
proof (intro conjI allI impI)
  show "\<exists>s'. rtranclp supervisor_step s s' \<and> su_state s' = kStopped" using stop_reaches [OF assms(2)] .
next
  fix s' assume "supervisor_step s s' \<and> s' \<noteq> s"
  then show "StopRequested s'" using stop_kept assms(2) by blast
next
  fix s' assume step: "supervisor_step s s' \<and> s' \<noteq> s"
  then have "supervisor_step s s'" by simp
  then show "su_state s' = kStopped \<and> su_admitting s' = None \<and> su_running s' = [] \<and> su_publishing s' = [] \<or>
      stop_work s' < stop_work s"
    using step assms(2) stop_work_Supervise stop_work_Publish stop_work_Spawn
    by (cases rule: supervisor_step.cases)
      (auto simp: Admit_def Run_def RequestStop_def StopRequested_def stop_work_def)
qed (use assms(2) in \<open>simp_all add: Admit_def\<close>)

text \<open>Two workers fail before either publishes; the second takes the lock first.\<close>

definition failing :: "string \<Rightarrow> Failure" where
  "failing thread = \<lparr>fl_code = kWorkerFailed, fl_context = [\<lparr>cx_key = ''thread'', cx_value = thread\<rparr>], fl_detail = ''x''\<rparr>"

definition two_failed :: Supervisor where
  "two_failed = \<lparr>su_state = kStopping, su_failure = None, su_admitting = None, su_running = [],
     su_publishing = [failing ''a'', failing ''b''], su_log = []\<rparr>"

lemma two_failed_reachable: "supervisor_reachable two_failed"
proof -
  let ?s2 = "Spawn ''b'' (Returned ()) (Admit ''b'' (Spawn ''a'' (Returned ()) (Admit ''a'' Supervisor_init)))"
  have "supervisor_reachable ?s2"
    by (intro supervisor_reachable.step [OF _ supervisor_step.spawn] supervisor_reachable.step [OF _ supervisor_step.admit]
        supervisor_reachable.init) (simp_all add: supervisor_ops Supervisor_init_def)
  moreover have running: "su_running ?s2 = [''a'', ''b'']" by (simp add: supervisor_ops Supervisor_init_def)
  let ?s3 = "Supervise ''a'' (ThrewError ''x'') (?s2\<lparr>su_running := remove1 ''a'' (su_running ?s2)\<rparr>)"
  have "supervisor_step ?s2 ?s3" by (rule supervisor_step.worker_end) (simp only: running, simp)
  moreover have running3: "su_running ?s3 = [''b'']" by (simp add: supervisor_ops Supervisor_init_def)
  moreover have "supervisor_step ?s3 (Supervise ''b'' (ThrewError ''x'') (?s3\<lparr>su_running := remove1 ''b'' (su_running ?s3)\<rparr>))"
    by (rule supervisor_step.worker_end) (simp only: running3, simp)
  moreover have "Supervise ''b'' (ThrewError ''x'') (?s3\<lparr>su_running := remove1 ''b'' (su_running ?s3)\<rparr>) = two_failed"
    by (simp add: supervisor_ops Supervisor_init_def two_failed_def failing_def)
  ultimately show ?thesis by (metis supervisor_reachable.step)
qed

theorem first_cause_kept_witness:
  "su_failure (Publish (failing ''a'') (Publish (failing ''b'') two_failed)) = Some (failing ''b'')"
proof -
  have "supervisor_step two_failed (Publish (failing ''b'') two_failed)"
    by (rule supervisor_step.publish) (simp add: two_failed_def)
  moreover have "supervisor_step (Publish (failing ''b'') two_failed) (Publish (failing ''a'') (Publish (failing ''b'') two_failed))"
    by (rule supervisor_step.publish) (simp add: two_failed_def Publish_def failing_def)
  ultimately show ?thesis
    using first_cause_kept [of "Publish (failing ''b'') two_failed" "failing ''b''"]
      supervisor_reachable.step [OF two_failed_reachable] by (simp add: Publish_def two_failed_def)
qed

theorem stop_completes_witness:
  "Admit ''c'' two_failed = two_failed \<and>
   (\<exists>s'. rtranclp supervisor_step two_failed s' \<and> su_state s' = kStopped)"
  using stop_completes [OF two_failed_reachable] by (simp add: StopRequested_def two_failed_def)

end
