(* ===== verification/Grid.thy ===== *)
theory Grid
  imports Wire_Format
begin

text \<open>
  The grids the numbers of a body and a command travel on
  (\<open>src/modules/math/include/augusta/grid.h\<close>): each value a whole count of its grid's step.
  Every step is a power of two, so the division by it is exact but where it overflows, which
  the clamp then holds, and so is the product by it: both are computed here on the value's sign,
  mantissa and exponent.
\<close>

section \<open>A float's value\<close>

text \<open>A value that is no NaN is \<open>f32_mantissa * 2 ^ f32_scale\<close> with its sign; an infinity counts as \<open>2 ^ 128\<close>.\<close>

definition f32_mantissa :: "f32 \<Rightarrow> int" where
  "f32_mantissa w = (if f32_exponent w = 0 then uint (w AND 0x7FFFFF) else uint (w AND 0x7FFFFF) + 2 ^ 23)"

definition f32_scale :: "f32 \<Rightarrow> int" where
  "f32_scale w = (if f32_exponent w = 0 then - 149 else uint (f32_exponent w) - 150)"

text \<open>\<open>std::nearbyint\<close> of \<open>m * 2 ^ e\<close>: the nearest whole number, ties to even.\<close>

definition nearby :: "int \<Rightarrow> int \<Rightarrow> int" where
  "nearby m e =
     (if 0 \<le> e then m * 2 ^ nat e
      else let d = 2 ^ nat (- e); q = m div d; r = m mod d
           in if 2 * r < d \<or> 2 * r = d \<and> even q then q else q + 1)"

text \<open>The highest bit of a count.\<close>

fun top_bit :: "nat \<Rightarrow> nat" where
  "top_bit n = (if n < 2 then 0 else Suc (top_bit (n div 2)))"

declare top_bit.simps [simp del]

section \<open>Grids\<close>

record Grid =
  gr_step :: f32
  gr_bytes :: nat
  gr_min :: int
  gr_max :: int

definition kPositionGrid :: Grid where
  "kPositionGrid = \<lparr>gr_step = 0x3A800000, gr_bytes = 3, gr_min = - (2 ^ 23), gr_max = 2 ^ 23 - 1\<rparr>"

definition kVelocityGrid :: Grid where
  "kVelocityGrid = \<lparr>gr_step = 0x3B000000, gr_bytes = 2, gr_min = - (2 ^ 15), gr_max = 2 ^ 15 - 1\<rparr>"

definition kDirectionGrid :: Grid where
  "kDirectionGrid = \<lparr>gr_step = 0x38800000, gr_bytes = 2, gr_min = - (2 ^ 15), gr_max = 2 ^ 15 - 1\<rparr>"

definition kAngleGrid :: Grid where
  "kAngleGrid = \<lparr>gr_step = 0x35000000, gr_bytes = 3, gr_min = - (2 ^ 23), gr_max = 2 ^ 23 - 1\<rparr>"

definition kStaminaGrid :: Grid where
  "kStaminaGrid = \<lparr>gr_step = 0x38000000, gr_bytes = 2, gr_min = 0, gr_max = 2 ^ 16 - 1\<rparr>"

definition kFractionGrid :: Grid where
  "kFractionGrid = \<lparr>gr_step = 0x3B800000, gr_bytes = 1, gr_min = 0, gr_max = 2 ^ 8 - 1\<rparr>"

text \<open>The step is \<open>2 ^ - step_bits\<close>.\<close>

definition step_bits :: "Grid \<Rightarrow> int" where
  "step_bits grid = 127 - uint (f32_exponent (gr_step grid))"

definition ToSteps :: "f32 \<Rightarrow> Grid \<Rightarrow> int" where
  "ToSteps v grid =
     (if f32_isnan v then 0
      else let steps = nearby (f32_mantissa v) (f32_scale v + step_bits grid)
           in max (gr_min grid) (min (gr_max grid) (if bit v 31 then - steps else steps)))"

definition FromSteps :: "int \<Rightarrow> Grid \<Rightarrow> f32" where
  "FromSteps steps grid =
     (if steps = 0 then 0
      else let a = nat \<bar>steps\<bar>; b = top_bit a
           in word_of_int ((if steps < 0 then 2 ^ 31 else 0) + (int b + 127 - step_bits grid) * 2 ^ 23 +
                (int a - 2 ^ b) * 2 ^ (23 - b)))"

definition Snap :: "f32 \<Rightarrow> Grid \<Rightarrow> f32" where
  "Snap v grid = FromSteps (ToSteps v grid) grid"

definition SnapVec :: "vec3 \<Rightarrow> Grid \<Rightarrow> vec3" where
  "SnapVec v grid = \<lparr>vx = Snap (vx v) grid, vy = Snap (vy v) grid, vz = Snap (vz v) grid\<rparr>"

section \<open>A count comes back\<close>

definition grid_ok :: "Grid \<Rightarrow> bool" where
  "grid_ok grid \<longleftrightarrow> - (2 ^ 23) \<le> gr_min grid \<and> gr_min grid \<le> 0 \<and> 0 \<le> gr_max grid \<and> gr_max grid < 2 ^ 23 \<and>
     0 \<le> step_bits grid \<and> step_bits grid \<le> 100"

lemma step_bits_grids [simp]:
  "step_bits kPositionGrid = 10" "step_bits kVelocityGrid = 9" "step_bits kDirectionGrid = 14"
  "step_bits kAngleGrid = 21" "step_bits kStaminaGrid = 15" "step_bits kFractionGrid = 8"
  by (simp_all add: step_bits_def f32_exponent_def kPositionGrid_def kVelocityGrid_def kDirectionGrid_def kAngleGrid_def
      kStaminaGrid_def kFractionGrid_def)

lemma grids_ok [simp]:
  "grid_ok kPositionGrid" "grid_ok kVelocityGrid" "grid_ok kDirectionGrid" "grid_ok kAngleGrid" "grid_ok kStaminaGrid"
  "grid_ok kFractionGrid"
  by (simp_all add: grid_ok_def) (simp_all add: kPositionGrid_def kVelocityGrid_def kDirectionGrid_def kAngleGrid_def
      kStaminaGrid_def kFractionGrid_def)

lemma ToSteps_range: "grid_ok grid \<Longrightarrow> gr_min grid \<le> ToSteps v grid \<and> ToSteps v grid \<le> gr_max grid"
  by (auto simp: ToSteps_def grid_ok_def Let_def)

lemma top_bit_bounds: "0 < n \<Longrightarrow> 2 ^ top_bit n \<le> n \<and> n < 2 * 2 ^ top_bit n"
proof (induction n rule: top_bit.induct)
  case (1 n)
  show ?case
  proof (cases "n < 2")
    case True
    then show ?thesis using 1 by (simp add: top_bit.simps [of n])
  next
    case False
    then have "2 ^ top_bit (n div 2) \<le> n div 2 \<and> n div 2 < 2 * 2 ^ top_bit (n div 2)" using 1 by simp
    then show ?thesis using False by (simp add: top_bit.simps [of n]) linarith
  qed
qed

lemma top_bit_small: "0 < n \<Longrightarrow> n < 2 ^ Suc k \<Longrightarrow> top_bit n \<le> k"
proof -
  assume "0 < n" "n < 2 ^ Suc k"
  then have "(2 :: nat) ^ top_bit n < 2 ^ Suc k" using top_bit_bounds [of n] by linarith
  then have "top_bit n < Suc k" by (rule power_less_imp_less_exp [rotated]) simp
  then show ?thesis by simp
qed

lemma uint_exponent: "uint (f32_exponent w) = uint w div 2 ^ 23 mod 2 ^ 8"
proof -
  have "(0xFF :: u32) = mask 8" by (simp add: mask_eq_exp_minus_1)
  then have "f32_exponent w = take_bit 8 (drop_bit 23 w)" by (simp only: f32_exponent_def flip: take_bit_eq_mask)
  then have "uint (f32_exponent w) = take_bit 8 (drop_bit 23 (uint w))" 
    by (simp only: unsigned_take_bit_eq unsigned_drop_bit_eq bintr_uint order.refl)
  then show ?thesis by (simp only: drop_bit_eq_div take_bit_eq_mod)
qed

lemma uint_fraction: "uint (w AND 0x7FFFFF) = uint (w :: f32) mod 2 ^ 23"
proof -
  have "(0x7FFFFF :: u32) = mask 23" by (simp add: mask_eq_exp_minus_1)
  then have "w AND 0x7FFFFF = take_bit 23 w" by (simp only: flip: take_bit_eq_mask)
  then show ?thesis by (simp only: unsigned_take_bit_eq) (simp only: take_bit_eq_mod)
qed

lemma uint_magnitude: "uint (f32_magnitude w) = uint w mod 2 ^ 31"
proof -
  have "(0x7FFFFFFF :: u32) = mask 31" by (simp add: mask_eq_exp_minus_1)
  then have "f32_magnitude w = take_bit 31 w" by (simp only: f32_magnitude_def flip: take_bit_eq_mask)
  then show ?thesis by (simp only: unsigned_take_bit_eq) (simp only: take_bit_eq_mod)
qed

text \<open>The fields of a float put together from them.\<close>

lemma f32_fields:
  assumes "0 < e" "e < 255" "0 \<le> f" "f < 2 ^ 23" and w: "w = (word_of_int ((if neg then 2 ^ 31 else 0) + e * 2 ^ 23 + f) :: f32)"
  shows "bit w 31 = neg" and "f32_exponent w \<noteq> 0" and "uint (f32_exponent w) = e" and "uint (w AND 0x7FFFFF) = f"
    and "\<not> f32_isnan w"
proof -
  let ?u = "(if neg then 2 ^ 31 else 0) + e * 2 ^ 23 + f"
  have small: "e * 2 ^ 23 + f < 2 ^ 31 - 2 ^ 23" "0 \<le> e * 2 ^ 23 + f" using assms(1-4) by simp_all
  then have "0 \<le> ?u \<and> ?u < 2 ^ 32" by simp
  then have "take_bit 32 ?u = ?u" by (intro take_bit_int_eq_self) simp_all
  moreover have "uint w = take_bit LENGTH(32) ?u" unfolding w unsigned_of_int by simp
  moreover have "LENGTH(32) = (32 :: nat)" by simp
  ultimately have u: "uint w = ?u" by (simp only:)
  have rest: "(e * 2 ^ 23 + f) div 2 ^ 23 = e" "(e * 2 ^ 23 + f) mod 2 ^ 23 = f" using assms(3,4) by simp_all
  have split: "?u = (if neg then 256 else 0) * 2 ^ 23 + (e * 2 ^ 23 + f)" by simp
  have "(c * 2 ^ 23 + x) div 2 ^ 23 = c + x div 2 ^ 23" for c x :: int by simp
  then have "?u div 2 ^ 23 = (if neg then 256 else 0) + e" unfolding split using assms(3,4) by simp
  then show exponent: "uint (f32_exponent w) = e" using assms(1,2) by (simp add: uint_exponent u)
  then show "f32_exponent w \<noteq> 0" using assms(1) by auto
  have "?u mod 2 ^ 23 = f" unfolding split using assms(3,4) by simp
  then show "uint (w AND 0x7FFFFF) = f" by (simp add: uint_fraction u)
  have "bit w 31 = bit (uint w) 31" by (simp add: bit_uint_iff)
  also have "\<dots> = odd (uint w div 2 ^ 31)" by (rule bit_iff_odd)
  also have "uint w div 2 ^ 31 = (if neg then 1 else 0)" 
  proof -
    have "(2 ^ 31 + x) div 2 ^ 31 = 1 + x div 2 ^ 31" for x :: int by simp
    from this [of "e * 2 ^ 23 + f"] small show ?thesis by (simp add: u add.assoc)
  qed
  finally show "bit w 31 = neg" by simp
  have "(2 ^ 31 + x) mod 2 ^ 31 = x mod 2 ^ 31" for x :: int by simp
  from this [of "e * 2 ^ 23 + f"] have "uint (f32_magnitude w) = e * 2 ^ 23 + f"
    using small by (simp add: uint_magnitude u add.assoc)
  then have "uint (f32_magnitude w) < uint (0x7F800000 :: u32)" using small by simp
  then show "\<not> f32_isnan w" by (simp add: f32_isnan_def word_less_def)
qed

lemma nearby_exact: "0 \<le> m \<Longrightarrow> nearby (m * 2 ^ n) (- int n) = m"
  by (simp add: nearby_def Let_def)

theorem ToSteps_FromSteps:
  assumes "grid_ok grid" and "gr_min grid \<le> steps" and "steps \<le> gr_max grid"
  shows "ToSteps (FromSteps steps grid) grid = steps"
proof (cases "steps = 0")
  case True
  have "nearby 0 e = 0" for e by (simp add: nearby_def)
  moreover have "f32_mantissa 0 = 0" "\<not> f32_isnan 0"
    by (simp_all add: f32_mantissa_def f32_exponent_def f32_isnan_def f32_magnitude_def)
  ultimately show ?thesis using True assms by (simp add: FromSteps_def ToSteps_def grid_ok_def)
next
  case False
  define a where "a = nat \<bar>steps\<bar>"
  define b where "b = top_bit a"
  have a: "0 < a" "a \<le> 2 ^ 23" "int a = \<bar>steps\<bar>" using False assms by (auto simp: a_def grid_ok_def)
  then have bits: "2 ^ b \<le> a" "a < 2 * 2 ^ b" using top_bit_bounds [of a] by (auto simp: b_def)
  have b: "b \<le> 23" unfolding b_def using a by (intro top_bit_small) simp_all
  let ?e = "int b + 127 - step_bits grid" and ?f = "(int a - 2 ^ b) * 2 ^ (23 - b)"
  let ?w = "FromSteps steps grid"
  have e: "0 < ?e" "?e < 255" using assms(1) b by (simp_all add: grid_ok_def)
  have "int (2 ^ b) \<le> int a" "int a < int (2 * 2 ^ b)" using bits by (simp_all only: of_nat_le_iff of_nat_less_iff)
  then have bits': "2 ^ b \<le> int a" "int a < 2 * 2 ^ b" by simp_all
  have twos: "(2 :: int) ^ b * 2 ^ (23 - b) = 2 ^ 23" using b by (simp flip: power_add)
  have "?f < 2 ^ b * 2 ^ (23 - b)" using bits' by (intro mult_strict_right_mono) simp_all
  then have f: "0 \<le> ?f" "?f < 2 ^ 23" using bits' twos by simp_all
  have w: "?w = word_of_int ((if steps < 0 then 2 ^ 31 else 0) + ?e * 2 ^ 23 + ?f)"
    using False by (simp add: FromSteps_def Let_def a_def [symmetric] b_def [symmetric])
  note fields = f32_fields [OF e f w]
  have mantissa: "f32_mantissa ?w = int a * 2 ^ (23 - b)"
    unfolding f32_mantissa_def fields(4) using fields(2) twos by (simp add: algebra_simps)
  have scale: "f32_scale ?w + step_bits grid = - int (23 - b)"
    unfolding f32_scale_def fields(3) using fields(2) b by (simp add: of_nat_diff)
  have "nearby (f32_mantissa ?w) (f32_scale ?w + step_bits grid) = int a"
    unfolding mantissa scale by (rule nearby_exact) simp
  then show ?thesis using fields(1,5) a(3) assms(2,3) by (auto simp: ToSteps_def Let_def)
qed

lemma Snap_Snap: "grid_ok grid \<Longrightarrow> Snap (Snap v grid) grid = Snap v grid"
  by (simp add: Snap_def ToSteps_FromSteps ToSteps_range)

lemma SnapVec_SnapVec: "grid_ok grid \<Longrightarrow> SnapVec (SnapVec v grid) grid = SnapVec v grid"
  by (simp add: SnapVec_def Snap_Snap)

end
