(* ===== verification/Protocol_Types.thy ===== *)
theory Protocol_Types
  imports Grid
begin

text \<open>
  The Networking Protocol's messages and capture records
  (\<open>src/modules/protocol/include/augusta/protocol.h\<close>), and the schema's messages, which
  protobuf generates classes for (\<open>src/modules/protocol/proto/augusta.proto\<close>), member for
  member. An enumeration is its number, as its underlying type holds any; a UUID and a pack
  hash are their bytes; a schema's \<open>sint32\<close> is a word read signed, its \<open>bytes\<close> a string where
  it holds text.
\<close>

type_synonym i32 = "32 word"
type_synonym i64 = "64 word"
type_synonym PackHashWire = "byte list"
type_synonym SessionIdWire = "byte list"

section \<open>Limits\<close>

definition kMaxPlayers :: nat where "kMaxPlayers = 8"
definition kMaxRecoilKicks :: nat where "kMaxRecoilKicks = 64"
definition kMaxShotJudgementEntries :: nat where "kMaxShotJudgementEntries = 16"
definition kMaxEngineVersionLength :: nat where "kMaxEngineVersionLength = 32"
definition kMaxCharacterNameLength :: nat where "kMaxCharacterNameLength = 64"
definition kPackHashSize :: nat where "kPackHashSize = 32"
definition kMaxCommandsPerMessage :: nat where "kMaxCommandsPerMessage = 8"
definition kMaxCaptureNameLength :: nat where "kMaxCaptureNameLength = 64"
definition kMaxReplayListings :: nat where "kMaxReplayListings = 255"

text \<open>A UUID's size, and the nil one.\<close>

definition kUuidSize :: nat where "kUuidSize = 16"
definition kDraw :: SessionIdWire where "kDraw = replicate 16 0"

section \<open>Enumerations\<close>

text \<open>\<open>StanceWire\<close>'s, \<open>BodyPartWire\<close>'s, \<open>JoinRefusalWire\<close>'s and \<open>StruckWire\<close>'s first and last.\<close>

definition kStandingWire :: u8 where "kStandingWire = 0"
definition kProneWire :: u8 where "kProneWire = 2"
definition kHeadWire :: u8 where "kHeadWire = 1"
definition kLimbWire :: u8 where "kLimbWire = 3"
definition kVersionMismatchWire :: u8 where "kVersionMismatchWire = 1"
definition kReenactmentsNotAcceptedWire :: u8 where "kReenactmentsNotAcceptedWire = 9"
definition kNothingWire :: u8 where "kNothingWire = 0"
definition kHitboxWire :: u8 where "kHitboxWire = 3"

definition kStanceProgressOver :: u8 where "kStanceProgressOver = 255"

datatype DecodeError = kMalformed | kUnknownType | kInvalidEnum | kReservedBits | kOutOfRange | kFieldTooLong

datatype EncodeError = kFieldTooLong | kReservedBits | kInvalidEnum | kNotAnAuthoritativeState | kNotUtf8

section \<open>Messages\<close>

record BodyStateWire =
  bw_position :: vec3
  bw_velocity :: vec3
  bw_stamina :: f32
  bw_flags :: u8
  bw_stance :: u8
  bw_stride :: u8
  bw_previous_stance :: u8
  bw_stance_progress :: u8

record CommandWire =
  cw_direction :: vec3
  cw_yaw :: f32
  cw_pitch :: f32
  cw_seen_fraction :: f32
  cw_flags :: u8
  cw_desired_stance :: u8
  cw_seen_age :: u8

record StaminaWire =
  sw_deplete_per_second :: f32
  sw_regen_per_second :: f32
  sw_forced_walk_below :: f32

record RecoilKickWire =
  kw_pitch :: f32
  kw_yaw :: f32

record RifleWire =
  rw_rounds_per_minute :: f32
  rw_muzzle_velocity :: f32
  rw_reload_seconds :: f32
  rw_recoil_recovery_per_second :: f32
  rw_ads_recoil_scale :: f32
  rw_ads_field_of_view :: f32
  rw_recoil_pattern :: "RecoilKickWire list"
  rw_magazine_capacity :: u8

record AmmoWire =
  aw_gravity :: f32
  aw_max_range :: f32
  aw_head_damage :: f32
  aw_torso_damage :: f32
  aw_limb_damage :: f32

record ParametersWire =
  pw_stamina :: StaminaWire
  pw_rifle :: RifleWire
  pw_ammo :: AmmoWire
  pw_starting_health :: f32
  pw_player_count :: u8

record JoinRequestWire =
  jw_engine_version :: string
  jw_client_pack :: PackHashWire
  jw_character :: string
  jw_run :: SessionIdWire

record ReenactRequestWire =
  nw_engine_version :: string
  nw_client_pack :: PackHashWire
  nw_character :: string
  nw_spawn :: vec3
  nw_run :: SessionIdWire

record EntityStateWire =
  ew_entity :: u32
  ew_body :: BodyStateWire
  ew_yaw :: f32
  ew_pitch :: f32

record JoinAcceptedWire =
  acw_session :: SessionIdWire
  acw_tick_rate_hz :: u8
  acw_parameters :: ParametersWire
  acw_character :: string

record WeaponStateWire =
  ww_cooldown :: f32
  ww_reload_remaining :: f32
  ww_recoil_pitch :: f32
  ww_recoil_yaw :: f32
  ww_rounds :: u8
  ww_burst_index :: u8

record SequencedCommandWire =
  qw_sequence :: u64
  qw_command :: CommandWire

record CommandsWire =
  csw_commands :: "SequencedCommandWire list"
  csw_seen_tick :: u64

record AuthoritativeStateWire =
  asw_tick :: u64
  asw_bodies :: "EntityStateWire list"
  asw_rifle :: WeaponStateWire
  asw_health :: f32
  asw_acknowledged_sequence :: u64
  asw_queued_commands :: u8

record RosterEntryWire =
  rew_session :: SessionIdWire
  rew_character :: string

record LobbyWire =
  lw_version :: u32
  lw_roster :: "RosterEntryWire list"

record MatchPlayerWire =
  mpw_spawn :: vec3
  mpw_session :: SessionIdWire
  mpw_entity :: u32
  mpw_character :: string

record MatchStartWire =
  msw_players :: "MatchPlayerWire list"
  msw_first_tick :: u64
  msw_match :: SessionIdWire

record ShotWire =
  shw_tick :: u64
  shw_origin :: vec3
  shw_shooter :: u32
  shw_yaw :: f32
  shw_pitch :: f32

record HitConfirmationWire =
  hw_target :: u32
  hw_damage :: f32
  hw_part :: u8

record DeathWire =
  dw_victim :: u32
  dw_killer :: u32
  dw_yaw :: f32
  dw_pitch :: f32
  dw_part :: u8

record ReplayListingWire =
  rlw_started_unix_ms :: i64
  rlw_characters :: "string list"
  rlw_name :: string
  rlw_ticks :: u32
  rlw_tick_rate_hz :: u8

record ReplayRequestWire =
  rrw_engine_version :: string
  rrw_client_pack :: PackHashWire
  rrw_capture :: string
  rrw_run :: SessionIdWire

record JudgedPlayerWire =
  jpw_position :: vec3
  jpw_entity :: u32
  jpw_yaw :: f32
  jpw_stance :: u8

record ShotJudgementEntryWire =
  jew_players :: "JudgedPlayerWire list"
  jew_ticks_after_shot :: u16

record ShotJudgementWire =
  sjw_shot_tick :: u64
  sjw_entries :: "ShotJudgementEntryWire list"
  sjw_point :: vec3
  sjw_target :: u32
  sjw_delay_fraction :: f32
  sjw_delay_ticks :: u8
  sjw_struck :: u8
  sjw_part :: u8
  sjw_flags :: u8

text \<open>
  Any message of the protocol. \<open>JoinRefused\<close> holds the reason, \<open>Ready\<close> the version, \<open>MatchEnd\<close>
  the winner and \<open>DebugSubscribe\<close> the flags their structs have alone.
\<close>

datatype MessageWire =
    JoinRequestMsg JoinRequestWire
  | JoinAcceptedMsg JoinAcceptedWire
  | JoinRefusedMsg u8
  | CommandsMsg CommandsWire
  | AuthoritativeStateMsg AuthoritativeStateWire
  | LobbyMsg LobbyWire
  | ReadyMsg u32
  | MatchStartMsg MatchStartWire
  | MatchEndMsg SessionIdWire
  | ShotMsg ShotWire
  | HitConfirmationMsg HitConfirmationWire
  | DeathMsg DeathWire
  | ReplayListRequestMsg
  | ReplayListMsg "ReplayListingWire list"
  | ReplayRequestMsg ReplayRequestWire
  | ReenactRequestMsg ReenactRequestWire
  | DebugSubscribeMsg u8
  | ShotJudgementMsg ShotJudgementWire

definition TypeOf :: "MessageWire \<Rightarrow> u8" where
  "TypeOf message = (case message of
      JoinRequestMsg _ \<Rightarrow> 1
    | JoinAcceptedMsg _ \<Rightarrow> 2
    | JoinRefusedMsg _ \<Rightarrow> 3
    | CommandsMsg _ \<Rightarrow> 4
    | AuthoritativeStateMsg _ \<Rightarrow> 5
    | LobbyMsg _ \<Rightarrow> 6
    | ReadyMsg _ \<Rightarrow> 7
    | MatchStartMsg _ \<Rightarrow> 8
    | MatchEndMsg _ \<Rightarrow> 9
    | ShotMsg _ \<Rightarrow> 10
    | HitConfirmationMsg _ \<Rightarrow> 11
    | DeathMsg _ \<Rightarrow> 12
    | ReplayListRequestMsg \<Rightarrow> 13
    | ReplayListMsg _ \<Rightarrow> 14
    | ReplayRequestMsg _ \<Rightarrow> 15
    | ReenactRequestMsg _ \<Rightarrow> 17
    | DebugSubscribeMsg _ \<Rightarrow> 18
    | ShotJudgementMsg _ \<Rightarrow> 19)"

section \<open>Capture records\<close>

record CaptureHeaderWire =
  chw_server_pack :: PackHashWire
  chw_client_pack :: PackHashWire
  chw_engine_version :: string
  chw_started_unix_ms :: i64
  chw_match :: SessionIdWire
  chw_tick_rate_hz :: u8

record CapturedJoinWire =
  cjw_spawn :: vec3
  cjw_offset :: u32
  cjw_session :: SessionIdWire
  cjw_character :: string
  cjw_player :: u8

record CapturedCommandWire =
  ccw_command :: CommandWire
  ccw_offset :: u32
  ccw_seen_offset :: i32
  ccw_player :: u8

record CapturedLeaveWire =
  clw_offset :: u32
  clw_player :: u8

record CapturedDeathWire =
  cdw_offset :: u32
  cdw_victim :: u8
  cdw_killer :: u8

record CapturedMatchEndWire =
  cew_offset :: u32
  cew_winner :: u8

datatype CaptureRecordWire =
    HeaderRec CaptureHeaderWire
  | JoinRec CapturedJoinWire
  | CommandRec CapturedCommandWire
  | LeaveRec CapturedLeaveWire
  | DeathRec CapturedDeathWire
  | MatchEndRec CapturedMatchEndWire

section \<open>The schema's messages\<close>

record pb_JoinRequest =
  pjr_engine_version :: string
  pjr_client_pack :: "byte list"
  pjr_character :: string
  pjr_run :: "byte list"

record pb_ReenactRequest =
  prr_engine_version :: string
  prr_client_pack :: "byte list"
  prr_character :: string
  prr_spawn_x :: i32
  prr_spawn_y :: i32
  prr_spawn_z :: i32
  prr_run :: "byte list"

record pb_Stamina =
  pst_deplete_per_second :: f32
  pst_regen_per_second :: f32
  pst_forced_walk_below :: f32

record pb_RecoilKick =
  prk_pitch :: f32
  prk_yaw :: f32

record pb_Rifle =
  prf_rounds_per_minute :: f32
  prf_muzzle_velocity :: f32
  prf_reload_seconds :: f32
  prf_recoil_recovery_per_second :: f32
  prf_ads_recoil_scale :: f32
  prf_ads_field_of_view :: f32
  prf_recoil_pattern :: "pb_RecoilKick list"
  prf_magazine_capacity :: u32

record pb_Ammo =
  pam_gravity :: f32
  pam_max_range :: f32
  pam_head_damage :: f32
  pam_torso_damage :: f32
  pam_limb_damage :: f32

record pb_Parameters =
  ppa_stamina :: pb_Stamina
  ppa_rifle :: pb_Rifle
  ppa_ammo :: pb_Ammo
  ppa_starting_health :: f32
  ppa_player_count :: u32

record pb_JoinAccepted =
  pja_session :: "byte list"
  pja_tick_rate_hz :: u32
  pja_parameters :: pb_Parameters
  pja_character :: string

record pb_Command =
  pco_sequence :: u64
  pco_direction_x :: i32
  pco_direction_y :: i32
  pco_direction_z :: i32
  pco_yaw :: i32
  pco_pitch :: i32
  pco_bits :: u32
  pco_seen_age :: u32
  pco_seen_fraction :: u32

record pb_Commands =
  pcs_commands :: "pb_Command list"
  pcs_seen_tick :: u64

record pb_Body =
  pbo_entity :: u32
  pbo_position_x :: i32
  pbo_position_y :: i32
  pbo_position_z :: i32
  pbo_velocity_x :: i32
  pbo_velocity_y :: i32
  pbo_velocity_z :: i32
  pbo_bits :: u32
  pbo_stamina :: u32
  pbo_yaw :: i32
  pbo_pitch :: i32
  pbo_stride :: u32
  pbo_stance_to_go :: u32

record pb_AuthoritativeState =
  pas_tick :: u64
  pas_bodies :: "pb_Body list"
  pas_acknowledged_sequence :: u64
  pas_queued_commands :: u32
  pas_rifle_rounds :: u32
  pas_rifle_cooldown :: f32
  pas_rifle_reload_remaining :: f32
  pas_rifle_burst_index :: u32
  pas_rifle_recoil_pitch :: i32
  pas_rifle_recoil_yaw :: i32
  pas_health :: f32

record pb_RosterEntry =
  pre_session :: "byte list"
  pre_character :: string

record pb_Lobby =
  plo_version :: u32
  plo_roster :: "pb_RosterEntry list"

record pb_MatchPlayer =
  pmp_session :: "byte list"
  pmp_entity :: u32
  pmp_character :: string
  pmp_spawn_x :: i32
  pmp_spawn_y :: i32
  pmp_spawn_z :: i32

record pb_MatchStart =
  pms_players :: "pb_MatchPlayer list"
  pms_first_tick :: u64
  pms_match :: "byte list"

record pb_Shot =
  psh_tick :: u64
  psh_shooter :: u32
  psh_origin_x :: i32
  psh_origin_y :: i32
  psh_origin_z :: i32
  psh_yaw :: i32
  psh_pitch :: i32

record pb_HitConfirmation =
  phc_target :: u32
  phc_part :: i32
  phc_damage :: f32

record pb_Death =
  pde_victim :: u32
  pde_killer :: u32
  pde_part :: i32
  pde_yaw :: i32
  pde_pitch :: i32

record pb_JudgedPlayer =
  pjp_entity :: u32
  pjp_position_x :: i32
  pjp_position_y :: i32
  pjp_position_z :: i32
  pjp_bits :: u32
  pjp_yaw :: i32

record pb_ShotJudgementEntry =
  pje_ticks_after_shot :: u32
  pje_players :: "pb_JudgedPlayer list"

record pb_ShotJudgement =
  psj_shot_tick :: u64
  psj_delay_ticks :: u32
  psj_delay_fraction :: u32
  psj_bits :: u32
  psj_point_x :: i32
  psj_point_y :: i32
  psj_point_z :: i32
  psj_target :: u32
  psj_entries :: "pb_ShotJudgementEntry list"

record pb_ReplayListing =
  prl_name :: string
  prl_started_unix_ms :: i64
  prl_ticks :: u32
  prl_tick_rate_hz :: u32
  prl_characters :: "string list"

record pb_ReplayRequest =
  prq_engine_version :: string
  prq_client_pack :: "byte list"
  prq_capture :: string
  prq_run :: "byte list"

datatype pb_Message =
    PbJoinRequest pb_JoinRequest
  | PbJoinAccepted pb_JoinAccepted
  | PbJoinRefused i32
  | PbCommands pb_Commands
  | PbAuthoritativeState pb_AuthoritativeState
  | PbLobby pb_Lobby
  | PbReady u32
  | PbMatchStart pb_MatchStart
  | PbMatchEnd "byte list"
  | PbShot pb_Shot
  | PbHitConfirmation pb_HitConfirmation
  | PbDeath pb_Death
  | PbReplayListRequest
  | PbReplayList "pb_ReplayListing list"
  | PbReplayRequest pb_ReplayRequest
  | PbReenactRequest pb_ReenactRequest
  | PbDebugSubscribe u32
  | PbShotJudgement pb_ShotJudgement
  | BodyNotSet

record pb_CaptureHeader =
  pch_server_pack :: "byte list"
  pch_client_pack :: "byte list"
  pch_engine_version :: string
  pch_started_unix_ms :: i64
  pch_tick_rate_hz :: u32
  pch_match :: "byte list"

record pb_CapturedJoin =
  pcj_offset :: u32
  pcj_player :: u32
  pcj_session :: "byte list"
  pcj_character :: string
  pcj_spawn_x :: i32
  pcj_spawn_y :: i32
  pcj_spawn_z :: i32

record pb_CapturedCommand =
  pcc_offset :: u32
  pcc_player :: u32
  pcc_seen_offset :: i32
  pcc_command :: pb_Command

record pb_CapturedLeave =
  pcl_offset :: u32
  pcl_player :: u32

record pb_CapturedDeath =
  pcd_offset :: u32
  pcd_victim :: u32
  pcd_killer :: u32

record pb_CapturedMatchEnd =
  pce_offset :: u32
  pce_winner :: u32

datatype pb_CaptureRecord =
    PbHeader pb_CaptureHeader
  | PbCapturedJoin pb_CapturedJoin
  | PbCapturedCommand pb_CapturedCommand
  | PbCapturedLeave pb_CapturedLeave
  | PbCapturedDeath pb_CapturedDeath
  | PbCapturedMatchEnd pb_CapturedMatchEnd
  | RecordNotSet

end
