(* ===== verification/Protocol_Encoder.thy ===== *)
theory Protocol_Encoder
  imports Protocol_Types "HOL-Library.State_Monad"
begin

text \<open>
  The encoder (\<open>src/modules/protocol/encoder.cpp\<close>, \<open>encoder.h\<close>, \<open>bitfields.h\<close>,
  \<open>capture_records.cpp\<close>): how each message and capture record is mapped to its schema's
  message. The state of \<open>Outbound\<close>, the first error met, is threaded through with the state
  monad. Whether text is UTF-8 (\<open>utf8_range\<close>) is the parameter \<open>utf8\<close>.
\<close>

section \<open>Outbound\<close>

type_synonym 'a outbound = "(EncodeError option, 'a) state"

definition Outbound_Check :: "bool \<Rightarrow> EncodeError \<Rightarrow> bool outbound" where
  "Outbound_Check holds error = State (\<lambda>err. (holds, if \<not> holds \<and> err = None then Some error else err))"

definition FromEnum :: "u8 \<Rightarrow> u8 \<Rightarrow> u8 \<Rightarrow> u32 outbound" where
  "FromEnum number first final = do {
     _ \<leftarrow> Outbound_Check (first \<le> number \<and> number \<le> final) EncodeError.kInvalidEnum;
     State_Monad.return (ucast number)
   }"

definition FromFlags :: "u8 \<Rightarrow> u8 \<Rightarrow> u32 outbound" where
  "FromFlags flags valid = do {
     _ \<leftarrow> Outbound_Check (flags AND NOT valid = 0) EncodeError.kReservedBits;
     State_Monad.return (ucast flags)
   }"

definition OutText :: "(string \<Rightarrow> bool) \<Rightarrow> string \<Rightarrow> nat \<Rightarrow> string outbound" where
  "OutText utf8 t max_length = do {
     _ \<leftarrow> Outbound_Check (length t \<le> max_length) EncodeError.kFieldTooLong;
     _ \<leftarrow> Outbound_Check (utf8 t) kNotUtf8;
     State_Monad.return t
   }"

definition OutFits :: "nat \<Rightarrow> nat \<Rightarrow> bool outbound" where
  "OutFits size' max_size = Outbound_Check (size' \<le> max_size) EncodeError.kFieldTooLong"

fun each :: "('a \<Rightarrow> ('s, 'b) state) \<Rightarrow> 'a list \<Rightarrow> ('s, 'b list) state" where
  "each f [] = State_Monad.return []"
| "each f (x # xs) = do { y \<leftarrow> f x; ys \<leftarrow> each f xs; State_Monad.return (y # ys) }"

text \<open>A list that is written only if it fits.\<close>

definition WriteList :: "('a \<Rightarrow> 'b outbound) \<Rightarrow> 'a list \<Rightarrow> nat \<Rightarrow> 'b list outbound" where
  "WriteList f xs max_size = do {
     fits \<leftarrow> OutFits (length xs) max_size;
     if fits then each f xs else State_Monad.return []
   }"

definition Steps :: "f32 \<Rightarrow> Grid \<Rightarrow> i32" where
  "Steps v grid = word_of_int (ToSteps v grid)"

definition UnsignedSteps :: "f32 \<Rightarrow> Grid \<Rightarrow> u32" where
  "UnsignedSteps v grid = word_of_int (ToSteps v grid)"

section \<open>Bitfields\<close>

definition kCommandFlagsMask :: u8 where "kCommandFlagsMask = 0x0F"
definition kCommandStanceShift :: nat where "kCommandStanceShift = 4"
definition kStanceMask :: u32 where "kStanceMask = 0x03"

definition kCommandBitsMask :: u32 where
  "kCommandBitsMask = ucast kCommandFlagsMask OR push_bit kCommandStanceShift kStanceMask"

text \<open>\<open>kExhausted | kAds | kGrounded\<close>.\<close>

definition kBodyFlagsMask :: u8 where "kBodyFlagsMask = 1 OR 2 OR 4"
definition kBodyFlagsShift :: nat where "kBodyFlagsShift = 2"
definition kPreviousStanceShift :: nat where "kPreviousStanceShift = 5"

definition kBodyBitsMask :: u32 where
  "kBodyBitsMask = kStanceMask OR push_bit kBodyFlagsShift (ucast kBodyFlagsMask) OR push_bit kPreviousStanceShift kStanceMask"

definition kStruckMask :: u32 where "kStruckMask = 0x03"
definition kJudgementPartShift :: nat where "kJudgementPartShift = 2"
definition kPartMask :: u32 where "kPartMask = 0x03"
definition kJudgementFlagsShift :: nat where "kJudgementFlagsShift = 4"
definition kEntriesLeftOut :: u8 where "kEntriesLeftOut = 1"
definition kJudgementFlagsMask :: u8 where "kJudgementFlagsMask = kEntriesLeftOut"

definition kJudgementBitsMask :: u32 where
  "kJudgementBitsMask = kStruckMask OR push_bit kJudgementPartShift kPartMask OR
     push_bit kJudgementFlagsShift (ucast kJudgementFlagsMask)"

section \<open>Parts of messages\<close>

definition WriteBody :: "EntityStateWire \<Rightarrow> pb_Body outbound" where
  "WriteBody wire = (let body = ew_body wire in do {
     stance \<leftarrow> FromEnum (bw_stance body) kStandingWire kProneWire;
     flags \<leftarrow> FromFlags (bw_flags body) kBodyFlagsMask;
     previous_stance \<leftarrow> FromEnum (bw_previous_stance body) kStandingWire kProneWire;
     State_Monad.return \<lparr>pbo_entity = ew_entity wire,
       pbo_position_x = Steps (vx (bw_position body)) kPositionGrid,
       pbo_position_y = Steps (vy (bw_position body)) kPositionGrid,
       pbo_position_z = Steps (vz (bw_position body)) kPositionGrid,
       pbo_velocity_x = Steps (vx (bw_velocity body)) kVelocityGrid,
       pbo_velocity_y = Steps (vy (bw_velocity body)) kVelocityGrid,
       pbo_velocity_z = Steps (vz (bw_velocity body)) kVelocityGrid,
       pbo_bits = stance OR push_bit kBodyFlagsShift flags OR push_bit kPreviousStanceShift previous_stance,
       pbo_stamina = UnsignedSteps (bw_stamina body) kStaminaGrid,
       pbo_yaw = Steps (ew_yaw wire) kAngleGrid,
       pbo_pitch = Steps (ew_pitch wire) kAngleGrid,
       pbo_stride = ucast (bw_stride body),
       pbo_stance_to_go = ucast kStanceProgressOver - ucast (bw_stance_progress body)\<rparr>
   })"

definition WriteParameters :: "ParametersWire \<Rightarrow> pb_Parameters outbound" where
  "WriteParameters wire = do {
     pattern \<leftarrow> WriteList (\<lambda>kick. State_Monad.return \<lparr>prk_pitch = kw_pitch kick, prk_yaw = kw_yaw kick\<rparr>)
       (rw_recoil_pattern (pw_rifle wire)) kMaxRecoilKicks;
     State_Monad.return \<lparr>
       ppa_stamina = \<lparr>pst_deplete_per_second = sw_deplete_per_second (pw_stamina wire),
         pst_regen_per_second = sw_regen_per_second (pw_stamina wire),
         pst_forced_walk_below = sw_forced_walk_below (pw_stamina wire)\<rparr>,
       ppa_rifle = \<lparr>prf_rounds_per_minute = rw_rounds_per_minute (pw_rifle wire),
         prf_muzzle_velocity = rw_muzzle_velocity (pw_rifle wire),
         prf_reload_seconds = rw_reload_seconds (pw_rifle wire),
         prf_recoil_recovery_per_second = rw_recoil_recovery_per_second (pw_rifle wire),
         prf_ads_recoil_scale = rw_ads_recoil_scale (pw_rifle wire),
         prf_ads_field_of_view = rw_ads_field_of_view (pw_rifle wire),
         prf_recoil_pattern = pattern,
         prf_magazine_capacity = ucast (rw_magazine_capacity (pw_rifle wire))\<rparr>,
       ppa_ammo = \<lparr>pam_gravity = aw_gravity (pw_ammo wire), pam_max_range = aw_max_range (pw_ammo wire),
         pam_head_damage = aw_head_damage (pw_ammo wire), pam_torso_damage = aw_torso_damage (pw_ammo wire),
         pam_limb_damage = aw_limb_damage (pw_ammo wire)\<rparr>,
       ppa_starting_health = pw_starting_health wire,
       ppa_player_count = ucast (pw_player_count wire)\<rparr>
   }"

definition WriteMatchPlayer :: "(string \<Rightarrow> bool) \<Rightarrow> MatchPlayerWire \<Rightarrow> pb_MatchPlayer outbound" where
  "WriteMatchPlayer utf8 wire = do {
     character \<leftarrow> OutText utf8 (mpw_character wire) kMaxCharacterNameLength;
     State_Monad.return \<lparr>pmp_session = mpw_session wire, pmp_entity = mpw_entity wire, pmp_character = character,
       pmp_spawn_x = Steps (vx (mpw_spawn wire)) kPositionGrid,
       pmp_spawn_y = Steps (vy (mpw_spawn wire)) kPositionGrid,
       pmp_spawn_z = Steps (vz (mpw_spawn wire)) kPositionGrid\<rparr>
   }"

definition WriteReplayListing :: "(string \<Rightarrow> bool) \<Rightarrow> ReplayListingWire \<Rightarrow> pb_ReplayListing outbound" where
  "WriteReplayListing utf8 wire = do {
     name \<leftarrow> OutText utf8 (rlw_name wire) kMaxCaptureNameLength;
     characters \<leftarrow> WriteList (\<lambda>character. OutText utf8 character kMaxCharacterNameLength) (rlw_characters wire) kMaxPlayers;
     State_Monad.return \<lparr>prl_name = name, prl_started_unix_ms = rlw_started_unix_ms wire, prl_ticks = rlw_ticks wire,
       prl_tick_rate_hz = ucast (rlw_tick_rate_hz wire), prl_characters = characters\<rparr>
   }"

text \<open>The fields of a Command beside its sequence.\<close>

definition WriteCommand :: "CommandWire \<Rightarrow> pb_Command \<Rightarrow> pb_Command outbound" where
  "WriteCommand wire command = do {
     flags \<leftarrow> FromFlags (cw_flags wire) kCommandFlagsMask;
     stance \<leftarrow> FromEnum (cw_desired_stance wire) kStandingWire kProneWire;
     State_Monad.return (command\<lparr>
       pco_direction_x := Steps (vx (cw_direction wire)) kDirectionGrid,
       pco_direction_y := Steps (vy (cw_direction wire)) kDirectionGrid,
       pco_direction_z := Steps (vz (cw_direction wire)) kDirectionGrid,
       pco_yaw := Steps (cw_yaw wire) kAngleGrid,
       pco_pitch := Steps (cw_pitch wire) kAngleGrid,
       pco_bits := flags OR push_bit kCommandStanceShift stance,
       pco_seen_age := ucast (cw_seen_age wire),
       pco_seen_fraction := UnsignedSteps (cw_seen_fraction wire) kFractionGrid\<rparr>)
   }"

definition pb_Command_init :: pb_Command where
  "pb_Command_init = \<lparr>pco_sequence = 0, pco_direction_x = 0, pco_direction_y = 0, pco_direction_z = 0, pco_yaw = 0,
     pco_pitch = 0, pco_bits = 0, pco_seen_age = 0, pco_seen_fraction = 0\<rparr>"

text \<open>The own fields of an Authoritative State's recipient, over its shared ones.\<close>

definition WriteOwn :: "AuthoritativeStateWire \<Rightarrow> pb_AuthoritativeState \<Rightarrow> pb_AuthoritativeState" where
  "WriteOwn wire state = (let rifle = asw_rifle wire in state\<lparr>
     pas_acknowledged_sequence := asw_acknowledged_sequence wire,
     pas_queued_commands := ucast (asw_queued_commands wire),
     pas_rifle_rounds := ucast (ww_rounds rifle),
     pas_rifle_cooldown := ww_cooldown rifle,
     pas_rifle_reload_remaining := ww_reload_remaining rifle,
     pas_rifle_burst_index := ucast (ww_burst_index rifle),
     pas_rifle_recoil_pitch := Steps (ww_recoil_pitch rifle) kAngleGrid,
     pas_rifle_recoil_yaw := Steps (ww_recoil_yaw rifle) kAngleGrid,
     pas_health := asw_health wire\<rparr>)"

definition pb_AuthoritativeState_init :: pb_AuthoritativeState where
  "pb_AuthoritativeState_init = \<lparr>pas_tick = 0, pas_bodies = [], pas_acknowledged_sequence = 0, pas_queued_commands = 0,
     pas_rifle_rounds = 0, pas_rifle_cooldown = 0, pas_rifle_reload_remaining = 0, pas_rifle_burst_index = 0,
     pas_rifle_recoil_pitch = 0, pas_rifle_recoil_yaw = 0, pas_health = 0\<rparr>"

definition WriteShared :: "AuthoritativeStateWire \<Rightarrow> pb_AuthoritativeState outbound" where
  "WriteShared wire = do {
     bodies \<leftarrow> WriteList WriteBody (asw_bodies wire) kMaxPlayers;
     State_Monad.return (pb_AuthoritativeState_init\<lparr>pas_tick := asw_tick wire, pas_bodies := bodies\<rparr>)
   }"

definition WriteJudgedPlayer :: "JudgedPlayerWire \<Rightarrow> pb_JudgedPlayer outbound" where
  "WriteJudgedPlayer player = do {
     bits \<leftarrow> FromEnum (jpw_stance player) kStandingWire kProneWire;
     State_Monad.return \<lparr>pjp_entity = jpw_entity player,
       pjp_position_x = Steps (vx (jpw_position player)) kPositionGrid,
       pjp_position_y = Steps (vy (jpw_position player)) kPositionGrid,
       pjp_position_z = Steps (vz (jpw_position player)) kPositionGrid,
       pjp_bits = bits, pjp_yaw = Steps (jpw_yaw player) kAngleGrid\<rparr>
   }"

text \<open>The loop over a judgement's entries, which stops at one that names too many players.\<close>

fun write_entries :: "ShotJudgementEntryWire list \<Rightarrow> pb_ShotJudgementEntry list outbound" where
  "write_entries [] = State_Monad.return []"
| "write_entries (entry # entries) = do {
     fits \<leftarrow> OutFits (length (jew_players entry)) kMaxPlayers;
     if \<not> fits then State_Monad.return [\<lparr>pje_ticks_after_shot = ucast (jew_ticks_after_shot entry), pje_players = []\<rparr>]
     else do {
       players \<leftarrow> each WriteJudgedPlayer (jew_players entry);
       rest \<leftarrow> write_entries entries;
       State_Monad.return (\<lparr>pje_ticks_after_shot = ucast (jew_ticks_after_shot entry), pje_players = players\<rparr> # rest)
     }
   }"

section \<open>Messages\<close>

definition EncodeJoinRequest :: "(string \<Rightarrow> bool) \<Rightarrow> JoinRequestWire \<Rightarrow> pb_JoinRequest outbound" where
  "EncodeJoinRequest utf8 wire = do {
     engine_version \<leftarrow> OutText utf8 (jw_engine_version wire) kMaxEngineVersionLength;
     character \<leftarrow> OutText utf8 (jw_character wire) kMaxCharacterNameLength;
     State_Monad.return \<lparr>pjr_engine_version = engine_version, pjr_client_pack = jw_client_pack wire,
       pjr_character = character, pjr_run = jw_run wire\<rparr>
   }"

definition EncodeJoinAccepted :: "(string \<Rightarrow> bool) \<Rightarrow> JoinAcceptedWire \<Rightarrow> pb_JoinAccepted outbound" where
  "EncodeJoinAccepted utf8 wire = do {
     parameters \<leftarrow> WriteParameters (acw_parameters wire);
     character \<leftarrow> OutText utf8 (acw_character wire) kMaxCharacterNameLength;
     State_Monad.return \<lparr>pja_session = acw_session wire, pja_tick_rate_hz = ucast (acw_tick_rate_hz wire),
       pja_parameters = parameters, pja_character = character\<rparr>
   }"

definition EncodeJoinRefused :: "u8 \<Rightarrow> i32 outbound" where
  "EncodeJoinRefused reason = do {
     number \<leftarrow> FromEnum reason kVersionMismatchWire kReenactmentsNotAcceptedWire;
     State_Monad.return number
   }"

definition EncodeCommands :: "CommandsWire \<Rightarrow> pb_Commands outbound" where
  "EncodeCommands wire = do {
     commands \<leftarrow> WriteList (\<lambda>sequenced. WriteCommand (qw_command sequenced)
       (pb_Command_init\<lparr>pco_sequence := qw_sequence sequenced\<rparr>)) (csw_commands wire) kMaxCommandsPerMessage;
     State_Monad.return \<lparr>pcs_commands = commands, pcs_seen_tick = csw_seen_tick wire\<rparr>
   }"

definition EncodeAuthoritativeState :: "AuthoritativeStateWire \<Rightarrow> pb_AuthoritativeState outbound" where
  "EncodeAuthoritativeState wire = do {
     state \<leftarrow> WriteShared wire;
     State_Monad.return (WriteOwn wire state)
   }"

definition EncodeLobby :: "(string \<Rightarrow> bool) \<Rightarrow> LobbyWire \<Rightarrow> pb_Lobby outbound" where
  "EncodeLobby utf8 wire = do {
     roster \<leftarrow> WriteList (\<lambda>entry. do {
         character \<leftarrow> OutText utf8 (rew_character entry) kMaxCharacterNameLength;
         State_Monad.return \<lparr>pre_session = rew_session entry, pre_character = character\<rparr>
       }) (lw_roster wire) kMaxPlayers;
     State_Monad.return \<lparr>plo_version = lw_version wire, plo_roster = roster\<rparr>
   }"

definition EncodeMatchStart :: "(string \<Rightarrow> bool) \<Rightarrow> MatchStartWire \<Rightarrow> pb_MatchStart outbound" where
  "EncodeMatchStart utf8 wire = do {
     players \<leftarrow> WriteList (WriteMatchPlayer utf8) (msw_players wire) kMaxPlayers;
     State_Monad.return \<lparr>pms_players = players, pms_first_tick = msw_first_tick wire, pms_match = msw_match wire\<rparr>
   }"

definition EncodeShot :: "ShotWire \<Rightarrow> pb_Shot outbound" where
  "EncodeShot wire = State_Monad.return \<lparr>psh_tick = shw_tick wire, psh_shooter = shw_shooter wire,
     psh_origin_x = Steps (vx (shw_origin wire)) kPositionGrid,
     psh_origin_y = Steps (vy (shw_origin wire)) kPositionGrid,
     psh_origin_z = Steps (vz (shw_origin wire)) kPositionGrid,
     psh_yaw = Steps (shw_yaw wire) kAngleGrid, psh_pitch = Steps (shw_pitch wire) kAngleGrid\<rparr>"

definition EncodeHitConfirmation :: "HitConfirmationWire \<Rightarrow> pb_HitConfirmation outbound" where
  "EncodeHitConfirmation wire = do {
     part \<leftarrow> FromEnum (hw_part wire) kHeadWire kLimbWire;
     State_Monad.return \<lparr>phc_target = hw_target wire, phc_part = part, phc_damage = hw_damage wire\<rparr>
   }"

definition EncodeDeath :: "DeathWire \<Rightarrow> pb_Death outbound" where
  "EncodeDeath wire = do {
     part \<leftarrow> FromEnum (dw_part wire) kHeadWire kLimbWire;
     State_Monad.return \<lparr>pde_victim = dw_victim wire, pde_killer = dw_killer wire, pde_part = part,
       pde_yaw = Steps (dw_yaw wire) kAngleGrid, pde_pitch = Steps (dw_pitch wire) kAngleGrid\<rparr>
   }"

definition EncodeReplayList :: "(string \<Rightarrow> bool) \<Rightarrow> ReplayListingWire list \<Rightarrow> pb_ReplayListing list outbound" where
  "EncodeReplayList utf8 replays = WriteList (WriteReplayListing utf8) replays kMaxReplayListings"

definition EncodeReplayRequest :: "(string \<Rightarrow> bool) \<Rightarrow> ReplayRequestWire \<Rightarrow> pb_ReplayRequest outbound" where
  "EncodeReplayRequest utf8 wire = do {
     engine_version \<leftarrow> OutText utf8 (rrw_engine_version wire) kMaxEngineVersionLength;
     capture \<leftarrow> OutText utf8 (rrw_capture wire) kMaxCaptureNameLength;
     State_Monad.return \<lparr>prq_engine_version = engine_version, prq_client_pack = rrw_client_pack wire,
       prq_capture = capture, prq_run = rrw_run wire\<rparr>
   }"

definition EncodeReenactRequest :: "(string \<Rightarrow> bool) \<Rightarrow> ReenactRequestWire \<Rightarrow> pb_ReenactRequest outbound" where
  "EncodeReenactRequest utf8 wire = do {
     engine_version \<leftarrow> OutText utf8 (nw_engine_version wire) kMaxEngineVersionLength;
     character \<leftarrow> OutText utf8 (nw_character wire) kMaxCharacterNameLength;
     State_Monad.return \<lparr>prr_engine_version = engine_version, prr_client_pack = nw_client_pack wire,
       prr_character = character,
       prr_spawn_x = Steps (vx (nw_spawn wire)) kPositionGrid,
       prr_spawn_y = Steps (vy (nw_spawn wire)) kPositionGrid,
       prr_spawn_z = Steps (vz (nw_spawn wire)) kPositionGrid, prr_run = nw_run wire\<rparr>
   }"

definition EncodeShotJudgement :: "ShotJudgementWire \<Rightarrow> pb_ShotJudgement outbound" where
  "EncodeShotJudgement wire = do {
     struck \<leftarrow> FromEnum (sjw_struck wire) kNothingWire kHitboxWire;
     part \<leftarrow> FromEnum (sjw_part wire) kHeadWire kLimbWire;
     flags \<leftarrow> FromFlags (sjw_flags wire) kJudgementFlagsMask;
     fits \<leftarrow> OutFits (length (sjw_entries wire)) kMaxShotJudgementEntries;
     entries \<leftarrow> if \<not> fits then State_Monad.return [] else write_entries (sjw_entries wire);
     State_Monad.return \<lparr>psj_shot_tick = sjw_shot_tick wire, psj_delay_ticks = ucast (sjw_delay_ticks wire),
       psj_delay_fraction = UnsignedSteps (sjw_delay_fraction wire) kFractionGrid,
       psj_bits = struck OR push_bit kJudgementPartShift part OR push_bit kJudgementFlagsShift flags,
       psj_point_x = Steps (vx (sjw_point wire)) kPositionGrid,
       psj_point_y = Steps (vy (sjw_point wire)) kPositionGrid,
       psj_point_z = Steps (vz (sjw_point wire)) kPositionGrid,
       psj_target = sjw_target wire, psj_entries = entries\<rparr>
   }"

definition Encoder :: "(string \<Rightarrow> bool) \<Rightarrow> MessageWire \<Rightarrow> pb_Message outbound" where
  "Encoder utf8 message = (case message of
      JoinRequestMsg wire \<Rightarrow> do { body \<leftarrow> EncodeJoinRequest utf8 wire; State_Monad.return (PbJoinRequest body) }
    | JoinAcceptedMsg wire \<Rightarrow> do { body \<leftarrow> EncodeJoinAccepted utf8 wire; State_Monad.return (PbJoinAccepted body) }
    | JoinRefusedMsg wire \<Rightarrow> do { body \<leftarrow> EncodeJoinRefused wire; State_Monad.return (PbJoinRefused body) }
    | CommandsMsg wire \<Rightarrow> do { body \<leftarrow> EncodeCommands wire; State_Monad.return (PbCommands body) }
    | AuthoritativeStateMsg wire \<Rightarrow> do { body \<leftarrow> EncodeAuthoritativeState wire; State_Monad.return (PbAuthoritativeState body) }
    | LobbyMsg wire \<Rightarrow> do { body \<leftarrow> EncodeLobby utf8 wire; State_Monad.return (PbLobby body) }
    | ReadyMsg version \<Rightarrow> State_Monad.return (PbReady version)
    | MatchStartMsg wire \<Rightarrow> do { body \<leftarrow> EncodeMatchStart utf8 wire; State_Monad.return (PbMatchStart body) }
    | MatchEndMsg winner \<Rightarrow> State_Monad.return (PbMatchEnd winner)
    | ShotMsg wire \<Rightarrow> do { body \<leftarrow> EncodeShot wire; State_Monad.return (PbShot body) }
    | HitConfirmationMsg wire \<Rightarrow> do { body \<leftarrow> EncodeHitConfirmation wire; State_Monad.return (PbHitConfirmation body) }
    | DeathMsg wire \<Rightarrow> do { body \<leftarrow> EncodeDeath wire; State_Monad.return (PbDeath body) }
    | ReplayListRequestMsg \<Rightarrow> State_Monad.return PbReplayListRequest
    | ReplayListMsg replays \<Rightarrow> do { body \<leftarrow> EncodeReplayList utf8 replays; State_Monad.return (PbReplayList body) }
    | ReplayRequestMsg wire \<Rightarrow> do { body \<leftarrow> EncodeReplayRequest utf8 wire; State_Monad.return (PbReplayRequest body) }
    | ReenactRequestMsg wire \<Rightarrow> do { body \<leftarrow> EncodeReenactRequest utf8 wire; State_Monad.return (PbReenactRequest body) }
    | DebugSubscribeMsg flags \<Rightarrow> State_Monad.return (PbDebugSubscribe (ucast flags))
    | ShotJudgementMsg wire \<Rightarrow> do { body \<leftarrow> EncodeShotJudgement wire; State_Monad.return (PbShotJudgement body) })"

section \<open>Capture records\<close>

definition RecordEncoder :: "(string \<Rightarrow> bool) \<Rightarrow> CaptureRecordWire \<Rightarrow> pb_CaptureRecord outbound" where
  "RecordEncoder utf8 item = (case item of
      HeaderRec wire \<Rightarrow> do {
        engine_version \<leftarrow> OutText utf8 (chw_engine_version wire) kMaxEngineVersionLength;
        State_Monad.return (PbHeader \<lparr>pch_server_pack = chw_server_pack wire, pch_client_pack = chw_client_pack wire,
          pch_engine_version = engine_version, pch_started_unix_ms = chw_started_unix_ms wire,
          pch_tick_rate_hz = ucast (chw_tick_rate_hz wire), pch_match = chw_match wire\<rparr>)
      }
    | JoinRec wire \<Rightarrow> do {
        character \<leftarrow> OutText utf8 (cjw_character wire) kMaxCharacterNameLength;
        State_Monad.return (PbCapturedJoin \<lparr>pcj_offset = cjw_offset wire, pcj_player = ucast (cjw_player wire),
          pcj_session = cjw_session wire, pcj_character = character,
          pcj_spawn_x = Steps (vx (cjw_spawn wire)) kPositionGrid,
          pcj_spawn_y = Steps (vy (cjw_spawn wire)) kPositionGrid,
          pcj_spawn_z = Steps (vz (cjw_spawn wire)) kPositionGrid\<rparr>)
      }
    | CommandRec wire \<Rightarrow> do {
        command \<leftarrow> WriteCommand (ccw_command wire) pb_Command_init;
        State_Monad.return (PbCapturedCommand \<lparr>pcc_offset = ccw_offset wire, pcc_player = ucast (ccw_player wire),
          pcc_seen_offset = ccw_seen_offset wire, pcc_command = command\<rparr>)
      }
    | LeaveRec wire \<Rightarrow>
        State_Monad.return (PbCapturedLeave \<lparr>pcl_offset = clw_offset wire, pcl_player = ucast (clw_player wire)\<rparr>)
    | DeathRec wire \<Rightarrow>
        State_Monad.return (PbCapturedDeath \<lparr>pcd_offset = cdw_offset wire, pcd_victim = ucast (cdw_victim wire),
          pcd_killer = ucast (cdw_killer wire)\<rparr>)
    | MatchEndRec wire \<Rightarrow>
        State_Monad.return (PbCapturedMatchEnd \<lparr>pce_offset = cew_offset wire, pce_winner = ucast (cew_winner wire)\<rparr>))"

end
