(* ===== verification/Protocol_Decoder.thy ===== *)
theory Protocol_Decoder
  imports Protocol_Encoder
begin

text \<open>
  The decoder (\<open>src/modules/protocol/decoder.cpp\<close>, \<open>decoder.h\<close>, \<open>capture_records.cpp\<close>): how a
  parsed message of the schema is mapped to a message, every field of it read and the first
  value no valid message holds remembered, as \<open>Inbound\<close> does. Whether this build has a
  Development build's messages is \<open>debug_tools\<close>.
\<close>

section \<open>Inbound\<close>

type_synonym 'a inbound = "(DecodeError option, 'a) state"

definition Fail :: "DecodeError \<Rightarrow> unit inbound" where
  "Fail error = State (\<lambda>err. ((), if err = None then Some error else err))"

definition InFromSteps :: "int \<Rightarrow> Grid \<Rightarrow> f32 inbound" where
  "InFromSteps count grid =
     (if count < gr_min grid \<or> gr_max grid < count then do { _ \<leftarrow> Fail DecodeError.kOutOfRange; State_Monad.return 0 }
      else State_Monad.return (FromSteps count grid))"

definition InVec :: "i32 \<Rightarrow> i32 \<Rightarrow> i32 \<Rightarrow> Grid \<Rightarrow> vec3 inbound" where
  "InVec x y z grid = do {
     x' \<leftarrow> InFromSteps (sint x) grid;
     y' \<leftarrow> InFromSteps (sint y) grid;
     z' \<leftarrow> InFromSteps (sint z) grid;
     State_Monad.return \<lparr>vx = x', vy = y', vz = z'\<rparr>
   }"

definition Narrow :: "u32 \<Rightarrow> u8 inbound" where
  "Narrow v =
     (if 255 < v then do { _ \<leftarrow> Fail DecodeError.kOutOfRange; State_Monad.return 0 } else State_Monad.return (ucast v))"

text \<open>\<open>Narrow<std::uint16_t>\<close>.\<close>

definition Narrow16 :: "u32 \<Rightarrow> u16 inbound" where
  "Narrow16 v =
     (if 65535 < v then do { _ \<leftarrow> Fail DecodeError.kOutOfRange; State_Monad.return 0 } else State_Monad.return (ucast v))"

definition ToEnum :: "int \<Rightarrow> u8 \<Rightarrow> u8 \<Rightarrow> u8 inbound" where
  "ToEnum v first final =
     (if v < uint first \<or> uint final < v then do { _ \<leftarrow> Fail DecodeError.kInvalidEnum; State_Monad.return first }
      else State_Monad.return (word_of_int v))"

definition ToBits :: "u32 \<Rightarrow> u32 \<Rightarrow> u32 inbound" where
  "ToBits bits valid =
     (if bits AND NOT valid \<noteq> 0 then do { _ \<leftarrow> Fail DecodeError.kReservedBits; State_Monad.return 0 }
      else State_Monad.return bits)"

definition InText :: "(string \<Rightarrow> bool) \<Rightarrow> string \<Rightarrow> nat \<Rightarrow> string inbound" where
  "InText utf8 t max_length =
     (if max_length < length t then do { _ \<leftarrow> Fail DecodeError.kFieldTooLong; State_Monad.return [] }
      else if \<not> utf8 t then do { _ \<leftarrow> Fail kMalformed; State_Monad.return [] }
      else State_Monad.return t)"

definition InPackHash :: "byte list \<Rightarrow> PackHashWire inbound" where
  "InPackHash bytes =
     (if bytes = [] then State_Monad.return (replicate kPackHashSize 0)
      else if length bytes \<noteq> kPackHashSize
      then do { _ \<leftarrow> Fail DecodeError.kOutOfRange; State_Monad.return (replicate kPackHashSize 0) }
      else State_Monad.return bytes)"

definition InUuid :: "byte list \<Rightarrow> SessionIdWire inbound" where
  "InUuid bytes =
     (if bytes = [] then State_Monad.return kDraw
      else if length bytes \<noteq> kUuidSize then do { _ \<leftarrow> Fail DecodeError.kOutOfRange; State_Monad.return kDraw }
      else State_Monad.return bytes)"

definition InFits :: "nat \<Rightarrow> nat \<Rightarrow> bool inbound" where
  "InFits size' max_size =
     (if max_size < size' then do { _ \<leftarrow> Fail DecodeError.kFieldTooLong; State_Monad.return False } else State_Monad.return True)"

definition ReadList :: "('a \<Rightarrow> 'b inbound) \<Rightarrow> 'a list \<Rightarrow> nat \<Rightarrow> 'b list inbound" where
  "ReadList f xs max_size = do {
     fits \<leftarrow> InFits (length xs) max_size;
     if \<not> fits then State_Monad.return [] else each f xs
   }"

section \<open>Parts of messages\<close>

definition ReadCommand :: "pb_Command \<Rightarrow> CommandWire inbound" where
  "ReadCommand command = do {
     direction \<leftarrow> InVec (pco_direction_x command) (pco_direction_y command) (pco_direction_z command) kDirectionGrid;
     yaw \<leftarrow> InFromSteps (sint (pco_yaw command)) kAngleGrid;
     pitch \<leftarrow> InFromSteps (sint (pco_pitch command)) kAngleGrid;
     bits \<leftarrow> ToBits (pco_bits command) kCommandBitsMask;
     desired_stance \<leftarrow> ToEnum (uint (drop_bit kCommandStanceShift bits)) kStandingWire kProneWire;
     seen_age \<leftarrow> Narrow (pco_seen_age command);
     seen_fraction \<leftarrow> InFromSteps (uint (pco_seen_fraction command)) kFractionGrid;
     State_Monad.return \<lparr>cw_direction = direction, cw_yaw = yaw, cw_pitch = pitch, cw_seen_fraction = seen_fraction,
       cw_flags = ucast (bits AND ucast kCommandFlagsMask), cw_desired_stance = desired_stance, cw_seen_age = seen_age\<rparr>
   }"

definition ReadBody :: "pb_Body \<Rightarrow> EntityStateWire inbound" where
  "ReadBody body = do {
     position \<leftarrow> InVec (pbo_position_x body) (pbo_position_y body) (pbo_position_z body) kPositionGrid;
     velocity \<leftarrow> InVec (pbo_velocity_x body) (pbo_velocity_y body) (pbo_velocity_z body) kVelocityGrid;
     bits \<leftarrow> ToBits (pbo_bits body) kBodyBitsMask;
     stance \<leftarrow> ToEnum (uint (bits AND kStanceMask)) kStandingWire kProneWire;
     previous_stance \<leftarrow> ToEnum (uint (drop_bit kPreviousStanceShift bits AND kStanceMask)) kStandingWire kProneWire;
     stamina \<leftarrow> InFromSteps (uint (pbo_stamina body)) kStaminaGrid;
     yaw \<leftarrow> InFromSteps (sint (pbo_yaw body)) kAngleGrid;
     pitch \<leftarrow> InFromSteps (sint (pbo_pitch body)) kAngleGrid;
     stride \<leftarrow> Narrow (pbo_stride body);
     to_go \<leftarrow> Narrow (pbo_stance_to_go body);
     State_Monad.return \<lparr>ew_entity = pbo_entity body,
       ew_body = \<lparr>bw_position = position, bw_velocity = velocity, bw_stamina = stamina,
         bw_flags = ucast (drop_bit kBodyFlagsShift bits AND ucast kBodyFlagsMask), bw_stance = stance,
         bw_stride = stride, bw_previous_stance = previous_stance, bw_stance_progress = kStanceProgressOver - to_go\<rparr>,
       ew_yaw = yaw, ew_pitch = pitch\<rparr>
   }"

definition ReadRifle :: "pb_Rifle \<Rightarrow> RifleWire inbound" where
  "ReadRifle rifle = do {
     pattern \<leftarrow> ReadList (\<lambda>kick. State_Monad.return \<lparr>kw_pitch = prk_pitch kick, kw_yaw = prk_yaw kick\<rparr>)
       (prf_recoil_pattern rifle) kMaxRecoilKicks;
     capacity \<leftarrow> Narrow (prf_magazine_capacity rifle);
     State_Monad.return \<lparr>rw_rounds_per_minute = prf_rounds_per_minute rifle, rw_muzzle_velocity = prf_muzzle_velocity rifle,
       rw_reload_seconds = prf_reload_seconds rifle, rw_recoil_recovery_per_second = prf_recoil_recovery_per_second rifle,
       rw_ads_recoil_scale = prf_ads_recoil_scale rifle, rw_ads_field_of_view = prf_ads_field_of_view rifle,
       rw_recoil_pattern = pattern, rw_magazine_capacity = capacity\<rparr>
   }"

definition ReadParameters :: "pb_Parameters \<Rightarrow> ParametersWire inbound" where
  "ReadParameters parameters = (let stamina = ppa_stamina parameters; ammo = ppa_ammo parameters in do {
     rifle \<leftarrow> ReadRifle (ppa_rifle parameters);
     player_count \<leftarrow> Narrow (ppa_player_count parameters);
     State_Monad.return \<lparr>
       pw_stamina = \<lparr>sw_deplete_per_second = pst_deplete_per_second stamina, sw_regen_per_second = pst_regen_per_second stamina,
         sw_forced_walk_below = pst_forced_walk_below stamina\<rparr>,
       pw_rifle = rifle,
       pw_ammo = \<lparr>aw_gravity = pam_gravity ammo, aw_max_range = pam_max_range ammo, aw_head_damage = pam_head_damage ammo,
         aw_torso_damage = pam_torso_damage ammo, aw_limb_damage = pam_limb_damage ammo\<rparr>,
       pw_starting_health = ppa_starting_health parameters, pw_player_count = player_count\<rparr>
   })"

definition ReadMatchPlayer :: "(string \<Rightarrow> bool) \<Rightarrow> pb_MatchPlayer \<Rightarrow> MatchPlayerWire inbound" where
  "ReadMatchPlayer utf8 player = do {
     spawn \<leftarrow> InVec (pmp_spawn_x player) (pmp_spawn_y player) (pmp_spawn_z player) kPositionGrid;
     session \<leftarrow> InUuid (pmp_session player);
     character \<leftarrow> InText utf8 (pmp_character player) kMaxCharacterNameLength;
     State_Monad.return \<lparr>mpw_spawn = spawn, mpw_session = session, mpw_entity = pmp_entity player, mpw_character = character\<rparr>
   }"

definition ReadReplayListing :: "(string \<Rightarrow> bool) \<Rightarrow> pb_ReplayListing \<Rightarrow> ReplayListingWire inbound" where
  "ReadReplayListing utf8 listing = do {
     characters \<leftarrow> ReadList (\<lambda>character. InText utf8 character kMaxCharacterNameLength) (prl_characters listing) kMaxPlayers;
     name \<leftarrow> InText utf8 (prl_name listing) kMaxCaptureNameLength;
     tick_rate_hz \<leftarrow> Narrow (prl_tick_rate_hz listing);
     State_Monad.return \<lparr>rlw_started_unix_ms = prl_started_unix_ms listing, rlw_characters = characters, rlw_name = name,
       rlw_ticks = prl_ticks listing, rlw_tick_rate_hz = tick_rate_hz\<rparr>
   }"

definition ReadJudgedPlayer :: "pb_JudgedPlayer \<Rightarrow> JudgedPlayerWire inbound" where
  "ReadJudgedPlayer player = do {
     position \<leftarrow> InVec (pjp_position_x player) (pjp_position_y player) (pjp_position_z player) kPositionGrid;
     yaw \<leftarrow> InFromSteps (sint (pjp_yaw player)) kAngleGrid;
     bits \<leftarrow> ToBits (pjp_bits player) kStanceMask;
     stance \<leftarrow> ToEnum (uint bits) kStandingWire kProneWire;
     State_Monad.return \<lparr>jpw_position = position, jpw_entity = pjp_entity player, jpw_yaw = yaw, jpw_stance = stance\<rparr>
   }"

definition ReadEntry :: "pb_ShotJudgementEntry \<Rightarrow> ShotJudgementEntryWire inbound" where
  "ReadEntry entry = do {
     players \<leftarrow> ReadList ReadJudgedPlayer (pje_players entry) kMaxPlayers;
     ticks_after_shot \<leftarrow> Narrow16 (pje_ticks_after_shot entry);
     State_Monad.return \<lparr>jew_players = players, jew_ticks_after_shot = ticks_after_shot\<rparr>
   }"

section \<open>Messages\<close>

definition ReadJoinRequest :: "(string \<Rightarrow> bool) \<Rightarrow> pb_JoinRequest \<Rightarrow> JoinRequestWire inbound" where
  "ReadJoinRequest utf8 request = do {
     engine_version \<leftarrow> InText utf8 (pjr_engine_version request) kMaxEngineVersionLength;
     client_pack \<leftarrow> InPackHash (pjr_client_pack request);
     character \<leftarrow> InText utf8 (pjr_character request) kMaxCharacterNameLength;
     run' \<leftarrow> InUuid (pjr_run request);
     State_Monad.return \<lparr>jw_engine_version = engine_version, jw_client_pack = client_pack, jw_character = character, jw_run = run'\<rparr>
   }"

definition ReadReenactRequest :: "(string \<Rightarrow> bool) \<Rightarrow> pb_ReenactRequest \<Rightarrow> ReenactRequestWire inbound" where
  "ReadReenactRequest utf8 request = do {
     engine_version \<leftarrow> InText utf8 (prr_engine_version request) kMaxEngineVersionLength;
     client_pack \<leftarrow> InPackHash (prr_client_pack request);
     character \<leftarrow> InText utf8 (prr_character request) kMaxCharacterNameLength;
     spawn \<leftarrow> InVec (prr_spawn_x request) (prr_spawn_y request) (prr_spawn_z request) kPositionGrid;
     run' \<leftarrow> InUuid (prr_run request);
     State_Monad.return \<lparr>nw_engine_version = engine_version, nw_client_pack = client_pack, nw_character = character,
       nw_spawn = spawn, nw_run = run'\<rparr>
   }"

definition ReadJoinAccepted :: "(string \<Rightarrow> bool) \<Rightarrow> pb_JoinAccepted \<Rightarrow> JoinAcceptedWire inbound" where
  "ReadJoinAccepted utf8 accepted' = do {
     session \<leftarrow> InUuid (pja_session accepted');
     tick_rate_hz \<leftarrow> Narrow (pja_tick_rate_hz accepted');
     parameters \<leftarrow> ReadParameters (pja_parameters accepted');
     character \<leftarrow> InText utf8 (pja_character accepted') kMaxCharacterNameLength;
     State_Monad.return \<lparr>acw_session = session, acw_tick_rate_hz = tick_rate_hz, acw_parameters = parameters,
       acw_character = character\<rparr>
   }"

definition ReadJoinRefused :: "i32 \<Rightarrow> u8 inbound" where
  "ReadJoinRefused reason = ToEnum (sint reason) kVersionMismatchWire kReenactmentsNotAcceptedWire"

definition ReadCommands :: "pb_Commands \<Rightarrow> CommandsWire inbound" where
  "ReadCommands commands = do {
     list' \<leftarrow> ReadList (\<lambda>command. do {
         read \<leftarrow> ReadCommand command;
         State_Monad.return \<lparr>qw_sequence = pco_sequence command, qw_command = read\<rparr>
       }) (pcs_commands commands) kMaxCommandsPerMessage;
     State_Monad.return \<lparr>csw_commands = list', csw_seen_tick = pcs_seen_tick commands\<rparr>
   }"

definition ReadAuthoritativeState :: "pb_AuthoritativeState \<Rightarrow> AuthoritativeStateWire inbound" where
  "ReadAuthoritativeState state = do {
     bodies \<leftarrow> ReadList ReadBody (pas_bodies state) kMaxPlayers;
     recoil_pitch \<leftarrow> InFromSteps (sint (pas_rifle_recoil_pitch state)) kAngleGrid;
     recoil_yaw \<leftarrow> InFromSteps (sint (pas_rifle_recoil_yaw state)) kAngleGrid;
     rounds \<leftarrow> Narrow (pas_rifle_rounds state);
     burst_index \<leftarrow> Narrow (pas_rifle_burst_index state);
     queued_commands \<leftarrow> Narrow (pas_queued_commands state);
     State_Monad.return \<lparr>asw_tick = pas_tick state, asw_bodies = bodies,
       asw_rifle = \<lparr>ww_cooldown = pas_rifle_cooldown state, ww_reload_remaining = pas_rifle_reload_remaining state,
         ww_recoil_pitch = recoil_pitch, ww_recoil_yaw = recoil_yaw, ww_rounds = rounds, ww_burst_index = burst_index\<rparr>,
       asw_health = pas_health state, asw_acknowledged_sequence = pas_acknowledged_sequence state,
       asw_queued_commands = queued_commands\<rparr>
   }"

definition ReadLobby :: "(string \<Rightarrow> bool) \<Rightarrow> pb_Lobby \<Rightarrow> LobbyWire inbound" where
  "ReadLobby utf8 lobby = do {
     roster \<leftarrow> ReadList (\<lambda>entry. do {
         session \<leftarrow> InUuid (pre_session entry);
         character \<leftarrow> InText utf8 (pre_character entry) kMaxCharacterNameLength;
         State_Monad.return \<lparr>rew_session = session, rew_character = character\<rparr>
       }) (plo_roster lobby) kMaxPlayers;
     State_Monad.return \<lparr>lw_version = plo_version lobby, lw_roster = roster\<rparr>
   }"

definition ReadMatchStart :: "(string \<Rightarrow> bool) \<Rightarrow> pb_MatchStart \<Rightarrow> MatchStartWire inbound" where
  "ReadMatchStart utf8 start = do {
     players \<leftarrow> ReadList (ReadMatchPlayer utf8) (pms_players start) kMaxPlayers;
     match \<leftarrow> InUuid (pms_match start);
     State_Monad.return \<lparr>msw_players = players, msw_first_tick = pms_first_tick start, msw_match = match\<rparr>
   }"

definition ReadShot :: "pb_Shot \<Rightarrow> ShotWire inbound" where
  "ReadShot shot = do {
     origin \<leftarrow> InVec (psh_origin_x shot) (psh_origin_y shot) (psh_origin_z shot) kPositionGrid;
     yaw \<leftarrow> InFromSteps (sint (psh_yaw shot)) kAngleGrid;
     pitch \<leftarrow> InFromSteps (sint (psh_pitch shot)) kAngleGrid;
     State_Monad.return \<lparr>shw_tick = psh_tick shot, shw_origin = origin, shw_shooter = psh_shooter shot, shw_yaw = yaw, shw_pitch = pitch\<rparr>
   }"

definition ReadHitConfirmation :: "pb_HitConfirmation \<Rightarrow> HitConfirmationWire inbound" where
  "ReadHitConfirmation hit = do {
     part \<leftarrow> ToEnum (sint (phc_part hit)) kHeadWire kLimbWire;
     State_Monad.return \<lparr>hw_target = phc_target hit, hw_damage = phc_damage hit, hw_part = part\<rparr>
   }"

definition ReadDeath :: "pb_Death \<Rightarrow> DeathWire inbound" where
  "ReadDeath death = do {
     yaw \<leftarrow> InFromSteps (sint (pde_yaw death)) kAngleGrid;
     pitch \<leftarrow> InFromSteps (sint (pde_pitch death)) kAngleGrid;
     part \<leftarrow> ToEnum (sint (pde_part death)) kHeadWire kLimbWire;
     State_Monad.return \<lparr>dw_victim = pde_victim death, dw_killer = pde_killer death, dw_yaw = yaw, dw_pitch = pitch, dw_part = part\<rparr>
   }"

definition ReadReplayRequest :: "(string \<Rightarrow> bool) \<Rightarrow> pb_ReplayRequest \<Rightarrow> ReplayRequestWire inbound" where
  "ReadReplayRequest utf8 request = do {
     engine_version \<leftarrow> InText utf8 (prq_engine_version request) kMaxEngineVersionLength;
     client_pack \<leftarrow> InPackHash (prq_client_pack request);
     capture \<leftarrow> InText utf8 (prq_capture request) kMaxCaptureNameLength;
     run' \<leftarrow> InUuid (prq_run request);
     State_Monad.return \<lparr>rrw_engine_version = engine_version, rrw_client_pack = client_pack, rrw_capture = capture, rrw_run = run'\<rparr>
   }"

definition ReadShotJudgement :: "pb_ShotJudgement \<Rightarrow> ShotJudgementWire inbound" where
  "ReadShotJudgement judgement = do {
     bits \<leftarrow> ToBits (psj_bits judgement) kJudgementBitsMask;
     entries \<leftarrow> ReadList ReadEntry (psj_entries judgement) kMaxShotJudgementEntries;
     point \<leftarrow> InVec (psj_point_x judgement) (psj_point_y judgement) (psj_point_z judgement) kPositionGrid;
     delay_fraction \<leftarrow> InFromSteps (uint (psj_delay_fraction judgement)) kFractionGrid;
     delay_ticks \<leftarrow> Narrow (psj_delay_ticks judgement);
     part \<leftarrow> ToEnum (uint (drop_bit kJudgementPartShift bits AND kPartMask)) kHeadWire kLimbWire;
     State_Monad.return \<lparr>sjw_shot_tick = psj_shot_tick judgement, sjw_entries = entries, sjw_point = point,
       sjw_target = psj_target judgement, sjw_delay_fraction = delay_fraction, sjw_delay_ticks = delay_ticks,
       sjw_struck = ucast (bits AND kStruckMask), sjw_part = part, sjw_flags = ucast (drop_bit kJudgementFlagsShift bits)\<rparr>
   }"

text \<open>\<open>ReadBody\<close> of a whole message.\<close>

definition ReadMessage :: "bool \<Rightarrow> (string \<Rightarrow> bool) \<Rightarrow> pb_Message \<Rightarrow> MessageWire option inbound" where
  "ReadMessage debug_tools utf8 message = (case message of
      PbJoinRequest body \<Rightarrow> do { wire \<leftarrow> ReadJoinRequest utf8 body; State_Monad.return (Some (JoinRequestMsg wire)) }
    | PbJoinAccepted body \<Rightarrow> do { wire \<leftarrow> ReadJoinAccepted utf8 body; State_Monad.return (Some (JoinAcceptedMsg wire)) }
    | PbJoinRefused body \<Rightarrow> do { wire \<leftarrow> ReadJoinRefused body; State_Monad.return (Some (JoinRefusedMsg wire)) }
    | PbCommands body \<Rightarrow> do { wire \<leftarrow> ReadCommands body; State_Monad.return (Some (CommandsMsg wire)) }
    | PbAuthoritativeState body \<Rightarrow> do { wire \<leftarrow> ReadAuthoritativeState body; State_Monad.return (Some (AuthoritativeStateMsg wire)) }
    | PbLobby body \<Rightarrow> do { wire \<leftarrow> ReadLobby utf8 body; State_Monad.return (Some (LobbyMsg wire)) }
    | PbReady version \<Rightarrow> State_Monad.return (Some (ReadyMsg version))
    | PbMatchStart body \<Rightarrow> do { wire \<leftarrow> ReadMatchStart utf8 body; State_Monad.return (Some (MatchStartMsg wire)) }
    | PbMatchEnd winner \<Rightarrow> do { wire \<leftarrow> InUuid winner; State_Monad.return (Some (MatchEndMsg wire)) }
    | PbShot body \<Rightarrow> do { wire \<leftarrow> ReadShot body; State_Monad.return (Some (ShotMsg wire)) }
    | PbHitConfirmation body \<Rightarrow> do { wire \<leftarrow> ReadHitConfirmation body; State_Monad.return (Some (HitConfirmationMsg wire)) }
    | PbDeath body \<Rightarrow> do { wire \<leftarrow> ReadDeath body; State_Monad.return (Some (DeathMsg wire)) }
    | PbReplayListRequest \<Rightarrow> State_Monad.return (Some ReplayListRequestMsg)
    | PbReplayList body \<Rightarrow> do { wire \<leftarrow> ReadList (ReadReplayListing utf8) body kMaxReplayListings; State_Monad.return (Some (ReplayListMsg wire)) }
    | PbReplayRequest body \<Rightarrow> do { wire \<leftarrow> ReadReplayRequest utf8 body; State_Monad.return (Some (ReplayRequestMsg wire)) }
    | PbReenactRequest body \<Rightarrow> do { wire \<leftarrow> ReadReenactRequest utf8 body; State_Monad.return (Some (ReenactRequestMsg wire)) }
    | PbDebugSubscribe flags \<Rightarrow>
        if debug_tools then do { wire \<leftarrow> Narrow flags; State_Monad.return (Some (DebugSubscribeMsg wire)) }
        else State_Monad.return None
    | PbShotJudgement body \<Rightarrow>
        if debug_tools then do { wire \<leftarrow> ReadShotJudgement body; State_Monad.return (Some (ShotJudgementMsg wire)) }
        else State_Monad.return None
    | BodyNotSet \<Rightarrow> State_Monad.return None)"

section \<open>Capture records\<close>

definition ReadRecord :: "(string \<Rightarrow> bool) \<Rightarrow> pb_CaptureRecord \<Rightarrow> CaptureRecordWire option inbound" where
  "ReadRecord utf8 item = (case item of
      PbHeader header \<Rightarrow> do {
        server_pack \<leftarrow> InPackHash (pch_server_pack header);
        client_pack \<leftarrow> InPackHash (pch_client_pack header);
        engine_version \<leftarrow> InText utf8 (pch_engine_version header) kMaxEngineVersionLength;
        match \<leftarrow> InUuid (pch_match header);
        tick_rate_hz \<leftarrow> Narrow (pch_tick_rate_hz header);
        State_Monad.return (Some (HeaderRec \<lparr>chw_server_pack = server_pack, chw_client_pack = client_pack,
          chw_engine_version = engine_version, chw_started_unix_ms = pch_started_unix_ms header, chw_match = match,
          chw_tick_rate_hz = tick_rate_hz\<rparr>))
      }
    | PbCapturedJoin join \<Rightarrow> do {
        spawn \<leftarrow> InVec (pcj_spawn_x join) (pcj_spawn_y join) (pcj_spawn_z join) kPositionGrid;
        session \<leftarrow> InUuid (pcj_session join);
        character \<leftarrow> InText utf8 (pcj_character join) kMaxCharacterNameLength;
        player \<leftarrow> Narrow (pcj_player join);
        State_Monad.return (Some (JoinRec \<lparr>cjw_spawn = spawn, cjw_offset = pcj_offset join, cjw_session = session,
          cjw_character = character, cjw_player = player\<rparr>))
      }
    | PbCapturedCommand command \<Rightarrow> do {
        read \<leftarrow> ReadCommand (pcc_command command);
        player \<leftarrow> Narrow (pcc_player command);
        State_Monad.return (Some (CommandRec \<lparr>ccw_command = read, ccw_offset = pcc_offset command,
          ccw_seen_offset = pcc_seen_offset command, ccw_player = player\<rparr>))
      }
    | PbCapturedLeave leave \<Rightarrow> do {
        player \<leftarrow> Narrow (pcl_player leave);
        State_Monad.return (Some (LeaveRec \<lparr>clw_offset = pcl_offset leave, clw_player = player\<rparr>))
      }
    | PbCapturedDeath death \<Rightarrow> do {
        victim \<leftarrow> Narrow (pcd_victim death);
        killer \<leftarrow> Narrow (pcd_killer death);
        State_Monad.return (Some (DeathRec \<lparr>cdw_offset = pcd_offset death, cdw_victim = victim, cdw_killer = killer\<rparr>))
      }
    | PbCapturedMatchEnd match_end \<Rightarrow> do {
        winner \<leftarrow> Narrow (pce_winner match_end);
        State_Monad.return (Some (MatchEndRec \<lparr>cew_offset = pce_offset match_end, cew_winner = winner\<rparr>))
      }
    | RecordNotSet \<Rightarrow> State_Monad.return None)"

end
