(* ===== verification/First_Error.thy ===== *)
theory First_Error
  imports Protocol_Decoder
begin

text \<open>
  The calculus the codec's proofs use. A computation over \<open>Outbound\<close> or \<open>Inbound\<close> gives its value
  whatever was met before it, and changes the error met only where there is none: it is its
  \<open>product\<close> and its \<open>fault\<close>, and a sequence's product and fault follow from its steps'.
\<close>

named_theorems first_error_intros

definition product :: "('e option, 'a) state \<Rightarrow> 'a" where
  "product c = fst (run_state c None)"

definition fault :: "('e option, 'a) state \<Rightarrow> 'e option" where
  "fault c = snd (run_state c None)"

definition first_error :: "('e option, 'a) state \<Rightarrow> bool" where
  "first_error c \<longleftrightarrow> (\<forall>err. run_state c err = (product c, if err = None then fault c else err))"

lemma run_state_first_error: "first_error c \<Longrightarrow> run_state c err = (product c, if err = None then fault c else err)"
  unfolding first_error_def by blast

lemma run_state_bind [simp]: "run_state (State_Monad.bind c k) err = (let (x, err') = run_state c err in run_state (k x) err')"
  by (simp add: State_Monad.bind_def split_def Let_def)

lemma run_state_return [simp]: "run_state (State_Monad.return x) err = (x, err)"
  by (simp add: State_Monad.return_def)

section \<open>Products and faults of sequences\<close>

lemma return_first_error [simp]:
  "first_error (State_Monad.return x)" "product (State_Monad.return x) = x" "fault (State_Monad.return x) = None"
  by (simp_all add: first_error_def product_def fault_def)

lemma first_error_bind [first_error_intros]:
  assumes "first_error c" and "\<And>x. first_error (k x)"
  shows "first_error (State_Monad.bind c k)"
proof -
  have "run_state (State_Monad.bind c k) err =
     (product (k (product c)), if err = None then (if fault c = None then fault (k (product c)) else fault c) else err)" for err
    by (auto simp: run_state_first_error [OF assms(1)] run_state_first_error [OF assms(2)])
  then show ?thesis by (simp add: first_error_def product_def fault_def)
qed

lemma product_bind:
  assumes "first_error c" and "\<And>x. first_error (k x)"
  shows "product (State_Monad.bind c k) = product (k (product c))"
proof -
  have "product (State_Monad.bind c k) = fst (run_state (k (product c)) (fault c))"
    by (simp add: product_def fault_def split_def Let_def)
  then show ?thesis by (simp add: run_state_first_error [OF assms(2)])
qed

lemma fault_bind:
  assumes "first_error c" and "\<And>x. first_error (k x)"
  shows "fault (State_Monad.bind c k) = (if fault c = None then fault (k (product c)) else fault c)"
proof -
  have "fault (State_Monad.bind c k) = snd (run_state (k (product c)) (fault c))"
    by (simp add: product_def fault_def split_def Let_def)
  then show ?thesis by (simp add: run_state_first_error [OF assms(2)])
qed

lemma fault_bind_None:
  assumes "first_error c" and "\<And>x. first_error (k x)"
  shows "fault (State_Monad.bind c k) = None \<longleftrightarrow> fault c = None \<and> fault (k (product c)) = None"
  by (auto simp: fault_bind [OF assms])

lemma first_error_each [first_error_intros]: "(\<And>x. first_error (f x)) \<Longrightarrow> first_error (each f xs)"
  by (induction xs) (auto intro!: first_error_intros)

lemma product_each: "(\<And>x. first_error (f x)) \<Longrightarrow> product (each f xs) = map (\<lambda>x. product (f x)) xs"
  by (induction xs) (simp_all add: product_bind first_error_intros)

lemma fault_each: "(\<And>x. first_error (f x)) \<Longrightarrow> fault (each f xs) = None \<longleftrightarrow> (\<forall>x \<in> set xs. fault (f x) = None)"
  by (induction xs) (simp_all add: fault_bind_None first_error_intros)

lemmas sequences = product_bind fault_bind_None product_each fault_each

section \<open>What the encoder's steps check\<close>

lemma Outbound_Check_steps [simp]:
  "first_error (Outbound_Check holds error)" "product (Outbound_Check holds error) = holds" "fault (Outbound_Check holds error) = None \<longleftrightarrow> holds"
  by (auto simp: first_error_def product_def fault_def Outbound_Check_def)

lemma FromEnum_steps [simp]:
  "first_error (FromEnum n first final)" "product (FromEnum n first final) = ucast n"
  "fault (FromEnum n first final) = None \<longleftrightarrow> first \<le> n \<and> n \<le> final"
  by (simp_all add: FromEnum_def sequences first_error_intros)

lemma FromFlags_steps [simp]:
  "first_error (FromFlags flags valid)" "product (FromFlags flags valid) = ucast flags"
  "fault (FromFlags flags valid) = None \<longleftrightarrow> flags AND NOT valid = 0"
  by (simp_all add: FromFlags_def sequences first_error_intros)

lemma OutText_steps [simp]:
  "first_error (OutText utf8 t n)" "product (OutText utf8 t n) = t"
  "fault (OutText utf8 t n) = None \<longleftrightarrow> length t \<le> n \<and> utf8 t"
  by (simp_all add: OutText_def sequences first_error_intros)

lemma OutFits_steps [simp]:
  "first_error (OutFits size' max_size)" "product (OutFits size' max_size) = (size' \<le> max_size)"
  "fault (OutFits size' max_size) = None \<longleftrightarrow> size' \<le> max_size"
  by (simp_all add: OutFits_def)

lemma first_error_if [first_error_intros]: "(b \<Longrightarrow> first_error c) \<Longrightarrow> (\<not> b \<Longrightarrow> first_error d) \<Longrightarrow> first_error (if b then c else d)"
  by simp

lemma WriteList_first_error [first_error_intros]: "(\<And>x. first_error (f x)) \<Longrightarrow> first_error (WriteList f xs n)"
  by (auto simp: WriteList_def intro!: first_error_intros)

lemma fault_WriteList:
  "(\<And>x. first_error (f x)) \<Longrightarrow>
     fault (WriteList f xs n) = None \<longleftrightarrow> length xs \<le> n \<and> (\<forall>x \<in> set xs. fault (f x) = None)"
  by (auto simp: WriteList_def sequences first_error_intros)

lemma product_WriteList:
  "(\<And>x. first_error (f x)) \<Longrightarrow> length xs \<le> n \<Longrightarrow> product (WriteList f xs n) = map (\<lambda>x. product (f x)) xs"
  by (simp add: WriteList_def sequences first_error_intros)

section \<open>What the decoder's steps check\<close>

lemma Fail_steps [simp]: "first_error (Fail error)" "fault (Fail error) \<noteq> None"
  by (simp_all add: first_error_def product_def fault_def Fail_def)

lemma InFromSteps_steps:
  "first_error (InFromSteps n grid)"
  "fault (InFromSteps n grid) = None \<longleftrightarrow> gr_min grid \<le> n \<and> n \<le> gr_max grid"
  "gr_min grid \<le> n \<Longrightarrow> n \<le> gr_max grid \<Longrightarrow> product (InFromSteps n grid) = FromSteps n grid"
  by (auto simp: InFromSteps_def sequences intro!: first_error_intros)

lemma Narrow_steps [simp]:
  "first_error (Narrow v)" "fault (Narrow v) = None \<longleftrightarrow> v \<le> 255"
  by (auto simp: Narrow_def sequences intro!: first_error_intros)

lemma product_Narrow: "v \<le> 255 \<Longrightarrow> product (Narrow v) = ucast v"
  by (auto simp: Narrow_def)

lemma Narrow16_steps [simp]:
  "first_error (Narrow16 v)" "fault (Narrow16 v) = None \<longleftrightarrow> v \<le> 65535"
  by (auto simp: Narrow16_def sequences intro!: first_error_intros)

lemma product_Narrow16: "v \<le> 65535 \<Longrightarrow> product (Narrow16 v) = ucast v"
  by (auto simp: Narrow16_def)

lemma ToEnum_steps [simp]:
  "first_error (ToEnum n first final)" "fault (ToEnum n first final) = None \<longleftrightarrow> uint first \<le> n \<and> n \<le> uint final"
  by (auto simp: ToEnum_def sequences intro!: first_error_intros)

lemma product_ToEnum: "uint first \<le> n \<Longrightarrow> n \<le> uint final \<Longrightarrow> product (ToEnum n first final) = word_of_int n"
  by (auto simp: ToEnum_def)

lemma ToBits_steps [simp]:
  "first_error (ToBits bits valid)" "fault (ToBits bits valid) = None \<longleftrightarrow> bits AND NOT valid = 0"
  by (auto simp: ToBits_def sequences intro!: first_error_intros)

lemma product_ToBits: "bits AND NOT valid = 0 \<Longrightarrow> product (ToBits bits valid) = bits"
  by (auto simp: ToBits_def)

lemma InText_steps [simp]:
  "first_error (InText utf8 t n)" "fault (InText utf8 t n) = None \<longleftrightarrow> length t \<le> n \<and> utf8 t"
  by (auto simp: InText_def sequences intro!: first_error_intros)

lemma product_InText: "length t \<le> n \<Longrightarrow> utf8 t \<Longrightarrow> product (InText utf8 t n) = t"
  by (auto simp: InText_def)

lemma InPackHash_steps [simp]:
  "first_error (InPackHash bytes)" "fault (InPackHash bytes) = None \<longleftrightarrow> bytes = [] \<or> length bytes = kPackHashSize"
  "length (product (InPackHash bytes)) = kPackHashSize"
  by (auto simp: InPackHash_def sequences intro!: first_error_intros)

lemma product_InPackHash: "length bytes = kPackHashSize \<Longrightarrow> product (InPackHash bytes) = bytes"
  by (auto simp: InPackHash_def kPackHashSize_def)

lemma InUuid_steps [simp]:
  "first_error (InUuid bytes)" "fault (InUuid bytes) = None \<longleftrightarrow> bytes = [] \<or> length bytes = kUuidSize"
  "length (product (InUuid bytes)) = kUuidSize"
  by (auto simp: InUuid_def sequences kDraw_def kUuidSize_def intro!: first_error_intros)

lemma product_InUuid: "length bytes = kUuidSize \<Longrightarrow> product (InUuid bytes) = bytes"
  by (auto simp: InUuid_def kUuidSize_def)

lemma InFits_steps [simp]:
  "first_error (InFits size' max_size)" "fault (InFits size' max_size) = None \<longleftrightarrow> size' \<le> max_size"
  "product (InFits size' max_size) \<longleftrightarrow> size' \<le> max_size"
  by (auto simp: InFits_def sequences intro!: first_error_intros)

lemma ReadList_first_error [first_error_intros]: "(\<And>x. first_error (f x)) \<Longrightarrow> first_error (ReadList f xs n)"
  by (auto simp: ReadList_def intro!: first_error_intros)

lemma fault_ReadList:
  "(\<And>x. first_error (f x)) \<Longrightarrow>
     fault (ReadList f xs n) = None \<longleftrightarrow> length xs \<le> n \<and> (\<forall>x \<in> set xs. fault (f x) = None)"
  by (auto simp: ReadList_def sequences first_error_intros)

lemma product_ReadList:
  "(\<And>x. first_error (f x)) \<Longrightarrow> length xs \<le> n \<Longrightarrow> product (ReadList f xs n) = map (\<lambda>x. product (f x)) xs"
  by (simp add: ReadList_def sequences first_error_intros)

lemma InVec_steps:
  "first_error (InVec x y z grid)"
  "fault (InVec x y z grid) = None \<longleftrightarrow>
     (gr_min grid \<le> sint x \<and> sint x \<le> gr_max grid) \<and> (gr_min grid \<le> sint y \<and> sint y \<le> gr_max grid) \<and>
     (gr_min grid \<le> sint z \<and> sint z \<le> gr_max grid)"
  by (simp_all add: InVec_def sequences first_error_intros InFromSteps_steps)

lemma product_InVec:
  "fault (InVec x y z grid) = None \<Longrightarrow>
     product (InVec x y z grid) = \<lparr>vx = FromSteps (sint x) grid, vy = FromSteps (sint y) grid, vz = FromSteps (sint z) grid\<rparr>"
  unfolding InVec_steps(2) by (simp add: InVec_def sequences first_error_intros InFromSteps_steps)

lemmas [first_error_intros] = InFromSteps_steps(1) InVec_steps(1)

end
