(* ===== verification/Protocol_Messages.thy ===== *)
theory Protocol_Messages
  imports First_Error
begin

text \<open>
  What a message may hold to travel (\<open>carried\<close>), and what it holds on arrival (\<open>snapped\<close>: its
  numbers on their grids), part by part, with the parts' round trips: a part that is carried is
  read back snapped, and whatever is read is carried and already snapped.
\<close>

section \<open>Counts and bits on the wire\<close>

lemma sint_word_of_int_23: "- (2 ^ 23) \<le> n \<Longrightarrow> n \<le> 2 ^ 23 \<Longrightarrow> sint (word_of_int n :: i32) = n"
  by (simp add: signed_of_int signed_take_bit_int_eq_self)

lemma uint_word_of_int_23: "0 \<le> n \<Longrightarrow> n \<le> 2 ^ 23 \<Longrightarrow> uint (word_of_int n :: u32) = n"
  by (simp add: unsigned_of_int take_bit_int_eq_self)

lemma sint_Steps [simp]: "grid_ok grid \<Longrightarrow> sint (Steps v grid) = ToSteps v grid"
  unfolding Steps_def using ToSteps_range [of grid v]
  by (intro sint_word_of_int_23) (auto simp: grid_ok_def)

lemma uint_UnsignedSteps [simp]: "grid_ok grid \<Longrightarrow> gr_min grid = 0 \<Longrightarrow> uint (UnsignedSteps v grid) = ToSteps v grid"
  unfolding UnsignedSteps_def using ToSteps_range [of grid v]
  by (intro uint_word_of_int_23) (auto simp: grid_ok_def)

lemma unsigned_grids [simp]: "gr_min kStaminaGrid = 0" "gr_min kFractionGrid = 0"
  by (simp_all add: kStaminaGrid_def kFractionGrid_def)

lemma InFromSteps_ToSteps [simp]:
  "grid_ok grid \<Longrightarrow> fault (InFromSteps (ToSteps v grid) grid) = None"
  "grid_ok grid \<Longrightarrow> product (InFromSteps (ToSteps v grid) grid) = Snap v grid"
  using ToSteps_range [of grid v] by (simp_all add: InFromSteps_steps Snap_def)

lemma InVec_Steps [simp]:
  assumes "grid_ok grid"
  shows "fault (InVec (Steps (vx v) grid) (Steps (vy v) grid) (Steps (vz v) grid) grid) = None"
    and "product (InVec (Steps (vx v) grid) (Steps (vy v) grid) (Steps (vz v) grid) grid) = SnapVec v grid"
proof -
  show *: "fault (InVec (Steps (vx v) grid) (Steps (vy v) grid) (Steps (vz v) grid) grid) = None"
    using assms ToSteps_range [OF assms] by (simp add: InVec_steps)
  show "product (InVec (Steps (vx v) grid) (Steps (vy v) grid) (Steps (vz v) grid) grid) = SnapVec v grid"
    using assms by (simp add: product_InVec [OF *] SnapVec_def Snap_def)
qed

text \<open>What is read from counts is on the grid.\<close>

lemma Snap_read:
  "grid_ok grid \<Longrightarrow> fault (InFromSteps n grid) = None \<Longrightarrow> Snap (product (InFromSteps n grid)) grid = product (InFromSteps n grid)"
  unfolding InFromSteps_steps(2) by (simp add: InFromSteps_steps Snap_def ToSteps_FromSteps)

lemma SnapVec_read:
  assumes "grid_ok grid" and "fault (InVec x y z grid) = None"
  shows "SnapVec (product (InVec x y z grid)) grid = product (InVec x y z grid)"
  using assms unfolding product_InVec [OF assms(2)] InVec_steps(2) by (simp add: SnapVec_def Snap_def ToSteps_FromSteps)

lemma ucast_u8_le [simp]: "(ucast (x :: u8) :: u32) \<le> 255"
  using uint_bounded [of x] by (simp add: word_le_def unsigned_ucast_eq take_bit_int_eq_self)

lemma ucast_u16_le [simp]: "(ucast (x :: u16) :: u32) \<le> 65535"
  using uint_bounded [of x] by (simp add: word_le_def unsigned_ucast_eq take_bit_int_eq_self)

lemma ucast_ucast_u8 [simp]: "ucast (ucast (x :: u8) :: u32) = x"
  by transfer simp

lemma ucast_ucast_u16 [simp]: "ucast (ucast (x :: u16) :: u32) = x"
  by transfer simp

lemma product_Narrow_ucast [simp]: "product (Narrow (ucast (x :: u8))) = x"
  by (simp add: product_Narrow)

lemma product_Narrow16_ucast [simp]: "product (Narrow16 (ucast (x :: u16))) = x"
  by (simp add: product_Narrow16)

section \<open>Bitfields\<close>

text \<open>A flag field that has none but its lowest bits is one of a few values.\<close>

lemma low_values: "flags AND NOT m = (0 :: u8) \<Longrightarrow> m = mask n \<Longrightarrow> flags \<in> set (map of_nat [0..<2 ^ n])"
proof -
  assume *: "flags AND NOT m = 0" "m = mask n"
  have "flags = (flags AND m) OR (flags AND NOT m)" by (intro bit_eqI) (auto simp: bit_simps)
  then have "flags = take_bit n flags" using * by (simp add: take_bit_eq_mask)
  then have "unat flags = take_bit n (unat flags)" by (metis unsigned_take_bit_eq)
  then have "unat flags < 2 ^ n" by (metis take_bit_nat_less_exp)
  then have "flags = of_nat (unat flags) \<and> unat flags \<in> {0..<2 ^ n}" by simp
  then show ?thesis by (metis image_eqI list.set_map set_upt)
qed

lemma enum_values: "first \<le> x \<Longrightarrow> x \<le> final \<Longrightarrow> x \<in> set (map of_nat [unat first..<Suc (unat final)])" for x :: u8
proof -
  assume "first \<le> x" "x \<le> final"
  then have "x = of_nat (unat x) \<and> unat x \<in> {unat first..<Suc (unat final)}" by (simp add: word_le_nat_alt)
  then show ?thesis by (metis atLeastLessThan_iff image_eqI list.set_map set_upt)
qed

lemma stance_values: "kStandingWire \<le> x \<Longrightarrow> x \<le> kProneWire \<Longrightarrow> x = 0 \<or> x = 1 \<or> x = 2"
  using enum_values [of kStandingWire x kProneWire] by (simp add: kStandingWire_def kProneWire_def upt_rec del: set_upt)

lemma part_values: "kHeadWire \<le> x \<Longrightarrow> x \<le> kLimbWire \<Longrightarrow> x = 1 \<or> x = 2 \<or> x = 3"
  using enum_values [of kHeadWire x kLimbWire] by (simp add: kHeadWire_def kLimbWire_def upt_rec del: set_upt)

lemma struck_values: "kNothingWire \<le> x \<Longrightarrow> x \<le> kHitboxWire \<Longrightarrow> x = 0 \<or> x = 1 \<or> x = 2 \<or> x = 3"
  using enum_values [of kNothingWire x kHitboxWire] by (simp add: kNothingWire_def kHitboxWire_def upt_rec del: set_upt)

lemma body_flag_values: "x AND NOT kBodyFlagsMask = 0 \<Longrightarrow> x \<in> {0, 1, 2, 3, 4, 5, 6, 7}"
  using low_values [of x kBodyFlagsMask 3] by (simp add: kBodyFlagsMask_def mask_eq_exp_minus_1 upt_rec del: set_upt)

lemma command_flag_values: "x AND NOT kCommandFlagsMask = 0 \<Longrightarrow> x \<in> {0, 1, 2, 3, 4, 5, 6, 7, 8, 9, 10, 11, 12, 13, 14, 15}"
  using low_values [of x kCommandFlagsMask 4] by (simp add: kCommandFlagsMask_def mask_eq_exp_minus_1 upt_rec del: set_upt)

lemma judgement_flag_values: "x AND NOT kJudgementFlagsMask = 0 \<Longrightarrow> x \<in> {0, 1}"
  using low_values [of x kJudgementFlagsMask 1]
  by (simp add: kJudgementFlagsMask_def kEntriesLeftOut_def mask_eq_exp_minus_1 upt_rec del: set_upt)

lemma body_bits:
  assumes "kStandingWire \<le> s" "s \<le> kProneWire" "f AND NOT kBodyFlagsMask = 0" "kStandingWire \<le> p" "p \<le> kProneWire"
    and "bits = ucast s OR push_bit kBodyFlagsShift (ucast f) OR push_bit kPreviousStanceShift (ucast p)"
  shows "bits AND NOT kBodyBitsMask = 0" and "uint (bits AND kStanceMask) = uint s"
    and "uint (drop_bit kPreviousStanceShift bits AND kStanceMask) = uint p"
    and "ucast (drop_bit kBodyFlagsShift bits AND ucast kBodyFlagsMask) = f"
  using stance_values [OF assms(1,2)] body_flag_values [OF assms(3)] stance_values [OF assms(4,5)] unfolding assms(6)
  by (auto simp: kBodyBitsMask_def kStanceMask_def kBodyFlagsShift_def kPreviousStanceShift_def kBodyFlagsMask_def)

lemma command_bits:
  assumes "f AND NOT kCommandFlagsMask = 0" "kStandingWire \<le> s" "s \<le> kProneWire"
    and "bits = ucast f OR push_bit kCommandStanceShift (ucast s)"
  shows "bits AND NOT kCommandBitsMask = 0" and "uint (drop_bit kCommandStanceShift bits) = uint s"
    and "ucast (bits AND ucast kCommandFlagsMask) = f"
  using stance_values [OF assms(2,3)] command_flag_values [OF assms(1)] unfolding assms(4)
  by (auto simp: kCommandBitsMask_def kStanceMask_def kCommandStanceShift_def kCommandFlagsMask_def)

lemma judgement_bits:
  assumes "kNothingWire \<le> s" "s \<le> kHitboxWire" "kHeadWire \<le> p" "p \<le> kLimbWire" "f AND NOT kJudgementFlagsMask = 0"
    and "bits = ucast s OR push_bit kJudgementPartShift (ucast p) OR push_bit kJudgementFlagsShift (ucast f)"
  shows "bits AND NOT kJudgementBitsMask = 0" and "ucast (bits AND kStruckMask) = s"
    and "uint (drop_bit kJudgementPartShift bits AND kPartMask) = uint p"
    and "ucast (drop_bit kJudgementFlagsShift bits) = f"
  using struck_values [OF assms(1,2)] part_values [OF assms(3,4)] judgement_flag_values [OF assms(5)] unfolding assms(6)
  by (auto simp: kJudgementBitsMask_def kStruckMask_def kJudgementPartShift_def kPartMask_def kJudgementFlagsShift_def
      kJudgementFlagsMask_def kEntriesLeftOut_def)

lemma flags_read [simp]: "ucast (bits AND ucast m) AND NOT m = (0 :: u8)" for bits :: u32
  by (intro bit_eqI) (auto simp: bit_simps)

lemma judgement_flags_read: "bits AND NOT kJudgementBitsMask = 0 \<Longrightarrow> ucast (drop_bit kJudgementFlagsShift bits) AND NOT kJudgementFlagsMask = 0"
proof -
  assume *: "bits AND NOT kJudgementBitsMask = 0"
  have m: "kJudgementBitsMask = mask 5"
    by (simp add: kJudgementBitsMask_def kStruckMask_def kJudgementPartShift_def kPartMask_def kJudgementFlagsShift_def
        kJudgementFlagsMask_def kEntriesLeftOut_def mask_eq_exp_minus_1)
  have low: "n < 5" if "bit bits n" for n
  proof (rule ccontr)
    assume "\<not> n < 5"
    then have "bit (bits AND NOT (mask 5)) n" using that bit_imp_le_length [of bits n] by (auto simp: bit_simps)
    then show False using * by (simp add: m)
  qed
  show ?thesis
    by (intro bit_eqI) (auto simp: bit_simps kJudgementFlagsShift_def kJudgementFlagsMask_def kEntriesLeftOut_def bit_1_iff dest!: low)
qed

lemma enum_read:
  "uint first \<le> n \<Longrightarrow> n \<le> uint final \<Longrightarrow> first \<le> product (ToEnum n first final) \<and> product (ToEnum n first final) \<le> final"
proof -
  assume *: "uint first \<le> n" "n \<le> uint final"
  then have "uint (word_of_int n :: u8) = n"
    using uint_bounded [of final] order.trans [OF uint_nonnegative *(1)] by (simp add: unsigned_of_int take_bit_int_eq_self)
  then show ?thesis using * by (simp add: product_ToEnum word_le_def)
qed

lemma ToEnum_uint [simp]: "first \<le> x \<Longrightarrow> x \<le> final \<Longrightarrow> product (ToEnum (uint x) first final) = x"
  by (simp add: product_ToEnum word_le_def)

lemma uint_le_uint [simp]: "uint x \<le> uint y \<longleftrightarrow> x \<le> y"
  by (simp add: word_le_def)

section \<open>Commands\<close>

definition carried_command :: "CommandWire \<Rightarrow> bool" where
  "carried_command wire \<longleftrightarrow> cw_flags wire AND NOT kCommandFlagsMask = 0 \<and>
     kStandingWire \<le> cw_desired_stance wire \<and> cw_desired_stance wire \<le> kProneWire"

definition snapped_command :: "CommandWire \<Rightarrow> CommandWire" where
  "snapped_command wire = wire\<lparr>cw_direction := SnapVec (cw_direction wire) kDirectionGrid,
     cw_yaw := Snap (cw_yaw wire) kAngleGrid, cw_pitch := Snap (cw_pitch wire) kAngleGrid,
     cw_seen_fraction := Snap (cw_seen_fraction wire) kFractionGrid\<rparr>"

lemma WriteCommand_first [first_error_intros]: "first_error (WriteCommand wire command)"
  by (simp add: WriteCommand_def first_error_intros)

lemma fault_WriteCommand [simp]: "fault (WriteCommand wire command) = None \<longleftrightarrow> carried_command wire"
  by (simp add: WriteCommand_def carried_command_def sequences first_error_intros)

lemma WriteCommand_sequence [simp]: "pco_sequence (product (WriteCommand wire command)) = pco_sequence command"
  by (simp add: WriteCommand_def sequences first_error_intros)

lemma ReadCommand_first [first_error_intros]: "first_error (ReadCommand command)"
  by (simp add: ReadCommand_def first_error_intros)

lemma ReadCommand_WriteCommand:
  assumes "carried_command wire"
  shows "fault (ReadCommand (product (WriteCommand wire command))) = None"
    and "product (ReadCommand (product (WriteCommand wire command))) = snapped_command wire"
proof -
  let ?bits = "ucast (cw_flags wire) OR push_bit kCommandStanceShift (ucast (cw_desired_stance wire)) :: u32"
  note bits = command_bits [OF _ _ _ refl, of "cw_flags wire" "cw_desired_stance wire"]
  note carried = assms [unfolded carried_command_def]
  show "fault (ReadCommand (product (WriteCommand wire command))) = None"
    using carried bits by (simp add: ReadCommand_def WriteCommand_def sequences first_error_intros product_ToBits)
  show "product (ReadCommand (product (WriteCommand wire command))) = snapped_command wire"
    using carried bits
    by (simp add: ReadCommand_def WriteCommand_def snapped_command_def sequences first_error_intros product_ToBits)
qed

lemma ReadCommand_carried:
  assumes "fault (ReadCommand command) = None"
  shows "carried_command (product (ReadCommand command))"
    and "snapped_command (product (ReadCommand command)) = product (ReadCommand command)"
  using assms
  by (auto simp: ReadCommand_def carried_command_def snapped_command_def sequences first_error_intros SnapVec_read Snap_read enum_read)

section \<open>Bodies\<close>

definition carried_body :: "EntityStateWire \<Rightarrow> bool" where
  "carried_body wire \<longleftrightarrow> bw_flags (ew_body wire) AND NOT kBodyFlagsMask = 0 \<and>
     kStandingWire \<le> bw_stance (ew_body wire) \<and> bw_stance (ew_body wire) \<le> kProneWire \<and>
     kStandingWire \<le> bw_previous_stance (ew_body wire) \<and> bw_previous_stance (ew_body wire) \<le> kProneWire"

definition snapped_body :: "EntityStateWire \<Rightarrow> EntityStateWire" where
  "snapped_body wire = wire\<lparr>ew_body := (ew_body wire)\<lparr>bw_position := SnapVec (bw_position (ew_body wire)) kPositionGrid,
       bw_velocity := SnapVec (bw_velocity (ew_body wire)) kVelocityGrid,
       bw_stamina := Snap (bw_stamina (ew_body wire)) kStaminaGrid\<rparr>,
     ew_yaw := Snap (ew_yaw wire) kAngleGrid, ew_pitch := Snap (ew_pitch wire) kAngleGrid\<rparr>"

lemma WriteBody_first [first_error_intros]: "first_error (WriteBody wire)"
  by (simp add: WriteBody_def Let_def first_error_intros)

lemma fault_WriteBody [simp]: "fault (WriteBody wire) = None \<longleftrightarrow> carried_body wire"
  by (auto simp: WriteBody_def Let_def carried_body_def sequences first_error_intros)

lemma ReadBody_first [first_error_intros]: "first_error (ReadBody body)"
  by (simp add: ReadBody_def first_error_intros)

lemma stance_to_go [simp]:
  "ucast kStanceProgressOver - ucast (x :: u8) \<le> (255 :: u32)"
  "kStanceProgressOver - product (Narrow (ucast kStanceProgressOver - ucast x)) = x"
proof -
  have *: "uint x < 256" using uint_bounded [of x] by simp
  have count: "uint (ucast kStanceProgressOver - ucast x :: u32) = 255 - uint x"
    using * by (simp add: kStanceProgressOver_def uint_sub_if' unsigned_ucast_eq take_bit_int_eq_self)
  then have "uint (ucast kStanceProgressOver - ucast x :: u32) \<le> uint (255 :: u32)" by (simp del: uint_le_uint)
  then show le: "ucast kStanceProgressOver - ucast x \<le> (255 :: u32)" by (simp only: uint_le_uint)
  have "(ucast (ucast kStanceProgressOver - ucast x :: u32) :: u8) = kStanceProgressOver - x"
  proof (rule word_uint_eqI)
    have "take_bit 8 (255 - uint x) = 255 - uint x"
      by (rule take_bit_int_eq_self) (use * uint_nonnegative [of x] in \<open>linarith, simp, linarith\<close>)
    then show "uint (ucast (ucast kStanceProgressOver - ucast x :: u32) :: u8) = uint (kStanceProgressOver - x)"
      unfolding unsigned_ucast_eq count using * by (simp add: uint_sub_if' kStanceProgressOver_def)
  qed
  then show "kStanceProgressOver - product (Narrow (ucast kStanceProgressOver - ucast x)) = x"
    unfolding product_Narrow [OF le] by simp
qed

lemma ReadBody_WriteBody:
  assumes "carried_body wire"
  shows "fault (ReadBody (product (WriteBody wire))) = None"
    and "product (ReadBody (product (WriteBody wire))) = snapped_body wire"
proof -
  note carried = assms [unfolded carried_body_def]
  note bits = body_bits [OF _ _ _ _ _ refl, of "bw_stance (ew_body wire)" "bw_flags (ew_body wire)" "bw_previous_stance (ew_body wire)"]
  show "fault (ReadBody (product (WriteBody wire))) = None"
    using carried bits by (simp add: ReadBody_def WriteBody_def Let_def sequences first_error_intros product_ToBits)
  show "product (ReadBody (product (WriteBody wire))) = snapped_body wire"
    using carried bits
    by (simp add: ReadBody_def WriteBody_def Let_def snapped_body_def sequences first_error_intros product_ToBits)
qed

lemma ReadBody_carried:
  assumes "fault (ReadBody body) = None"
  shows "carried_body (product (ReadBody body))" and "snapped_body (product (ReadBody body)) = product (ReadBody body)"
  using assms
  by (auto simp: ReadBody_def carried_body_def snapped_body_def sequences first_error_intros SnapVec_read Snap_read enum_read)

section \<open>Parameters\<close>

definition carried_parameters :: "ParametersWire \<Rightarrow> bool" where
  "carried_parameters wire \<longleftrightarrow> length (rw_recoil_pattern (pw_rifle wire)) \<le> kMaxRecoilKicks"

lemma WriteParameters_first [first_error_intros]: "first_error (WriteParameters wire)"
  by (simp add: WriteParameters_def first_error_intros)

lemma fault_WriteParameters [simp]: "fault (WriteParameters wire) = None \<longleftrightarrow> carried_parameters wire"
  by (simp add: WriteParameters_def carried_parameters_def sequences first_error_intros fault_WriteList)

lemma ReadParameters_first [first_error_intros]: "first_error (ReadParameters parameters)"
  by (simp add: ReadParameters_def Let_def ReadRifle_def first_error_intros)

lemma parameter_records [simp]:
  "\<lparr>kw_pitch = kw_pitch k, kw_yaw = kw_yaw k\<rparr> = k"
  "\<lparr>sw_deplete_per_second = sw_deplete_per_second s, sw_regen_per_second = sw_regen_per_second s,
    sw_forced_walk_below = sw_forced_walk_below s\<rparr> = s"
  "\<lparr>aw_gravity = aw_gravity a, aw_max_range = aw_max_range a, aw_head_damage = aw_head_damage a,
    aw_torso_damage = aw_torso_damage a, aw_limb_damage = aw_limb_damage a\<rparr> = a"
  "\<lparr>rw_rounds_per_minute = rw_rounds_per_minute r, rw_muzzle_velocity = rw_muzzle_velocity r, rw_reload_seconds
    = rw_reload_seconds r, rw_recoil_recovery_per_second = rw_recoil_recovery_per_second r, rw_ads_recoil_scale =
    rw_ads_recoil_scale r, rw_ads_field_of_view = rw_ads_field_of_view r, rw_recoil_pattern = rw_recoil_pattern r,
    rw_magazine_capacity = rw_magazine_capacity r\<rparr> = r"
  "\<lparr>pw_stamina = pw_stamina p, pw_rifle = pw_rifle p, pw_ammo = pw_ammo p, pw_starting_health =
    pw_starting_health p, pw_player_count = pw_player_count p\<rparr> = p"
  for k :: RecoilKickWire and r :: RifleWire and s :: StaminaWire and a :: AmmoWire and p :: ParametersWire
  by simp_all

lemma ReadParameters_WriteParameters:
  assumes "carried_parameters wire"
  shows "fault (ReadParameters (product (WriteParameters wire))) = None"
    and "product (ReadParameters (product (WriteParameters wire))) = wire"
  using assms
  by (simp_all add: carried_parameters_def ReadParameters_def Let_def ReadRifle_def WriteParameters_def sequences first_error_intros
      product_WriteList fault_ReadList product_ReadList o_def)

lemma ReadParameters_carried:
  "fault (ReadParameters parameters) = None \<Longrightarrow> carried_parameters (product (ReadParameters parameters))"
  by (simp add: carried_parameters_def ReadParameters_def Let_def ReadRifle_def sequences first_error_intros fault_ReadList product_ReadList)

section \<open>Players, listings and judgements\<close>

definition carried_text :: "(string \<Rightarrow> bool) \<Rightarrow> nat \<Rightarrow> string \<Rightarrow> bool" where
  "carried_text utf8 max_length t \<longleftrightarrow> length t \<le> max_length \<and> utf8 t"

definition carried_list :: "nat \<Rightarrow> ('a \<Rightarrow> bool) \<Rightarrow> 'a list \<Rightarrow> bool" where
  "carried_list max_size carried xs \<longleftrightarrow> length xs \<le> max_size \<and> (\<forall>x \<in> set xs. carried x)"

lemma fault_OutText [simp]: "fault (OutText utf8 t n) = None \<longleftrightarrow> carried_text utf8 n t"
  by (simp add: carried_text_def)

lemma carried_InText [simp]:
  "fault (InText utf8 t n) = None \<longleftrightarrow> carried_text utf8 n t" "carried_text utf8 n t \<Longrightarrow> product (InText utf8 t n) = t"
  by (simp_all add: carried_text_def product_InText)

declare OutText_steps(3) [simp del] InText_steps(2) [simp del]

lemma carried_WriteList:
  assumes "\<And>x. first_error (f x)" and "\<And>x. fault (f x) = None \<longleftrightarrow> carried x"
  shows "fault (WriteList f xs n) = None \<longleftrightarrow> carried_list n carried xs"
  by (simp add: carried_list_def fault_WriteList [OF assms(1)] assms(2))

text \<open>A list written element by element is read back so.\<close>

lemma ReadList_WriteList:
  assumes f: "\<And>x. first_error (f x)" and g: "\<And>y. first_error (g y)" and xs: "carried_list n carried xs"
    and each: "\<And>x. x \<in> set xs \<Longrightarrow> carried x \<Longrightarrow> fault (g (product (f x))) = None \<and> product (g (product (f x))) = snapped x"
  shows "fault (ReadList g (product (WriteList f xs n)) n) = None"
    and "product (ReadList g (product (WriteList f xs n)) n) = map snapped xs"
  using xs each by (simp_all add: carried_list_def product_WriteList [OF f] fault_ReadList [OF g] product_ReadList [OF g])

lemma carried_ReadList:
  assumes g: "\<And>y. first_error (g y)" and read: "fault (ReadList g ys n) = None"
    and each: "\<And>y. fault (g y) = None \<Longrightarrow> carried (product (g y)) \<and> snapped (product (g y)) = product (g y)"
  shows "carried_list n carried (product (ReadList g ys n))"
    and "map snapped (product (ReadList g ys n)) = product (ReadList g ys n)"
  using read each by (simp_all add: carried_list_def fault_ReadList [OF g] product_ReadList [OF g])

definition carried_player :: "(string \<Rightarrow> bool) \<Rightarrow> MatchPlayerWire \<Rightarrow> bool" where
  "carried_player utf8 wire \<longleftrightarrow> carried_text utf8 kMaxCharacterNameLength (mpw_character wire)"

definition snapped_player :: "MatchPlayerWire \<Rightarrow> MatchPlayerWire" where
  "snapped_player wire = wire\<lparr>mpw_spawn := SnapVec (mpw_spawn wire) kPositionGrid\<rparr>"

lemma WriteMatchPlayer_first [first_error_intros]: "first_error (WriteMatchPlayer utf8 wire)"
  by (simp add: WriteMatchPlayer_def first_error_intros)

lemma fault_WriteMatchPlayer [simp]: "fault (WriteMatchPlayer utf8 wire) = None \<longleftrightarrow> carried_player utf8 wire"
  by (simp add: WriteMatchPlayer_def carried_player_def sequences first_error_intros)

lemma ReadMatchPlayer_first [first_error_intros]: "first_error (ReadMatchPlayer utf8 player)"
  by (simp add: ReadMatchPlayer_def first_error_intros)

lemma ReadMatchPlayer_WriteMatchPlayer:
  assumes "carried_player utf8 wire" and "length (mpw_session wire) = kUuidSize"
  shows "fault (ReadMatchPlayer utf8 (product (WriteMatchPlayer utf8 wire))) = None \<and>
    product (ReadMatchPlayer utf8 (product (WriteMatchPlayer utf8 wire))) = snapped_player wire"
  using assms
  by (simp add: carried_player_def snapped_player_def ReadMatchPlayer_def WriteMatchPlayer_def sequences first_error_intros
      product_InUuid)

lemma ReadMatchPlayer_carried:
  "fault (ReadMatchPlayer utf8 player) = None \<Longrightarrow>
     (carried_player utf8 (product (ReadMatchPlayer utf8 player)) \<and>
       length (mpw_session (product (ReadMatchPlayer utf8 player))) = kUuidSize) \<and>
     snapped_player (product (ReadMatchPlayer utf8 player)) = product (ReadMatchPlayer utf8 player)"
  by (simp add: carried_player_def snapped_player_def ReadMatchPlayer_def sequences first_error_intros SnapVec_read)

definition carried_listing :: "(string \<Rightarrow> bool) \<Rightarrow> ReplayListingWire \<Rightarrow> bool" where
  "carried_listing utf8 wire \<longleftrightarrow> carried_text utf8 kMaxCaptureNameLength (rlw_name wire) \<and>
     carried_list kMaxPlayers (carried_text utf8 kMaxCharacterNameLength) (rlw_characters wire)"

lemma WriteReplayListing_first [first_error_intros]: "first_error (WriteReplayListing utf8 wire)"
  by (simp add: WriteReplayListing_def first_error_intros)

lemma fault_WriteReplayListing [simp]: "fault (WriteReplayListing utf8 wire) = None \<longleftrightarrow> carried_listing utf8 wire"
  by (simp add: WriteReplayListing_def carried_listing_def sequences first_error_intros
      carried_WriteList [where carried = "carried_text utf8 kMaxCharacterNameLength"])

lemma ReadReplayListing_first [first_error_intros]: "first_error (ReadReplayListing utf8 listing)"
  by (simp add: ReadReplayListing_def first_error_intros)

lemma ReadReplayListing_WriteReplayListing:
  "carried_listing utf8 wire \<Longrightarrow>
     fault (ReadReplayListing utf8 (product (WriteReplayListing utf8 wire))) = None \<and>
     product (ReadReplayListing utf8 (product (WriteReplayListing utf8 wire))) = wire"
  by (simp add: carried_listing_def carried_list_def ReadReplayListing_def WriteReplayListing_def sequences first_error_intros
      fault_ReadList product_ReadList product_WriteList cong: map_cong)

lemma ReadReplayListing_carried:
  "fault (ReadReplayListing utf8 listing) = None \<Longrightarrow> carried_listing utf8 (product (ReadReplayListing utf8 listing))"
  by (simp add: carried_listing_def carried_list_def ReadReplayListing_def sequences first_error_intros
      fault_ReadList product_ReadList)

definition carried_judged :: "JudgedPlayerWire \<Rightarrow> bool" where
  "carried_judged wire \<longleftrightarrow> kStandingWire \<le> jpw_stance wire \<and> jpw_stance wire \<le> kProneWire"

definition snapped_judged :: "JudgedPlayerWire \<Rightarrow> JudgedPlayerWire" where
  "snapped_judged wire = wire\<lparr>jpw_position := SnapVec (jpw_position wire) kPositionGrid,
     jpw_yaw := Snap (jpw_yaw wire) kAngleGrid\<rparr>"

lemma WriteJudgedPlayer_first [first_error_intros]: "first_error (WriteJudgedPlayer wire)"
  by (simp add: WriteJudgedPlayer_def first_error_intros)

lemma fault_WriteJudgedPlayer [simp]: "fault (WriteJudgedPlayer wire) = None \<longleftrightarrow> carried_judged wire"
  by (simp add: WriteJudgedPlayer_def carried_judged_def sequences first_error_intros)

lemma ReadJudgedPlayer_first [first_error_intros]: "first_error (ReadJudgedPlayer player)"
  by (simp add: ReadJudgedPlayer_def first_error_intros)

lemma judged_bits:
  "kStandingWire \<le> s \<Longrightarrow> s \<le> kProneWire \<Longrightarrow> (ucast s :: u32) AND NOT kStanceMask = 0 \<and> uint (ucast s :: u32) = uint s"
  using stance_values [of s] by (auto simp: kStanceMask_def)

lemma ReadJudgedPlayer_WriteJudgedPlayer:
  assumes "carried_judged wire"
  shows "fault (ReadJudgedPlayer (product (WriteJudgedPlayer wire))) = None \<and>
    product (ReadJudgedPlayer (product (WriteJudgedPlayer wire))) = snapped_judged wire"
  using assms judged_bits [of "jpw_stance wire"]
  by (simp add: carried_judged_def snapped_judged_def ReadJudgedPlayer_def WriteJudgedPlayer_def sequences first_error_intros
      product_ToBits)

lemma ReadJudgedPlayer_carried:
  "fault (ReadJudgedPlayer player) = None \<Longrightarrow> carried_judged (product (ReadJudgedPlayer player)) \<and>
     snapped_judged (product (ReadJudgedPlayer player)) = product (ReadJudgedPlayer player)"
  by (simp add: carried_judged_def snapped_judged_def ReadJudgedPlayer_def sequences first_error_intros SnapVec_read Snap_read
      enum_read)

definition carried_entry :: "ShotJudgementEntryWire \<Rightarrow> bool" where
  "carried_entry wire \<longleftrightarrow> carried_list kMaxPlayers carried_judged (jew_players wire)"

definition snapped_entry :: "ShotJudgementEntryWire \<Rightarrow> ShotJudgementEntryWire" where
  "snapped_entry wire = wire\<lparr>jew_players := map snapped_judged (jew_players wire)\<rparr>"

lemma write_entries_first [first_error_intros]: "first_error (write_entries entries)"
  by (induction entries) (simp_all add: first_error_intros)

lemma fault_write_entries [simp]: "fault (write_entries entries) = None \<longleftrightarrow> (\<forall>entry \<in> set entries. carried_entry entry)"
  by (induction entries) (auto simp: carried_entry_def carried_list_def sequences first_error_intros)

lemma product_write_entries:
  "\<forall>entry \<in> set entries. carried_entry entry \<Longrightarrow>
     product (write_entries entries) = map (\<lambda>entry. \<lparr>pje_ticks_after_shot = ucast (jew_ticks_after_shot entry),
       pje_players = map (\<lambda>player. product (WriteJudgedPlayer player)) (jew_players entry)\<rparr>) entries"
  by (induction entries) (auto simp: carried_entry_def carried_list_def sequences first_error_intros)

lemma ReadEntry_first [first_error_intros]: "first_error (ReadEntry entry)"
  by (simp add: ReadEntry_def first_error_intros)

lemma ReadEntry_written:
  assumes "carried_entry entry"
  shows "fault (ReadEntry \<lparr>pje_ticks_after_shot = ucast (jew_ticks_after_shot entry),
      pje_players = map (\<lambda>player. product (WriteJudgedPlayer player)) (jew_players entry)\<rparr>) = None \<and>
    product (ReadEntry \<lparr>pje_ticks_after_shot = ucast (jew_ticks_after_shot entry),
      pje_players = map (\<lambda>player. product (WriteJudgedPlayer player)) (jew_players entry)\<rparr>) = snapped_entry entry"
  using assms
  by (simp add: carried_entry_def carried_list_def snapped_entry_def ReadEntry_def sequences first_error_intros fault_ReadList
      product_ReadList ReadJudgedPlayer_WriteJudgedPlayer)

lemma ReadEntry_carried:
  "fault (ReadEntry entry) = None \<Longrightarrow>
     carried_entry (product (ReadEntry entry)) \<and> snapped_entry (product (ReadEntry entry)) = product (ReadEntry entry)"
  by (simp add: carried_entry_def carried_list_def snapped_entry_def ReadEntry_def sequences first_error_intros fault_ReadList
      product_ReadList ReadJudgedPlayer_carried)

end
