(* ===== verification/Protocol.thy ===== *)
theory Protocol
  imports Protocol_Messages
begin

text \<open>
  The Networking Protocol's codec (\<open>src/modules/protocol/protocol.cpp\<close>): a message's payload and
  back, and a capture record's. Protobuf's serialization and parsing are parameters; what they
  promise is \<open>gives_back\<close>. What the mapping of either envelope promises the codec is the locale
  \<open>envelope\<close>, which the messages and the capture records both instantiate.
\<close>

section \<open>The codec\<close>

text \<open>The shared body of \<open>Encode\<close> and \<open>EncodeCaptureRecord\<close>.\<close>

definition EncodeEnvelope :: "('e \<Rightarrow> byte list) \<Rightarrow> ('w \<Rightarrow> 'e outbound) \<Rightarrow> 'w \<Rightarrow> EncodeError + byte list" where
  "EncodeEnvelope serialize visit wire = (case run_state (visit wire) None of
      (_, Some error) \<Rightarrow> Inl error
    | (encoded, None) \<Rightarrow> Inr (serialize encoded))"

definition DecodeEnvelope :: "(byte list \<Rightarrow> 'e option) \<Rightarrow> ('e \<Rightarrow> 'w option inbound) \<Rightarrow> byte list \<Rightarrow> DecodeError + 'w" where
  "DecodeEnvelope parse read payload =
     (if 2147483647 < length payload then Inl kMalformed
      else case parse payload of
          None \<Rightarrow> Inl kMalformed
        | Some envelope \<Rightarrow> (case run_state (read envelope) None of
              (None, _) \<Rightarrow> Inl kUnknownType
            | (Some _, Some error) \<Rightarrow> Inl error
            | (Some wire, None) \<Rightarrow> Inr wire))"

definition Encode :: "(pb_Message \<Rightarrow> byte list) \<Rightarrow> (string \<Rightarrow> bool) \<Rightarrow> MessageWire \<Rightarrow> EncodeError + byte list" where
  "Encode serialize utf8 message = EncodeEnvelope serialize (Encoder utf8) message"

definition Decode ::
  "(byte list \<Rightarrow> pb_Message option) \<Rightarrow> bool \<Rightarrow> (string \<Rightarrow> bool) \<Rightarrow> byte list \<Rightarrow> DecodeError + MessageWire" where
  "Decode parse debug_tools utf8 payload = DecodeEnvelope parse (ReadMessage debug_tools utf8) payload"

definition EncodeCaptureRecord ::
  "(pb_CaptureRecord \<Rightarrow> byte list) \<Rightarrow> (string \<Rightarrow> bool) \<Rightarrow> CaptureRecordWire \<Rightarrow> EncodeError + byte list" where
  "EncodeCaptureRecord serialize utf8 item = EncodeEnvelope serialize (RecordEncoder utf8) item"

definition DecodeCaptureRecord ::
  "(byte list \<Rightarrow> pb_CaptureRecord option) \<Rightarrow> (string \<Rightarrow> bool) \<Rightarrow> byte list \<Rightarrow> DecodeError + CaptureRecordWire" where
  "DecodeCaptureRecord parse utf8 payload = DecodeEnvelope parse (ReadRecord utf8) payload"

definition DescribeEncodeError :: "EncodeError \<Rightarrow> string" where
  "DescribeEncodeError error = (case error of
      EncodeError.kFieldTooLong \<Rightarrow> ''string or list field longer than the protocol carries''
    | EncodeError.kReservedBits \<Rightarrow> ''flags field has a bit that is none of its flags''
    | EncodeError.kInvalidEnum \<Rightarrow> ''field holds a value its enumeration lacks''
    | kNotAnAuthoritativeState \<Rightarrow> ''payload to readdress is not an authoritative state's''
    | kNotUtf8 \<Rightarrow> ''string field is not utf-8'')"

definition DescribeDecodeError :: "DecodeError \<Rightarrow> string" where
  "DescribeDecodeError error = (case error of
      kMalformed \<Rightarrow> ''payload does not parse''
    | kUnknownType \<Rightarrow> ''no message type this build knows''
    | DecodeError.kInvalidEnum \<Rightarrow> ''field holds a value its enumeration lacks''
    | DecodeError.kReservedBits \<Rightarrow> ''flags field has a bit that is none of its flags''
    | kOutOfRange \<Rightarrow> ''number outside its grid or wider than its field''
    | DecodeError.kFieldTooLong \<Rightarrow> ''string or list field longer than allowed'')"

section \<open>What an envelope's mapping promises\<close>

text \<open>Protobuf gives back the message it serialized.\<close>

definition gives_back :: "('e \<Rightarrow> byte list) \<Rightarrow> (byte list \<Rightarrow> 'e option) \<Rightarrow> 'e \<Rightarrow> bool" where
  "gives_back serialize parse e \<longleftrightarrow> parse (serialize e) = Some e"

locale envelope =
  fixes visit :: "'w \<Rightarrow> 'e outbound"
    and read :: "'e \<Rightarrow> 'w option inbound"
    and carried :: "'w \<Rightarrow> bool"
    and sized :: "'w \<Rightarrow> bool"
    and snapped :: "'w \<Rightarrow> 'w"
  assumes visit_fault: "fault (visit w) = None \<longleftrightarrow> carried w"
    and read_visit: "carried w \<Longrightarrow> sized w \<Longrightarrow> fault (read (product (visit w))) = None \<and>
      product (read (product (visit w))) = Some (snapped w)"
    and read_carried: "fault (read e) = None \<Longrightarrow> product (read e) = Some w \<Longrightarrow> carried w \<and> sized w \<and> snapped w = w"
begin

lemma encode_cases: "EncodeEnvelope serialize visit w = Inr p \<longleftrightarrow> carried w \<and> p = serialize (product (visit w))"
  using visit_fault [of w]
  by (auto simp: EncodeEnvelope_def product_def fault_def split: prod.splits option.splits)

lemma encode_iff: "(\<exists>p. EncodeEnvelope serialize visit w = Inr p) \<longleftrightarrow> carried w"
  by (simp add: encode_cases)

lemma decode_cases:
  "DecodeEnvelope parse read p = Inr w \<longleftrightarrow> length p \<le> 2147483647 \<and>
     (\<exists>e. parse p = Some e \<and> fault (read e) = None \<and> product (read e) = Some w)"
  by (auto simp: DecodeEnvelope_def product_def fault_def split: prod.splits option.splits)

lemma round_trip:
  assumes "gives_back serialize parse (product (visit w))" and "sized w"
    and "EncodeEnvelope serialize visit w = Inr p" and "length p \<le> 2147483647"
  shows "DecodeEnvelope parse read p = Inr (snapped w)"
proof -
  have w: "carried w" "p = serialize (product (visit w))" using assms(3) by (simp_all add: encode_cases)
  then have "parse p = Some (product (visit w))" using assms(1) by (simp add: gives_back_def)
  then show ?thesis using assms(4) read_visit [OF w(1) assms(2)] by (simp add: decode_cases)
qed

lemma decode_sound:
  assumes "DecodeEnvelope parse read p = Inr w"
  shows "carried w \<and> sized w \<and> snapped w = w"
  using assms read_carried by (auto simp: decode_cases)

lemma settled:
  assumes "gives_back serialize parse (product (visit w))" and "DecodeEnvelope parse read p = Inr w"
  shows "\<exists>q. EncodeEnvelope serialize visit w = Inr q \<and> (length q \<le> 2147483647 \<longrightarrow> DecodeEnvelope parse read q = Inr w)"
proof -
  have w: "carried w" "sized w" "snapped w = w" using decode_sound [OF assms(2)] by simp_all
  obtain q where q: "EncodeEnvelope serialize visit w = Inr q" using w(1) by (auto simp: encode_cases)
  show ?thesis using round_trip [OF assms(1) w(2) q] q w(3) by auto
qed

end

section \<open>Messages\<close>

definition carried_message :: "(string \<Rightarrow> bool) \<Rightarrow> MessageWire \<Rightarrow> bool" where
  "carried_message utf8 message = (case message of
      JoinRequestMsg wire \<Rightarrow> carried_text utf8 kMaxEngineVersionLength (jw_engine_version wire) \<and>
        carried_text utf8 kMaxCharacterNameLength (jw_character wire)
    | JoinAcceptedMsg wire \<Rightarrow> carried_parameters (acw_parameters wire) \<and>
        carried_text utf8 kMaxCharacterNameLength (acw_character wire)
    | JoinRefusedMsg reason \<Rightarrow> kVersionMismatchWire \<le> reason \<and> reason \<le> kReenactmentsNotAcceptedWire
    | CommandsMsg wire \<Rightarrow> carried_list kMaxCommandsPerMessage (\<lambda>s. carried_command (qw_command s)) (csw_commands wire)
    | AuthoritativeStateMsg wire \<Rightarrow> carried_list kMaxPlayers carried_body (asw_bodies wire)
    | LobbyMsg wire \<Rightarrow>
        carried_list kMaxPlayers (\<lambda>r. carried_text utf8 kMaxCharacterNameLength (rew_character r)) (lw_roster wire)
    | MatchStartMsg wire \<Rightarrow> carried_list kMaxPlayers (carried_player utf8) (msw_players wire)
    | HitConfirmationMsg wire \<Rightarrow> kHeadWire \<le> hw_part wire \<and> hw_part wire \<le> kLimbWire
    | DeathMsg wire \<Rightarrow> kHeadWire \<le> dw_part wire \<and> dw_part wire \<le> kLimbWire
    | ReplayListMsg replays \<Rightarrow> carried_list kMaxReplayListings (carried_listing utf8) replays
    | ReplayRequestMsg wire \<Rightarrow> carried_text utf8 kMaxEngineVersionLength (rrw_engine_version wire) \<and>
        carried_text utf8 kMaxCaptureNameLength (rrw_capture wire)
    | ReenactRequestMsg wire \<Rightarrow> carried_text utf8 kMaxEngineVersionLength (nw_engine_version wire) \<and>
        carried_text utf8 kMaxCharacterNameLength (nw_character wire)
    | ShotJudgementMsg wire \<Rightarrow> kNothingWire \<le> sjw_struck wire \<and> sjw_struck wire \<le> kHitboxWire \<and>
        kHeadWire \<le> sjw_part wire \<and> sjw_part wire \<le> kLimbWire \<and> sjw_flags wire AND NOT kJudgementFlagsMask = 0 \<and>
        carried_list kMaxShotJudgementEntries carried_entry (sjw_entries wire)
    | _ \<Rightarrow> True)"

definition snapped_message :: "MessageWire \<Rightarrow> MessageWire" where
  "snapped_message message = (case message of
      CommandsMsg wire \<Rightarrow> CommandsMsg (wire\<lparr>csw_commands :=
        map (\<lambda>s. s\<lparr>qw_command := snapped_command (qw_command s)\<rparr>) (csw_commands wire)\<rparr>)
    | AuthoritativeStateMsg wire \<Rightarrow> AuthoritativeStateMsg (wire\<lparr>asw_bodies := map snapped_body (asw_bodies wire),
        asw_rifle := (asw_rifle wire)\<lparr>ww_recoil_pitch := Snap (ww_recoil_pitch (asw_rifle wire)) kAngleGrid,
          ww_recoil_yaw := Snap (ww_recoil_yaw (asw_rifle wire)) kAngleGrid\<rparr>\<rparr>)
    | MatchStartMsg wire \<Rightarrow> MatchStartMsg (wire\<lparr>msw_players := map snapped_player (msw_players wire)\<rparr>)
    | ShotMsg wire \<Rightarrow> ShotMsg (wire\<lparr>shw_origin := SnapVec (shw_origin wire) kPositionGrid,
        shw_yaw := Snap (shw_yaw wire) kAngleGrid, shw_pitch := Snap (shw_pitch wire) kAngleGrid\<rparr>)
    | DeathMsg wire \<Rightarrow> DeathMsg (wire\<lparr>dw_yaw := Snap (dw_yaw wire) kAngleGrid,
        dw_pitch := Snap (dw_pitch wire) kAngleGrid\<rparr>)
    | ReenactRequestMsg wire \<Rightarrow> ReenactRequestMsg (wire\<lparr>nw_spawn := SnapVec (nw_spawn wire) kPositionGrid\<rparr>)
    | ShotJudgementMsg wire \<Rightarrow> ShotJudgementMsg (wire\<lparr>sjw_entries := map snapped_entry (sjw_entries wire),
        sjw_point := SnapVec (sjw_point wire) kPositionGrid,
        sjw_delay_fraction := Snap (sjw_delay_fraction wire) kFractionGrid\<rparr>)
    | _ \<Rightarrow> message)"

text \<open>A message of this build, its arrays of bytes as long as their types.\<close>

definition sized_message :: "bool \<Rightarrow> MessageWire \<Rightarrow> bool" where
  "sized_message debug_tools message = (case message of
      JoinRequestMsg wire \<Rightarrow> length (jw_client_pack wire) = kPackHashSize \<and> length (jw_run wire) = kUuidSize
    | JoinAcceptedMsg wire \<Rightarrow> length (acw_session wire) = kUuidSize
    | LobbyMsg wire \<Rightarrow> \<forall>r \<in> set (lw_roster wire). length (rew_session r) = kUuidSize
    | MatchStartMsg wire \<Rightarrow> length (msw_match wire) = kUuidSize \<and>
        (\<forall>p \<in> set (msw_players wire). length (mpw_session p) = kUuidSize)
    | MatchEndMsg winner \<Rightarrow> length winner = kUuidSize
    | ReplayRequestMsg wire \<Rightarrow> length (rrw_client_pack wire) = kPackHashSize \<and> length (rrw_run wire) = kUuidSize
    | ReenactRequestMsg wire \<Rightarrow> length (nw_client_pack wire) = kPackHashSize \<and> length (nw_run wire) = kUuidSize
    | DebugSubscribeMsg _ \<Rightarrow> debug_tools
    | ShotJudgementMsg _ \<Rightarrow> debug_tools
    | _ \<Rightarrow> True)"

lemmas encoder_defs = Encoder_def EncodeJoinRequest_def EncodeJoinAccepted_def EncodeJoinRefused_def EncodeCommands_def
  EncodeAuthoritativeState_def WriteShared_def EncodeLobby_def EncodeMatchStart_def EncodeShot_def EncodeHitConfirmation_def
  EncodeDeath_def EncodeReplayList_def EncodeReplayRequest_def EncodeReenactRequest_def EncodeShotJudgement_def

lemma Encoder_fault: "fault (Encoder utf8 message) = None \<longleftrightarrow> carried_message utf8 message"
  by (cases message) (auto simp: encoder_defs carried_message_def sequences first_error_intros fault_WriteList carried_list_def)

lemmas decoder_defs = ReadMessage_def ReadJoinRequest_def ReadReenactRequest_def ReadJoinAccepted_def ReadJoinRefused_def
  ReadCommands_def ReadAuthoritativeState_def ReadLobby_def ReadMatchStart_def ReadShot_def ReadHitConfirmation_def
  ReadDeath_def ReadReplayRequest_def ReadShotJudgement_def

lemma sint_ucast_u8 [simp]: "sint (ucast (x :: u8) :: i32) = uint x"
proof -
  have "uint x < 2 ^ 31" using uint_bounded [of x] by simp
  moreover have "- (2 ^ 31) \<le> uint x" by (rule order.trans [OF _ uint_nonnegative]) simp
  ultimately have "signed_take_bit 31 (uint x) = uint x" by (intro signed_take_bit_int_eq_self)
  then show ?thesis by (simp add: signed_ucast_eq)
qed

lemma struck_read [simp]: "kNothingWire \<le> x" "ucast (bits AND kStruckMask) \<le> kHitboxWire" for bits :: u32
proof -
  have "bits AND 3 = take_bit 2 bits" by (simp add: take_bit_eq_mask mask_eq_exp_minus_1)
  moreover have "uint (take_bit 2 bits) < 4" using take_bit_int_less_exp [of 2 "uint bits"] by (simp add: unsigned_take_bit_eq)
  ultimately have "uint (ucast (bits AND 3) :: u8) \<le> uint (3 :: u8)"
    using uint_nonnegative [of "take_bit 2 bits"] by (simp add: unsigned_ucast_eq take_bit_int_eq_self del: uint_le_uint)
  then have "(ucast (bits AND 3) :: u8) \<le> 3" by (simp only: uint_le_uint)
  then show "ucast (bits AND kStruckMask) \<le> kHitboxWire" by (simp add: kStruckMask_def kHitboxWire_def)
qed (simp add: kNothingWire_def)

lemma roster_record [simp]: "\<lparr>rew_session = rew_session r, rew_character = rew_character r\<rparr> = r" for r :: RosterEntryWire
  by simp

lemma written_lists [simp]:
  "length xs \<le> n \<Longrightarrow> (\<And>x. first_error (f x)) \<Longrightarrow> product (WriteList f xs n) = map (\<lambda>x. product (f x)) xs"
  by (rule product_WriteList)

lemma ReadMessage_Encoder:
  assumes "carried_message utf8 message" and "sized_message debug_tools message"
  shows "fault (ReadMessage debug_tools utf8 (product (Encoder utf8 message))) = None \<and>
    product (ReadMessage debug_tools utf8 (product (Encoder utf8 message))) = Some (snapped_message message)"
proof (cases message)
  case (CommandsMsg wire)
  then show ?thesis using assms
    by (simp add: encoder_defs decoder_defs carried_message_def snapped_message_def sequences first_error_intros
        carried_list_def fault_ReadList product_ReadList ReadCommand_WriteCommand)
next
  case (ShotJudgementMsg wire)
  then show ?thesis using assms judgement_bits [OF _ _ _ _ _ refl, of "sjw_struck wire" "sjw_part wire" "sjw_flags wire"]
    by (simp add: encoder_defs decoder_defs carried_message_def snapped_message_def sized_message_def sequences first_error_intros
        carried_list_def fault_ReadList product_ReadList product_write_entries ReadEntry_written product_ToBits)
qed (use assms in \<open>simp_all add: encoder_defs decoder_defs carried_message_def snapped_message_def sized_message_def
    sequences first_error_intros carried_list_def fault_ReadList product_ReadList
    product_InUuid product_InPackHash ReadParameters_WriteParameters ReadBody_WriteBody ReadMatchPlayer_WriteMatchPlayer
    ReadReplayListing_WriteReplayListing pb_AuthoritativeState_init_def WriteOwn_def Let_def cong: map_cong\<close>)

lemma ReadMessage_carried:
  assumes "fault (ReadMessage debug_tools utf8 body) = None" and "product (ReadMessage debug_tools utf8 body) = Some message"
  shows "carried_message utf8 message \<and> sized_message debug_tools message \<and> snapped_message message = message"
  using assms
  by (cases body)
    (auto simp: decoder_defs carried_message_def snapped_message_def sized_message_def sequences first_error_intros
      carried_list_def fault_ReadList product_ReadList SnapVec_read Snap_read enum_read ReadCommand_carried ReadBody_carried
      ReadMatchPlayer_carried ReadReplayListing_carried ReadParameters_carried ReadEntry_carried product_ToBits
      judgement_flags_read split: if_splits)

interpretation messages: envelope "Encoder utf8" "ReadMessage debug_tools utf8" "carried_message utf8" "sized_message debug_tools"
  snapped_message for utf8 debug_tools
  by unfold_locales (simp_all add: Encoder_fault ReadMessage_Encoder ReadMessage_carried)

section \<open>Capture records\<close>

definition carried_record :: "(string \<Rightarrow> bool) \<Rightarrow> CaptureRecordWire \<Rightarrow> bool" where
  "carried_record utf8 item = (case item of
      HeaderRec wire \<Rightarrow> carried_text utf8 kMaxEngineVersionLength (chw_engine_version wire)
    | JoinRec wire \<Rightarrow> carried_text utf8 kMaxCharacterNameLength (cjw_character wire)
    | CommandRec wire \<Rightarrow> carried_command (ccw_command wire)
    | _ \<Rightarrow> True)"

definition snapped_record :: "CaptureRecordWire \<Rightarrow> CaptureRecordWire" where
  "snapped_record item = (case item of
      JoinRec wire \<Rightarrow> JoinRec (wire\<lparr>cjw_spawn := SnapVec (cjw_spawn wire) kPositionGrid\<rparr>)
    | CommandRec wire \<Rightarrow> CommandRec (wire\<lparr>ccw_command := snapped_command (ccw_command wire)\<rparr>)
    | _ \<Rightarrow> item)"

definition sized_record :: "CaptureRecordWire \<Rightarrow> bool" where
  "sized_record item = (case item of
      HeaderRec wire \<Rightarrow> length (chw_server_pack wire) = kPackHashSize \<and> length (chw_client_pack wire) = kPackHashSize \<and>
        length (chw_match wire) = kUuidSize
    | JoinRec wire \<Rightarrow> length (cjw_session wire) = kUuidSize
    | _ \<Rightarrow> True)"

lemma RecordEncoder_fault: "fault (RecordEncoder utf8 item) = None \<longleftrightarrow> carried_record utf8 item"
  by (cases item) (simp_all add: RecordEncoder_def carried_record_def sequences first_error_intros)

lemma ReadRecord_RecordEncoder:
  assumes "carried_record utf8 item" and "sized_record item"
  shows "fault (ReadRecord utf8 (product (RecordEncoder utf8 item))) = None \<and>
    product (ReadRecord utf8 (product (RecordEncoder utf8 item))) = Some (snapped_record item)"
  using assms
  by (cases item)
    (simp_all add: RecordEncoder_def ReadRecord_def carried_record_def sized_record_def snapped_record_def sequences
      first_error_intros product_InPackHash product_InUuid ReadCommand_WriteCommand)

lemma ReadRecord_carried:
  assumes "fault (ReadRecord utf8 body) = None" and "product (ReadRecord utf8 body) = Some item"
  shows "carried_record utf8 item \<and> sized_record item \<and> snapped_record item = item"
  using assms
  by (cases body)
    (auto simp: ReadRecord_def carried_record_def sized_record_def snapped_record_def sequences first_error_intros
      SnapVec_read ReadCommand_carried)

interpretation capture_records: envelope "RecordEncoder utf8" "ReadRecord utf8" "carried_record utf8" sized_record snapped_record
  for utf8
  by unfold_locales (simp_all add: RecordEncoder_fault ReadRecord_RecordEncoder ReadRecord_carried)

section \<open>A sample\<close>

text \<open>A death on the wire, protobuf's parse of it, and what arrives.\<close>

definition sample_death :: MessageWire where
  "sample_death = DeathMsg \<lparr>dw_victim = 7, dw_killer = 3, dw_yaw = 0x3DCCCCCD, dw_pitch = 0xBDCCCCCD, dw_part = 2\<rparr>"

definition sample_death_pb :: pb_Message where
  "sample_death_pb = PbDeath \<lparr>pde_victim = 7, pde_killer = 3, pde_part = 2, pde_yaw = 209715, pde_pitch = - 209715\<rparr>"

definition sample_payload :: "byte list" where
  "sample_payload = [0x62, 0x0E, 0x08, 7, 0x10, 3, 0x18, 2, 0x20, 0xE6, 0xCC, 0x19, 0x28, 0xE5, 0xCC, 0x19]"

definition sample_serialize :: "pb_Message \<Rightarrow> byte list" where
  "sample_serialize e = (if e = sample_death_pb then sample_payload else [])"

definition sample_parse :: "byte list \<Rightarrow> pb_Message option" where
  "sample_parse p = (if p = sample_payload then Some sample_death_pb else if p = [] then Some BodyNotSet else None)"

definition sample_arrival :: MessageWire where
  "sample_arrival = DeathMsg \<lparr>dw_victim = 7, dw_killer = 3, dw_yaw = 0x3DCCCCC0, dw_pitch = 0xBDCCCCC0, dw_part = 2\<rparr>"

lemma sample_top_bit: "top_bit 209715 = 17"
  by (simp add: top_bit.simps [of 209715] top_bit.simps [of 104857] top_bit.simps [of 52428] top_bit.simps [of 26214]
      top_bit.simps [of 13107] top_bit.simps [of 6553] top_bit.simps [of 3276] top_bit.simps [of 1638]
      top_bit.simps [of 819] top_bit.simps [of 409] top_bit.simps [of 204] top_bit.simps [of 102]
      top_bit.simps [of 51] top_bit.simps [of 25] top_bit.simps [of 12] top_bit.simps [of 6] top_bit.simps [of 3]
      top_bit.simps [of "Suc 0"])

lemma sample_steps [simp]:
  "ToSteps 0x3DCCCCCD kAngleGrid = 209715" "ToSteps 0xBDCCCCCD kAngleGrid = - 209715"
  "ToSteps 0x3DCCCCC0 kAngleGrid = 209715" "ToSteps 0xBDCCCCC0 kAngleGrid = - 209715"
  by (simp_all add: ToSteps_def kAngleGrid_def step_bits_def f32_isnan_def f32_magnitude_def f32_mantissa_def f32_scale_def
      f32_exponent_def nearby_def bit_iff_odd_drop_bit Let_def)

lemma sample_positions [simp]:
  "ToSteps 0x3F800000 kPositionGrid = 1024" "ToSteps 0x3DCCCCCD kPositionGrid = 102" "ToSteps 0 kPositionGrid = 0"
  by (simp_all add: ToSteps_def kPositionGrid_def step_bits_def f32_isnan_def f32_magnitude_def f32_mantissa_def f32_scale_def
      f32_exponent_def nearby_def bit_iff_odd_drop_bit Let_def)

lemma sample_snaps [simp]:
  "Snap 0x3DCCCCCD kAngleGrid = 0x3DCCCCC0" "Snap 0xBDCCCCCD kAngleGrid = 0xBDCCCCC0"
  by (simp_all add: Snap_def FromSteps_def sample_top_bit Let_def)

lemma sample_encoded:
  "product (Encoder (\<lambda>_. True) sample_death) = sample_death_pb"
  "product (Encoder (\<lambda>_. True) sample_arrival) = sample_death_pb"
  by (simp_all add: sample_death_def sample_arrival_def sample_death_pb_def encoder_defs Steps_def sequences first_error_intros)

lemma sample_carried: "carried_message (\<lambda>_. True) sample_death" "sized_message True sample_death"
  "snapped_message sample_death = sample_arrival"
  by (simp_all add: carried_message_def sized_message_def snapped_message_def sample_death_def sample_arrival_def kHeadWire_def
      kLimbWire_def)

lemma sample_gives_back: "gives_back sample_serialize sample_parse sample_death_pb"
  by (simp add: gives_back_def sample_serialize_def sample_parse_def)

lemma sample_Encode: "Encode sample_serialize (\<lambda>_. True) sample_death = Inr sample_payload"
  unfolding Encode_def messages.encode_cases by (simp add: sample_carried sample_encoded sample_serialize_def)

lemma sample_Decode: "Decode sample_parse True (\<lambda>_. True) sample_payload = Inr sample_arrival"
  using messages.round_trip [OF _ sample_carried(2) sample_Encode [unfolded Encode_def], of sample_parse]
  by (simp add: sample_encoded sample_gives_back sample_carried Decode_def) (simp add: sample_payload_def)

section \<open>Properties\<close>

text \<open>
  C8: a message encodes exactly if it is one the protocol carries: its texts UTF-8 and within
  their lengths, its lists within theirs, its enumerations in range and its flag fields without
  reserved bits. Every other message is refused with an error and never sent truncated.
\<close>
theorem Encode_iff_carried: "(\<exists>p. Encode serialize utf8 message = Inr p) \<longleftrightarrow> carried_message utf8 message"
  unfolding Encode_def by (rule messages.encode_iff)

text \<open>
  C6: what is encoded is decoded as sent, every number on its grid: over a protobuf that gives
  back the message it serialized, the payload of a message of this build decodes to the message
  snapped.
\<close>
theorem Decode_Encode:
  assumes "gives_back serialize parse (product (Encoder utf8 message))" and "sized_message debug_tools message"
    and "Encode serialize utf8 message = Inr p" and "length p \<le> 2147483647"
  shows "Decode parse debug_tools utf8 p = Inr (snapped_message message)"
  using messages.round_trip [OF assms(1,2) assms(3) [unfolded Encode_def] assms(4)] unfolding Decode_def .

theorem Decode_Encode_witness: "Decode sample_parse True (\<lambda>_. True) sample_payload = Inr (snapped_message sample_death)"
  by (rule Decode_Encode [OF _ sample_carried(2) sample_Encode])
    (simp_all add: sample_gives_back sample_encoded, simp add: sample_payload_def)

text \<open>
  C7: whatever bytes arrive, a message decoded from them is one the protocol carries, of this
  build, already on its grids, and it can be sent on: it encodes again, and what that decodes
  to is the same message.
\<close>
theorem Decode_settled:
  assumes "gives_back serialize parse (product (Encoder utf8 message))" and "Decode parse debug_tools utf8 p = Inr message"
  shows "carried_message utf8 message \<and> sized_message debug_tools message \<and> snapped_message message = message \<and>
    (\<exists>q. Encode serialize utf8 message = Inr q \<and>
      (length q \<le> 2147483647 \<longrightarrow> Decode parse debug_tools utf8 q = Inr message))"
  using messages.settled [OF assms(1) assms(2) [unfolded Decode_def]]
    messages.decode_sound [OF assms(2) [unfolded Decode_def]]
  unfolding Encode_def Decode_def by blast

theorem Decode_settled_witness:
  "carried_message (\<lambda>_. True) sample_arrival \<and> sized_message True sample_arrival \<and>
    snapped_message sample_arrival = sample_arrival \<and>
    (\<exists>q. Encode sample_serialize (\<lambda>_. True) sample_arrival = Inr q \<and>
      (length q \<le> 2147483647 \<longrightarrow> Decode sample_parse True (\<lambda>_. True) q = Inr sample_arrival))"
  by (rule Decode_settled [OF _ sample_Decode])
    (simp add: sample_gives_back sample_encoded)

text \<open>
  C24: a capture's record is read back as written. For a serializer that gives its buffer
  back, whatever \<open>EncodeCaptureRecord\<close> writes for a header, a join or an event,
  \<open>DecodeCaptureRecord\<close> reads as that record, every field and case of it, with its positions
  and its command's numbers on the grids they are written on and nothing else changed.
\<close>
theorem DecodeCaptureRecord_EncodeCaptureRecord:
  assumes "gives_back serialize parse (product (RecordEncoder utf8 item))" and "sized_record item"
    and "EncodeCaptureRecord serialize utf8 item = Inr p" and "length p \<le> 2147483647"
  shows "DecodeCaptureRecord parse utf8 p = Inr (snapped_record item)"
  using capture_records.round_trip [OF assms(1,2) assms(3) [unfolded EncodeCaptureRecord_def] assms(4)]
  unfolding DecodeCaptureRecord_def .

definition sample_join :: CaptureRecordWire where
  "sample_join = JoinRec \<lparr>cjw_spawn = \<lparr>vx = 0x3F800000, vy = 0x3DCCCCCD, vz = 0\<rparr>, cjw_offset = 0, cjw_session = replicate 16 9,
     cjw_character = ''scout'', cjw_player = 1\<rparr>"

definition sample_join_pb :: pb_CaptureRecord where
  "sample_join_pb = PbCapturedJoin \<lparr>pcj_offset = 0, pcj_player = 1, pcj_session = replicate 16 9, pcj_character = ''scout'',
     pcj_spawn_x = 1024, pcj_spawn_y = 102, pcj_spawn_z = 0\<rparr>"

lemma sample_join_encoded: "product (RecordEncoder (\<lambda>_. True) sample_join) = sample_join_pb"
  by (simp add: sample_join_def sample_join_pb_def RecordEncoder_def Steps_def sequences first_error_intros)

theorem DecodeCaptureRecord_EncodeCaptureRecord_witness:
  "EncodeCaptureRecord (\<lambda>_. [0x12]) (\<lambda>_. True) sample_join = Inr [0x12] \<and>
   DecodeCaptureRecord (\<lambda>p. if p = [0x12] then Some sample_join_pb else None) (\<lambda>_. True) [0x12] =
     Inr (snapped_record sample_join)"
proof (rule conjI)
  show encoded: "EncodeCaptureRecord (\<lambda>_. [0x12]) (\<lambda>_. True) sample_join = Inr [0x12]"
    unfolding EncodeCaptureRecord_def capture_records.encode_cases
    by (simp add: carried_record_def carried_text_def sample_join_def kMaxCharacterNameLength_def)
  have "gives_back (\<lambda>_. [0x12]) (\<lambda>p. if p = [0x12] then Some sample_join_pb else None)
    (product (RecordEncoder (\<lambda>_. True) sample_join))"
    by (simp add: gives_back_def sample_join_encoded)
  then show "DecodeCaptureRecord (\<lambda>p. if p = [0x12] then Some sample_join_pb else None) (\<lambda>_. True) [0x12] =
     Inr (snapped_record sample_join)"
    by (rule DecodeCaptureRecord_EncodeCaptureRecord [OF _ _ encoded])
      (simp_all add: sized_record_def sample_join_def kUuidSize_def)
qed

end
