(* ===== verification/Spec2Isabelle.thy ===== *)
theory Spec2Isabelle
  imports Pack_Round_Trip Host_Capture Capture_Read_Back Replay_Commands Supervision Protocol
begin

text \<open>
  \<^bold>\<open>Augusta: the pack, the protocol, the server's match and its capture\<close>

  Augusta is a server and client for small shooter matches, in C++ under \<open>src/src/modules/\<close>. This
  library models the parts whose logic is the program's own and proves what they promise:
  the asset pack a build writes and both processes load; the messages they exchange; the
  server's book of who plays, its network round and its tick; the capture of each match to a
  file, kept within a directory's limits; its replay; and the failures and workers of a
  process. How they meet: a peer's messages come in through the gate and \<open>Host\<close>'s handlers
  under one lock (the network's thread), which change the match and the players' command
  queues; the Simulation thread takes what they left at each tick, steps the world, and tells
  the Capturer; the Capturer hands records to its writer's thread over a bounded queue; a
  file so written is read by the capture's reader and run again by a Replay, whose queue
  hands the world the commands the live one did.

  \<^bold>\<open>Theories and what they model\<close>

  \<^item> \<open>Prelude\<close>: bytes, binary32 floats as bit patterns, the deque and loop idioms, and the two
    machine locales (\<open>invariant_machine\<close>: a start, a step, what every step keeps;
    \<open>monotone_machine\<close>: and a level that never falls), interpreted by every stateful
    component (\<open>queue\<close>, \<open>gate\<close>, \<open>match\<close>, \<open>host\<close>).
  \<^item> \<open>Wire_Format\<close>, \<open>Wire_Codec\<close>: \<open>assets/wire_format.h\<close>; the interface between an encoder and
    a decoder as the locales \<open>indexed_reader\<close>, \<open>indexed_codec\<close> and \<open>wire_codec\<close>, interpreted
    on the fields of every blob.
  \<^item> \<open>Asset_Types\<close>, \<open>Blob_Encoder\<close>, \<open>Blob_Decoder\<close>, \<open>Blob_Codec\<close>: \<open>assets.h\<close>, \<open>encoder.cpp\<close>,
    \<open>decoder.cpp\<close> and what they are to each other.
  \<^item> \<open>Pack_Writer\<close>, \<open>Pack_Reader\<close>, \<open>Pack_Round_Trip\<close>: \<open>pack_format.h\<close>, \<open>pack_writer.cpp\<close>,
    \<open>pack_reader.cpp\<close>, \<open>ed25519.cpp\<close>; the file system is a map from paths to bytes, and what
    a device may do wrong is an environment the writer is given.
  \<^item> \<open>Grid\<close>, \<open>Protocol_Types\<close>, \<open>Protocol_Encoder\<close>, \<open>Protocol_Decoder\<close>, \<open>Protocol_Messages\<close>,
    \<open>First_Error\<close>, \<open>Protocol\<close>: \<open>math/grid.h\<close> and \<open>modules/protocol\<close>. A message and a capture
    record go to the schema's messages and back in the state monad over \<open>Outbound\<close> and
    \<open>Inbound\<close>, whose first error stands; \<open>First_Error\<close> is the calculus of such computations,
    and the locale \<open>envelope\<close> the contract a payload's encoder and decoder keep, interpreted
    for messages and for capture records.
  \<^item> \<open>Command_Queue\<close>, \<open>Host_Gate\<close>, \<open>Host_Match\<close>: \<open>command_queue.cpp\<close>, \<open>peer_gate.cpp\<close> with
    \<open>admission.cpp\<close> and \<open>misbehaviour.cpp\<close>, \<open>match.cpp\<close>; the records \<open>CommandQueue\<close>, \<open>PeerGate\<close>
    and \<open>Match\<close> have the classes' members, each method is a function on them.
  \<^item> \<open>Host\<close>, \<open>Host_Correct\<close>, \<open>Host_Run\<close>, \<open>Host_Capture\<close>: \<open>host.cpp\<close>, \<open>host_network.cpp\<close>,
    \<open>host_match.cpp\<close>, \<open>debug_subscriptions.cpp\<close>. One state; every handler, and every section
    of the tick between two locks, is a step, and \<open>host_step\<close> runs them in any order. A lookup
    with \<open>at\<close> that would throw sets \<open>ho_threw\<close>.
  \<^item> \<open>Capture_Format\<close>, \<open>Capture_Retention\<close>, \<open>Capture_Name\<close>, \<open>Capture_Writer\<close>,
    \<open>Capture_Writer_Correct\<close>, \<open>Capturer\<close>, \<open>Capturer_Correct\<close>, \<open>Capture_Read_Back\<close>:
    \<open>capture.cpp\<close>, \<open>frame.h\<close>, \<open>capture_retention.cpp\<close>, \<open>capture_writer.cpp\<close>, \<open>capturer.cpp\<close>. The
    writer's two threads are the relation \<open>writer_step\<close>; what its files hold changes as it
    writes, and a file that retention deletes is gone.
  \<^item> \<open>Replay\<close>, \<open>Replay_Correct\<close>, \<open>Replay_Commands\<close>: \<open>replay.cpp\<close> over any deterministic world.
  \<^item> \<open>Failures\<close>, \<open>Supervision\<close>: \<open>modules/failure\<close> and \<open>supervisor.cpp\<close>, the workers as the
    relation its locks and threads make.

  \<^bold>\<open>What the lemmas show\<close>

  \<^item> A pack that was written loads, and resolves to what was put in; whatever loads is sound,
    and a refused write leaves the output as it was (C1, C13, C26 to C28, C31, C32).
  \<^item> A message arrives as it was sent, its numbers on their grids; what decodes is carried and
    bounded; exactly the messages that are not carried are refused; and a capture's records
    are read as written (C6 to C8, C24).
  \<^item> Joins, readiness, the start, the pause and the end of a match, over every run of its
    operations (C9, C14 to C20); the queue's order and its hold (C10, C25); misbehaviour,
    admission and expulsion (C21 to C23).
  \<^item> The server over every interleaving of its threads: no lookup throws, and the Capturer is
    told what it requires (C4, C5).
  \<^item> A capture file is at any moment the beginning of its match's capture and reads back as
    such, the queue drains, the first loss is final, the directory is within its limits (C2,
    C29, C30, C33 to C37).
  \<^item> A Replay hands the world the live queue's commands, ends, and reports exactly the first
    difference (C3, C11, C12).
  \<^item> A failure's log line can be read back; a supervisor keeps the first cause and can always
    stop (C38 to C40).

  \<^bold>\<open>Bounds and parameters\<close>

  Machine integers keep their width (\<open>word\<close>) wherever the code could wrap, but for \<open>Offset\<close>, the
  difference of two ticks, which is a whole number: the code's, over 64 signed bits, is the
  same for ticks below \<open>2 ^ 62\<close> and undefined where it overflows. Every loop is recursive over
  a list or has a proved measure (\<open>MakeRoom\<close> by the captures left, \<open>ReadRecords\<close> by the bytes
  left). Only \<open>Replay_run\<close>, which steps a Replay until it ends, takes fuel: one more than the
  capture's last offset, which \<open>replay_ends\<close> proves enough. That the writer's thread comes to
  the end of its queue is proved by a measure its every step lowers (\<open>writer_drains\<close>).
  Code outside \<open>src/\<close> is an argument of the definitions that use it, with its documented
  behaviour as named hypotheses, each with an instance: BLAKE3 and Ed25519; protobuf's
  serialization, which gives back what it was given (\<open>gives_back\<close>), and the payload codec of
  a capture (\<open>record_codec\<close>); Boost's UUID text; UTF-8 checks; matrix composition; the
  transport; and the SimulationWorld, under the contract of its header.

  \<^bold>\<open>What modelling showed\<close>

  The pack's writer misses a flush that fails on closing (\<open>lost_flush_is_reported_as_success\<close>);
  \<open>ReadPackLayout\<close> and \<open>Load\<close> differ in the error of a doubly bad pack (\<open>layout_error_differs\<close>); a
  Replay keeps a player who left before a quiet last tick (\<open>quiet_last_tick_keeps_leaver\<close>); and
  the capture subtracts ticks as signed integers though a client names the one it saw.

  \<^bold>\<open>What is not modelled\<close>

  Device and network input and output, the renderer, audio, input and hud, PhysX and Lua,
  the metrics and log lines: calls into libraries. Floating-point geometry of simulation,
  prediction and animation. The per-recipient messages of a tick and the conversions of the
  link module, \<open>Readdress\<close> and the framing of a serialized payload, which rest on protobuf's
  input stream; the replay server around a Replay; the tick clock, the phases and the
  configuration.
\<close>

end
